(* ===== verification/Relay_Prelude.thy ===== *)
theory Relay_Prelude
  imports Main "HOL-Library.Word" "HOL-Library.Char_ord" "HOL-Library.List_Lexorder"
begin

text \<open>
  The prelude of the aethos-relay development: the collections of facts the components
  add to, the error-passing combinator that stands for Go's \<open>if err != nil { return err }\<close>,
  Go's fixed-width signed arithmetic, and generic facts on lists that several components use.

  Go strings and byte slices are both sequences of bytes; both are modelled as \<^typ>\<open>string\<close>
  (a list of 8-bit characters).  With \<^theory_text>\<open>Char_ord\<close> and
  \<^theory_text>\<open>List_Lexorder\<close> the order \<open><\<close> on \<^typ>\<open>string\<close> is the
  bytewise lexicographic order of Go's \<open><\<close> on strings and of \<open>bytes.Compare\<close>.
\<close>

named_theorems relay_simps \<open>unfolding rules the component proofs share\<close>
named_theorems bytes_simps \<open>lengths and inverses of byte-level encodings\<close>

type_synonym bytes = string

subsection \<open>Errors as values\<close>

text \<open>\<open>bindE m f\<close> is \<open>x, err := m; if err != nil { return err }; f(x)\<close>.\<close>

fun bindE :: "'e + 'a \<Rightarrow> ('a \<Rightarrow> 'e + 'b) \<Rightarrow> 'e + 'b" where
  "bindE (Inl e) f = Inl e"
| "bindE (Inr x) f = f x"

text \<open>\<open>guardE c e\<close> is \<open>if !c { return e }\<close>.\<close>

definition guardE :: "bool \<Rightarrow> 'e \<Rightarrow> 'e + unit" where
  "guardE c e = (if c then Inr () else Inl e)"

lemma bindE_Inr_iff [simp]: "bindE m f = Inr y \<longleftrightarrow> (\<exists>x. m = Inr x \<and> f x = Inr y)"
  by (cases m) auto

lemma bindE_Inl_iff: "bindE m f = Inl e \<longleftrightarrow> m = Inl e \<or> (\<exists>x. m = Inr x \<and> f x = Inl e)"
  by (cases m) auto

lemma guardE_simps [simp]:
  "guardE c e = Inr u \<longleftrightarrow> c"
  "guardE c e = Inl e' \<longleftrightarrow> \<not> c \<and> e' = e"
  "guardE True e = Inr ()"
  "guardE False e = Inl e"
  by (auto simp: guardE_def)

text \<open>
  Handlers that change a state and may fail return the state together with the outcome, because what
  they did before the failure stays; \<open>bindS\<close> goes on only after success.
\<close>

fun bindS :: "'s \<times> ('e + 'a) \<Rightarrow> ('s \<Rightarrow> 'a \<Rightarrow> 's \<times> ('e + 'b)) \<Rightarrow> 's \<times> ('e + 'b)" where
  "bindS (s, Inl e) f = (s, Inl e)"
| "bindS (s, Inr x) f = f s x"

lemma fst_bindS: "fst (bindS m f) = (case snd m of Inl e \<Rightarrow> fst m | Inr x \<Rightarrow> fst (f (fst m) x))"
  by (cases m; cases "snd m") auto

text \<open>\<open>mapErr g m\<close> wraps the error of \<open>m\<close>: \<open>if err != nil { return g(err) }\<close>.\<close>

fun mapErr :: "('e \<Rightarrow> 'f) \<Rightarrow> 'e + 'a \<Rightarrow> 'f + 'a" where
  "mapErr g (Inl e) = Inl (g e)"
| "mapErr g (Inr x) = Inr x"

lemma mapErr_iff [simp]:
  "mapErr g m = Inr x \<longleftrightarrow> m = Inr x"
  "mapErr g m = Inl e \<longleftrightarrow> (\<exists>e'. m = Inl e' \<and> e = g e')"
  by (cases m; auto)+

definition is_ok :: "'e + 'a \<Rightarrow> bool" where
  "is_ok r = (case r of Inl _ \<Rightarrow> False | Inr _ \<Rightarrow> True)"

lemma is_ok_simps [simp]: "is_ok (Inl e) = False" "is_ok (Inr x) = True"
  by (simp_all add: is_ok_def)

lemma is_ok_iff: "is_ok r \<longleftrightarrow> (\<exists>x. r = Inr x)"
  by (cases r) auto

subsection \<open>Signed 64-bit arithmetic\<close>

text \<open>
  Go's \<open>int\<close> (on the 64-bit targets of the relay), \<open>int64\<close> and
  \<open>time.Duration\<close> wrap around two's complement.  They are modelled by \<^typ>\<open>int\<close>
  with the wrap-around written out by \<open>s64\<close> wherever the code adds or multiplies.
\<close>

definition s64 :: "int \<Rightarrow> int" where
  "s64 x = (x + 2 ^ 63) mod 2 ^ 64 - 2 ^ 63"

definition fits64 :: "int \<Rightarrow> bool" where
  "fits64 x \<longleftrightarrow> - (2 ^ 63) \<le> x \<and> x < 2 ^ 63"

lemma s64_id: "fits64 x \<Longrightarrow> s64 x = x"
  by (simp add: s64_def fits64_def)

lemma fits64_s64 [simp]: "fits64 (s64 x)"
proof -
  have "0 \<le> (x + 2 ^ 63) mod 2 ^ 64" and "(x + 2 ^ 63) mod 2 ^ 64 < (2 ^ 64 :: int)"
    by (simp_all add: pos_mod_bound)
  then show ?thesis by (simp add: s64_def fits64_def)
qed

lemma s64_mod: "s64 (x mod 2 ^ 64) = s64 x"
  by (simp add: s64_def mod_add_left_eq)

subsection \<open>Lists\<close>

lemma sorted_wrt_less_unique:
  fixes xs ys :: "('a :: linorder) list"
  assumes "sorted_wrt (<) xs" and "sorted_wrt (<) ys" and "set xs = set ys"
  shows "xs = ys"
  using assms by (simp add: strict_sorted_equal)

lemma sorted_wrt_less_imp_distinct:
  "sorted_wrt (<) (xs :: ('a :: linorder) list) \<Longrightarrow> distinct xs"
  by (simp add: strict_sorted_iff)

lemma distinct_filter_fst_eq:
  assumes "distinct (map fst xs)"
  shows "distinct (map fst (filter P xs))"
  using assms by (induction xs) auto

lemma sorted_wrt_filter_fst:
  assumes "sorted_wrt (<) (map fst xs)"
  shows "sorted_wrt (<) (map fst (filter P xs))"
  using assms by (induction xs) auto

text \<open>A slice \<open>xs[:n]\<close> and the test \<open>bytes.HasPrefix\<close>.\<close>

definition has_prefix :: "'a list \<Rightarrow> 'a list \<Rightarrow> bool" where
  "has_prefix s p \<longleftrightarrow> take (length p) s = p"

lemma has_prefix_iff: "has_prefix s p \<longleftrightarrow> (\<exists>r. s = p @ r)"
proof
  assume "has_prefix s p"
  then have "s = p @ drop (length p) s"
    by (metis append_take_drop_id has_prefix_def)
  then show "\<exists>r. s = p @ r" ..
next
  assume "\<exists>r. s = p @ r"
  then show "has_prefix s p" by (auto simp: has_prefix_def)
qed

lemma has_prefix_append [simp]: "has_prefix (p @ r) p"
  by (simp add: has_prefix_def)

lemma has_prefix_nil [simp]: "has_prefix s []"
  by (simp add: has_prefix_def)

text \<open>
  Strings with a given prefix form an interval of the lexicographic order: this is why a
  cursor that seeks a prefix and stops at the first key without it sees exactly the keys
  that have it.
\<close>

lemma prefix_le: "p \<le> p @ (r :: ('a :: linorder) list)"
  by (induction p) auto

lemma Nil_less_iff: "[] < (xs :: ('a :: linorder) list) \<longleftrightarrow> xs \<noteq> []"
  by (cases xs) auto

lemma append_less_iff: "p @ a < p @ (b :: ('a :: linorder) list) \<longleftrightarrow> a < b"
  by (induction p) auto

lemma append_le_iff: "p @ a \<le> p @ (b :: ('a :: linorder) list) \<longleftrightarrow> a \<le> b"
  by (induction p) auto

text \<open>Cutting a strictly sorted list at an element of it.\<close>

lemma filter_greater_last:
  assumes "sorted_wrt (<) (xs :: ('a :: linorder) list)" and "take n xs \<noteq> []"
  shows "filter (\<lambda>x. last (take n xs) < x) xs = drop n xs"
proof -
  have s: "sorted_wrt (<) (take n xs @ drop n xs)" using assms(1) by simp
  then have lt: "\<forall>x \<in> set (take n xs). \<forall>y \<in> set (drop n xs). x < y" unfolding sorted_wrt_append by blast
  have "filter (\<lambda>x. last (take n xs) < x) (take n xs) = []"
  proof -
    have "x \<le> last (take n xs)" if "x \<in> set (take n xs)" for x
    proof -
      have "sorted_wrt (<) (butlast (take n xs) @ [last (take n xs)])"
        using assms sorted_wrt_take by simp
      moreover have "x \<in> set (butlast (take n xs) @ [last (take n xs)])" using that assms(2) by simp
      ultimately show ?thesis by (auto simp: sorted_wrt_append)
    qed
    then show ?thesis by (auto simp: filter_empty_conv not_less)
  qed
  moreover have "filter (\<lambda>x. last (take n xs) < x) (drop n xs) = drop n xs"
    using lt assms(2) by (auto simp: filter_id_conv)
  ultimately show ?thesis
    by (metis append_Nil append_take_drop_id filter_append)
qed

lemma has_prefix_ge: "has_prefix (k :: ('a :: linorder) list) p \<Longrightarrow> p \<le> k"
  by (auto simp: has_prefix_iff prefix_le)

lemma has_prefix_convex:
  fixes p k k' :: "('a :: linorder) list"
  assumes "p \<le> k" and "k \<le> k'" and "has_prefix k' p"
  shows "has_prefix k p"
  using assms
proof (induction p arbitrary: k k')
  case Nil
  then show ?case by simp
next
  case (Cons a p)
  from Cons.prems(3) obtain r where k': "k' = a # p @ r"
    by (auto simp: has_prefix_iff)
  with Cons.prems(1,2) obtain t where k: "k = a # t" and "p \<le> t" and "t \<le> p @ r"
    by (cases k) auto
  with Cons.IH [of t "p @ r"] show ?case
    by (simp add: has_prefix_def)
qed

end
