(* ===== verification/Go_Base.thy ===== *)
theory Go_Base
  imports Relay_Prelude
begin

text \<open>
  The parts of Go's standard library the relay computes with: \<open>encoding/binary\<close> in
  big-endian order, \<open>encoding/hex\<close>, \<open>encoding/base64\<close> (the unpadded URL
  alphabet), \<open>bytes.Split\<close> on one byte, ASCII \<open>strings.ToLower\<close>, and
  \<open>time.Time\<close> with its RFC3339Nano rendering.  Each comes with its inverse law.
\<close>

subsection \<open>Bytes\<close>

lemma of_char_less_256 [simp]: "(of_char c :: nat) < 256"
proof -
  have "(of_char c :: nat) = of_char (char_of (of_char c :: nat) :: char)" by simp
  also have "\<dots> = of_char c mod 256" by (simp only: of_char_of)
  finally show ?thesis by (metis mod_less_divisor zero_less_numeral)
qed

lemma of_char_char_of_nat [simp]: "n < 256 \<Longrightarrow> of_char (char_of n) = (n :: nat)"
  by simp

lemma char_less_iff: "c < d \<longleftrightarrow> (of_char c :: nat) < of_char d"
  by (simp add: less_char_def)

subsection \<open>Big-endian integers\<close>

text \<open>\<open>binary.Write(buf, binary.BigEndian, v)\<close> of an \<open>n\<close>-byte integer; the
  conversion to the width (as in \<open>uint16(len(s))\<close>) keeps the low \<open>n\<close> bytes.\<close>

fun be_bytes :: "nat \<Rightarrow> nat \<Rightarrow> bytes" where
  "be_bytes 0 v = []"
| "be_bytes (Suc n) v = char_of (v div 256 ^ n) # be_bytes n v"

fun be_val :: "bytes \<Rightarrow> nat" where
  "be_val [] = 0"
| "be_val (c # cs) = of_char c * 256 ^ length cs + be_val cs"

lemma length_be_bytes [simp, bytes_simps]: "length (be_bytes n v) = n"
  by (induction n) auto

lemma be_val_less: "be_val cs < 256 ^ length cs"
proof (induction cs)
  case Nil
  then show ?case by simp
next
  case (Cons c cs)
  have "of_char c * 256 ^ length cs \<le> (255 :: nat) * 256 ^ length cs"
    using of_char_less_256 [of c] by (intro mult_right_mono) linarith+
  then have "of_char c * 256 ^ length cs + be_val cs < 255 * 256 ^ length cs + 256 ^ length cs"
    using Cons.IH by linarith
  then show ?case by simp
qed

lemma be_val_be_bytes [bytes_simps]: "be_val (be_bytes n v) = v mod 256 ^ n"
proof (induction n)
  case 0
  then show ?case by simp
next
  case (Suc n)
  have "v mod 256 ^ Suc n = (v div 256 ^ n mod 256) * 256 ^ n + v mod 256 ^ n"
    using mod_mult2_eq [of v "256 ^ n" 256] by (simp add: mult.commute)
  with Suc show ?case by simp
qed

lemma be_bytes_mod: "be_bytes n (v mod 256 ^ n) = be_bytes n v"
proof -
  have "be_bytes m (v mod 256 ^ n) = be_bytes m v" if "m \<le> n" for m
    using that
  proof (induction m)
    case 0
    then show ?case by simp
  next
    case (Suc m)
    then obtain k where n: "n = m + Suc k" using less_iff_Suc_add [of m n] by auto
    have split: "(256::nat) ^ n = 256 ^ m * (256 * 256 ^ k)"
      by (simp add: n power_add)
    have "v mod 256 ^ n div 256 ^ m = v div 256 ^ m mod (256 * 256 ^ k)"
      unfolding split by (subst mod_mult2_eq) simp
    also have "\<dots> mod 256 = v div 256 ^ m mod 256"
      by (simp add: mod_mod_cancel)
    finally have "v mod 256 ^ n div 256 ^ m mod 256 = v div 256 ^ m mod 256" .
    then have "char_of (v mod 256 ^ n div 256 ^ m) = (char_of (v div 256 ^ m) :: char)"
      by (metis char_of_mod_256)
    with Suc show ?case by simp
  qed
  then show ?thesis by simp
qed

lemma be_bytes_be_val: "length cs = n \<Longrightarrow> be_bytes n (be_val cs) = cs"
proof (induction cs arbitrary: n)
  case Nil
  then show ?case by simp
next
  case (Cons c cs)
  have lt: "be_val cs < 256 ^ length cs" by (rule be_val_less)
  have "(of_char c * 256 ^ length cs + be_val cs) div 256 ^ length cs = (of_char c :: nat)"
    using lt by simp
  moreover have "be_bytes (length cs) (of_char c * 256 ^ length cs + be_val cs) = cs"
    using Cons.IH [of "length cs"] lt
    by (metis be_bytes_mod mod_less mod_mult_self3)
  ultimately show ?case using Cons.prems by auto
qed

text \<open>An \<open>int64\<close> written and read as eight bytes.\<close>

definition be_int64 :: "int \<Rightarrow> bytes" where
  "be_int64 x = be_bytes 8 (nat (x mod 2 ^ 64))"

definition int64_val :: "bytes \<Rightarrow> int" where
  "int64_val bs = s64 (int (be_val bs))"

lemma length_be_int64 [simp, bytes_simps]: "length (be_int64 x) = 8"
  by (simp add: be_int64_def)

lemma int64_val_be_int64 [bytes_simps]: "int64_val (be_int64 x) = s64 x"
proof -
  have "int (be_val (be_int64 x)) = x mod 2 ^ 64"
    by (simp add: be_int64_def be_val_be_bytes zmod_int)
  then show ?thesis by (simp only: int64_val_def s64_mod)
qed

subsection \<open>Hexadecimal text\<close>

text \<open>\<open>hex.EncodeToString\<close> writes lower case; \<open>hex.DecodeString\<close> reads either case
  and fails on an odd length or another character.\<close>

definition hex_digit :: "nat \<Rightarrow> char" where
  "hex_digit n = char_of (if n < 10 then 48 + n else 87 + n)"

definition hex_value :: "char \<Rightarrow> nat option" where
  "hex_value c = (let n = of_char c in
     if 48 \<le> n \<and> n \<le> 57 then Some (n - 48)
     else if 97 \<le> n \<and> n \<le> 102 then Some (n - 87)
     else if 65 \<le> n \<and> n \<le> 70 then Some (n - 55)
     else None)"

fun hex_encode :: "bytes \<Rightarrow> string" where
  "hex_encode [] = []"
| "hex_encode (c # cs) = hex_digit (of_char c div 16) # hex_digit (of_char c mod 16) # hex_encode cs"

fun hex_decode :: "string \<Rightarrow> bytes option" where
  "hex_decode [] = Some []"
| "hex_decode [c] = None"
| "hex_decode (a # b # r) =
     (case (hex_value a, hex_value b, hex_decode r) of
        (Some x, Some y, Some bs) \<Rightarrow> Some (char_of (16 * x + y) # bs)
      | _ \<Rightarrow> None)"

lemma of_char_hex_digit: "n < 16 \<Longrightarrow> of_char (hex_digit n) = (if n < 10 then 48 + n else 87 + n)"
  by (simp add: hex_digit_def)

lemma hex_value_digit [simp]: "n < 16 \<Longrightarrow> hex_value (hex_digit n) = Some n"
  by (auto simp: hex_value_def of_char_hex_digit Let_def)

lemma hex_value_less: "hex_value c = Some n \<Longrightarrow> n < 16"
  by (auto simp: hex_value_def Let_def split: if_splits)

lemma length_hex_encode [simp, bytes_simps]: "length (hex_encode bs) = 2 * length bs"
  by (induction bs) auto

lemma length_hex_decode: "hex_decode s = Some bs \<Longrightarrow> length s = 2 * length bs"
  by (induction s arbitrary: bs rule: hex_decode.induct) (auto split: option.splits)

lemma nibbles [simp]: "(of_char c :: nat) div 16 < 16" "(of_char c :: nat) mod 16 < 16"
  using of_char_less_256 [of c] by linarith+

lemma hex_decode_encode [simp, bytes_simps]: "hex_decode (hex_encode bs) = Some bs"
proof (induction bs)
  case Nil
  then show ?case by simp
next
  case (Cons c cs)
  have "16 * (of_char c div 16) + of_char c mod 16 = (of_char c :: nat)" by simp
  with Cons show ?case by simp
qed

lemma hex_digit_mono: "m < n \<Longrightarrow> n < 16 \<Longrightarrow> hex_digit m < hex_digit n"
  by (simp add: char_less_iff of_char_hex_digit)

lemma hex_digit_less_iff: "m < 16 \<Longrightarrow> n < 16 \<Longrightarrow> hex_digit m < hex_digit n \<longleftrightarrow> m < n"
  using hex_digit_mono [of m n] hex_digit_mono [of n m]
  by (metis linorder_neqE_nat order_less_asym order_less_irrefl)

lemma hex_digit_eq_iff: "m < 16 \<Longrightarrow> n < 16 \<Longrightarrow> hex_digit m = hex_digit n \<longleftrightarrow> m = n"
  by (metis hex_value_digit option.inject)

lemma less_by_digits:
  "(a :: nat) < b \<longleftrightarrow> a div 16 < b div 16 \<or> a div 16 = b div 16 \<and> a mod 16 < b mod 16"
proof -
  have "a = 16 * (a div 16) + a mod 16" "b = 16 * (b div 16) + b mod 16" by simp_all
  moreover have "a mod 16 < 16" "b mod 16 < 16" by simp_all
  ultimately show ?thesis by linarith
qed

text \<open>Hexadecimal text orders as the bytes it spells.\<close>

lemma hex_encode_less_iff: "hex_encode a < hex_encode b \<longleftrightarrow> a < b"
proof (induction a arbitrary: b)
  case Nil
  then show ?case by (cases b) auto
next
  case (Cons c cs)
  show ?case
  proof (cases b)
    case Nil
    then show ?thesis by simp
  next
    case (Cons d ds)
    define x x' y y' where
      "x = (of_char c :: nat) div 16" and "x' = (of_char c :: nat) mod 16" and
      "y = (of_char d :: nat) div 16" and "y' = (of_char d :: nat) mod 16"
    have lt: "x < 16" "x' < 16" "y < 16" "y' < 16"
      by (simp_all only: x_def x'_def y_def y'_def nibbles)
    have lts: "c < d \<longleftrightarrow> x < y \<or> x = y \<and> x' < y'"
      unfolding char_less_iff x_def x'_def y_def y'_def by (rule less_by_digits)
    have eqs: "c = d \<longleftrightarrow> x = y \<and> x' = y'"
      unfolding x_def x'_def y_def y'_def by (metis of_char_eq_iff div_mult_mod_eq)
    have "hex_encode (c # cs) < hex_encode (d # ds) \<longleftrightarrow>
        x < y \<or> x = y \<and> (x' < y' \<or> x' = y' \<and> hex_encode cs < hex_encode ds)"
      by (simp add: hex_digit_less_iff hex_digit_eq_iff lt flip: x_def x'_def y_def y'_def)
    also have "\<dots> \<longleftrightarrow> c # cs < d # ds"
      unfolding Cons.IH Cons_less_Cons lts eqs by blast
    finally show ?thesis by (simp only: Cons)
  qed
qed

lemma hex_encode_inject [simp]: "hex_encode a = hex_encode b \<longleftrightarrow> a = b"
  by (metis hex_decode_encode option.inject)

text \<open>
  \<open>strings.ToLower\<close> on ASCII.  A string with a byte of 128 or above is rejected by every
  caller whatever its case mapping (it is not hexadecimal, and no code point outside ASCII
  maps into the URL schemes compared), so the byte is left alone.
\<close>

definition to_lower_char :: "char \<Rightarrow> char" where
  "to_lower_char c = (let n = of_char c in if 65 \<le> n \<and> n \<le> (90::nat) then char_of (n + 32) else c)"

definition to_lower :: "string \<Rightarrow> string" where
  "to_lower s = map to_lower_char s"

lemma to_lower_char_id_iff:
  "to_lower_char c = c \<longleftrightarrow> \<not> (65 \<le> (of_char c :: nat) \<and> (of_char c :: nat) \<le> 90)"
proof
  assume "to_lower_char c = c"
  then show "\<not> (65 \<le> (of_char c :: nat) \<and> (of_char c :: nat) \<le> 90)"
  proof (rule contrapos_pn)
    assume "65 \<le> (of_char c :: nat) \<and> (of_char c :: nat) \<le> 90"
    then have "of_char (to_lower_char c) = (of_char c + 32 :: nat)"
      by (simp add: to_lower_char_def Let_def)
    then show "to_lower_char c \<noteq> c" by auto
  qed
next
  assume "\<not> (65 \<le> (of_char c :: nat) \<and> (of_char c :: nat) \<le> 90)"
  then show "to_lower_char c = c" by (auto simp: to_lower_char_def Let_def)
qed

lemma hex_digit_lower [simp]: "n < 16 \<Longrightarrow> to_lower_char (hex_digit n) = hex_digit n"
  by (simp add: to_lower_char_id_iff of_char_hex_digit)

lemma to_lower_hex_encode [simp]: "to_lower (hex_encode bs) = hex_encode bs"
  by (induction bs) (auto simp: to_lower_def)

lemma hex_value_lower:
  assumes "hex_value c = Some n" and "to_lower_char c = c"
  shows "hex_digit n = c"
proof -
  have "of_char (hex_digit n) = (of_char c :: nat)"
    using assms hex_value_less [OF assms(1)]
    by (auto simp: hex_value_def to_lower_char_id_iff of_char_hex_digit Let_def split: if_splits)
  then show ?thesis by (simp add: of_char_eq_iff)
qed

lemma hex_decode_lower:
  "hex_decode s = Some bs \<Longrightarrow> to_lower s = s \<Longrightarrow> hex_encode bs = s"
proof (induction s arbitrary: bs rule: hex_decode.induct)
  case (3 a b r)
  then obtain x y bs' where d: "hex_value a = Some x" "hex_value b = Some y"
      "hex_decode r = Some bs'" "bs = char_of (16 * x + y) # bs'"
    by (auto split: option.splits)
  from 3 d have "hex_encode bs' = r" by (auto simp: to_lower_def)
  moreover have "hex_digit x = a" "hex_digit y = b"
    using d 3(3) by (auto intro!: hex_value_lower simp: to_lower_def)
  moreover have "x < 16" "y < 16" using d hex_value_less by blast+
  ultimately show ?case using d by simp
qed auto

subsection \<open>Splitting at a byte\<close>

text \<open>\<open>bytes.Split(data, []byte{sep})\<close>: always at least one part.\<close>

fun split_byte :: "char \<Rightarrow> bytes \<Rightarrow> bytes list" where
  "split_byte sep [] = [[]]"
| "split_byte sep (c # cs) =
     (if c = sep then [] # split_byte sep cs
      else case split_byte sep cs of p # ps \<Rightarrow> (c # p) # ps | [] \<Rightarrow> [[c]])"

abbreviation NUL :: char where "NUL \<equiv> CHR 0x00"

lemma split_byte_not_nil [simp]: "split_byte sep s \<noteq> []"
  by (cases s) (auto split: list.splits)

lemma split_byte_clean: "sep \<notin> set s \<Longrightarrow> split_byte sep s = [s]"
  by (induction s) auto

lemma split_byte_append:
  "sep \<notin> set s \<Longrightarrow> split_byte sep (s @ sep # t) = s # split_byte sep t"
  by (induction s) auto

lemma length_split_byte: "length (split_byte sep s) = Suc (count_list s sep)"
  by (induction s) (auto split: list.splits)

text \<open>\<open>strings.Index(s, sep)\<close> for a one-byte separator: the part before it and the part after.\<close>

definition cut_byte :: "char \<Rightarrow> bytes \<Rightarrow> (bytes \<times> bytes) option" where
  "cut_byte sep s = (if sep \<in> set s
     then Some (takeWhile (\<lambda>c. c \<noteq> sep) s, drop (Suc (length (takeWhile (\<lambda>c. c \<noteq> sep) s))) s)
     else None)"

lemma cut_byte_append: "sep \<notin> set s \<Longrightarrow> cut_byte sep (s @ sep # t) = Some (s, t)"
proof -
  assume a: "sep \<notin> set s"
  then have "takeWhile (\<lambda>c. c \<noteq> sep) (s @ sep # t) = s"
    by (induction s) auto
  then show ?thesis by (simp add: cut_byte_def)
qed

end
