(* ===== verification/Digest_Ids.thy ===== *)
theory Digest_Ids
  imports Go_Base
begin

text \<open>
  Digest item ids of \<^verbatim>\<open>internal/gossipv1/protocol.go\<close>: validation, comparison,
  sorting, normalisation and the sorted-unique check of the wire format, with the errors of
  the package.  The main fact is that comparing ids by their decoded bytes is plain string
  comparison (\<open>compare_string\<close>), so the order of ids on the wire is the order in
  which a cursor walks the keys of the stores.
\<close>

subsection \<open>Errors of package gossipv1\<close>

text \<open>One constructor per \<open>fmt.Errorf\<close> of the package; a constructor keeps the field name
  where the text has one.  Errors of third-party decoders carry no detail.\<close>

datatype field_issue = Missing | MustBeString | MustBeNonEmpty | MustBeArray
  | EntriesMustBeStrings | EntriesMustBeNonEmpty | MustBeBytes
  | MustBeUnsigned | MustBeUnsignedInteger | OutOfInt64Range | MustBeInteger
  | ExceedsLimit | EntriesMustBeUnique | MustBeSorted | MustBe32Bytes | MustBe64Bytes

datatype frame_issue = EmptyFrame | FrameExceedsMax | FrameTypeRequired | EncodeFailed
  | DecodeFailed | MissingFrameType | MissingPayload
  | ZeroFrameLength | FrameLengthExceedsMax | SessionTerminated

datatype hello_issue = VersionMismatch | NodeIdLength | NodeIdCase | InvalidNodePubkey
  | NodeIdMismatch | MaxWantRange | MaxTransferRange

datatype summary_issue = BloomFilterSize | CursorMustBeAbsent | CursorRequired | CursorFormat
  | CursorMismatch

datatype receipt_issue = DuplicateReceiptIds | ReceiptUnexpected | ReceiptForEmptyTransfer
  | ReceiptNotPending string | ReceiptDuplicateAck string

datatype envelope_issue = EnvelopeB64Empty | EnvelopeB64Padded | EnvelopeB64Invalid
  | EnvelopeB64NoBytes | DigestFormat | HexInvalid | UnknownEnvelopeField
  | CborInvalid | CborEncodeFailed | InvalidEnvelopeSignature

datatype gerr =
    FieldErr field_issue string
  | FrameErr frame_issue
  | HelloErr hello_issue
  | SummaryErr summary_issue
  | ReceiptErr receipt_issue
  | EnvelopeErr envelope_issue
  | PayloadRequired string
  | UnknownField string
  | UnknownFrameType string
  | ItemIdFormat
  | ObserverError string

subsection \<open>Definitions\<close>

abbreviation (input) DigestHexBytes :: nat where "DigestHexBytes \<equiv> 32"
abbreviation (input) DigestHexLen :: nat where "DigestHexLen \<equiv> 64"

definition digestBytes :: "string \<Rightarrow> bytes option" where
  "digestBytes value =
     (if length value \<noteq> DigestHexLen then None
      else if value \<noteq> to_lower value then None
      else case hex_decode value of
             None \<Rightarrow> None
           | Some decoded \<Rightarrow> if length decoded \<noteq> DigestHexBytes then None else Some decoded)"

definition isDigestHex :: "string \<Rightarrow> bool" where
  "isDigestHex value = (digestBytes value \<noteq> None)"

definition IsDigestHexID :: "string \<Rightarrow> bool" where
  "IsDigestHexID value = isDigestHex value"

definition bloomFilterItemBytes :: "string \<Rightarrow> bytes" where
  "bloomFilterItemBytes itemID = (case digestBytes itemID of None \<Rightarrow> [] | Some decoded \<Rightarrow> decoded)"

definition decodeDigestHexBytes :: "string \<Rightarrow> gerr + bytes" where
  "decodeDigestHexBytes value =
     (if \<not> isDigestHex value then Inl (EnvelopeErr DigestFormat)
      else case hex_decode value of None \<Rightarrow> Inl (EnvelopeErr HexInvalid) | Some decoded \<Rightarrow> Inr decoded)"

text \<open>\<open>bytes.Compare\<close> and the three-way comparison of strings.\<close>

definition bytes_compare :: "bytes \<Rightarrow> bytes \<Rightarrow> int" where
  "bytes_compare a b = (if a < b then - 1 else if b < a then 1 else 0)"

definition compareDigestHex :: "string \<Rightarrow> string \<Rightarrow> int" where
  "compareDigestHex left right =
     (case (digestBytes left, digestBytes right) of
        (Some leftBytes, Some rightBytes) \<Rightarrow> bytes_compare leftBytes rightBytes
      | _ \<Rightarrow> if left < right then - 1 else if left > right then 1 else 0)"

definition CompareDigestHexIDs :: "string \<Rightarrow> string \<Rightarrow> int" where
  "CompareDigestHexIDs left right = compareDigestHex left right"

definition digestHexLess :: "string \<Rightarrow> string \<Rightarrow> bool" where
  "digestHexLess left right \<longleftrightarrow> compareDigestHex left right < 0"

text \<open>
  \<open>sort.Slice\<close> and \<open>sort.Strings\<close>: insertion by the given order.  Go's sort is not
  stable, but every order the relay sorts strings by is a strict linear order (for
  \<open>digestHexLess\<close> see \<open>digestHexLess_iff\<close> below), and there the result is determined.
\<close>

fun insert_by :: "('a \<Rightarrow> 'a \<Rightarrow> bool) \<Rightarrow> 'a \<Rightarrow> 'a list \<Rightarrow> 'a list" where
  "insert_by lt x [] = [x]"
| "insert_by lt x (y # ys) = (if lt y x then y # insert_by lt x ys else x # y # ys)"

definition sort_slice :: "('a \<Rightarrow> 'a \<Rightarrow> bool) \<Rightarrow> 'a list \<Rightarrow> 'a list" where
  "sort_slice lt xs = foldr (insert_by lt) xs []"

definition sortDigestHexIDs :: "string list \<Rightarrow> string list" where
  "sortDigestHexIDs ids = (if length ids \<le> 1 then ids else sort_slice digestHexLess ids)"

definition SortDigestHexIDs :: "string list \<Rightarrow> string list" where
  "SortDigestHexIDs ids = sortDigestHexIDs ids"

text \<open>The collecting loops, with the \<open>seen\<close> set they keep.\<close>

fun normalize_loop :: "string set \<Rightarrow> string list \<Rightarrow> gerr + string list" where
  "normalize_loop seen [] = Inr []"
| "normalize_loop seen (candidate # rest) =
     (if \<not> isDigestHex candidate then Inl ItemIdFormat
      else if candidate \<in> seen then normalize_loop seen rest
      else bindE (normalize_loop (insert candidate seen) rest) (\<lambda>ids. Inr (candidate # ids)))"

definition normalizeDigestHexIDs :: "string list \<Rightarrow> gerr + string list" where
  "normalizeDigestHexIDs input =
     (if input = [] then Inr []
      else bindE (normalize_loop {} input) (\<lambda>ids. Inr (sortDigestHexIDs ids)))"

definition NormalizeDigestHexIDs :: "string list \<Rightarrow> gerr + string list" where
  "NormalizeDigestHexIDs input = normalizeDigestHexIDs input"

fun drop_invalid_loop :: "string set \<Rightarrow> string list \<Rightarrow> string list" where
  "drop_invalid_loop seen [] = []"
| "drop_invalid_loop seen (candidate # rest) =
     (if \<not> isDigestHex candidate then drop_invalid_loop seen rest
      else if candidate \<in> seen then drop_invalid_loop seen rest
      else candidate # drop_invalid_loop (insert candidate seen) rest)"

definition normalizeDigestHexIDsDropInvalid :: "string list \<Rightarrow> string list" where
  "normalizeDigestHexIDsDropInvalid input =
     (if input = [] then [] else sortDigestHexIDs (drop_invalid_loop {} input))"

fun dedupe_loop :: "string set \<Rightarrow> string list \<Rightarrow> string list" where
  "dedupe_loop seen [] = []"
| "dedupe_loop seen (value # rest) =
     (if value \<in> seen then dedupe_loop seen rest else value # dedupe_loop (insert value seen) rest)"

definition dedupeStrings :: "string list \<Rightarrow> string list" where
  "dedupeStrings input = (if length input \<le> 1 then input else dedupe_loop {} input)"

definition normalizeDigestHexIDsLossy :: "string list \<Rightarrow> string list" where
  "normalizeDigestHexIDsLossy input =
     (case normalizeDigestHexIDs input of
        Inr normalized \<Rightarrow> normalized
      | Inl _ \<Rightarrow> (let fallback = dedupeStrings input
                 in if length fallback > 1 then sort_slice (<) fallback else fallback))"

fun summary_ids_loop :: "string set \<Rightarrow> string list \<Rightarrow> string list" where
  "summary_ids_loop seen [] = []"
| "summary_ids_loop seen (itemID # rest) =
     (if itemID = [] then summary_ids_loop seen rest
      else if itemID \<in> seen then summary_ids_loop seen rest
      else itemID # summary_ids_loop (insert itemID seen) rest)"

definition normalizeSummaryItemIDs :: "string list \<Rightarrow> string list" where
  "normalizeSummaryItemIDs itemIDs = (if itemIDs = [] then [] else summary_ids_loop {} itemIDs)"

fun has_duplicate_loop :: "string set \<Rightarrow> string list \<Rightarrow> bool" where
  "has_duplicate_loop seen [] = False"
| "has_duplicate_loop seen (value # rest) =
     (if value \<in> seen then True else has_duplicate_loop (insert value seen) rest)"

definition hasDuplicateStrings :: "string list \<Rightarrow> bool" where
  "hasDuplicateStrings input = (if length input \<le> 1 then False else has_duplicate_loop {} input)"

text \<open>The loop of \<open>validateSortedUniqueDigestIDsForField\<close>; \<open>previous\<close> is \<open>None\<close> at index 0.\<close>

fun validate_sorted_loop :: "string \<Rightarrow> string set \<Rightarrow> string option \<Rightarrow> string list \<Rightarrow> gerr + unit" where
  "validate_sorted_loop fieldName seen previous [] = Inr ()"
| "validate_sorted_loop fieldName seen previous (itemID # rest) =
     (if \<not> isDigestHex itemID then Inl ItemIdFormat
      else if itemID \<in> seen then Inl (FieldErr EntriesMustBeUnique fieldName)
      else case previous of
             None \<Rightarrow> validate_sorted_loop fieldName (insert itemID seen) (Some itemID) rest
           | Some prev \<Rightarrow>
               if compareDigestHex prev itemID \<ge> 0 then Inl (FieldErr MustBeSorted fieldName)
               else validate_sorted_loop fieldName (insert itemID seen) (Some itemID) rest)"

definition validateSortedUniqueDigestIDsForField :: "string list \<Rightarrow> string \<Rightarrow> gerr + unit" where
  "validateSortedUniqueDigestIDsForField input fieldName =
     (if input = [] then Inr () else validate_sorted_loop fieldName {} None input)"

definition validateSortedUniqueDigestIDs :: "string list \<Rightarrow> gerr + unit" where
  "validateSortedUniqueDigestIDs input = validateSortedUniqueDigestIDsForField input ''preview_item_ids''"

subsection \<open>Facts\<close>

lemma digestBytes_Some: "digestBytes v = Some bs \<longleftrightarrow> length bs = 32 \<and> v = hex_encode bs"
proof
  assume a: "digestBytes v = Some bs"
  then have "hex_decode v = Some bs" "to_lower v = v" "length bs = 32"
    by (auto simp: digestBytes_def split: if_splits option.splits)
  then show "length bs = 32 \<and> v = hex_encode bs" by (auto dest: hex_decode_lower)
next
  assume "length bs = 32 \<and> v = hex_encode bs"
  then show "digestBytes v = Some bs" by (simp add: digestBytes_def)
qed

lemma isDigestHex_iff: "isDigestHex v \<longleftrightarrow> (\<exists>bs. length bs = 32 \<and> v = hex_encode bs)"
  by (auto simp: isDigestHex_def digestBytes_Some)

lemma isDigestHex_sha [simp]: "length bs = 32 \<Longrightarrow> isDigestHex (hex_encode bs)"
  by (auto simp: isDigestHex_iff)

lemma isDigestHex_length: "isDigestHex v \<Longrightarrow> length v = 64"
  by (auto simp: isDigestHex_iff)

lemma hex_digit_neq_NUL: "n < 16 \<Longrightarrow> hex_digit n \<noteq> NUL"
proof
  assume "n < 16" and "hex_digit n = NUL"
  then have "hex_value NUL = Some n" by (metis hex_value_digit)
  then show False by (simp add: hex_value_def)
qed

lemma hex_encode_no_NUL [simp]: "NUL \<notin> set (hex_encode bs)"
  by (induction bs) (auto simp: hex_digit_neq_NUL [OF nibbles(1), symmetric]
      hex_digit_neq_NUL [OF nibbles(2), symmetric] not_sym)

lemma isDigestHex_no_NUL: "isDigestHex v \<Longrightarrow> NUL \<notin> set v"
  by (auto simp: isDigestHex_iff)

lemma compare_string:
  "compareDigestHex l r = (if l < r then - 1 else if r < l then 1 else 0)"
  by (auto simp: compareDigestHex_def bytes_compare_def digestBytes_Some hex_encode_less_iff
      split: option.splits)

lemma digestHexLess_iff [simp]: "digestHexLess l r \<longleftrightarrow> l < r"
  by (simp add: digestHexLess_def compare_string)

lemma digestHexLess_fun: "digestHexLess = (<)"
  by (intro ext) simp

lemma set_insert_by [simp]: "set (insert_by lt x ys) = insert x (set ys)"
  by (induction ys) auto

lemma sort_slice_simps [simp]:
  "sort_slice lt [] = []"
  "sort_slice lt (x # xs) = insert_by lt x (sort_slice lt xs)"
  by (simp_all add: sort_slice_def)

lemma set_sort_slice [simp]: "set (sort_slice lt xs) = set xs"
  by (induction xs) auto

lemma length_insert_by [simp]: "length (insert_by lt x ys) = Suc (length ys)"
  by (induction ys) auto

lemma length_sort_slice [simp]: "length (sort_slice lt xs) = length xs"
  by (induction xs) auto

lemma sorted_insert_by:
  "sorted_wrt (<) ys \<Longrightarrow> x \<notin> set ys \<Longrightarrow> sorted_wrt (<) (insert_by (<) (x :: 'a :: linorder) ys)"
  by (induction ys) auto

lemma sorted_sort_slice:
  "distinct xs \<Longrightarrow> sorted_wrt (<) (sort_slice (<) (xs :: ('a :: linorder) list))"
  by (induction xs) (auto simp: sorted_insert_by)

lemma set_sortDigestHexIDs [simp]: "set (sortDigestHexIDs ids) = set ids"
  by (simp add: sortDigestHexIDs_def)

lemma length_sortDigestHexIDs [simp]: "length (sortDigestHexIDs ids) = length ids"
  by (simp add: sortDigestHexIDs_def)

lemma sorted_short: "length xs \<le> 1 \<Longrightarrow> sorted_wrt P xs"
  by (cases xs) auto

lemma sorted_sortDigestHexIDs: "distinct ids \<Longrightarrow> sorted_wrt (<) (sortDigestHexIDs ids)"
  by (simp add: sortDigestHexIDs_def digestHexLess_fun sorted_sort_slice sorted_short)

lemma sortDigestHexIDs_sorted: "sorted_wrt (<) ids \<Longrightarrow> sortDigestHexIDs ids = ids"
  by (rule sorted_wrt_less_unique)
     (simp_all add: sorted_sortDigestHexIDs sorted_wrt_less_imp_distinct)

lemma drop_invalid_loop_set:
  "set (drop_invalid_loop seen xs) = {x \<in> set xs. isDigestHex x \<and> x \<notin> seen}"
  by (induction xs arbitrary: seen) auto

lemma drop_invalid_loop_distinct:
  "distinct (drop_invalid_loop seen xs) \<and> set (drop_invalid_loop seen xs) \<inter> seen = {}"
  by (induction xs arbitrary: seen) (auto simp: drop_invalid_loop_set)

lemma normalize_loop_eq:
  "normalize_loop seen xs =
     (if \<forall>x \<in> set xs. isDigestHex x then Inr (drop_invalid_loop seen xs) else Inl ItemIdFormat)"
  by (induction xs arbitrary: seen) (auto split: if_splits)

lemma drop_invalid_sorted: "sorted_wrt (<) (normalizeDigestHexIDsDropInvalid xs)"
  by (simp add: normalizeDigestHexIDsDropInvalid_def sorted_sortDigestHexIDs drop_invalid_loop_distinct)

lemma drop_invalid_set: "set (normalizeDigestHexIDsDropInvalid xs) = {x \<in> set xs. isDigestHex x}"
  by (auto simp: normalizeDigestHexIDsDropInvalid_def drop_invalid_loop_set)

lemma normalizeDigestHexIDs_eq:
  "normalizeDigestHexIDs xs =
     (if \<forall>x \<in> set xs. isDigestHex x then Inr (normalizeDigestHexIDsDropInvalid xs)
      else Inl ItemIdFormat)"
  by (simp add: normalizeDigestHexIDs_def normalizeDigestHexIDsDropInvalid_def normalize_loop_eq)

lemma normalize_sorted_id:
  assumes "sorted_wrt (<) xs" and "\<forall>x \<in> set xs. isDigestHex x"
  shows "normalizeDigestHexIDsDropInvalid xs = xs"
  by (rule sorted_wrt_less_unique) (use assms in \<open>auto simp: drop_invalid_sorted drop_invalid_set\<close>)

lemma has_duplicate_loop_iff:
  "has_duplicate_loop seen xs \<longleftrightarrow> \<not> (distinct xs \<and> set xs \<inter> seen = {})"
  by (induction xs arbitrary: seen) auto

lemma hasDuplicateStrings_iff: "hasDuplicateStrings xs \<longleftrightarrow> \<not> distinct xs"
  by (cases xs; cases "tl xs") (auto simp: hasDuplicateStrings_def has_duplicate_loop_iff)

lemma validate_sorted_loop_ok:
  "validate_sorted_loop f seen prev xs = Inr () \<longleftrightarrow>
     (\<forall>x \<in> set xs. isDigestHex x \<and> x \<notin> seen) \<and>
     sorted_wrt (<) ((case prev of None \<Rightarrow> [] | Some p \<Rightarrow> [p]) @ xs)"
proof (induction xs arbitrary: seen prev)
  case Nil
  then show ?case by (auto split: option.splits)
next
  case (Cons x xs)
  show ?case
  proof (cases prev)
    case None
    then show ?thesis by (auto simp: Cons.IH)
  next
    case (Some p)
    then show ?thesis
      by (cases "p < x") (auto simp: Cons.IH compare_string intro: order.strict_trans)
  qed
qed

lemma validateSorted_ok:
  "validateSortedUniqueDigestIDsForField xs f = Inr () \<longleftrightarrow>
     (\<forall>x \<in> set xs. isDigestHex x) \<and> sorted_wrt (<) xs"
  by (auto simp: validateSortedUniqueDigestIDsForField_def validate_sorted_loop_ok)

subsection \<open>Properties\<close>

text \<open>
  \<open>CompareDigestHexIDs\<close>, which compares two ids by their decoded digest bytes
  when both decode and as strings otherwise, is the three-way bytewise string comparison on all
  strings, so that sorting ids on the wire and walking keys in a bucket use the same order.
\<close>

lemma compare_digest_is_string_order:
  "CompareDigestHexIDs left right = (if left < right then - 1 else if left = right then 0 else 1)"
  by (auto simp: CompareDigestHexIDs_def compare_string)

text \<open>
  \<open>NormalizeDigestHexIDs\<close> succeeds exactly when every id given is valid, and
  its result is then the one strictly sorted list with the same ids.
\<close>

lemma normalize_digest_ids_correct:
  "NormalizeDigestHexIDs input = Inr ids \<longleftrightarrow>
     list_all isDigestHex input \<and> set ids = set input \<and> sorted_wrt (<) ids"
  using drop_invalid_sorted [of input]
  by (auto simp: NormalizeDigestHexIDs_def normalizeDigestHexIDs_eq drop_invalid_set list_all_iff
      intro!: sorted_wrt_less_unique)

text \<open>
  The check of the wire format and the normalisation agree: a list of ids passes
  \<open>validateSortedUniqueDigestIDsForField\<close> exactly when normalising it succeeds and
  changes nothing.
\<close>

lemma validate_sorted_unique_iff_normal:
  "validateSortedUniqueDigestIDsForField ids fieldName = Inr () \<longleftrightarrow> NormalizeDigestHexIDs ids = Inr ids"
  using drop_invalid_sorted [of ids]
  by (auto simp: validateSorted_ok NormalizeDigestHexIDs_def normalizeDigestHexIDs_eq normalize_sorted_id)

end
