(* ===== verification/Gossip_Values.thy ===== *)
theory Gossip_Values
  imports Digest_Ids
begin

text \<open>
  The dynamically typed values that CBOR decoding hands to \<^verbatim>\<open>internal/gossipv1\<close>, the
  codec itself as a parameter (\<^verbatim>\<open>github.com/fxamacker/cbor\<close> and
  \<open>crypto/ed25519\<close> are not part of the repository), and the field readers
  \<open>parseString\<close>, \<open>parseUint\<close>, \<open>parseBytes\<close> and their kin.
\<close>

type_synonym u64 = "64 word"

subsection \<open>Values of type any\<close>

text \<open>
  The dynamic types the readers distinguish.  \<open>GUint k v\<close> and \<open>GSint k v\<close> are the
  unsigned and signed integer types of each width, \<open>GMapS\<close> is \<open>map[string]any\<close>,
  \<open>GMapA\<close> is \<open>map[any]any\<close>, \<open>GStrs\<close> is \<open>[]string\<close>; every other
  dynamic type (floats, tags, big integers, times) is \<open>GOther\<close>.  A Go map is an association
  list with distinct keys; only its look-ups and its key set are used.
\<close>

datatype intkind = K8 | K16 | K32 | K64 | KWord

datatype goval =
    GNil
  | GBool bool
  | GUint intkind u64
  | GSint intkind int
  | GStr string
  | GBytes bytes
  | GArr "goval list"
  | GStrs "string list"
  | GMapS "(string \<times> goval) list"
  | GMapA "(goval \<times> goval) list"
  | GOther

type_synonym gomap = "(string \<times> goval) list"

text \<open>
  The third-party code the package calls.  \<open>cbor_any\<close>, \<open>cbor_map\<close> and
  \<open>cbor_envelope\<close> are \<open>cbor.Unmarshal\<close> into \<open>any\<close>, into
  \<open>map[string]any\<close> (a CBOR null gives the empty map) and into \<open>DecodedEnvelope\<close>
  (the payload is \<open>None\<close> when the field is absent or null); \<open>cbor_marshal\<close> is
  \<open>canonicalEncMode.Marshal\<close>, with a struct passed as the map of its tagged fields;
  \<open>ed25519_verify\<close> is \<open>ed25519.Verify(pub, msg, sig)\<close>.
\<close>

record wire_env =
  cbor_any :: "bytes \<Rightarrow> goval option"
  cbor_map :: "bytes \<Rightarrow> gomap option"
  cbor_envelope :: "bytes \<Rightarrow> (string \<times> gomap option) option"
  cbor_marshal :: "goval \<Rightarrow> bytes option"
  ed25519_verify :: "bytes \<Rightarrow> bytes \<Rightarrow> bytes \<Rightarrow> bool"

subsection \<open>Coercions\<close>

definition coerceAnySlice :: "goval \<Rightarrow> goval list option" where
  "coerceAnySlice value = (case value of
     GArr direct \<Rightarrow> Some direct
   | GBytes bs \<Rightarrow> Some (map (\<lambda>c. GUint K8 (of_nat (of_char c))) bs)
   | GStrs ss \<Rightarrow> Some (map GStr ss)
   | _ \<Rightarrow> None)"

fun string_keys :: "(goval \<times> goval) list \<Rightarrow> gomap option" where
  "string_keys [] = Some []"
| "string_keys ((k, v) # rest) = (case k of
     GStr key \<Rightarrow> map_option (\<lambda>out. (key, v) # out) (string_keys rest)
   | _ \<Rightarrow> None)"

definition coerceStringMap :: "goval \<Rightarrow> gomap option" where
  "coerceStringMap value = (case value of
     GMapS direct \<Rightarrow> Some direct
   | GMapA m \<Rightarrow> string_keys m
   | _ \<Rightarrow> None)"

fun map_string_keys :: "(goval \<times> goval) list \<Rightarrow> string list" where
  "map_string_keys [] = []"
| "map_string_keys ((k, v) # rest) = (case k of
     GStr key \<Rightarrow> key # map_string_keys rest
   | _ \<Rightarrow> map_string_keys rest)"

definition mapKeys :: "goval \<Rightarrow> string list" where
  "mapKeys value = (case value of
     GMapS m \<Rightarrow> sort_slice (<) (map fst m)
   | GMapA m \<Rightarrow> sort_slice (<) (map_string_keys m)
   | _ \<Rightarrow> [])"

subsection \<open>Field readers\<close>

definition parseString :: "gomap \<Rightarrow> string \<Rightarrow> gerr + string" where
  "parseString payload key = (case map_of payload key of
     None \<Rightarrow> Inl (FieldErr Missing key)
   | Some (GStr parsed) \<Rightarrow>
       if parsed = [] then Inl (FieldErr MustBeNonEmpty key) else Inr parsed
   | Some _ \<Rightarrow> Inl (FieldErr MustBeString key))"

definition parseOptionalString :: "gomap \<Rightarrow> string \<Rightarrow> gerr + string" where
  "parseOptionalString payload key = (case map_of payload key of
     None \<Rightarrow> Inr []
   | Some (GStr parsed) \<Rightarrow> Inr parsed
   | Some _ \<Rightarrow> Inl (FieldErr MustBeString key))"

fun parse_string_entries :: "string \<Rightarrow> goval list \<Rightarrow> gerr + string list" where
  "parse_string_entries key [] = Inr []"
| "parse_string_entries key (item # rest) = (case item of
     GStr s \<Rightarrow> (if s = [] then Inl (FieldErr EntriesMustBeNonEmpty key)
               else bindE (parse_string_entries key rest) (\<lambda>out. Inr (s # out)))
   | _ \<Rightarrow> Inl (FieldErr EntriesMustBeStrings key))"

definition parseStringSliceFromRaw :: "goval \<Rightarrow> string \<Rightarrow> gerr + string list" where
  "parseStringSliceFromRaw value key =
     (if value = GNil then Inl (FieldErr Missing key)
      else case coerceAnySlice value of
             None \<Rightarrow> Inl (FieldErr MustBeArray key)
           | Some raw \<Rightarrow> parse_string_entries key raw)"

definition parseStringSlice :: "gomap \<Rightarrow> string \<Rightarrow> gerr + string list" where
  "parseStringSlice payload key = (case map_of payload key of
     None \<Rightarrow> Inl (FieldErr Missing key)
   | Some value \<Rightarrow> parseStringSliceFromRaw value key)"

text \<open>
  \<open>parseBytes\<close>: a byte string is copied; by reflection any other slice is accepted only when
  every element is a \<open>uint8\<close>, which for \<open>[]any\<close> and \<open>[]string\<close> means when it is
  empty.
\<close>

definition parseBytes :: "gomap \<Rightarrow> string \<Rightarrow> gerr + bytes" where
  "parseBytes payload key = (case map_of payload key of
     None \<Rightarrow> Inl (FieldErr Missing key)
   | Some (GBytes typed) \<Rightarrow> Inr typed
   | Some (GArr xs) \<Rightarrow> if xs = [] then Inr [] else Inl (FieldErr MustBeBytes key)
   | Some (GStrs xs) \<Rightarrow> if xs = [] then Inr [] else Inl (FieldErr MustBeBytes key)
   | Some _ \<Rightarrow> Inl (FieldErr MustBeBytes key))"

definition parseUint :: "gomap \<Rightarrow> string \<Rightarrow> gerr + u64" where
  "parseUint payload key = (case map_of payload key of
     None \<Rightarrow> Inl (FieldErr Missing key)
   | Some (GUint k typed) \<Rightarrow> Inr typed
   | Some (GSint k typed) \<Rightarrow>
       if typed < 0 then Inl (FieldErr MustBeUnsigned key) else Inr (word_of_int typed)
   | Some _ \<Rightarrow> Inl (FieldErr MustBeUnsignedInteger key))"

definition parseInt64 :: "gomap \<Rightarrow> string \<Rightarrow> gerr + int" where
  "parseInt64 payload key = (case map_of payload key of
     None \<Rightarrow> Inl (FieldErr Missing key)
   | Some (GUint k typed) \<Rightarrow>
       if uint typed > 2 ^ 63 - 1 then Inl (FieldErr OutOfInt64Range key) else Inr (uint typed)
   | Some (GSint k typed) \<Rightarrow> Inr typed
   | Some _ \<Rightarrow> Inl (FieldErr MustBeInteger key))"

text \<open>\<open>for key := range payload { if !allowed[key] { return unknown field } }\<close>.\<close>

definition only_fields :: "string list \<Rightarrow> gomap \<Rightarrow> bool" where
  "only_fields allowed payload = list_all (\<lambda>(key, _). key \<in> set allowed) payload"

subsection \<open>Facts\<close>

lemma parse_string_entries_ok:
  "parse_string_entries key xs = Inr out \<longleftrightarrow> xs = map GStr out \<and> [] \<notin> set out"
proof (induction xs arbitrary: out)
  case Nil
  then show ?case by auto
next
  case (Cons x xs)
  show ?case
  proof (cases x)
    case (GStr s)
    then show ?thesis by (cases out) (auto simp: Cons)
  qed (cases out; simp)+
qed

lemma parseStringSlice_GArr:
  assumes "map_of payload key = Some (GArr (map GStr out))" and "[] \<notin> set out"
  shows "parseStringSlice payload key = Inr out"
  using assms by (simp add: parseStringSlice_def parseStringSliceFromRaw_def coerceAnySlice_def
      parse_string_entries_ok)

lemma parseStringSlice_no_empty:
  "parseStringSlice payload key = Inr out \<Longrightarrow> [] \<notin> set out"
  by (auto simp: parseStringSlice_def parseStringSliceFromRaw_def parse_string_entries_ok
      split: option.splits if_splits)

lemma parseString_not_nil: "parseString payload key = Inr s \<Longrightarrow> s \<noteq> []"
  by (auto simp: parseString_def split: option.splits goval.splits if_splits)

end
