(* ===== verification/Sha256.thy ===== *)
theory Sha256
  imports Go_Base
begin

unbundle bit_operations_syntax

text \<open>
  \<open>crypto/sha256.Sum256\<close> (FIPS 180-4), on which item ids, node ids and the Bloom filter
  of a summary rest.  It is an executable definition; the only facts the other theories use
  are that the digest has 32 bytes and that padding fills whole blocks.
\<close>

type_synonym u32 = "32 word"

text \<open>
  The constants are the first 32 bits of the fractional parts of the cube roots of the first 64
  primes, and the initial registers those of the square roots of the first eight: \<open>int_root e k n 0\<close>
  is the integer \<open>e\<close>-th root of \<open>n\<close>, found bit by bit below \<open>2 ^ k\<close>.
\<close>

fun int_root :: "nat \<Rightarrow> nat \<Rightarrow> int \<Rightarrow> int \<Rightarrow> int" where
  "int_root e 0 n acc = acc"
| "int_root e (Suc k) n acc = int_root e k n (if (acc + 2 ^ k) ^ e \<le> n then acc + 2 ^ k else acc)"

definition sha_primes :: "int list" where
  "sha_primes = filter (\<lambda>p. list_all (\<lambda>d. p mod d \<noteq> 0) [2..p - 1]) [2..311]"

definition sha_k :: "u32 list" where
  "sha_k = map (\<lambda>p. word_of_int (int_root 3 35 (p * 2 ^ 96) 0)) sha_primes"

definition rotr :: "nat \<Rightarrow> u32 \<Rightarrow> u32" where
  "rotr n x = (drop_bit n x) OR (push_bit (32 - n) x)"

definition big_sigma0 :: "u32 \<Rightarrow> u32" where "big_sigma0 x = rotr 2 x XOR rotr 13 x XOR rotr 22 x"
definition big_sigma1 :: "u32 \<Rightarrow> u32" where "big_sigma1 x = rotr 6 x XOR rotr 11 x XOR rotr 25 x"
definition small_sigma0 :: "u32 \<Rightarrow> u32" where "small_sigma0 x = rotr 7 x XOR rotr 18 x XOR drop_bit 3 x"
definition small_sigma1 :: "u32 \<Rightarrow> u32" where "small_sigma1 x = rotr 17 x XOR rotr 19 x XOR drop_bit 10 x"

text \<open>The message schedule: sixteen words, then forty-eight more; the window holds the last
  sixteen, oldest first.\<close>

fun sha_schedule :: "nat \<Rightarrow> u32 list \<Rightarrow> u32 list" where
  "sha_schedule 0 w = []"
| "sha_schedule (Suc n) w =
     hd w # sha_schedule n (tl w @ [small_sigma1 (w ! 14) + w ! 9 + small_sigma0 (w ! 1) + w ! 0])"

type_synonym sha_regs = "u32 \<times> u32 \<times> u32 \<times> u32 \<times> u32 \<times> u32 \<times> u32 \<times> u32"

fun sha_shift :: "u32 \<Rightarrow> u32 \<Rightarrow> sha_regs \<Rightarrow> sha_regs" where
  "sha_shift t1 t2 (a, b, c, d, e, f, g, h) = (t1 + t2, a, b, c, d + t1, e, f, g)"

fun sha_round :: "sha_regs \<Rightarrow> u32 \<times> u32 \<Rightarrow> sha_regs" where
  "sha_round (a, b, c, d, e, f, g, h) (k, w) =
     sha_shift (h + big_sigma1 e + ((e AND f) XOR (NOT e AND g)) + k + w)
       (big_sigma0 a + ((a AND b) XOR (a AND c) XOR (b AND c)))
       (a, b, c, d, e, f, g, h)"

definition sha_init :: sha_regs where
  "sha_init = (case map (\<lambda>p. word_of_int (int_root 2 35 (p * 2 ^ 64) 0)) [2, 3, 5, 7, 11, 13, 17, 19] of
     [a, b, c, d, e, f, g, h] \<Rightarrow> (a, b, c, d, e, f, g, h) | _ \<Rightarrow> (0, 0, 0, 0, 0, 0, 0, 0))"

fun sha_add :: "sha_regs \<Rightarrow> sha_regs \<Rightarrow> sha_regs" where
  "sha_add (a, b, c, d, e, f, g, h) (a', b', c', d', e', f', g', h') =
     (a + a', b + b', c + c', d + d', e + e', f + f', g + g', h + h')"

fun words_of_bytes :: "bytes \<Rightarrow> u32 list" where
  "words_of_bytes (a # b # c # d # r) = of_nat (be_val [a, b, c, d]) # words_of_bytes r"
| "words_of_bytes _ = []"

definition sha_block :: "sha_regs \<Rightarrow> bytes \<Rightarrow> sha_regs" where
  "sha_block s blk = sha_add s (foldl sha_round s (zip sha_k (sha_schedule 64 (words_of_bytes blk))))"

definition sha_pad :: "bytes \<Rightarrow> bytes" where
  "sha_pad m = m @ CHR 0x80 # replicate ((119 - length m mod 64) mod 64) NUL @ be_bytes 8 (8 * length m)"

fun sha_blocks :: "nat \<Rightarrow> sha_regs \<Rightarrow> bytes \<Rightarrow> sha_regs" where
  "sha_blocks 0 s m = s"
| "sha_blocks (Suc n) s m = sha_blocks n (sha_block s (take 64 m)) (drop 64 m)"

fun sha_output :: "sha_regs \<Rightarrow> bytes" where
  "sha_output (a, b, c, d, e, f, g, h) =
     concat (map (\<lambda>w. be_bytes 4 (unat w)) [a, b, c, d, e, f, g, h])"

definition sha256 :: "bytes \<Rightarrow> bytes" where
  "sha256 m = (let p = sha_pad m in sha_output (sha_blocks (length p div 64) sha_init p))"

lemma length_sha256 [simp, bytes_simps]: "length (sha256 m) = 32"
proof -
  have "length (sha_output r) = 32" for r by (cases r rule: sha_output.cases) simp
  then show ?thesis by (simp add: sha256_def Let_def)
qed

lemma sha_pad_blocks: "length (sha_pad m) mod 64 = 0"
proof -
  define r where "r = length m mod 64"
  have r: "r < 64" by (simp add: r_def)
  have "(r + 9 + (119 - r) mod 64) mod 64 = 0"
  proof (cases "r < 56")
    case True
    then have "(119 - r) mod 64 = (119 - r - 64) mod 64" by (subst le_mod_geq) simp_all
    also have "\<dots> = 55 - r" using True by simp
    finally have "(119 - r) mod 64 = 55 - r" .
    with True show ?thesis by simp
  next
    case False
    with r have "(119 - r) mod 64 = 119 - r" by simp
    with False r show ?thesis by simp
  qed
  moreover have "length (sha_pad m) mod 64 = (r + (9 + (119 - r) mod 64)) mod 64"
    unfolding r_def mod_add_left_eq by (simp add: sha_pad_def add.commute add.left_commute)
  ultimately show ?thesis by (simp add: add.assoc)
qed

lemma sha256_not_nil [simp]: "sha256 bs \<noteq> []"
  using length_sha256 [of bs] by (metis list.size(3) zero_neq_numeral)

end
