(* ===== verification/Summary.thy ===== *)
theory Summary
  imports Gossip_Values Sha256
begin

unbundle bit_operations_syntax

text \<open>
  SUMMARY payloads of \<^verbatim>\<open>internal/gossipv1/protocol.go\<close>: building one from the ids a
  relay holds (a Bloom filter over all of them and a sorted preview page), testing an id against
  the filter, and parsing one from the wire.  The filter's content is characterised bit by bit
  (\<open>bloom_build_bit\<close>), so that an id that was put in is always found.
\<close>

abbreviation (input) BloomFilterBytes :: nat where "BloomFilterBytes \<equiv> 2048"
abbreviation (input) BloomHashCount :: nat where "BloomHashCount \<equiv> 4"
abbreviation (input) MaxSummaryItems :: nat where "MaxSummaryItems \<equiv> 256"
abbreviation (input) MaxSummaryPreviewItems :: nat where "MaxSummaryPreviewItems \<equiv> 64"

record SummaryPayload =
  BloomFilter :: bytes
  ItemCount :: u64
  PreviewItemIDs :: "string list"
  PreviewCursor :: string
  Have :: "string list"

subsection \<open>The Bloom filter\<close>

text \<open>\<open>binary.BigEndian.Uint64(digest[:8]) % uint64(BloomFilterBytes*8)\<close>.\<close>

definition bloom_index :: "bytes \<Rightarrow> nat \<Rightarrow> nat" where
  "bloom_index itemBytes hashIndex =
     be_val (take 8 (sha256 (itemBytes @ [char_of hashIndex]))) mod (BloomFilterBytes * 8)"

definition set_bloom_bit :: "bytes \<Rightarrow> nat \<Rightarrow> bytes" where
  "set_bloom_bit bloomFilter bitIndex =
     bloomFilter[bitIndex div 8 :=
       char_of ((of_char (bloomFilter ! (bitIndex div 8)) :: nat) OR push_bit (bitIndex mod 8) 1)]"

definition test_bloom_bit :: "bytes \<Rightarrow> nat \<Rightarrow> bool" where
  "test_bloom_bit bloomFilter bitIndex \<longleftrightarrow>
     (of_char (bloomFilter ! (bitIndex div 8)) :: nat) AND push_bit (bitIndex mod 8) 1 \<noteq> 0"

definition bloom_add :: "bytes \<Rightarrow> bytes \<Rightarrow> bytes" where
  "bloom_add bloomFilter itemBytes =
     foldl (\<lambda>f hashIndex. set_bloom_bit f (bloom_index itemBytes hashIndex)) bloomFilter
       [0..<BloomHashCount]"

definition bloom_build :: "string list \<Rightarrow> bytes" where
  "bloom_build itemIDs =
     foldl (\<lambda>f itemID. bloom_add f (bloomFilterItemBytes itemID)) (replicate BloomFilterBytes NUL) itemIDs"

definition BloomFilterMightContain :: "bytes \<Rightarrow> string \<Rightarrow> bool" where
  "BloomFilterMightContain bloomFilter itemID =
     (if length bloomFilter \<noteq> BloomFilterBytes then False
      else case digestBytes itemID of
             None \<Rightarrow> False
           | Some itemBytes \<Rightarrow>
               list_all (\<lambda>hashIndex. test_bloom_bit bloomFilter (bloom_index itemBytes hashIndex))
                 [0..<BloomHashCount])"

subsection \<open>Building a summary\<close>

definition BuildSummaryPreviewPayload :: "string list \<Rightarrow> string list \<Rightarrow> string \<Rightarrow> SummaryPayload" where
  "BuildSummaryPreviewPayload itemIDs previewItemIDs previewCursor =
     (let normalizedItemIDs = normalizeDigestHexIDsDropInvalid itemIDs;
          normalizedPreview = normalizeDigestHexIDsDropInvalid previewItemIDs;
          normalizedPreviewItemIDs =
            (if length normalizedPreview > MaxSummaryPreviewItems
             then take MaxSummaryPreviewItems normalizedPreview else normalizedPreview);
          bloomFilter = bloom_build normalizedItemIDs;
          cursor =
            (if normalizedPreviewItemIDs = [] then []
             else if previewCursor = [] \<or> previewCursor \<noteq> last normalizedPreviewItemIDs
                  then last normalizedPreviewItemIDs
             else previewCursor)
      in \<lparr>BloomFilter = bloomFilter, ItemCount = of_nat (length normalizedItemIDs),
          PreviewItemIDs = normalizedPreviewItemIDs, PreviewCursor = cursor,
          Have = normalizedPreviewItemIDs\<rparr>)"

definition BuildSummaryPayload :: "string list \<Rightarrow> SummaryPayload" where
  "BuildSummaryPayload itemIDs = BuildSummaryPreviewPayload itemIDs itemIDs []"

subsection \<open>Parsing a summary\<close>

definition parse_preview :: "gomap \<Rightarrow> gerr + string list" where
  "parse_preview payload = (case map_of payload ''preview_item_ids'' of
     None \<Rightarrow> Inr []
   | Some rawPreview \<Rightarrow>
       bindE (parseStringSliceFromRaw rawPreview ''preview_item_ids'') (\<lambda>previewItemIDs.
       bindE (guardE (length previewItemIDs \<le> MaxSummaryPreviewItems)
                (FieldErr ExceedsLimit ''preview_item_ids'')) (\<lambda>_.
       bindE (validateSortedUniqueDigestIDs previewItemIDs) (\<lambda>_.
       Inr previewItemIDs))))"

definition check_cursor :: "string list \<Rightarrow> string \<Rightarrow> gerr + unit" where
  "check_cursor previewItemIDs previewCursor =
     (if previewItemIDs = []
      then (if previewCursor \<noteq> [] then Inl (SummaryErr CursorMustBeAbsent) else Inr ())
      else if previewCursor = [] then Inl (SummaryErr CursorRequired)
      else if \<not> isDigestHex previewCursor then Inl (SummaryErr CursorFormat)
      else if previewCursor \<noteq> last previewItemIDs then Inl (SummaryErr CursorMismatch)
      else Inr ())"

definition ParseSummaryPayload :: "gomap option \<Rightarrow> gerr + SummaryPayload" where
  "ParseSummaryPayload payload_opt = (case payload_opt of
     None \<Rightarrow> Inl (PayloadRequired ''summary'')
   | Some payload \<Rightarrow>
       bindE (parseBytes payload ''bloom_filter'') (\<lambda>bloomFilter.
       bindE (guardE (length bloomFilter = BloomFilterBytes) (SummaryErr BloomFilterSize)) (\<lambda>_.
       bindE (parseUint payload ''item_count'') (\<lambda>itemCount.
       bindE (parse_preview payload) (\<lambda>previewItemIDs.
       bindE (parseOptionalString payload ''preview_cursor'') (\<lambda>previewCursor.
       bindE (check_cursor previewItemIDs previewCursor) (\<lambda>_.
       Inr \<lparr>BloomFilter = bloomFilter, ItemCount = itemCount, PreviewItemIDs = previewItemIDs,
            PreviewCursor = previewCursor, Have = previewItemIDs\<rparr>)))))))"

text \<open>The struct tags of \<open>SummaryPayload\<close>: two fields are omitted when empty and
  \<open>Have\<close> is never sent.\<close>

definition summary_fields :: "SummaryPayload \<Rightarrow> gomap" where
  "summary_fields s =
     [(''bloom_filter'', GBytes (BloomFilter s)), (''item_count'', GUint K64 (ItemCount s))] @
     (if PreviewItemIDs s = [] then [] else [(''preview_item_ids'', GArr (map GStr (PreviewItemIDs s)))]) @
     (if PreviewCursor s = [] then [] else [(''preview_cursor'', GStr (PreviewCursor s))])"

subsection \<open>Facts about the filter\<close>

lemma test_bloom_bit_iff: "test_bloom_bit f i \<longleftrightarrow> bit (of_char (f ! (i div 8)) :: nat) (i mod 8)"
  by (simp add: test_bloom_bit_def and_exp_eq_0_iff_not_bit push_bit_eq_mult)

lemma length_set_bloom_bit [simp]: "length (set_bloom_bit f i) = length f"
  by (simp add: set_bloom_bit_def)

lemma bit_mod_256: "bit (n mod 256 :: nat) k \<longleftrightarrow> k < 8 \<and> bit n k"
  by (simp add: bit_take_bit_iff flip: take_bit_eq_mod [of 8, simplified])

lemma test_set_bloom_bit:
  assumes "i div 8 < length f" and "j div 8 < length f"
  shows "test_bloom_bit (set_bloom_bit f i) j \<longleftrightarrow> j = i \<or> test_bloom_bit f j"
proof (cases "i div 8 = j div 8")
  case True
  have m: "i mod 8 < 8" "j mod 8 < 8" by simp_all
  have "i = j \<longleftrightarrow> i mod 8 = j mod 8" using True by (metis div_mult_mod_eq)
  moreover have "bit (push_bit (i mod 8) 1 :: nat) (j mod 8) \<longleftrightarrow> i mod 8 = j mod 8"
    by (auto simp: bit_exp_iff)
  ultimately show ?thesis
    using assms True m
    by (simp add: test_bloom_bit_iff set_bloom_bit_def bit_or_iff bit_mod_256) auto
next
  case False
  then show ?thesis
    by (auto simp: test_bloom_bit_iff set_bloom_bit_def)
qed

lemma bloom_index_less: "bloom_index bs h div 8 < 2048"
  by (simp add: bloom_index_def less_mult_imp_div_less)

lemma fold_bloom_bits:
  assumes "\<And>h. g h div 8 < length f" and "j div 8 < length f"
  shows "length (foldl (\<lambda>f h. set_bloom_bit f (g h)) f hs) = length f \<and>
     (test_bloom_bit (foldl (\<lambda>f h. set_bloom_bit f (g h)) f hs) j \<longleftrightarrow>
        test_bloom_bit f j \<or> j \<in> g ` set hs)"
  using assms by (induction hs arbitrary: f) (auto simp: test_set_bloom_bit)

lemma bloom_add_bits:
  assumes "length f = 2048" and "j div 8 < 2048"
  shows "length (bloom_add f bs) = 2048 \<and>
     (test_bloom_bit (bloom_add f bs) j \<longleftrightarrow>
        test_bloom_bit f j \<or> j \<in> bloom_index bs ` {0..<BloomHashCount})"
  unfolding bloom_add_def using fold_bloom_bits [of "bloom_index bs" f j "[0..<BloomHashCount]"] assms
  by (simp add: bloom_index_less del: upt_rec_numeral upt_Suc)

lemma bloom_fold_bits:
  assumes "length f = 2048" and "j div 8 < 2048"
  shows "length (foldl (\<lambda>f item. bloom_add f (bloomFilterItemBytes item)) f ids) = 2048 \<and>
     (test_bloom_bit (foldl (\<lambda>f item. bloom_add f (bloomFilterItemBytes item)) f ids) j \<longleftrightarrow>
        test_bloom_bit f j \<or>
        (\<exists>item \<in> set ids. j \<in> bloom_index (bloomFilterItemBytes item) ` {0..<BloomHashCount}))"
  using assms
proof (induction ids arbitrary: f)
  case Nil
  then show ?case by simp
next
  case (Cons item ids)
  have "length (bloom_add f (bloomFilterItemBytes item)) = 2048"
    using bloom_add_bits [OF Cons.prems] by blast
  from Cons.IH [OF this Cons.prems(2)] show ?case
    using bloom_add_bits [OF Cons.prems, of "bloomFilterItemBytes item"] by auto
qed

lemma length_bloom_build [simp]: "length (bloom_build ids) = 2048"
  using bloom_fold_bits [of "replicate 2048 NUL" 0 ids] by (simp add: bloom_build_def)

text \<open>A bit of the built filter is set exactly when one of the ids hashes to it.\<close>

lemma bloom_build_bit:
  assumes "j div 8 < 2048"
  shows "test_bloom_bit (bloom_build ids) j \<longleftrightarrow>
    (\<exists>item \<in> set ids. j \<in> bloom_index (bloomFilterItemBytes item) ` {0..<BloomHashCount})"
proof -
  have "\<not> test_bloom_bit (replicate BloomFilterBytes NUL) j"
    using assms by (simp add: test_bloom_bit_iff)
  then show ?thesis
    unfolding bloom_build_def using bloom_fold_bits [of "replicate BloomFilterBytes NUL" j ids] assms
    by simp
qed

lemma might_contain_bloom_build:
  assumes "isDigestHex item"
  shows "BloomFilterMightContain (bloom_build ids) item \<longleftrightarrow>
    bloom_index (bloomFilterItemBytes item) ` {0..<BloomHashCount} \<subseteq>
    (\<Union>other \<in> set ids. bloom_index (bloomFilterItemBytes other) ` {0..<BloomHashCount})"
proof -
  from assms obtain bs where bs: "digestBytes item = Some bs" by (auto simp: isDigestHex_def)
  then have "bloomFilterItemBytes item = bs" by (simp add: bloomFilterItemBytes_def)
  with bs show ?thesis
    by (simp add: BloomFilterMightContain_def list_all_iff bloom_build_bit bloom_index_less
        image_subset_iff del: upt_rec_numeral upt_Suc)
qed

subsection \<open>Facts about built and parsed summaries\<close>

lemma preview_props:
  fixes ids prev cur
  defines "p \<equiv> PreviewItemIDs (BuildSummaryPreviewPayload ids prev cur)"
  shows "sorted_wrt (<) p" and "\<forall>x \<in> set p. isDigestHex x" and "length p \<le> MaxSummaryPreviewItems"
    and "p = take MaxSummaryPreviewItems (normalizeDigestHexIDsDropInvalid prev)"
proof -
  show eq: "p = take MaxSummaryPreviewItems (normalizeDigestHexIDsDropInvalid prev)"
    by (simp add: p_def BuildSummaryPreviewPayload_def Let_def)
  show "sorted_wrt (<) p"
    unfolding eq by (rule sorted_wrt_take) (rule drop_invalid_sorted)
  show "\<forall>x \<in> set p. isDigestHex x"
    unfolding eq using drop_invalid_set by (auto dest!: in_set_takeD)
  show "length p \<le> MaxSummaryPreviewItems" by (simp add: eq)
qed

lemma cursor_is_last:
  "PreviewCursor (BuildSummaryPreviewPayload ids prev cur) =
     (if PreviewItemIDs (BuildSummaryPreviewPayload ids prev cur) = [] then []
      else last (PreviewItemIDs (BuildSummaryPreviewPayload ids prev cur)))"
  by (auto simp: BuildSummaryPreviewPayload_def Let_def)

lemma check_cursor_ok:
  "check_cursor ids c = Inr () \<longleftrightarrow>
     (if ids = [] then c = [] else c \<noteq> [] \<and> isDigestHex c \<and> c = last ids)"
  by (simp add: check_cursor_def)

lemma parse_summary_fields:
  assumes "length (BloomFilter s) = BloomFilterBytes" and "length (PreviewItemIDs s) \<le> MaxSummaryPreviewItems"
    and "sorted_wrt (<) (PreviewItemIDs s)" and "\<forall>x \<in> set (PreviewItemIDs s). isDigestHex x"
    and "PreviewCursor s = (if PreviewItemIDs s = [] then [] else last (PreviewItemIDs s))"
    and "Have s = PreviewItemIDs s"
  shows "ParseSummaryPayload (Some (summary_fields s)) = Inr s"
proof -
  have ne: "[] \<notin> set (PreviewItemIDs s)" using assms(4) isDigestHex_length [of "[]"] by auto
  have lst: "PreviewItemIDs s \<noteq> [] \<Longrightarrow> isDigestHex (last (PreviewItemIDs s))"
    using assms(4) by simp
  then have lst': "PreviewItemIDs s \<noteq> [] \<Longrightarrow> last (PreviewItemIDs s) \<noteq> []"
    by (auto dest: isDigestHex_length)
  have "parse_preview (summary_fields s) = Inr (PreviewItemIDs s)"
    using assms(2-4) ne
    by (auto simp: parse_preview_def summary_fields_def parseStringSliceFromRaw_def coerceAnySlice_def
        parse_string_entries_ok validateSortedUniqueDigestIDs_def validateSorted_ok)
  moreover have "parseOptionalString (summary_fields s) ''preview_cursor'' = Inr (PreviewCursor s)"
    by (auto simp: parseOptionalString_def summary_fields_def)
  moreover have "check_cursor (PreviewItemIDs s) (PreviewCursor s) = Inr ()"
    using assms(5) lst lst' by (simp add: check_cursor_ok)
  ultimately show ?thesis
    using assms(1,6) by (simp add: ParseSummaryPayload_def parseBytes_def parseUint_def summary_fields_def)
qed

lemma ParseSummaryPayload_props:
  assumes "ParseSummaryPayload payload = Inr s"
  shows "length (BloomFilter s) = BloomFilterBytes" and "length (PreviewItemIDs s) \<le> MaxSummaryPreviewItems"
    and "sorted_wrt (<) (PreviewItemIDs s)" and "\<forall>x \<in> set (PreviewItemIDs s). isDigestHex x"
    and "PreviewCursor s = (if PreviewItemIDs s = [] then [] else last (PreviewItemIDs s))"
    and "Have s = PreviewItemIDs s"
  using assms
  by (auto simp: ParseSummaryPayload_def parse_preview_def check_cursor_ok
      validateSortedUniqueDigestIDs_def validateSorted_ok split: option.splits if_splits)

subsection \<open>Properties\<close>

text \<open>
  The Bloom filter of a summary has no false negatives and no other bits: a digest id is
  reported by \<open>BloomFilterMightContain\<close> on a filter the relay built exactly when each
  of its four hash positions is a hash position of some valid id the relay holds; in particular
  every valid id held is reported, whatever the preview page is.
\<close>

lemma summary_bloom_exact:
  "BloomFilterMightContain (BloomFilter (BuildSummaryPreviewPayload itemIDs preview cursor)) item \<longleftrightarrow>
     isDigestHex item \<and>
     bloom_index (bloomFilterItemBytes item) ` {0..<BloomHashCount} \<subseteq>
     (\<Union>other \<in> {x \<in> set itemIDs. isDigestHex x}.
        bloom_index (bloomFilterItemBytes other) ` {0..<BloomHashCount})"
proof (cases "isDigestHex item")
  case True
  then show ?thesis
    using might_contain_bloom_build [OF True, of "normalizeDigestHexIDsDropInvalid itemIDs"]
    by (simp add: BuildSummaryPreviewPayload_def Let_def drop_invalid_set)
next
  case False
  then show ?thesis by (simp add: BloomFilterMightContain_def isDigestHex_def)
qed

text \<open>
  Every summary the relay builds, sent as the map of its tagged fields, is accepted by
  \<open>ParseSummaryPayload\<close>, and the parsed summary is the one that was built: the preview is
  sorted, unique and within the limit, and the cursor is its last entry.
\<close>

lemma summary_build_parse_roundtrip:
  "ParseSummaryPayload (Some (summary_fields (BuildSummaryPreviewPayload itemIDs preview cursor))) =
     Inr (BuildSummaryPreviewPayload itemIDs preview cursor)"
  by (rule parse_summary_fields)
     (simp_all add: preview_props(1-3) cursor_is_last,
      simp_all add: BuildSummaryPreviewPayload_def Let_def)

end
