(* ===== verification/Base64.thy ===== *)
theory Base64
  imports Go_Base
begin

text \<open>
  \<open>base64.RawURLEncoding\<close> of Go's standard library, in its lenient and its
  \<open>Strict()\<close> form, and the canonical payload rules of
  \<^verbatim>\<open>internal/model/payload_b64.go\<close>.  Decoding skips carriage returns and line
  feeds, as Go's decoder does; the strict decoder also rejects non-zero trailing bits, which
  makes the unpadded text of a byte string unique (\<open>b64_decode_strict_canonical\<close>).
\<close>

subsection \<open>The URL alphabet\<close>

definition b64_digit :: "nat \<Rightarrow> char" where
  "b64_digit n = char_of (if n < 26 then 65 + n else if n < 52 then 71 + n
     else if n < 62 then n - 4 else if n = 62 then 45 else (95 :: nat))"

definition b64_value :: "char \<Rightarrow> nat option" where
  "b64_value c = (let n = of_char c in
     if 65 \<le> n \<and> n \<le> 90 then Some (n - 65)
     else if 97 \<le> n \<and> n \<le> 122 then Some (n - 71)
     else if 48 \<le> n \<and> n \<le> 57 then Some (n + 4)
     else if n = 45 then Some 62
     else if n = 95 then Some 63
     else None)"

lemma of_char_b64_digit: "n < 64 \<Longrightarrow> of_char (b64_digit n) =
    (if n < 26 then 65 + n else if n < 52 then 71 + n
     else if n < 62 then n - 4 else if n = 62 then 45 else (95 :: nat))"
  by (simp add: b64_digit_def)

lemma b64_value_digit [simp]: "n < 64 \<Longrightarrow> b64_value (b64_digit n) = Some n"
  by (auto simp: b64_value_def of_char_b64_digit Let_def)

lemma b64_digit_value: "b64_value c = Some n \<Longrightarrow> b64_digit n = c"
proof -
  assume a: "b64_value c = Some n"
  then have lt: "n < 64" by (auto simp: b64_value_def Let_def split: if_splits)
  with a have "of_char (b64_digit n) = (of_char c :: nat)"
    by (auto simp: b64_value_def of_char_b64_digit Let_def split: if_splits)
  then show ?thesis by (simp add: of_char_eq_iff)
qed

lemma b64_value_less: "b64_value c = Some n \<Longrightarrow> n < 64"
  by (auto simp: b64_value_def Let_def split: if_splits)

definition is_newline :: "char \<Rightarrow> bool" where
  "is_newline c \<longleftrightarrow> c = CHR 0x0A \<or> c = CHR 0x0D"

lemma b64_digit_not_newline [simp]: "n < 64 \<Longrightarrow> \<not> is_newline (b64_digit n)"
proof -
  assume n: "n < 64"
  then have "b64_value (b64_digit n) = Some n" by simp
  then show ?thesis by (auto simp: is_newline_def b64_value_def)
qed

subsection \<open>Sextets\<close>

fun b64_sextets :: "bytes \<Rightarrow> nat list" where
  "b64_sextets [] = []"
| "b64_sextets [a] = [of_char a div 4, of_char a mod 4 * 16]"
| "b64_sextets [a, b] =
     [of_char a div 4, of_char a mod 4 * 16 + of_char b div 16, of_char b mod 16 * 4]"
| "b64_sextets (a # b # c # r) =
     of_char a div 4 # (of_char a mod 4 * 16 + of_char b div 16)
       # (of_char b mod 16 * 4 + of_char c div 64) # (of_char c mod 64) # b64_sextets r"

fun b64_octets :: "bool \<Rightarrow> nat list \<Rightarrow> bytes option" where
  "b64_octets strict [] = Some []"
| "b64_octets strict [x] = None"
| "b64_octets strict [x, y] =
     (if strict \<and> y mod 16 \<noteq> 0 then None else Some [char_of (4 * x + y div 16)])"
| "b64_octets strict [x, y, z] =
     (if strict \<and> z mod 4 \<noteq> 0 then None
      else Some [char_of (4 * x + y div 16), char_of (y mod 16 * 16 + z div 4)])"
| "b64_octets strict (x # y # z # w # r) =
     (case b64_octets strict r of
        None \<Rightarrow> None
      | Some bs \<Rightarrow> Some (char_of (4 * x + y div 16) # char_of (y mod 16 * 16 + z div 4)
                        # char_of (z mod 4 * 64 + w) # bs))"

text \<open>\<open>base64.RawURLEncoding.EncodeToString\<close>, and \<open>DecodeString\<close> of the lenient
  (\<open>False\<close>) and the strict (\<open>True\<close>) decoder.\<close>

definition b64_encode :: "bytes \<Rightarrow> string" where
  "b64_encode bs = map b64_digit (b64_sextets bs)"

definition b64_decode :: "bool \<Rightarrow> string \<Rightarrow> bytes option" where
  "b64_decode strict s =
     (case those (map b64_value (filter (\<lambda>c. \<not> is_newline c) s)) of
        None \<Rightarrow> None
      | Some vs \<Rightarrow> b64_octets strict vs)"

lemma sextet_arith:
  fixes a b c :: nat
  assumes "a < 256" "b < 256" "c < 256"
  shows "4 * (a div 4) + (a mod 4 * 16 + b div 16) div 16 = a"
    and "(a mod 4 * 16 + b div 16) mod 16 * 16 + (b mod 16 * 4 + c div 64) div 4 = b"
    and "(b mod 16 * 4 + c div 64) mod 4 * 64 + c mod 64 = c"
    and "a div 4 < 64" "a mod 4 * 16 + b div 16 < 64" "b mod 16 * 4 + c div 64 < 64" "c mod 64 < 64"
proof -
  have q: "b div 16 < 16" "c div 64 < 4" using assms by linarith+
  then have "(a mod 4 * 16 + b div 16) div 16 = a mod 4" "(a mod 4 * 16 + b div 16) mod 16 = b div 16"
    "(b mod 16 * 4 + c div 64) div 4 = b mod 16" "(b mod 16 * 4 + c div 64) mod 4 = c div 64"
    by simp_all
  then show "4 * (a div 4) + (a mod 4 * 16 + b div 16) div 16 = a"
    "(a mod 4 * 16 + b div 16) mod 16 * 16 + (b mod 16 * 4 + c div 64) div 4 = b"
    "(b mod 16 * 4 + c div 64) mod 4 * 64 + c mod 64 = c"
    by simp_all
  have "a mod 4 < 4" "b mod 16 < 16" by simp_all
  with q assms show "a div 4 < 64" "a mod 4 * 16 + b div 16 < 64" "b mod 16 * 4 + c div 64 < 64"
    by linarith+
  show "c mod 64 < 64" by simp
qed

lemma octet_arith:
  fixes x y z w :: nat
  assumes "x < 64" "y < 64" "z < 64" "w < 64"
  shows "(4 * x + y div 16) div 4 = x" "(4 * x + y div 16) mod 4 * 16 + (y mod 16 * 16 + z div 4) div 16 = y"
    "(y mod 16 * 16 + z div 4) mod 16 * 4 + (z mod 4 * 64 + w) div 64 = z" "(z mod 4 * 64 + w) mod 64 = w"
    "4 * x + y div 16 < 256" "y mod 16 * 16 + z div 4 < 256" "z mod 4 * 64 + w < 256"
proof -
  have q: "y div 16 < 4" "z div 4 < 16" using assms by linarith+
  then have "(4 * x + y div 16) div 4 = x" "(4 * x + y div 16) mod 4 = y div 16"
    "(y mod 16 * 16 + z div 4) div 16 = y mod 16" "(y mod 16 * 16 + z div 4) mod 16 = z div 4"
    "(z mod 4 * 64 + w) div 64 = z mod 4" "(z mod 4 * 64 + w) mod 64 = w"
    using assms by simp_all
  then show "(4 * x + y div 16) div 4 = x" "(4 * x + y div 16) mod 4 * 16 + (y mod 16 * 16 + z div 4) div 16 = y"
    "(y mod 16 * 16 + z div 4) mod 16 * 4 + (z mod 4 * 64 + w) div 64 = z" "(z mod 4 * 64 + w) mod 64 = w"
    by simp_all
  have "y mod 16 < 16" "z mod 4 < 4" by simp_all
  with q assms show "4 * x + y div 16 < 256" "y mod 16 * 16 + z div 4 < 256" "z mod 4 * 64 + w < 256"
    by linarith+
qed

lemma sextets_less: "n \<in> set (b64_sextets bs) \<Longrightarrow> n < 64"
proof (induction bs rule: b64_sextets.induct)
  case (2 a)
  then show ?case using sextet_arith(4,5) [of "of_char a" 0 0] by auto
next
  case (3 a b)
  then show ?case using sextet_arith(4,5,6) [of "of_char a" "of_char b" 0] by auto
next
  case (4 a b c r)
  then show ?case using sextet_arith(4-7) [of "of_char a" "of_char b" "of_char c"] by auto
qed auto

lemma octets_sextets: "b64_octets strict (b64_sextets bs) = Some bs"
proof (induction bs rule: b64_sextets.induct)
  case (2 a)
  then show ?case using sextet_arith(1) [of "of_char a" 0 0] by simp
next
  case (3 a b)
  then show ?case using sextet_arith(1,2) [of "of_char a" "of_char b" 0] by simp
next
  case (4 a b c r)
  then show ?case using sextet_arith(1-3) [of "of_char a" "of_char b" "of_char c"] by simp
qed simp

lemma sextets_octets:
  "b64_octets True vs = Some bs \<Longrightarrow> (\<And>v. v \<in> set vs \<Longrightarrow> v < 64) \<Longrightarrow> b64_sextets bs = vs"
proof (induction "True" vs arbitrary: bs rule: b64_octets.induct)
  case (3 x y)
  then have "x < 64" "y < 64" "y mod 16 = 0" "bs = [char_of (4 * x + y div 16)]"
    by (auto split: if_splits)
  then show ?case using octet_arith(1,2,5) [of x y 0 0] by simp
next
  case (4 x y z)
  then have "x < 64" "y < 64" "z < 64" "z mod 4 = 0"
    "bs = [char_of (4 * x + y div 16), char_of (y mod 16 * 16 + z div 4)]"
    by (auto split: if_splits)
  then show ?case using octet_arith(1-3,5,6) [of x y z 0] by simp
next
  case (5 x y z w r)
  then obtain bs' where r: "b64_octets True r = Some bs'"
    and bs: "bs = char_of (4 * x + y div 16) # char_of (y mod 16 * 16 + z div 4)
                        # char_of (z mod 4 * 64 + w) # bs'"
    by (auto split: option.splits)
  from 5 r have "b64_sextets bs' = r" by auto
  moreover have "x < 64" "y < 64" "z < 64" "w < 64" using 5 by auto
  ultimately show ?case using bs octet_arith(1-7) [of x y z w] by simp
qed auto

subsection \<open>Round trips\<close>

lemma those_map_Some: "(\<And>x. x \<in> set xs \<Longrightarrow> f (g x) = Some x) \<Longrightarrow> those (map f (map g xs)) = Some xs"
  by (induction xs) auto

lemma those_SomeD: "those ys = Some xs \<Longrightarrow> ys = map Some xs"
  by (induction ys arbitrary: xs) (auto split: option.splits)

lemma b64_encode_clean: "c \<in> set (b64_encode bs) \<Longrightarrow> \<not> is_newline c"
  by (auto simp: b64_encode_def dest: sextets_less)

lemma b64_decode_encode [simp, bytes_simps]: "b64_decode strict (b64_encode bs) = Some bs"
proof -
  have "filter (\<lambda>c. \<not> is_newline c) (b64_encode bs) = b64_encode bs"
    by (simp add: filter_id_conv b64_encode_clean)
  moreover have "those (map b64_value (b64_encode bs)) = Some (b64_sextets bs)"
    unfolding b64_encode_def by (rule those_map_Some) (auto dest: sextets_less)
  ultimately show ?thesis by (simp add: b64_decode_def octets_sextets)
qed

lemma b64_decode_strict_canonical:
  assumes "b64_decode True s = Some bs"
  shows "b64_encode bs = filter (\<lambda>c. \<not> is_newline c) s"
proof -
  let ?t = "filter (\<lambda>c. \<not> is_newline c) s"
  from assms obtain vs where vs: "those (map b64_value ?t) = Some vs" "b64_octets True vs = Some bs"
    by (auto simp: b64_decode_def split: option.splits)
  from vs(1) have m: "map b64_value ?t = map Some vs" by (rule those_SomeD)
  have "\<And>v. v \<in> set vs \<Longrightarrow> v < 64"
  proof -
    fix v assume "v \<in> set vs"
    then have "Some v \<in> set (map b64_value ?t)" by (simp add: m)
    then show "v < 64" by (auto dest!: b64_value_less [OF sym])
  qed
  with vs(2) have "b64_sextets bs = vs" by (rule sextets_octets)
  moreover have "map b64_digit vs = ?t"
  proof -
    have "map (map_option b64_digit) (map b64_value ?t) = map Some ?t"
      unfolding map_map
    proof (rule map_cong [OF refl])
      fix c assume "c \<in> set ?t"
      then have "b64_value c \<in> set (map Some vs)" unfolding m [symmetric] by simp
      then show "(map_option b64_digit \<circ> b64_value) c = Some c" by (auto dest: b64_digit_value)
    qed
    then have "map Some (map b64_digit vs) = map Some ?t" by (simp add: m comp_def)
    then show ?thesis by (simp only: inj_map_eq_map [OF inj_Some])
  qed
  ultimately show ?thesis by (simp add: b64_encode_def)
qed

subsection \<open>Canonical payload text (internal/model/payload_b64.go)\<close>

datatype PayloadEncodingPref = PayloadEncodingPrefBase64 | PayloadEncodingPrefBase64URL

text \<open>
  \<open>unicode.IsSpace\<close> on ASCII.  A rune outside ASCII makes \<open>DecodePayloadB64\<close> fail
  in any case, because none of its bytes is in the base64 alphabet.
\<close>

definition is_space :: "char \<Rightarrow> bool" where
  "is_space c \<longleftrightarrow> (let n = of_char c in 9 \<le> n \<and> n \<le> 13 \<or> n = (32 :: nat))"

text \<open>\<open>DecodePayloadB64\<close>: \<open>None\<close> stands for \<open>errInvalidPayloadB64\<close>, which wraps
  each of its four failures.\<close>

definition DecodePayloadB64 :: "string \<Rightarrow> bytes option" where
  "DecodePayloadB64 s =
     (if s = [] then None
      else if \<exists>c \<in> set s. is_space c then None
      else if CHR ''='' \<in> set s then None
      else b64_decode True s)"

definition NormalizePayloadB64 :: "string \<Rightarrow> string" where
  "NormalizePayloadB64 s = s"

definition DetectPayloadB64EncodingPref :: "string \<Rightarrow> PayloadEncodingPref" where
  "DetectPayloadB64EncodingPref s = PayloadEncodingPrefBase64URL"

definition EncodePayloadB64 :: "bytes \<Rightarrow> PayloadEncodingPref \<Rightarrow> string" where
  "EncodePayloadB64 b pref = b64_encode b"

lemma b64_encode_not_space: "c \<in> set (b64_encode bs) \<Longrightarrow> \<not> is_space c \<and> c \<noteq> CHR ''=''"
proof -
  assume "c \<in> set (b64_encode bs)"
  then obtain n where "c = b64_digit n" "n < 64" by (auto simp: b64_encode_def dest: sextets_less)
  then have "b64_value c = Some n" by simp
  then show ?thesis by (auto simp: b64_value_def is_space_def Let_def split: if_splits)
qed

lemma newline_is_space: "is_newline c \<Longrightarrow> is_space c"
  by (auto simp: is_newline_def is_space_def)

subsection \<open>Properties\<close>

text \<open>
  Payload text is canonical: \<open>DecodePayloadB64\<close> accepts a string and returns
  \<open>b\<close> exactly when the string is non-empty and is the encoding of \<open>b\<close> by
  \<open>EncodePayloadB64\<close>.  Hence decoding what was encoded gives the bytes back, and no two
  accepted strings stand for the same bytes.
\<close>

lemma payload_b64_canonical:
  "DecodePayloadB64 s = Some b \<longleftrightarrow> s \<noteq> [] \<and> s = EncodePayloadB64 b pref"
proof
  assume a: "DecodePayloadB64 s = Some b"
  then have "\<forall>c \<in> set s. \<not> is_newline c" and ne: "s \<noteq> []" and d: "b64_decode True s = Some b"
    using newline_is_space by (auto simp: DecodePayloadB64_def split: if_splits)
  with b64_decode_strict_canonical [OF d] show "s \<noteq> [] \<and> s = EncodePayloadB64 b pref"
    by (simp add: EncodePayloadB64_def)
next
  assume "s \<noteq> [] \<and> s = EncodePayloadB64 b pref"
  then show "DecodePayloadB64 s = Some b"
    by (auto simp: DecodePayloadB64_def EncodePayloadB64_def dest: b64_encode_not_space)
qed

end
