(* ===== verification/Transfer_Objects.thy ===== *)
theory Transfer_Objects
  imports Gossip_Values Base64 Sha256 "HOL-Library.Multiset"
begin

text \<open>
  Content-addressed transfer objects of \<^verbatim>\<open>internal/gossipv1/protocol.go\<close>: decoding and
  checking the signed item envelope, computing item ids, parsing one transfer object with its
  diagnostics, and splitting the objects of a TRANSFER frame into accepted and rejected ones.
\<close>

abbreviation (input) MaxTransferItems :: nat where "MaxTransferItems \<equiv> 32"
abbreviation (input) MaxTransferBytes :: nat where "MaxTransferBytes \<equiv> 524288"

record ItemEnvelope =
  From :: string
  To :: string
  PayloadB64 :: string
  CreatedAt :: int
  ExpiresAt :: int
  ManifestID :: string
  AuthorSig :: bytes

record TransferObject =
  ItemID :: string
  EnvelopeB64 :: string
  ExpiryUnixMS :: u64
  HopCount :: u64
  Envelope :: ItemEnvelope

record TransferObjectDiagnostics =
  Base64URLDecodeOK :: bool
  DecodedByteLen :: nat
  DecodedFirstByteHex :: string
  DecodedBytesDigest :: string
  CBORDecodeOK :: bool
  CanonicalReencodeMatch :: bool
  CanonicalReencodeDigest :: string
  ItemIDMatchesDecodedBytes :: bool

text \<open>The detail texts of a rejection; \<open>ErrDetail\<close> is the text of an error of the package.\<close>

datatype transfer_detail =
    ErrDetail gerr
  | UnknownTransferField
  | ItemIdNotDigest
  | CborDecodeDetail
  | ReencodeDetail
  | NotCanonicalDetail
  | HopCountDetail
  | ItemIdMismatchDetail
  | NotMapDetail "string list"
  | TooManyBytesDetail u64
  | DuplicateItemDetail

record transferParseError =
  reason :: string
  detail :: transfer_detail
  diagnostic :: "TransferObjectDiagnostics option"

record TransferObjectRejection =
  RIndex :: u64
  RID :: string
  Reason :: string
  Detail :: transfer_detail
  Diagnostic :: "TransferObjectDiagnostics option"

record IndexedTransferObject =
  Index :: u64
  Object :: TransferObject

record ParsedTransferPayload =
  Objects :: "IndexedTransferObject list"
  Rejected :: "TransferObjectRejection list"

subsection \<open>Envelope bytes and item ids\<close>

definition decodeBase64URLRaw :: "string \<Rightarrow> gerr + bytes" where
  "decodeBase64URLRaw value =
     (if value = [] then Inl (EnvelopeErr EnvelopeB64Empty)
      else if CHR ''='' \<in> set value then Inl (EnvelopeErr EnvelopeB64Padded)
      else case b64_decode True value of
             None \<Rightarrow> Inl (EnvelopeErr EnvelopeB64Invalid)
           | Some decoded \<Rightarrow>
               if decoded = [] then Inl (EnvelopeErr EnvelopeB64NoBytes) else Inr decoded)"

definition isCanonicalCBOR :: "wire_env \<Rightarrow> bytes \<Rightarrow> bool" where
  "isCanonicalCBOR env encoded = (case cbor_any env encoded of
     None \<Rightarrow> False
   | Some decoded \<Rightarrow> (case cbor_marshal env decoded of
       None \<Rightarrow> False
     | Some reencoded \<Rightarrow> encoded = reencoded))"

text \<open>\<open>canonicalItemEnvelope\<close>, \<open>canonicalTransferEnvelope\<close> and
  \<open>canonicalTransferSigningPayload\<close> as the maps of their tagged fields.\<close>

definition item_envelope_fields :: "string \<Rightarrow> string \<Rightarrow> string \<Rightarrow> int \<Rightarrow> int \<Rightarrow> goval" where
  "item_envelope_fields from to payloadB64 createdAt expiresAt = GMapS
     [(''from'', GStr from), (''to'', GStr to), (''payload_b64'', GStr payloadB64),
      (''created_at'', GSint K64 createdAt), (''expires_at'', GSint K64 expiresAt)]"

definition transfer_envelope_fields :: "bytes \<Rightarrow> bytes \<Rightarrow> bytes \<Rightarrow> bytes \<Rightarrow> bytes \<Rightarrow> gomap" where
  "transfer_envelope_fields toBytes manifestBytes body authorPubKey authorSig =
     [(''to_wayfarer_id'', GBytes toBytes), (''manifest_id'', GBytes manifestBytes), (''body'', GBytes body),
      (''author_pubkey'', GBytes authorPubKey), (''author_sig'', GBytes authorSig)]"

definition signing_payload_fields :: "bytes \<Rightarrow> bytes \<Rightarrow> bytes \<Rightarrow> goval" where
  "signing_payload_fields toWayfarerID manifestID body = GMapS
     [(''to_wayfarer_id'', GBytes toWayfarerID), (''manifest_id'', GBytes manifestID), (''body'', GBytes body)]"

text \<open>\<open>mustCanonicalItemEnvelopeBytes\<close>; \<open>None\<close> is the panic of a failed encoding.\<close>

definition mustCanonicalItemEnvelopeBytes ::
  "wire_env \<Rightarrow> string \<Rightarrow> string \<Rightarrow> string \<Rightarrow> int \<Rightarrow> int \<Rightarrow> bytes option" where
  "mustCanonicalItemEnvelopeBytes env from to payloadB64 createdAt expiresAt =
     cbor_marshal env (item_envelope_fields from to payloadB64 createdAt expiresAt)"

definition ComputeItemID :: "wire_env \<Rightarrow> string \<Rightarrow> string \<Rightarrow> string \<Rightarrow> int \<Rightarrow> int \<Rightarrow> string option" where
  "ComputeItemID env from to payloadB64 createdAt expiresAt =
     map_option (\<lambda>envelopeBytes. hex_encode (sha256 envelopeBytes))
       (mustCanonicalItemEnvelopeBytes env from to payloadB64 createdAt expiresAt)"

definition ComputeTransferObjectItemID :: "TransferObject \<Rightarrow> string" where
  "ComputeTransferObjectItemID object =
     (case decodeBase64URLRaw (EnvelopeB64 object) of
        Inl _ \<Rightarrow> []
      | Inr envelopeBytes \<Rightarrow> hex_encode (sha256 envelopeBytes))"

definition EncodeItemEnvelopeB64 ::
  "wire_env \<Rightarrow> string \<Rightarrow> string \<Rightarrow> string \<Rightarrow> int \<Rightarrow> int \<Rightarrow> gerr + string" where
  "EncodeItemEnvelopeB64 env from to payloadB64 createdAt expiresAt =
     (case cbor_marshal env (item_envelope_fields from to payloadB64 createdAt expiresAt) of
        None \<Rightarrow> Inl (EnvelopeErr CborEncodeFailed)
      | Some encoded \<Rightarrow> Inr (b64_encode encoded))"

definition EncodeTransferEnvelopeB64 ::
  "wire_env \<Rightarrow> string \<Rightarrow> string \<Rightarrow> string \<Rightarrow> bytes \<Rightarrow> bytes \<Rightarrow> gerr + string" where
  "EncodeTransferEnvelopeB64 env toWayfarerIDHex manifestIDHex bodyB64 authorPubKey authorSig =
     bindE (decodeDigestHexBytes toWayfarerIDHex) (\<lambda>toBytes.
     bindE (decodeDigestHexBytes manifestIDHex) (\<lambda>manifestBytes.
     bindE (decodeBase64URLRaw bodyB64) (\<lambda>body.
     bindE (guardE (length authorPubKey = 32) (FieldErr MustBe32Bytes ''author_pubkey'')) (\<lambda>_.
     bindE (guardE (length authorSig = 64) (FieldErr MustBe64Bytes ''author_sig'')) (\<lambda>_.
     case cbor_marshal env (GMapS (transfer_envelope_fields toBytes manifestBytes body authorPubKey authorSig)) of
       None \<Rightarrow> Inl (EnvelopeErr CborEncodeFailed)
     | Some encoded \<Rightarrow> Inr (b64_encode encoded))))))"

text \<open>The bytes the author signs: the digest of the domain and the canonical signing payload.\<close>

definition signature_digest :: "bytes \<Rightarrow> bytes" where
  "signature_digest signingPayload = sha256 (''AETHOS_ENVELOPE_V1'' @ signingPayload)"

definition parseCanonicalItemEnvelope :: "wire_env \<Rightarrow> bytes \<Rightarrow> gerr + ItemEnvelope" where
  "parseCanonicalItemEnvelope env encoded = (case cbor_map env encoded of
     None \<Rightarrow> Inl (EnvelopeErr CborInvalid)
   | Some payload \<Rightarrow>
     bindE (guardE (only_fields [''to_wayfarer_id'', ''manifest_id'', ''body'', ''author_pubkey'', ''author_sig''] payload)
              (EnvelopeErr UnknownEnvelopeField)) (\<lambda>_.
     bindE (parseBytes payload ''to_wayfarer_id'') (\<lambda>toWayfarerID.
     bindE (guardE (length toWayfarerID = DigestHexBytes) (FieldErr MustBe32Bytes ''to_wayfarer_id'')) (\<lambda>_.
     bindE (parseBytes payload ''manifest_id'') (\<lambda>manifestID.
     bindE (guardE (length manifestID = DigestHexBytes) (FieldErr MustBe32Bytes ''manifest_id'')) (\<lambda>_.
     bindE (parseBytes payload ''body'') (\<lambda>body.
     bindE (parseBytes payload ''author_pubkey'') (\<lambda>authorPubKey.
     bindE (guardE (length authorPubKey = 32) (FieldErr MustBe32Bytes ''author_pubkey'')) (\<lambda>_.
     bindE (parseBytes payload ''author_sig'') (\<lambda>authorSig.
     bindE (guardE (length authorSig = 64) (FieldErr MustBe64Bytes ''author_sig'')) (\<lambda>_.
     case cbor_marshal env (signing_payload_fields toWayfarerID manifestID body) of
       None \<Rightarrow> Inl (EnvelopeErr CborEncodeFailed)
     | Some signingPayload \<Rightarrow>
         if \<not> ed25519_verify env authorPubKey (signature_digest signingPayload) authorSig
         then Inl (EnvelopeErr InvalidEnvelopeSignature)
         else Inr \<lparr>From = hex_encode (sha256 authorPubKey), To = hex_encode toWayfarerID,
                   PayloadB64 = b64_encode body, CreatedAt = 0, ExpiresAt = 0,
                   ManifestID = hex_encode manifestID, AuthorSig = authorSig\<rparr>)))))))))))"

definition DecodeItemEnvelopeB64 :: "wire_env \<Rightarrow> string \<Rightarrow> gerr + ItemEnvelope" where
  "DecodeItemEnvelopeB64 env envelopeB64 =
     bindE (decodeBase64URLRaw envelopeB64) (\<lambda>envelopeBytes. parseCanonicalItemEnvelope env envelopeBytes)"

definition shortDigestHex :: "bytes \<Rightarrow> string" where
  "shortDigestHex data = (if data = [] then [] else hex_encode (take 6 (sha256 data)))"

subsection \<open>One transfer object\<close>

definition transferObjectItemIDFromMap :: "gomap \<Rightarrow> string" where
  "transferObjectItemIDFromMap payload = (case map_of payload ''item_id'' of
     Some (GStr itemID) \<Rightarrow> itemID
   | _ \<Rightarrow> [])"

definition newTransferParseError ::
  "string \<Rightarrow> transfer_detail \<Rightarrow> TransferObjectDiagnostics option \<Rightarrow> transferParseError" where
  "newTransferParseError r d diag = \<lparr>reason = r, detail = d, diagnostic = diag\<rparr>"

text \<open>
  \<open>classifyTransferFieldError\<close> looks for the word \<open>missing\<close> in the text of the error; of
  the texts of the field readers only the one of \<open>Missing\<close> has it.
\<close>

definition is_missing :: "gerr \<Rightarrow> bool" where
  "is_missing err = (case err of FieldErr issue _ \<Rightarrow> issue = Missing | _ \<Rightarrow> False)"

definition classifyTransferFieldError :: "string \<Rightarrow> gerr \<Rightarrow> transferParseError" where
  "classifyTransferFieldError field err = newTransferParseError
     (if is_missing err \<and> field = ''item_id'' then ''missing_item_id''
      else if is_missing err \<and> field = ''envelope_b64'' then ''missing_envelope_b64''
      else if field = ''item_id'' then ''invalid_item_id''
      else if field = ''envelope_b64'' then ''invalid_envelope_encoding''
      else if field = ''expiry_unix_ms'' then ''invalid_expiry_unix_ms''
      else if field = ''hop_count'' then ''invalid_hop_count''
      else ''unknown_parse_error'') (ErrDetail err) None"

abbreviation no_diagnostic :: TransferObjectDiagnostics where
  "no_diagnostic \<equiv> \<lparr>Base64URLDecodeOK = False, DecodedByteLen = 0, DecodedFirstByteHex = [],
     DecodedBytesDigest = [], CBORDecodeOK = False, CanonicalReencodeMatch = False,
     CanonicalReencodeDigest = [], ItemIDMatchesDecodedBytes = False\<rparr>"

text \<open>The diagnostic once the base64 text has decoded.\<close>

definition decoded_diagnostic :: "string \<Rightarrow> bytes \<Rightarrow> TransferObjectDiagnostics" where
  "decoded_diagnostic itemID envelopeBytes = no_diagnostic
     \<lparr>Base64URLDecodeOK := True, DecodedByteLen := length envelopeBytes,
      DecodedFirstByteHex := (if length envelopeBytes > 0 then hex_encode [hd envelopeBytes] else []),
      DecodedBytesDigest := shortDigestHex envelopeBytes,
      ItemIDMatchesDecodedBytes := (isDigestHex itemID \<and> itemID = hex_encode (sha256 envelopeBytes))\<rparr>"

text \<open>The part of \<open>parseTransferObject\<close> that checks the decoded envelope bytes.\<close>

definition check_envelope_bytes ::
  "wire_env \<Rightarrow> string \<Rightarrow> bytes \<Rightarrow> transferParseError + (ItemEnvelope \<times> TransferObjectDiagnostics)" where
  "check_envelope_bytes env itemID envelopeBytes =
     (case cbor_any env envelopeBytes of
        None \<Rightarrow> Inl (newTransferParseError ''invalid_envelope_encoding'' CborDecodeDetail
                  (Some (decoded_diagnostic itemID envelopeBytes)))
      | Some decodedEnvelope \<Rightarrow> (case cbor_marshal env decodedEnvelope of
          None \<Rightarrow> Inl (newTransferParseError ''invalid_envelope_encoding'' ReencodeDetail
                    (Some (decoded_diagnostic itemID envelopeBytes\<lparr>CBORDecodeOK := True\<rparr>)))
        | Some reencodedEnvelope \<Rightarrow>
            if envelopeBytes \<noteq> reencodedEnvelope
            then Inl (newTransferParseError ''invalid_envelope_encoding'' NotCanonicalDetail
                   (Some (decoded_diagnostic itemID envelopeBytes
                      \<lparr>CBORDecodeOK := True, CanonicalReencodeDigest := shortDigestHex reencodedEnvelope\<rparr>)))
            else (case parseCanonicalItemEnvelope env envelopeBytes of
                Inl err \<Rightarrow> Inl (newTransferParseError ''policy_reject'' (ErrDetail err)
                   (Some (decoded_diagnostic itemID envelopeBytes
                      \<lparr>CBORDecodeOK := True, CanonicalReencodeMatch := True\<rparr>)))
              | Inr envelope \<Rightarrow> Inr (envelope, decoded_diagnostic itemID envelopeBytes
                      \<lparr>CBORDecodeOK := True, CanonicalReencodeMatch := True\<rparr>))))"

definition parseTransferObject :: "wire_env \<Rightarrow> gomap \<Rightarrow> transferParseError + TransferObject" where
  "parseTransferObject env payload =
     bindE (guardE (only_fields [''item_id'', ''envelope_b64'', ''expiry_unix_ms'', ''hop_count''] payload)
              (newTransferParseError ''unknown_parse_error'' UnknownTransferField None)) (\<lambda>_.
     bindE (mapErr (classifyTransferFieldError ''item_id'') (parseString payload ''item_id'')) (\<lambda>itemID.
     bindE (guardE (isDigestHex itemID)
              (newTransferParseError ''invalid_item_id'' ItemIdNotDigest None)) (\<lambda>_.
     bindE (mapErr (classifyTransferFieldError ''envelope_b64'') (parseString payload ''envelope_b64'')) (\<lambda>envelopeB64.
     bindE (mapErr (\<lambda>err. newTransferParseError ''invalid_envelope_encoding'' (ErrDetail err)
                            (Some no_diagnostic)) (decodeBase64URLRaw envelopeB64)) (\<lambda>envelopeBytes.
     bindE (check_envelope_bytes env itemID envelopeBytes) (\<lambda>(envelope, diag).
     bindE (mapErr (classifyTransferFieldError ''expiry_unix_ms'') (parseUint payload ''expiry_unix_ms'')) (\<lambda>expiryUnixMS.
     bindE (mapErr (classifyTransferFieldError ''hop_count'') (parseUint payload ''hop_count'')) (\<lambda>hopCount.
     bindE (guardE (hopCount \<le> 65535)
              (newTransferParseError ''invalid_hop_count'' HopCountDetail None)) (\<lambda>_.
     bindE (guardE (hex_encode (sha256 envelopeBytes) = itemID)
              (newTransferParseError ''invalid_item_id'' ItemIdMismatchDetail (Some diag))) (\<lambda>_.
     Inr \<lparr>ItemID = itemID, EnvelopeB64 = envelopeB64, ExpiryUnixMS = expiryUnixMS, HopCount = hopCount,
          Envelope = \<lparr>From = From envelope, To = To envelope, PayloadB64 = PayloadB64 envelope,
            CreatedAt = CreatedAt envelope, ExpiresAt = ExpiresAt envelope, ManifestID = [],
            AuthorSig = []\<rparr>\<rparr>))))))))))"

subsection \<open>A TRANSFER frame\<close>

text \<open>
  The verdict on the candidate at index \<open>idx\<close>, with the ids accepted so far and the running
  byte count: the new count and either a rejection or the object.
\<close>

definition judge_candidate ::
  "wire_env \<Rightarrow> u64 \<Rightarrow> string set \<Rightarrow> u64 \<Rightarrow> goval \<Rightarrow> u64 \<times> (TransferObjectRejection + TransferObject)" where
  "judge_candidate env idx seenIDs transferBytes candidate = (case coerceStringMap candidate of
     None \<Rightarrow> (transferBytes, Inl \<lparr>RIndex = idx, RID = [], Reason = ''unknown_parse_error'',
                Detail = NotMapDetail (mapKeys candidate), Diagnostic = None\<rparr>)
   | Some objMap \<Rightarrow> (case parseTransferObject env objMap of
       Inl parseErr \<Rightarrow> (transferBytes, Inl \<lparr>RIndex = idx, RID = transferObjectItemIDFromMap objMap,
                Reason = reason parseErr, Detail = detail parseErr, Diagnostic = diagnostic parseErr\<rparr>)
     | Inr obj \<Rightarrow> (case decodeBase64URLRaw (EnvelopeB64 obj) of
         Inl err \<Rightarrow> (transferBytes, Inl \<lparr>RIndex = idx, RID = ItemID obj,
                Reason = ''invalid_envelope_encoding'', Detail = ErrDetail err, Diagnostic = None\<rparr>)
       | Inr decodedEnvelope \<Rightarrow>
           (let transferBytes = transferBytes + of_nat (length decodedEnvelope)
            in (transferBytes,
                if transferBytes > of_nat MaxTransferBytes
                then Inl \<lparr>RIndex = idx, RID = ItemID obj, Reason = ''policy_reject'',
                       Detail = TooManyBytesDetail transferBytes, Diagnostic = None\<rparr>
                else if ItemID obj \<in> seenIDs
                then Inl \<lparr>RIndex = idx, RID = ItemID obj, Reason = ''duplicate_item'',
                       Detail = DuplicateItemDetail, Diagnostic = None\<rparr>
                else Inr obj)))))"

fun transfer_loop ::
  "wire_env \<Rightarrow> u64 \<Rightarrow> string set \<Rightarrow> u64 \<Rightarrow> goval list \<Rightarrow> ParsedTransferPayload \<Rightarrow> ParsedTransferPayload" where
  "transfer_loop env idx seenIDs transferBytes [] parsed = parsed"
| "transfer_loop env idx seenIDs transferBytes (candidate # rest) parsed =
     (case judge_candidate env idx seenIDs transferBytes candidate of
        (transferBytes', Inl rejection) \<Rightarrow>
          transfer_loop env (idx + 1) seenIDs transferBytes' rest
            (parsed\<lparr>Rejected := Rejected parsed @ [rejection]\<rparr>)
      | (transferBytes', Inr obj) \<Rightarrow>
          transfer_loop env (idx + 1) (insert (ItemID obj) seenIDs) transferBytes' rest
            (parsed\<lparr>Objects := Objects parsed @ [\<lparr>Index = idx, Object = obj\<rparr>]\<rparr>))"

definition ParseTransferPayloadMixed :: "wire_env \<Rightarrow> gomap option \<Rightarrow> gerr + ParsedTransferPayload" where
  "ParseTransferPayloadMixed env payload_opt = (case payload_opt of
     None \<Rightarrow> Inl (PayloadRequired ''transfer'')
   | Some payload \<Rightarrow>
       bindE (guardE (only_fields [''objects''] payload) (UnknownField ''transfer'')) (\<lambda>_.
       case map_of payload ''objects'' of
         None \<Rightarrow> Inl (FieldErr Missing ''objects'')
       | Some rawObjects \<Rightarrow> (case coerceAnySlice rawObjects of
           None \<Rightarrow> Inl (FieldErr MustBeArray ''objects'')
         | Some objectsAny \<Rightarrow>
             bindE (guardE (length objectsAny \<le> MaxTransferItems) (FieldErr ExceedsLimit ''objects'')) (\<lambda>_.
             Inr (transfer_loop env 0 {} 0 objectsAny \<lparr>Objects = [], Rejected = []\<rparr>)))))"

subsection \<open>Facts about one object\<close>

text \<open>What a verified envelope is: the fields it was parsed from and the signature check.\<close>

definition verified_envelope :: "wire_env \<Rightarrow> ItemEnvelope \<Rightarrow> bool" where
  "verified_envelope env e \<longleftrightarrow> (\<exists>authorPubKey toWayfarerID manifestID body authorSig signingPayload.
     length authorPubKey = 32 \<and> length toWayfarerID = 32 \<and> length manifestID = 32 \<and> length authorSig = 64 \<and>
     cbor_marshal env (signing_payload_fields toWayfarerID manifestID body) = Some signingPayload \<and>
     ed25519_verify env authorPubKey (signature_digest signingPayload) authorSig \<and>
     From e = hex_encode (sha256 authorPubKey) \<and> To e = hex_encode toWayfarerID \<and>
     PayloadB64 e = b64_encode body)"

lemma parseCanonicalItemEnvelope_verified:
  assumes "parseCanonicalItemEnvelope env encoded = Inr e"
  shows "verified_envelope env e"
proof -
  from assms obtain authorPubKey toWayfarerID manifestID body authorSig signingPayload where
    "length authorPubKey = 32" "length toWayfarerID = 32" "length manifestID = 32" "length authorSig = 64"
    "cbor_marshal env (signing_payload_fields toWayfarerID manifestID body) = Some signingPayload"
    "ed25519_verify env authorPubKey (signature_digest signingPayload) authorSig"
    "e = \<lparr>From = hex_encode (sha256 authorPubKey), To = hex_encode toWayfarerID,
          PayloadB64 = b64_encode body, CreatedAt = 0, ExpiresAt = 0,
          ManifestID = hex_encode manifestID, AuthorSig = authorSig\<rparr>"
    by (auto simp: parseCanonicalItemEnvelope_def split: option.splits if_splits)
  then show ?thesis unfolding verified_envelope_def by (intro exI conjI) simp_all
qed

lemma check_envelope_bytes_ok:
  assumes "check_envelope_bytes env itemID bs = Inr (e, diag)"
  shows "isCanonicalCBOR env bs" and "parseCanonicalItemEnvelope env bs = Inr e"
  using assms by (auto simp: check_envelope_bytes_def isCanonicalCBOR_def
      split: option.splits if_splits sum.splits)

text \<open>What \<open>parseTransferObject\<close> guarantees of an object it accepts.\<close>

definition valid_object :: "wire_env \<Rightarrow> TransferObject \<Rightarrow> bool" where
  "valid_object env obj \<longleftrightarrow> (\<exists>bs. decodeBase64URLRaw (EnvelopeB64 obj) = Inr bs \<and>
     ItemID obj = hex_encode (sha256 bs) \<and> isCanonicalCBOR env bs \<and> HopCount obj \<le> 65535 \<and>
     verified_envelope env (Envelope obj))"

lemma parseTransferObject_valid:
  assumes "parseTransferObject env payload = Inr obj"
  shows "valid_object env obj"
proof -
  from assms obtain itemID bs e diag where
    d: "decodeBase64URLRaw (EnvelopeB64 obj) = Inr bs"
    and c: "check_envelope_bytes env itemID bs = Inr (e, diag)"
    and i: "ItemID obj = hex_encode (sha256 bs)" "HopCount obj \<le> 65535"
    and e: "From (Envelope obj) = From e" "To (Envelope obj) = To e" "PayloadB64 (Envelope obj) = PayloadB64 e"
    by (auto simp: parseTransferObject_def)
  note ce = check_envelope_bytes_ok [OF c]
  from parseCanonicalItemEnvelope_verified [OF ce(2)] have "verified_envelope env (Envelope obj)"
    by (simp add: verified_envelope_def e)
  with d i ce(1) show ?thesis by (auto simp: valid_object_def)
qed

lemma parseTransferObject_computed_id:
  assumes "valid_object env obj"
  shows "ComputeTransferObjectItemID obj = ItemID obj" and "isDigestHex (ItemID obj)"
  using assms by (auto simp: valid_object_def ComputeTransferObjectItemID_def length_sha256)

subsection \<open>Facts about a frame\<close>

text \<open>The decoded size a candidate adds to the byte count.\<close>

definition envelope_size :: "wire_env \<Rightarrow> goval \<Rightarrow> nat" where
  "envelope_size env candidate = (case coerceStringMap candidate of
     None \<Rightarrow> 0
   | Some objMap \<Rightarrow> (case parseTransferObject env objMap of
       Inl _ \<Rightarrow> 0
     | Inr obj \<Rightarrow> (case decodeBase64URLRaw (EnvelopeB64 obj) of Inl _ \<Rightarrow> 0 | Inr bs \<Rightarrow> length bs)))"

definition object_size :: "TransferObject \<Rightarrow> nat" where
  "object_size obj = (case decodeBase64URLRaw (EnvelopeB64 obj) of Inl _ \<Rightarrow> 0 | Inr bs \<Rightarrow> length bs)"

lemma judge_candidate_count:
  assumes "judge_candidate env idx seen tb c = (tb', r)"
  shows "tb' = tb + of_nat (envelope_size env c)"
  using assms by (auto simp: judge_candidate_def envelope_size_def Let_def split: option.splits sum.splits)

lemma judge_candidate_reject:
  assumes "judge_candidate env idx seen tb c = (tb', Inl rj)"
  shows "RIndex rj = idx"
  using assms by (auto simp: judge_candidate_def Let_def split: option.splits sum.splits if_splits)

lemma judge_candidate_accept:
  assumes "judge_candidate env idx seen tb c = (tb', Inr obj)"
  shows "valid_object env obj" and "ItemID obj \<notin> seen" and "tb' \<le> of_nat MaxTransferBytes"
    and "object_size obj = envelope_size env c"
  using assms
  by (auto simp: judge_candidate_def envelope_size_def object_size_def Let_def parseTransferObject_valid
      split: option.splits sum.splits if_splits)

text \<open>The invariant of the loop, over the objects collected so far.\<close>

definition frame_inv :: "wire_env \<Rightarrow> nat \<Rightarrow> string set \<Rightarrow> u64 \<Rightarrow> ParsedTransferPayload \<Rightarrow> bool" where
  "frame_inv env n seen tb parsed \<longleftrightarrow>
     seen = (\<lambda>io. ItemID (Object io)) ` set (Objects parsed) \<and>
     list_all (\<lambda>io. valid_object env (Object io)) (Objects parsed) \<and>
     distinct (map (\<lambda>io. ItemID (Object io)) (Objects parsed)) \<and>
     sum_list (map (\<lambda>io. object_size (Object io)) (Objects parsed)) \<le> min MaxTransferBytes (unat tb) \<and>
     mset (map Index (Objects parsed)) + mset (map RIndex (Rejected parsed)) = mset (map of_nat [0..<n])"

lemma unat_add_of_nat: "unat tb + n < 2 ^ 64 \<Longrightarrow> unat (tb + of_nat n :: u64) = unat tb + n"
  by (simp add: unat_word_ariths unat_of_nat)

lemma frame_inv_accept:
  assumes "frame_inv env n seen tb parsed" and "judge_candidate env (of_nat n) seen tb c = (tb', Inr obj)"
    and "unat tb + envelope_size env c < 2 ^ 64"
  shows "frame_inv env (Suc n) (insert (ItemID obj) seen) tb'
           (parsed\<lparr>Objects := Objects parsed @ [\<lparr>Index = of_nat n, Object = obj\<rparr>]\<rparr>)"
proof -
  note j = judge_candidate_accept [OF assms(2)]
  have tb': "unat tb' = unat tb + envelope_size env c"
    using judge_candidate_count [OF assms(2)] unat_add_of_nat [OF assms(3)] by simp
  moreover have "unat tb' \<le> MaxTransferBytes"
    using j(3) by (simp add: word_le_nat_alt)
  ultimately show ?thesis
    using assms(1) j by (auto simp: frame_inv_def)
qed

lemma frame_inv_reject:
  assumes "frame_inv env n seen tb parsed" and "judge_candidate env (of_nat n) seen tb c = (tb', Inl rj)"
    and "unat tb + envelope_size env c < 2 ^ 64"
  shows "frame_inv env (Suc n) seen tb' (parsed\<lparr>Rejected := Rejected parsed @ [rj]\<rparr>)"
proof -
  have "unat tb' = unat tb + envelope_size env c"
    using judge_candidate_count [OF assms(2)] unat_add_of_nat [OF assms(3)] by simp
  then show ?thesis
    using assms(1) judge_candidate_reject [OF assms(2)] by (auto simp: frame_inv_def)
qed

lemma transfer_loop_inv:
  assumes "frame_inv env n seen tb parsed" and "unat tb + sum_list (map (envelope_size env) cs) < 2 ^ 64"
  shows "\<exists>seen' tb'. frame_inv env (n + length cs) seen' tb'
           (transfer_loop env (of_nat n) seen tb cs parsed)"
  using assms
proof (induction cs arbitrary: n seen tb parsed)
  case Nil
  then show ?case by auto
next
  case (Cons c cs)
  obtain tb' r where j: "judge_candidate env (of_nat n) seen tb c = (tb', r)" by fastforce
  have b: "unat tb + envelope_size env c < 2 ^ 64" using Cons.prems(2) by simp
  have tb': "unat tb' = unat tb + envelope_size env c"
    using judge_candidate_count [OF j] unat_add_of_nat [OF b] by simp
  have suc: "(of_nat n + 1 :: u64) = of_nat (Suc n)" by simp
  show ?case
  proof (cases r)
    case (Inl rj)
    then show ?thesis
      using Cons.IH [OF frame_inv_reject [OF Cons.prems(1) j [unfolded Inl] b]] Cons.prems(2) j
      by (simp add: tb' add.assoc add.commute [of 1])
  next
    case (Inr obj)
    then show ?thesis
      using Cons.IH [OF frame_inv_accept [OF Cons.prems(1) j [unfolded Inr] b]] Cons.prems(2) j
      by (simp add: tb' add.assoc add.commute [of 1])
  qed
qed

lemma ParseTransferPayloadMixed_ok:
  assumes "ParseTransferPayloadMixed env payload = Inr parsed"
  obtains p raw objs where "payload = Some p" "map_of p ''objects'' = Some raw"
    "coerceAnySlice raw = Some objs" "length objs \<le> MaxTransferItems"
    "parsed = transfer_loop env 0 {} 0 objs \<lparr>Objects = [], Rejected = []\<rparr>"
  using assms by (auto simp: ParseTransferPayloadMixed_def split: option.splits)

lemma transfer_loop_objects:
  assumes "io \<in> set (Objects (transfer_loop env idx seen tb cs parsed))"
  shows "io \<in> set (Objects parsed) \<or> valid_object env (Object io)"
  using assms
proof (induction cs arbitrary: idx seen tb parsed)
  case Nil
  then show ?case by auto
next
  case (Cons c cs)
  obtain tb' r where j: "judge_candidate env idx seen tb c = (tb', r)" by fastforce
  with Cons judge_candidate_accept(1) [of env idx seen tb c tb'] show ?case
    by (cases r) fastforce+
qed

lemma transfer_loop_distinct:
  assumes "distinct (map (\<lambda>io. ItemID (Object io)) (Objects parsed))"
    and "(\<lambda>io. ItemID (Object io)) ` set (Objects parsed) \<subseteq> seen"
  shows "distinct (map (\<lambda>io. ItemID (Object io)) (Objects (transfer_loop env idx seen tb cs parsed)))"
  using assms
proof (induction cs arbitrary: idx seen tb parsed)
  case (Cons c cs)
  obtain tb' r where j: "judge_candidate env idx seen tb c = (tb', r)" by fastforce
  show ?case
  proof (cases r)
    case (Inl rj)
    with Cons j show ?thesis by simp
  next
    case (Inr obj)
    have new: "ItemID obj \<notin> seen" using j Inr judge_candidate_accept(2) by blast
    let ?parsed = "parsed\<lparr>Objects := Objects parsed @ [\<lparr>Index = idx, Object = obj\<rparr>]\<rparr>"
    from new Cons.prems have "distinct (map (\<lambda>io. ItemID (Object io)) (Objects ?parsed))"
      "(\<lambda>io. ItemID (Object io)) ` set (Objects ?parsed) \<subseteq> insert (ItemID obj) seen" by auto
    from Cons.IH [OF this] Inr j show ?thesis by simp
  qed
qed simp

lemma parsed_ids_distinct:
  "ParseTransferPayloadMixed env payload = Inr parsed \<Longrightarrow> distinct (map (\<lambda>io. ItemID (Object io)) (Objects parsed))"
  by (erule ParseTransferPayloadMixed_ok) (simp add: transfer_loop_distinct)

subsection \<open>Properties\<close>

text \<open>
  Claim C7. Every object that \<open>ParseTransferPayloadMixed\<close> accepts is content-addressed and
  authentic: its item id is the SHA-256 of its decoded envelope bytes, those bytes are canonical
  CBOR, its hop count fits 16 bits, and its sender is the digest of a public key whose signature over
  recipient, manifest and body verified.
\<close>

theorem transfer_objects_authentic:
  assumes "ParseTransferPayloadMixed env payload = Inr parsed" and "io \<in> set (Objects parsed)"
  shows "\<exists>bs authorPubKey toWayfarerID manifestID body authorSig signingPayload.
    decodeBase64URLRaw (EnvelopeB64 (Object io)) = Inr bs \<and>
    ItemID (Object io) = hex_encode (sha256 bs) \<and>
    ComputeTransferObjectItemID (Object io) = ItemID (Object io) \<and>
    isCanonicalCBOR env bs \<and> HopCount (Object io) \<le> 65535 \<and>
    cbor_marshal env (signing_payload_fields toWayfarerID manifestID body) = Some signingPayload \<and>
    ed25519_verify env authorPubKey (signature_digest signingPayload) authorSig \<and>
    From (Envelope (Object io)) = hex_encode (sha256 authorPubKey) \<and>
    To (Envelope (Object io)) = hex_encode toWayfarerID \<and>
    PayloadB64 (Envelope (Object io)) = b64_encode body"
proof -
  from assms(1) obtain objs where "parsed = transfer_loop env 0 {} 0 objs \<lparr>Objects = [], Rejected = []\<rparr>"
    by (rule ParseTransferPayloadMixed_ok)
  with assms(2) transfer_loop_objects [of io env 0 "{}" 0 objs "\<lparr>Objects = [], Rejected = []\<rparr>"]
  have v: "valid_object env (Object io)" by simp
  then show ?thesis
    using parseTransferObject_computed_id(1) [OF v]
    unfolding valid_object_def verified_envelope_def by blast
qed

text \<open>
  A frame with one valid object and one candidate that is not a map, under a codec that keeps byte
  strings as they are and a signature check that accepts every signature.
\<close>

definition sample_env :: wire_env where
  "sample_env = \<lparr>cbor_any = (\<lambda>bs. Some (GBytes bs)),
     cbor_map = (\<lambda>bs. Some (transfer_envelope_fields (replicate 32 NUL) (replicate 32 NUL) bs
                           (replicate 32 NUL) (replicate 64 NUL))),
     cbor_envelope = (\<lambda>bs. None),
     cbor_marshal = (\<lambda>v. case v of GBytes bs \<Rightarrow> Some bs | _ \<Rightarrow> Some []),
     ed25519_verify = (\<lambda>_ _ _. True)\<rparr>"

definition sample_object :: gomap where
  "sample_object = [(''item_id'', GStr (hex_encode (sha256 ''hi''))), (''envelope_b64'', GStr (b64_encode ''hi'')),
     (''expiry_unix_ms'', GUint K64 5), (''hop_count'', GUint K64 2)]"

definition sample_transfer :: gomap where
  "sample_transfer = [(''objects'', GArr [GMapS sample_object, GNil])]"

definition sample_accepted :: TransferObject where
  "sample_accepted = \<lparr>ItemID = hex_encode (sha256 ''hi''), EnvelopeB64 = b64_encode ''hi'', ExpiryUnixMS = 5,
     HopCount = 2, Envelope = \<lparr>From = hex_encode (sha256 (replicate 32 NUL)), To = hex_encode (replicate 32 NUL),
       PayloadB64 = b64_encode ''hi'', CreatedAt = 0, ExpiresAt = 0, ManifestID = [], AuthorSig = []\<rparr>\<rparr>"

lemma decode_sample: "decodeBase64URLRaw (b64_encode ''hi'') = Inr ''hi''"
proof -
  have "b64_encode ''hi'' \<noteq> []" by (simp add: b64_encode_def)
  then show ?thesis by (auto simp: decodeBase64URLRaw_def dest: b64_encode_not_space)
qed

lemma parse_sample_object: "parseTransferObject sample_env sample_object = Inr sample_accepted"
proof -
  have "hex_encode (sha256 ''hi'') \<noteq> []" "b64_encode ''hi'' \<noteq> []"
    by (simp_all add: b64_encode_def flip: length_0_conv)
  then show ?thesis
    by (simp add: parseTransferObject_def sample_object_def only_fields_def parseString_def parseUint_def
        decode_sample check_envelope_bytes_def sample_env_def parseCanonicalItemEnvelope_def
        transfer_envelope_fields_def parseBytes_def signing_payload_fields_def sample_accepted_def)
qed

lemma parse_sample_transfer:
  "ParseTransferPayloadMixed sample_env (Some sample_transfer) =
     Inr \<lparr>Objects = [\<lparr>Index = 0, Object = sample_accepted\<rparr>],
          Rejected = [\<lparr>RIndex = 1, RID = [], Reason = ''unknown_parse_error'',
            Detail = NotMapDetail [], Diagnostic = None\<rparr>]\<rparr>"
  by (simp add: ParseTransferPayloadMixed_def sample_transfer_def only_fields_def coerceAnySlice_def
      judge_candidate_def coerceStringMap_def mapKeys_def parse_sample_object)
     (simp add: sample_accepted_def decode_sample)

theorem transfer_objects_authentic_witness:
  "\<exists>bs. decodeBase64URLRaw (EnvelopeB64 sample_accepted) = Inr bs \<and>
     ItemID sample_accepted = hex_encode (sha256 bs) \<and> isCanonicalCBOR sample_env bs"
  using transfer_objects_authentic [OF parse_sample_transfer, of "\<lparr>Index = 0, Object = sample_accepted\<rparr>"]
  by auto

text \<open>
  The limits of a TRANSFER frame: no object is lost or judged twice (the indices of the
  accepted and of the rejected objects together are exactly the positions of the frame), the accepted
  item ids are distinct, there are at most 32 objects, and the accepted envelopes together stay within
  the byte limit, provided the sizes offered do not sum up past the 64-bit counter.
\<close>

lemma transfer_frame_limits:
  assumes "ParseTransferPayloadMixed env (Some payload) = Inr parsed"
    and "map_of payload ''objects'' = Some raw" and "coerceAnySlice raw = Some objs"
    and "sum_list (map (envelope_size env) objs) < 2 ^ 64"
  shows "mset (map Index (Objects parsed)) + mset (map RIndex (Rejected parsed)) =
           mset (map of_nat [0..<length objs]) \<and>
         distinct (map (\<lambda>io. ItemID (Object io)) (Objects parsed)) \<and>
         length (Objects parsed) + length (Rejected parsed) = length objs \<and>
         length objs \<le> MaxTransferItems \<and>
         sum_list (map (\<lambda>io. object_size (Object io)) (Objects parsed)) \<le> MaxTransferBytes"
proof -
  have parsed: "parsed = transfer_loop env (of_nat 0) {} 0 objs \<lparr>Objects = [], Rejected = []\<rparr>"
    and n: "length objs \<le> MaxTransferItems"
    using assms(1-3) by (auto simp: ParseTransferPayloadMixed_def)
  have "frame_inv env 0 {} 0 \<lparr>Objects = [], Rejected = []\<rparr>" by (simp add: frame_inv_def)
  from transfer_loop_inv [OF this, of objs] assms(4) parsed obtain seen tb where
    inv: "frame_inv env (length objs) seen tb parsed" by auto
  then have m: "mset (map Index (Objects parsed)) + mset (map RIndex (Rejected parsed)) =
      mset (map of_nat [0..<length objs])" by (simp add: frame_inv_def)
  have "length (Objects parsed) + length (Rejected parsed) = length objs"
    using arg_cong [OF m, of size] by simp
  with m inv n show ?thesis by (simp add: frame_inv_def)
qed

lemma transfer_frame_limits_example:
  "mset (map Index [\<lparr>Index = 0, Object = sample_accepted\<rparr>]) + mset [1] = mset (map of_nat [0..<2 :: nat]) \<and>
   object_size sample_accepted \<le> MaxTransferBytes"
proof -
  have "map_of sample_transfer ''objects'' = Some (GArr [GMapS sample_object, GNil])"
    and "coerceAnySlice (GArr [GMapS sample_object, GNil]) = Some [GMapS sample_object, GNil]"
    and "sum_list (map (envelope_size sample_env) [GMapS sample_object, GNil]) < 2 ^ 64"
    by (simp_all add: sample_transfer_def coerceAnySlice_def envelope_size_def coerceStringMap_def
        parse_sample_object, simp add: sample_accepted_def decode_sample)
  from transfer_frame_limits [OF parse_sample_transfer this] show ?thesis
    by (simp add: numeral_2_eq_2)
qed

end
