(* ===== verification/Frames.thy ===== *)
theory Frames
  imports Summary Transfer_Objects
begin

text \<open>
  Frames of \<^verbatim>\<open>internal/gossipv1\<close>: the HELLO, REQUEST, RECEIPT and RELAY_INGEST payloads of
  \<^verbatim>\<open>protocol.go\<close>, the frame envelope with its length prefix, and the two read-only
  inspections of frames in \<^verbatim>\<open>debug_log.go\<close>.
\<close>

abbreviation (input) MaxFrameBytes :: nat where "MaxFrameBytes \<equiv> 1048576"
abbreviation (input) MaxWantItems :: nat where "MaxWantItems \<equiv> 256"
abbreviation (input) MaxReceiptItems :: nat where "MaxReceiptItems \<equiv> MaxTransferItems"
abbreviation (input) MaxRelayIngestItems :: nat where "MaxRelayIngestItems \<equiv> 256"
abbreviation (input) GossipVersion :: u64 where "GossipVersion \<equiv> 1"

abbreviation FrameTypeHello :: string where "FrameTypeHello \<equiv> ''HELLO''"
abbreviation FrameTypeSummary :: string where "FrameTypeSummary \<equiv> ''SUMMARY''"
abbreviation FrameTypeRequest :: string where "FrameTypeRequest \<equiv> ''REQUEST''"
abbreviation FrameTypeTransfer :: string where "FrameTypeTransfer \<equiv> ''TRANSFER''"
abbreviation FrameTypeReceipt :: string where "FrameTypeReceipt \<equiv> ''RECEIPT''"
abbreviation FrameTypeRelayIngest :: string where "FrameTypeRelayIngest \<equiv> ''RELAY_INGEST''"

record HelloPayload =
  Version :: u64
  NodeID :: string
  NodePubKey :: string
  Capabilities :: "string list"
  PropagationClass :: string
  MaxWant :: u64
  MaxTransfer :: u64

record RelayIngestPayload = ItemIDs :: "string list"
record RequestPayload = Want :: "string list"
record ReceiptPayload = Accepted :: "string list"

subsection \<open>HELLO\<close>

definition BuildRelayHello :: "string \<Rightarrow> HelloPayload" where
  "BuildRelayHello relayID =
     (let pubKey = sha256 (''relay:'' @ relayID);
          nodeIDDigest = sha256 pubKey
      in \<lparr>Version = GossipVersion, NodeID = hex_encode nodeIDDigest, NodePubKey = b64_encode pubKey,
          Capabilities = [''relay''], PropagationClass = ''relay'', MaxWant = of_nat MaxWantItems,
          MaxTransfer = of_nat MaxTransferItems\<rparr>)"

definition ValidateHello :: "HelloPayload \<Rightarrow> gerr + unit" where
  "ValidateHello hello =
     (if Version hello \<noteq> GossipVersion then Inl (HelloErr VersionMismatch)
      else if length (NodeID hello) \<noteq> 64 then Inl (HelloErr NodeIdLength)
      else if NodeID hello \<noteq> to_lower (NodeID hello) then Inl (HelloErr NodeIdCase)
      else case b64_decode False (NodePubKey hello) of
             None \<Rightarrow> Inl (HelloErr InvalidNodePubkey)
           | Some pubKey \<Rightarrow>
               if NodeID hello \<noteq> hex_encode (sha256 pubKey) then Inl (HelloErr NodeIdMismatch)
               else if MaxWant hello = 0 \<or> MaxWant hello > of_nat MaxWantItems then Inl (HelloErr MaxWantRange)
               else if MaxTransfer hello = 0 \<or> MaxTransfer hello > of_nat MaxTransferItems
                    then Inl (HelloErr MaxTransferRange)
               else Inr ())"

definition hello_keys :: "string list" where
  "hello_keys = [''version'', ''node_id'', ''node_pubkey'', ''capabilities'', ''propagation_class'',
     ''max_want'', ''max_transfer'']"

definition ParseHelloPayload :: "gomap option \<Rightarrow> gerr + HelloPayload" where
  "ParseHelloPayload payload_opt = (case payload_opt of
     None \<Rightarrow> Inl (PayloadRequired ''hello'')
   | Some payload \<Rightarrow>
       bindE (guardE (only_fields hello_keys payload) (UnknownField ''hello'')) (\<lambda>_.
       bindE (parseUint payload ''version'') (\<lambda>version.
       bindE (parseString payload ''node_id'') (\<lambda>nodeID.
       bindE (parseString payload ''node_pubkey'') (\<lambda>nodePubKey.
       bindE (parseStringSlice payload ''capabilities'') (\<lambda>capabilities.
       bindE (parseString payload ''propagation_class'') (\<lambda>propagationClass.
       bindE (parseUint payload ''max_want'') (\<lambda>maxWant.
       bindE (parseUint payload ''max_transfer'') (\<lambda>maxTransfer.
       let hello = \<lparr>Version = version, NodeID = nodeID, NodePubKey = nodePubKey,
             Capabilities = capabilities, PropagationClass = propagationClass, MaxWant = maxWant,
             MaxTransfer = maxTransfer\<rparr>
       in bindE (ValidateHello hello) (\<lambda>_. Inr hello))))))))))"

text \<open>The struct tags of \<open>HelloPayload\<close>.\<close>

definition hello_fields :: "HelloPayload \<Rightarrow> gomap" where
  "hello_fields h = [(''version'', GUint K64 (Version h)), (''node_id'', GStr (NodeID h)),
     (''node_pubkey'', GStr (NodePubKey h)), (''capabilities'', GArr (map GStr (Capabilities h))),
     (''propagation_class'', GStr (PropagationClass h)), (''max_want'', GUint K64 (MaxWant h)),
     (''max_transfer'', GUint K64 (MaxTransfer h))]"

subsection \<open>REQUEST, RECEIPT and RELAY_INGEST\<close>

definition ParseRelayIngestPayload :: "gomap option \<Rightarrow> gerr + RelayIngestPayload" where
  "ParseRelayIngestPayload payload_opt = (case payload_opt of
     None \<Rightarrow> Inl (PayloadRequired ''relay_ingest'')
   | Some payload \<Rightarrow>
       bindE (guardE (only_fields [''item_ids''] payload) (UnknownField ''relay_ingest'')) (\<lambda>_.
       bindE (parseStringSlice payload ''item_ids'') (\<lambda>itemIDs.
       bindE (guardE (length itemIDs \<le> MaxRelayIngestItems) (FieldErr ExceedsLimit ''item_ids'')) (\<lambda>_.
       Inr \<lparr>ItemIDs = itemIDs\<rparr>))))"

definition ParseRequestPayload :: "gomap option \<Rightarrow> gerr + RequestPayload" where
  "ParseRequestPayload payload_opt = (case payload_opt of
     None \<Rightarrow> Inl (PayloadRequired ''request'')
   | Some payload \<Rightarrow>
       bindE (guardE (only_fields [''want''] payload) (UnknownField ''request'')) (\<lambda>_.
       bindE (parseStringSlice payload ''want'') (\<lambda>want.
       bindE (guardE (length want \<le> MaxWantItems) (FieldErr ExceedsLimit ''want'')) (\<lambda>_.
       bindE (validateSortedUniqueDigestIDsForField want ''want'') (\<lambda>_.
       Inr \<lparr>Want = want\<rparr>)))))"

definition ParseReceiptPayload :: "gomap option \<Rightarrow> gerr + ReceiptPayload" where
  "ParseReceiptPayload payload_opt = (case payload_opt of
     None \<Rightarrow> Inl (PayloadRequired ''receipt'')
   | Some payload \<Rightarrow>
       bindE (guardE (only_fields [''received''] payload) (UnknownField ''receipt'')) (\<lambda>_.
       bindE (parseStringSlice payload ''received'') (\<lambda>received.
       bindE (guardE (\<not> hasDuplicateStrings received) (ReceiptErr DuplicateReceiptIds)) (\<lambda>_.
       bindE (guardE (length received \<le> MaxReceiptItems) (FieldErr ExceedsLimit ''received'')) (\<lambda>_.
       Inr \<lparr>Accepted = received\<rparr>)))))"

text \<open>The struct tags of the payloads the relay sends; the parsed \<open>Envelope\<close> of an object is never sent.\<close>

definition request_fields :: "RequestPayload \<Rightarrow> gomap" where
  "request_fields r = [(''want'', GArr (map GStr (Want r)))]"

definition transfer_object_fields :: "TransferObject \<Rightarrow> gomap" where
  "transfer_object_fields object = [(''item_id'', GStr (ItemID object)), (''envelope_b64'', GStr (EnvelopeB64 object)),
     (''expiry_unix_ms'', GUint K64 (ExpiryUnixMS object)), (''hop_count'', GUint K64 (HopCount object))]"

definition transfer_fields :: "TransferObject list \<Rightarrow> gomap" where
  "transfer_fields objects = [(''objects'', GArr (map (\<lambda>object. GMapS (transfer_object_fields object)) objects))]"

definition receipt_fields :: "ReceiptPayload \<Rightarrow> gomap" where
  "receipt_fields r = [(''received'', GArr (map GStr (Accepted r)))]"

subsection \<open>Envelopes and length prefixes\<close>

definition EncodeEnvelope :: "wire_env \<Rightarrow> string \<Rightarrow> goval \<Rightarrow> gerr + bytes" where
  "EncodeEnvelope env frameType payload =
     (if frameType = [] then Inl (FrameErr FrameTypeRequired)
      else case cbor_marshal env (GMapS [(''type'', GStr frameType), (''payload'', payload)]) of
             None \<Rightarrow> Inl (FrameErr EncodeFailed)
           | Some encoded \<Rightarrow>
               if length encoded > MaxFrameBytes then Inl (FrameErr FrameExceedsMax) else Inr encoded)"

definition EncodeLengthPrefixed :: "bytes \<Rightarrow> gerr + bytes" where
  "EncodeLengthPrefixed frame =
     (if length frame = 0 then Inl (FrameErr EmptyFrame)
      else if length frame > MaxFrameBytes then Inl (FrameErr FrameExceedsMax)
      else Inr (be_bytes 4 (length frame) @ frame))"

definition EncodeHelloFrame :: "wire_env \<Rightarrow> HelloPayload \<Rightarrow> gerr + bytes" where
  "EncodeHelloFrame env local =
     bindE (EncodeEnvelope env FrameTypeHello (GMapS (hello_fields local))) (\<lambda>frame. EncodeLengthPrefixed frame)"

definition DecodeEnvelope :: "wire_env \<Rightarrow> bytes \<Rightarrow> gerr + (string \<times> gomap)" where
  "DecodeEnvelope env frame =
     (if length frame = 0 then Inl (FrameErr EmptyFrame)
      else if length frame > MaxFrameBytes then Inl (FrameErr FrameExceedsMax)
      else case cbor_envelope env frame of
             None \<Rightarrow> Inl (FrameErr DecodeFailed)
           | Some (typ, payload) \<Rightarrow>
               if typ = [] then Inl (FrameErr MissingFrameType)
               else case payload of None \<Rightarrow> Inl (FrameErr MissingPayload) | Some p \<Rightarrow> Inr (typ, p))"

subsection \<open>Inspection for logs (debug_log.go)\<close>

definition FrameTypeFromPrefixedBinaryFrame :: "wire_env \<Rightarrow> bytes \<Rightarrow> string" where
  "FrameTypeFromPrefixedBinaryFrame env data =
     (if length data < 5 then ''UNKNOWN''
      else let frameLen = be_val (take 4 data)
      in if frameLen = 0 \<or> frameLen > MaxFrameBytes then ''UNKNOWN''
         else if frameLen \<noteq> length (drop 4 data) then ''UNKNOWN''
         else case DecodeEnvelope env (drop 4 data) of
                Inl _ \<Rightarrow> ''UNKNOWN''
              | Inr (typ, _) \<Rightarrow> if typ = [] then ''UNKNOWN'' else typ)"

fun join_comma :: "string list \<Rightarrow> string" where
  "join_comma [] = []"
| "join_comma [s] = s"
| "join_comma (s # t # rest) = s @ '','' @ join_comma (t # rest)"

definition ItemIDSample :: "string list \<Rightarrow> int \<Rightarrow> nat \<times> string \<times> string" where
  "ItemIDSample ids sampleLimit =
     (let sampleLimit = (if sampleLimit \<le> 0 then 4 else sampleLimit);
          count = length ids
      in if count = 0 then (0, [], [])
         else let sampleCount = min (nat sampleLimit) count
              in (count, join_comma (take sampleCount ids),
                  hex_encode (take 6 (sha256 (concat (map (\<lambda>i. i @ [NUL]) ids))))))"

subsection \<open>Facts\<close>

text \<open>What a valid HELLO is.\<close>

lemma ValidateHello_ok:
  "ValidateHello h = Inr () \<longleftrightarrow> Version h = GossipVersion \<and>
     (\<exists>pubKey. b64_decode False (NodePubKey h) = Some pubKey \<and> NodeID h = hex_encode (sha256 pubKey)) \<and>
     MaxWant h \<noteq> 0 \<and> MaxWant h \<le> of_nat MaxWantItems \<and>
     MaxTransfer h \<noteq> 0 \<and> MaxTransfer h \<le> of_nat MaxTransferItems"
  by (auto simp: ValidateHello_def length_sha256 not_less split: option.splits if_splits)

lemma ParseHelloPayload_ok:
  assumes "ParseHelloPayload payload = Inr h"
  shows "ValidateHello h = Inr ()" and "[] \<notin> set (Capabilities h)" and "PropagationClass h \<noteq> []"
proof -
  from assms obtain p where p: "payload = Some p" by (cases payload) (simp_all add: ParseHelloPayload_def)
  from assms show "ValidateHello h = Inr ()"
    by (auto simp: ParseHelloPayload_def p Let_def)
  from assms have "parseStringSlice p ''capabilities'' = Inr (Capabilities h)"
    by (auto simp: ParseHelloPayload_def p Let_def)
  then show "[] \<notin> set (Capabilities h)" by (rule parseStringSlice_no_empty)
  from assms have "parseString p ''propagation_class'' = Inr (PropagationClass h)"
    by (auto simp: ParseHelloPayload_def p Let_def)
  then show "PropagationClass h \<noteq> []" by (rule parseString_not_nil)
qed

lemma ParseHelloPayload_fields:
  assumes "ValidateHello h = Inr ()" and "[] \<notin> set (Capabilities h)" and "PropagationClass h \<noteq> []"
    and "NodePubKey h \<noteq> []"
  shows "ParseHelloPayload (Some (hello_fields h)) = Inr h"
proof -
  have "NodeID h \<noteq> []"
    using assms(1) by (auto simp: ValidateHello_def split: if_splits)
  moreover have "parseStringSlice (hello_fields h) ''capabilities'' = Inr (Capabilities h)"
    by (rule parseStringSlice_GArr) (use assms(2) in \<open>simp_all add: hello_fields_def\<close>)
  moreover have "only_fields hello_keys (hello_fields h)"
    by (simp add: only_fields_def hello_keys_def hello_fields_def)
  ultimately show ?thesis
    using assms(1,3,4) by (cases h) (simp add: ParseHelloPayload_def parseString_def parseUint_def hello_fields_def Let_def)
qed

lemma EncodeLengthPrefixed_ok:
  "EncodeLengthPrefixed f = Inr out \<longleftrightarrow>
     f \<noteq> [] \<and> length f \<le> MaxFrameBytes \<and> out = be_bytes 4 (length f) @ f"
  by (auto simp: EncodeLengthPrefixed_def)

lemma DecodeEnvelope_ok:
  "DecodeEnvelope env f = Inr (t, p) \<longleftrightarrow>
     f \<noteq> [] \<and> length f \<le> MaxFrameBytes \<and> t \<noteq> [] \<and> cbor_envelope env f = Some (t, Some p)"
  by (auto simp: DecodeEnvelope_def split: option.splits prod.splits if_splits)

lemma ParseRequestPayload_ok:
  assumes "ParseRequestPayload payload = Inr r"
  shows "sorted_wrt (<) (Want r)" and "list_all isDigestHex (Want r)" and "length (Want r) \<le> MaxWantItems"
  using assms by (auto simp: ParseRequestPayload_def validateSorted_ok list_all_iff split: option.splits)

lemma ParseReceiptPayload_ok:
  assumes "ParseReceiptPayload payload = Inr r"
  shows "distinct (Accepted r)" and "length (Accepted r) \<le> MaxReceiptItems" and "[] \<notin> set (Accepted r)"
  using assms by (auto simp: ParseReceiptPayload_def hasDuplicateStrings_iff
      dest: parseStringSlice_no_empty split: option.splits)

lemma relay_hello_parses:
  "ParseHelloPayload (Some (hello_fields (BuildRelayHello relayID))) = Inr (BuildRelayHello relayID)"
proof (rule ParseHelloPayload_fields)
  show "ValidateHello (BuildRelayHello relayID) = Inr ()"
    by (simp add: ValidateHello_ok BuildRelayHello_def Let_def)
  have "b64_encode bs = [] \<Longrightarrow> bs = []" for bs
    using b64_decode_encode [of True bs] by (simp add: b64_decode_def)
  from this [of "sha256 (''relay:'' @ relayID)"] show "NodePubKey (BuildRelayHello relayID) \<noteq> []"
    by (auto simp: BuildRelayHello_def Let_def)
qed (simp_all add: BuildRelayHello_def Let_def)

subsection \<open>Properties\<close>

text \<open>
  The HELLO a relay builds for itself is accepted by the peer that parses it, unchanged:
  \<open>ParseHelloPayload\<close> on the tagged fields of \<open>BuildRelayHello relayID\<close> returns that
  hello, for every relay id.
\<close>

lemma relay_hello_accepted:
  "ParseHelloPayload (Some (hello_fields (BuildRelayHello relayID))) = Inr (BuildRelayHello relayID)"
  by (rule relay_hello_parses)

end
