(* ===== verification/Session.thy ===== *)
theory Session
  imports Frames
begin

text \<open>
  The session adapter of \<^verbatim>\<open>internal/gossipv1/session.go\<close>: a state machine that is fed
  chunks of a byte stream, cuts them into length-prefixed frames and turns each frame into an event.
\<close>

datatype EventType = EventTypeHelloValidated | EventTypeSummary | EventTypeRequest | EventTypeTransfer
  | EventTypeReceipt | EventTypeRelayIngest | EventTypeUntrustedRelay | EventTypeFatal | EventTypeIgnored

record Event =
  EType :: EventType
  FrameType :: string
  EHello :: "HelloPayload option"
  ESummary :: "SummaryPayload option"
  ERequest :: "RequestPayload option"
  ETransfer :: "ParsedTransferPayload option"
  EReceipt :: "ReceiptPayload option"
  ReceiptExpected :: "string list"
  EItemIDs :: "string list"
  Err :: "gerr option"

abbreviation event :: "EventType \<Rightarrow> string \<Rightarrow> Event" where
  "event typ frameType \<equiv> \<lparr>EType = typ, FrameType = frameType, EHello = None, ESummary = None, ERequest = None,
     ETransfer = None, EReceipt = None, ReceiptExpected = [], EItemIDs = [], Err = None\<rparr>"

abbreviation fatal_event :: "string \<Rightarrow> gerr \<Rightarrow> Event" where
  "fatal_event frameType err \<equiv> (event EventTypeFatal frameType)\<lparr>Err := Some err\<rparr>"

record SessionAdapter =
  buffer :: bytes
  localHello :: HelloPayload
  authenticatedRelay :: bool
  helloValidated :: bool
  terminated :: bool
  lastFrameType :: string
  lastObserverError :: "gerr option"
  untrustedRelayIngest :: int
  awaitingReceipt :: bool
  expectedReceiptOrder :: "string list"
  expectedReceiptIndex :: "string \<rightharpoonup> u64"

subsection \<open>Operations\<close>

definition NewSessionAdapter :: "HelloPayload \<Rightarrow> bool \<Rightarrow> SessionAdapter" where
  "NewSessionAdapter hello authenticated = \<lparr>buffer = [], localHello = hello,
     authenticatedRelay = authenticated, helloValidated = False, terminated = False, lastFrameType = [],
     lastObserverError = None, untrustedRelayIngest = 0, awaitingReceipt = False,
     expectedReceiptOrder = [], expectedReceiptIndex = Map.empty\<rparr>"

fun expect_loop :: "string list \<Rightarrow> string list \<Rightarrow> (string \<rightharpoonup> u64) \<Rightarrow> string list \<times> (string \<rightharpoonup> u64)" where
  "expect_loop [] order idx = (order, idx)"
| "expect_loop (item # rest) order idx =
     (if item = [] then expect_loop rest order idx
      else if idx item \<noteq> None then expect_loop rest order idx
      else expect_loop rest (order @ [item]) (idx(item \<mapsto> of_nat (length order))))"

definition SetExpectedReceipt :: "SessionAdapter \<Rightarrow> string list \<Rightarrow> SessionAdapter" where
  "SetExpectedReceipt s ids = (case expect_loop ids [] Map.empty of
     (order, idx) \<Rightarrow> s\<lparr>awaitingReceipt := True, expectedReceiptOrder := order, expectedReceiptIndex := idx\<rparr>)"

definition InitialHelloBytes :: "wire_env \<Rightarrow> SessionAdapter \<Rightarrow> gerr + bytes" where
  "InitialHelloBytes env s =
     (if terminated s then Inl (FrameErr SessionTerminated) else EncodeHelloFrame env (localHello s))"

fun receipt_loop :: "(string \<rightharpoonup> u64) \<Rightarrow> string set \<Rightarrow> string list \<Rightarrow> gerr + unit" where
  "receipt_loop idx acknowledged [] = Inr ()"
| "receipt_loop idx acknowledged (acceptedID # rest) =
     (if idx acceptedID = None then Inl (ReceiptErr (ReceiptNotPending acceptedID))
      else if acceptedID \<in> acknowledged then Inl (ReceiptErr (ReceiptDuplicateAck acceptedID))
      else receipt_loop idx (insert acceptedID acknowledged) rest)"

definition validateExpectedReceipt :: "SessionAdapter \<Rightarrow> ReceiptPayload \<Rightarrow> gerr + unit" where
  "validateExpectedReceipt s receipt =
     (if \<not> awaitingReceipt s then Inl (ReceiptErr ReceiptUnexpected)
      else if length (expectedReceiptOrder s) = 0
           then (if length (Accepted receipt) = 0 then Inr () else Inl (ReceiptErr ReceiptForEmptyTransfer))
      else receipt_loop (expectedReceiptIndex s) {} (Accepted receipt))"

text \<open>A frame whose payload does not parse ends the session.\<close>

definition fatal :: "SessionAdapter \<Rightarrow> string \<Rightarrow> gerr \<Rightarrow> SessionAdapter \<times> Event" where
  "fatal s frameType err = (s\<lparr>terminated := True\<rparr>, fatal_event frameType err)"

text \<open>The cases of the \<open>switch envelope.Type\<close> in \<open>PushInbound\<close>, one per frame type.\<close>

definition on_hello :: "SessionAdapter \<Rightarrow> gomap \<Rightarrow> SessionAdapter \<times> Event" where
  "on_hello s payload = (case ParseHelloPayload (Some payload) of
     Inl err \<Rightarrow> fatal s FrameTypeHello err
   | Inr hello \<Rightarrow> (s\<lparr>helloValidated := True\<rparr>,
                   (event EventTypeHelloValidated FrameTypeHello)\<lparr>EHello := Some hello\<rparr>))"

definition on_relay_ingest :: "SessionAdapter \<Rightarrow> gomap \<Rightarrow> SessionAdapter \<times> Event" where
  "on_relay_ingest s payload = (case ParseRelayIngestPayload (Some payload) of
     Inl err \<Rightarrow> fatal s FrameTypeRelayIngest err
   | Inr relayIngest \<Rightarrow>
       if \<not> authenticatedRelay s
       then (s\<lparr>untrustedRelayIngest := s64 (untrustedRelayIngest s + 1)\<rparr>,
             (event EventTypeUntrustedRelay FrameTypeRelayIngest)\<lparr>EItemIDs := ItemIDs relayIngest\<rparr>)
       else (s, (event EventTypeRelayIngest FrameTypeRelayIngest)\<lparr>EItemIDs := ItemIDs relayIngest\<rparr>))"

definition on_summary :: "SessionAdapter \<Rightarrow> gomap \<Rightarrow> SessionAdapter \<times> Event" where
  "on_summary s payload = (case ParseSummaryPayload (Some payload) of
     Inl err \<Rightarrow> fatal s FrameTypeSummary err
   | Inr summary \<Rightarrow> (s, (event EventTypeSummary FrameTypeSummary)\<lparr>ESummary := Some summary\<rparr>))"

definition on_request :: "SessionAdapter \<Rightarrow> gomap \<Rightarrow> SessionAdapter \<times> Event" where
  "on_request s payload = (case ParseRequestPayload (Some payload) of
     Inl err \<Rightarrow> fatal s FrameTypeRequest err
   | Inr request \<Rightarrow> (s, (event EventTypeRequest FrameTypeRequest)\<lparr>ERequest := Some request\<rparr>))"

definition on_transfer :: "wire_env \<Rightarrow> SessionAdapter \<Rightarrow> gomap \<Rightarrow> SessionAdapter \<times> Event" where
  "on_transfer env s payload = (case ParseTransferPayloadMixed env (Some payload) of
     Inl err \<Rightarrow> fatal s FrameTypeTransfer err
   | Inr transfer \<Rightarrow> (s, (event EventTypeTransfer FrameTypeTransfer)\<lparr>ETransfer := Some transfer\<rparr>))"

definition on_receipt :: "SessionAdapter \<Rightarrow> gomap \<Rightarrow> SessionAdapter \<times> Event" where
  "on_receipt s payload = (case ParseReceiptPayload (Some payload) of
     Inl err \<Rightarrow> fatal s FrameTypeReceipt err
   | Inr receipt \<Rightarrow>
       (case validateExpectedReceipt s receipt of
          Inl err \<Rightarrow> fatal s FrameTypeReceipt err
        | Inr _ \<Rightarrow> (s\<lparr>awaitingReceipt := False, expectedReceiptOrder := [],
                       expectedReceiptIndex := Map.empty\<rparr>,
                     (event EventTypeReceipt FrameTypeReceipt)
                       \<lparr>EReceipt := Some receipt, ReceiptExpected := expectedReceiptOrder s\<rparr>)))"

definition dispatch_frame :: "wire_env \<Rightarrow> SessionAdapter \<Rightarrow> string \<Rightarrow> gomap \<Rightarrow> SessionAdapter \<times> Event" where
  "dispatch_frame env s typ payload =
     (if typ = FrameTypeHello then on_hello s payload
      else if typ = FrameTypeRelayIngest then on_relay_ingest s payload
      else if typ = FrameTypeSummary then on_summary s payload
      else if typ = FrameTypeRequest then on_request s payload
      else if typ = FrameTypeTransfer then on_transfer env s payload
      else if typ = FrameTypeReceipt then on_receipt s payload
      else fatal s typ (UnknownFrameType typ))"

definition handle_frame :: "wire_env \<Rightarrow> SessionAdapter \<Rightarrow> bytes \<Rightarrow> SessionAdapter \<times> Event" where
  "handle_frame env s frame = (case DecodeEnvelope env frame of
     Inl err \<Rightarrow> fatal s [] err
   | Inr (typ, payload) \<Rightarrow> dispatch_frame env (s\<lparr>lastFrameType := typ\<rparr>) typ payload)"

lemmas handler_defs = on_hello_def on_relay_ingest_def on_summary_def on_request_def on_transfer_def
  on_receipt_def fatal_def

lemma buffer_handle_frame [simp]: "buffer (fst (handle_frame env s frame)) = buffer s"
  by (simp add: handle_frame_def dispatch_frame_def handler_defs split: sum.splits)

lemma handle_frame_buffer: "(s', ev) = handle_frame env s frame \<Longrightarrow> buffer s' = buffer s"
  by (metis buffer_handle_frame fst_conv)

text \<open>The \<open>for\<close> loop of \<open>PushInbound\<close>: a whole frame is taken off the buffer in each turn.\<close>

function push_loop :: "wire_env \<Rightarrow> SessionAdapter \<Rightarrow> SessionAdapter \<times> Event list" where
  "push_loop env s =
     (if length (buffer s) < 4 then (s, [])
      else let frameLen = be_val (take 4 (buffer s))
      in if frameLen = 0 then (s\<lparr>terminated := True\<rparr>, [fatal_event [] (FrameErr ZeroFrameLength)])
         else if frameLen > MaxFrameBytes
              then (s\<lparr>terminated := True\<rparr>, [fatal_event [] (FrameErr FrameLengthExceedsMax)])
         else if length (buffer s) < 4 + frameLen then (s, [])
         else case handle_frame env (s\<lparr>buffer := drop (4 + frameLen) (buffer s)\<rparr>)
                     (take frameLen (drop 4 (buffer s))) of
                (s', ev) \<Rightarrow>
                  if EType ev = EventTypeFatal then (s', [ev])
                  else (case push_loop env s' of (s'', evs) \<Rightarrow> (s'', ev # evs)))"
  by pat_completeness auto
termination
  by (relation "measure (\<lambda>(env, s). length (buffer s))") (auto dest: handle_frame_buffer)

declare push_loop.simps [simp del]

definition PushInbound :: "wire_env \<Rightarrow> SessionAdapter \<Rightarrow> bytes \<Rightarrow> SessionAdapter \<times> Event list" where
  "PushInbound env s chunk =
     (if terminated s then (s, [])
      else if length chunk = 0 then (s, [])
      else push_loop env (s\<lparr>buffer := buffer s @ chunk\<rparr>))"

definition ObserveNonFatal :: "SessionAdapter \<Rightarrow> gerr option \<Rightarrow> SessionAdapter" where
  "ObserveNonFatal s err = (if err = None then s else s\<lparr>lastObserverError := err\<rparr>)"

definition IsHealthy :: "SessionAdapter \<Rightarrow> bool" where
  "IsHealthy s \<longleftrightarrow> \<not> terminated s \<and> helloValidated s"

definition Terminated :: "SessionAdapter \<Rightarrow> bool" where
  "Terminated s = terminated s"

definition PendingReceiptIDs :: "SessionAdapter \<Rightarrow> string list" where
  "PendingReceiptIDs s = (if length (expectedReceiptOrder s) = 0 then [] else expectedReceiptOrder s)"

definition UntrustedRelayIngestCount :: "SessionAdapter \<Rightarrow> int" where
  "UntrustedRelayIngestCount s = untrustedRelayIngest s"

subsection \<open>One frame\<close>

text \<open>Handling a frame neither reads nor writes the buffer.\<close>

lemma handlers_set_buffer:
  "on_hello (s\<lparr>buffer := b\<rparr>) p = (case on_hello s p of (s', ev) \<Rightarrow> (s'\<lparr>buffer := b\<rparr>, ev))"
  "on_relay_ingest (s\<lparr>buffer := b\<rparr>) p = (case on_relay_ingest s p of (s', ev) \<Rightarrow> (s'\<lparr>buffer := b\<rparr>, ev))"
  "on_summary (s\<lparr>buffer := b\<rparr>) p = (case on_summary s p of (s', ev) \<Rightarrow> (s'\<lparr>buffer := b\<rparr>, ev))"
  "on_request (s\<lparr>buffer := b\<rparr>) p = (case on_request s p of (s', ev) \<Rightarrow> (s'\<lparr>buffer := b\<rparr>, ev))"
  "on_transfer env (s\<lparr>buffer := b\<rparr>) p = (case on_transfer env s p of (s', ev) \<Rightarrow> (s'\<lparr>buffer := b\<rparr>, ev))"
  "on_receipt (s\<lparr>buffer := b\<rparr>) p = (case on_receipt s p of (s', ev) \<Rightarrow> (s'\<lparr>buffer := b\<rparr>, ev))"
  "fatal (s\<lparr>buffer := b\<rparr>) t e = (case fatal s t e of (s', ev) \<Rightarrow> (s'\<lparr>buffer := b\<rparr>, ev))"
  by (simp_all add: handler_defs validateExpectedReceipt_def split: sum.splits)

lemma dispatch_set_buffer:
  "dispatch_frame env (s\<lparr>buffer := b\<rparr>) typ p =
     (case dispatch_frame env s typ p of (s', ev) \<Rightarrow> (s'\<lparr>buffer := b\<rparr>, ev))"
  by (simp only: dispatch_frame_def handlers_set_buffer if_distrib [symmetric] split: if_split)

lemma handle_frame_set_buffer:
  "handle_frame env (s\<lparr>buffer := b\<rparr>) frame =
     (case handle_frame env s frame of (s', ev) \<Rightarrow> (s'\<lparr>buffer := b\<rparr>, ev))"
proof (cases "DecodeEnvelope env frame")
  case (Inl err)
  then show ?thesis by (simp add: handle_frame_def handlers_set_buffer)
next
  case (Inr tp)
  obtain t p where tp: "tp = (t, p)" by fastforce
  have "s\<lparr>buffer := b\<rparr>\<lparr>lastFrameType := t\<rparr> = s\<lparr>lastFrameType := t\<rparr>\<lparr>buffer := b\<rparr>" by simp
  then show ?thesis by (simp only: handle_frame_def Inr tp sum.case prod.case dispatch_set_buffer)
qed

lemma handle_frame_other_buffer:
  assumes "handle_frame env (s\<lparr>buffer := b\<rparr>) frame = (s', ev)"
  shows "handle_frame env (s\<lparr>buffer := c\<rparr>) frame = (s'\<lparr>buffer := c\<rparr>, ev)"
  using handle_frame_set_buffer [where s = "s\<lparr>buffer := b\<rparr>" and b = c] assms by simp

text \<open>The event of a frame is fatal exactly when the frame ends the session.\<close>

lemma dispatch_fatal:
  "\<not> terminated s \<Longrightarrow>
     EType (snd (dispatch_frame env s typ p)) = EventTypeFatal \<longleftrightarrow> terminated (fst (dispatch_frame env s typ p))"
  by (simp add: dispatch_frame_def handler_defs split: sum.splits)

lemma handle_frame_fatal:
  assumes "handle_frame env s frame = (s', ev)" and "\<not> terminated s"
  shows "EType ev = EventTypeFatal \<longleftrightarrow> terminated s'"
proof (cases "DecodeEnvelope env frame")
  case (Inl err)
  with assms show ?thesis by (auto simp: handle_frame_def fatal_def)
next
  case (Inr tp)
  with assms dispatch_fatal [of "s\<lparr>lastFrameType := fst tp\<rparr>" env "fst tp" "snd tp"] show ?thesis
    by (simp add: handle_frame_def split: prod.splits)
qed

subsection \<open>Framing\<close>

text \<open>What the head of the buffer holds: too little, an invalid length, or a whole frame.\<close>

datatype framing = Incomplete | BadLength frame_issue | Whole bytes bytes

definition next_frame :: "bytes \<Rightarrow> framing" where
  "next_frame b =
     (if length b < 4 then Incomplete
      else if be_val (take 4 b) = 0 then BadLength ZeroFrameLength
      else if be_val (take 4 b) > MaxFrameBytes then BadLength FrameLengthExceedsMax
      else if length b < 4 + be_val (take 4 b) then Incomplete
      else Whole (take (be_val (take 4 b)) (drop 4 b)) (drop (4 + be_val (take 4 b)) b))"

lemma push_loop_framing:
  "push_loop env s = (case next_frame (buffer s) of
     Incomplete \<Rightarrow> (s, [])
   | BadLength issue \<Rightarrow> (s\<lparr>terminated := True\<rparr>, [fatal_event [] (FrameErr issue)])
   | Whole frame rest \<Rightarrow>
       (case handle_frame env (s\<lparr>buffer := rest\<rparr>) frame of
          (s', ev) \<Rightarrow> if EType ev = EventTypeFatal then (s', [ev])
                     else (case push_loop env s' of (s'', evs) \<Rightarrow> (s'', ev # evs))))"
  by (simp add: push_loop.simps [of env s] next_frame_def Let_def)

lemma next_frame_append:
  "next_frame b = Whole frame rest \<Longrightarrow> next_frame (b @ d) = Whole frame (rest @ d)"
  "next_frame b = BadLength issue \<Longrightarrow> next_frame (b @ d) = BadLength issue"
  by (auto simp: next_frame_def split: if_splits)

lemma next_frame_shorter: "next_frame b = Whole frame rest \<Longrightarrow> length rest < length b"
  by (auto simp: next_frame_def split: if_splits)

lemma next_frame_prefixed:
  assumes "EncodeLengthPrefixed frame = Inr out"
  shows "next_frame (out @ rest) = Whole frame rest"
  using assms by (auto simp: next_frame_def EncodeLengthPrefixed_ok be_val_be_bytes)

text \<open>Induction over the frames in the buffer.\<close>

lemma push_induct [case_names Incomplete BadLength Fatal Step]:
  assumes "\<And>s. next_frame (buffer s) = Incomplete \<Longrightarrow> P s"
    and "\<And>s issue. next_frame (buffer s) = BadLength issue \<Longrightarrow> P s"
    and "\<And>s frame rest s' ev. next_frame (buffer s) = Whole frame rest \<Longrightarrow>
           handle_frame env (s\<lparr>buffer := rest\<rparr>) frame = (s', ev) \<Longrightarrow> EType ev = EventTypeFatal \<Longrightarrow> P s"
    and "\<And>s frame rest s' ev. next_frame (buffer s) = Whole frame rest \<Longrightarrow>
           handle_frame env (s\<lparr>buffer := rest\<rparr>) frame = (s', ev) \<Longrightarrow> EType ev \<noteq> EventTypeFatal \<Longrightarrow>
           buffer s' = rest \<Longrightarrow> P s' \<Longrightarrow> P s"
  shows "P s"
proof (induction "length (buffer s)" arbitrary: s rule: less_induct)
  case less
  show ?case
  proof (cases "next_frame (buffer s)")
    case (Whole frame rest)
    obtain s' ev where h: "handle_frame env (s\<lparr>buffer := rest\<rparr>) frame = (s', ev)" by fastforce
    then have b: "buffer s' = rest" using handle_frame_buffer [OF h [symmetric]] by simp
    with less next_frame_shorter [OF Whole] have "P s'" by simp
    with assms(3,4) [OF Whole h] b show ?thesis by blast
  qed (use assms(1,2) in blast)+
qed

subsection \<open>Chunks\<close>

lemma push_loop_append:
  assumes "push_loop env s = (s1, e1)" and "\<not> terminated s"
  shows "push_loop env (s\<lparr>buffer := buffer s @ d\<rparr>) =
    (if terminated s1 then (s1\<lparr>buffer := buffer s1 @ d\<rparr>, e1)
     else case push_loop env (s1\<lparr>buffer := buffer s1 @ d\<rparr>) of (s2, e2) \<Rightarrow> (s2, e1 @ e2))"
  using assms
proof (induction s arbitrary: s1 e1 rule: push_induct [where env = env])
  case (Incomplete s)
  then have "s1 = s" "e1 = []" by (simp_all add: push_loop_framing [of env s])
  with Incomplete show ?case by (simp split: prod.splits)
next
  case (BadLength s issue)
  then show ?case
    by (auto simp: push_loop_framing [of env s] push_loop_framing [of env "s\<lparr>buffer := buffer s @ d\<rparr>"]
        next_frame_append)
next
  case (Fatal s frame rest s' ev)
  have "terminated s'" using handle_frame_fatal [OF Fatal(2)] Fatal(3,5) by simp
  with Fatal handle_frame_buffer [OF Fatal(2) [symmetric]] show ?case
    by (auto simp: push_loop_framing [of env s] push_loop_framing [of env "s\<lparr>buffer := buffer s @ d\<rparr>"]
        next_frame_append handle_frame_other_buffer [OF Fatal(2)])
next
  case (Step s frame rest s' ev)
  have nt: "\<not> terminated s'" using handle_frame_fatal [OF Step(2)] Step(3,7) by simp
  obtain s2 e2 where p: "push_loop env s' = (s2, e2)" by fastforce
  from Step.IH [OF p nt] Step p show ?case
    by (auto simp: push_loop_framing [of env s] push_loop_framing [of env "s\<lparr>buffer := buffer s @ d\<rparr>"]
        next_frame_append handle_frame_other_buffer [OF Step(2)] split: prod.splits)
qed

text \<open>Two sessions that no further input can tell apart: once terminated, the buffer is dead.\<close>

definition same_session :: "SessionAdapter \<Rightarrow> SessionAdapter \<Rightarrow> bool" where
  "same_session s t \<longleftrightarrow> s\<lparr>buffer := []\<rparr> = t\<lparr>buffer := []\<rparr> \<and> (terminated s \<or> buffer s = buffer t)"

lemma same_session_refl [simp]: "same_session s s"
  by (simp add: same_session_def)

lemma same_session_buffer: "terminated s \<Longrightarrow> same_session (s\<lparr>buffer := b\<rparr>) s"
  by (simp add: same_session_def)

lemma same_session_terminated: "same_session s t \<Longrightarrow> terminated s = terminated t"
  unfolding same_session_def by (metis SessionAdapter.select_convs(5) SessionAdapter.surjective
      SessionAdapter.update_convs(1))

lemma same_session_trans: "same_session s t \<Longrightarrow> same_session t u \<Longrightarrow> same_session s u"
  using same_session_terminated [of s t] by (auto simp: same_session_def)

lemma PushInbound_two:
  assumes "PushInbound env s c = (s1, e1)" and "PushInbound env s1 d = (s2, e2)"
  shows "\<exists>s3. PushInbound env s (c @ d) = (s3, e1 @ e2) \<and> same_session s3 s2"
proof -
  consider "terminated s \<or> c = []" | "d = []" | "\<not> terminated s" "c \<noteq> []" "d \<noteq> []" by blast
  then show ?thesis
  proof cases
    case 3
    then have p: "push_loop env (s\<lparr>buffer := buffer s @ c\<rparr>) = (s1, e1)"
      using assms(1) by (simp add: PushInbound_def)
    from push_loop_append [OF p, of d] 3 assms(2) show ?thesis
      by (auto simp: PushInbound_def same_session_buffer split: if_splits)
  qed (use assms in \<open>auto simp: PushInbound_def split: if_splits\<close>)
qed

fun push_all :: "wire_env \<Rightarrow> SessionAdapter \<Rightarrow> bytes list \<Rightarrow> SessionAdapter \<times> Event list" where
  "push_all env s [] = (s, [])"
| "push_all env s (c # cs) = (case PushInbound env s c of (s', evs) \<Rightarrow>
     (case push_all env s' cs of (s'', evs') \<Rightarrow> (s'', evs @ evs')))"

lemma push_all_concat:
  "\<exists>t. PushInbound env s (concat cs) = (t, snd (push_all env s cs)) \<and>
       same_session t (fst (push_all env s cs))"
proof (induction cs arbitrary: s)
  case Nil
  then show ?case by (simp add: PushInbound_def)
next
  case (Cons c cs)
  obtain s1 e1 where p: "PushInbound env s c = (s1, e1)" by fastforce
  from Cons [of s1] obtain t where t: "PushInbound env s1 (concat cs) = (t, snd (push_all env s1 cs))"
    "same_session t (fst (push_all env s1 cs))" by blast
  from PushInbound_two [OF p t(1)] t(2) p show ?case
    by (auto split: prod.splits intro: same_session_trans)
qed

subsection \<open>Frames delivered\<close>

text \<open>The abstract session: frames in order, up to the first fatal one.\<close>

fun run_frames :: "wire_env \<Rightarrow> SessionAdapter \<Rightarrow> bytes list \<Rightarrow> SessionAdapter \<times> Event list" where
  "run_frames env s [] = (s, [])"
| "run_frames env s (f # fs) = (case handle_frame env s f of (s', ev) \<Rightarrow>
     if EType ev = EventTypeFatal then (s', [ev])
     else (case run_frames env s' fs of (s'', evs) \<Rightarrow> (s'', ev # evs)))"

lemma push_loop_frames:
  assumes "list_all2 (\<lambda>f out. EncodeLengthPrefixed f = Inr out) frames outs" and "\<not> terminated s"
    and "buffer s = []"
  shows "\<exists>t. push_loop env (s\<lparr>buffer := concat outs\<rparr>) = (t, snd (run_frames env s frames)) \<and>
           same_session t (fst (run_frames env s frames))"
  using assms
proof (induction frames outs arbitrary: s rule: list_all2_induct)
  case Nil
  then show ?case
    by (simp add: push_loop_framing [of env "s\<lparr>buffer := []\<rparr>"] next_frame_def same_session_def)
next
  case (Cons f fs out outs)
  obtain s' ev where h: "handle_frame env s f = (s', ev)" by fastforce
  have b: "buffer s' = []" using handle_frame_buffer [OF h [symmetric]] Cons.prems(2) by simp
  have h': "handle_frame env (s\<lparr>buffer := concat outs\<rparr>) f = (s'\<lparr>buffer := concat outs\<rparr>, ev)"
    using handle_frame_set_buffer [where s = s and b = "concat outs"] h by simp
  note u = push_loop_framing [of env "s\<lparr>buffer := out @ concat outs\<rparr>"] next_frame_prefixed [OF Cons.hyps(1)]
  show ?case
  proof (cases "EType ev = EventTypeFatal")
    case True
    then have "terminated s'" using handle_frame_fatal [OF h Cons.prems(1)] by simp
    with True h h' u show ?thesis by (simp add: same_session_buffer)
  next
    case False
    then have "\<not> terminated s'" using handle_frame_fatal [OF h Cons.prems(1)] by simp
    from Cons.IH [OF this b] False h h' u show ?thesis by (auto split: prod.splits)
  qed
qed

subsection \<open>Invariants of the frames\<close>

text \<open>
  A property of the session that every frame keeps, with a property of the event every frame
  raises, holds of a whole \<open>PushInbound\<close>.
\<close>

locale frame_invariant =
  fixes env :: wire_env and I :: "SessionAdapter \<Rightarrow> bool" and Q :: "Event \<Rightarrow> bool"
  assumes frame: "I s \<Longrightarrow> handle_frame env s f = (s', ev) \<Longrightarrow> I s' \<and> Q ev"
    and set_buffer: "I s \<Longrightarrow> I (s\<lparr>buffer := b\<rparr>)"
    and stop: "I s \<Longrightarrow> I (s\<lparr>terminated := True\<rparr>)"
    and bad_length: "Q (fatal_event [] err)"
begin

lemma push_loop_keeps: "I s \<Longrightarrow> push_loop env s = (s', evs) \<Longrightarrow> I s' \<and> list_all Q evs"
proof (induction s arbitrary: s' evs rule: push_induct [where env = env])
  case (Incomplete s)
  then show ?case by (simp add: push_loop_framing [of env s])
next
  case (BadLength s issue)
  then show ?case using stop bad_length by (auto simp: push_loop_framing [of env s])
next
  case (Fatal s frame rest t ev)
  then show ?case using frame [OF set_buffer Fatal(2)] by (auto simp: push_loop_framing [of env s])
next
  case (Step s frame rest t ev)
  then show ?case using frame [OF set_buffer Step(2)]
    by (auto simp: push_loop_framing [of env s] split: prod.splits)
qed

lemma PushInbound_keeps: "I s \<Longrightarrow> PushInbound env s c = (s', evs) \<Longrightarrow> I s' \<and> list_all Q evs"
  using push_loop_keeps [OF set_buffer] by (auto simp: PushInbound_def split: if_splits)

end

text \<open>A frame is fatal or ingested ids of a relay that authenticated itself.\<close>

lemma handle_frame_trust:
  assumes "handle_frame env s f = (s', ev)"
  shows "authenticatedRelay s' = authenticatedRelay s \<and>
    (EType ev = EventTypeRelayIngest \<longrightarrow> authenticatedRelay s) \<and>
    (EType ev = EventTypeUntrustedRelay \<longrightarrow> \<not> authenticatedRelay s)"
proof (cases "DecodeEnvelope env f")
  case (Inl err)
  with assms show ?thesis by (auto simp: handle_frame_def fatal_def)
next
  case (Inr tp)
  have "let r = dispatch_frame env t ty p in authenticatedRelay (fst r) = authenticatedRelay t \<and>
      (EType (snd r) = EventTypeRelayIngest \<longrightarrow> authenticatedRelay t) \<and>
      (EType (snd r) = EventTypeUntrustedRelay \<longrightarrow> \<not> authenticatedRelay t)" for t ty p
    by (simp add: dispatch_frame_def handler_defs Let_def split: sum.splits)
  from this [of "s\<lparr>lastFrameType := fst tp\<rparr>" "fst tp" "snd tp"] assms Inr show ?thesis
    by (simp add: handle_frame_def split: prod.splits)
qed

interpretation trust: frame_invariant env "\<lambda>s. authenticatedRelay s = a"
  "\<lambda>ev. (EType ev = EventTypeRelayIngest \<longrightarrow> a) \<and> (EType ev = EventTypeUntrustedRelay \<longrightarrow> \<not> a)"
  for env a
  by unfold_locales (auto dest: handle_frame_trust)

text \<open>
  The receipt bookkeeping: the index is the positions of the order, the order has no
  duplicates, and nothing is expected when no transfer is pending.
\<close>

definition receipt_inv :: "SessionAdapter \<Rightarrow> bool" where
  "receipt_inv s \<longleftrightarrow> dom (expectedReceiptIndex s) = set (expectedReceiptOrder s) \<and>
     distinct (expectedReceiptOrder s) \<and> [] \<notin> set (expectedReceiptOrder s) \<and>
     (\<not> awaitingReceipt s \<longrightarrow> expectedReceiptOrder s = [])"

definition receipt_event_ok :: "Event \<Rightarrow> bool" where
  "receipt_event_ok ev \<longleftrightarrow> (EType ev = EventTypeReceipt \<longrightarrow>
     (\<exists>r. EReceipt ev = Some r \<and> distinct (Accepted r) \<and> set (Accepted r) \<subseteq> set (ReceiptExpected ev)))"

lemma receipt_loop_ok: "receipt_loop idx ack xs = Inr () \<longleftrightarrow> set xs \<subseteq> dom idx \<and> distinct xs \<and> set xs \<inter> ack = {}"
  by (induction xs arbitrary: ack) auto

lemma validateExpectedReceipt_ok:
  assumes "receipt_inv s" and "distinct (Accepted r)"
  shows "validateExpectedReceipt s r = Inr () \<longleftrightarrow>
    awaitingReceipt s \<and> set (Accepted r) \<subseteq> set (expectedReceiptOrder s)"
  using assms by (auto simp: validateExpectedReceipt_def receipt_inv_def receipt_loop_ok)

text \<open>How one frame changes the bookkeeping.\<close>

definition receipt_step :: "SessionAdapter \<Rightarrow> SessionAdapter \<Rightarrow> Event \<Rightarrow> bool" where
  "receipt_step s s' ev \<longleftrightarrow> receipt_inv s' \<and> receipt_event_ok ev \<and>
    (if EType ev = EventTypeReceipt
     then awaitingReceipt s \<and> \<not> awaitingReceipt s' \<and> ReceiptExpected ev = expectedReceiptOrder s
     else awaitingReceipt s' = awaitingReceipt s \<and> expectedReceiptOrder s' = expectedReceiptOrder s)"

lemma on_receipt_step:
  assumes "receipt_inv s"
  shows "receipt_step s (fst (on_receipt s p)) (snd (on_receipt s p))"
proof (cases "ParseReceiptPayload (Some p)")
  case (Inl err)
  with assms show ?thesis
    by (simp add: on_receipt_def fatal_def receipt_step_def receipt_inv_def receipt_event_ok_def)
next
  case (Inr r)
  then have d: "distinct (Accepted r)" by (rule ParseReceiptPayload_ok)
  show ?thesis
  proof (cases "validateExpectedReceipt s r")
    case (Inl err)
    with Inr assms show ?thesis
      by (simp add: on_receipt_def fatal_def receipt_step_def receipt_inv_def receipt_event_ok_def)
  next
    case (Inr u)
    with validateExpectedReceipt_ok [OF assms d] have
      "awaitingReceipt s" "set (Accepted r) \<subseteq> set (expectedReceiptOrder s)" by simp_all
    with \<open>ParseReceiptPayload (Some p) = Inr r\<close> Inr d show ?thesis
      by (simp add: on_receipt_def receipt_step_def receipt_inv_def receipt_event_ok_def)
  qed
qed

lemma other_handlers_step:
  assumes "receipt_inv s"
  shows "receipt_step s (fst (on_hello s p)) (snd (on_hello s p))"
    and "receipt_step s (fst (on_relay_ingest s p)) (snd (on_relay_ingest s p))"
    and "receipt_step s (fst (on_summary s p)) (snd (on_summary s p))"
    and "receipt_step s (fst (on_request s p)) (snd (on_request s p))"
    and "receipt_step s (fst (on_transfer env s p)) (snd (on_transfer env s p))"
    and "receipt_step s (fst (fatal s t e)) (snd (fatal s t e))"
  using assms
  by (simp_all add: handler_defs receipt_step_def receipt_event_ok_def receipt_inv_def split: sum.splits)

lemma handle_frame_receipt:
  assumes "receipt_inv s" and "handle_frame env s f = (s', ev)"
  shows "receipt_step s s' ev"
proof -
  have i: "receipt_inv (s\<lparr>lastFrameType := t\<rparr>)" for t using assms(1) by (simp add: receipt_inv_def)
  have "receipt_step (s\<lparr>lastFrameType := t\<rparr>) = receipt_step s" for t
    by (intro ext) (simp add: receipt_step_def)
  with other_handlers_step [OF i] on_receipt_step [OF i]
  have "receipt_step s (fst (dispatch_frame env (s\<lparr>lastFrameType := t\<rparr>) t p))
     (snd (dispatch_frame env (s\<lparr>lastFrameType := t\<rparr>) t p))" for t p
    by (simp add: dispatch_frame_def)
  with assms(2) other_handlers_step(6) [OF assms(1)] show ?thesis
    by (simp add: handle_frame_def split: sum.splits prod.splits)
       (metis fst_conv snd_conv)+
qed

interpretation receipts: frame_invariant env receipt_inv receipt_event_ok for env
  by unfold_locales
     (auto simp: receipt_step_def dest: handle_frame_receipt, simp_all add: receipt_inv_def receipt_event_ok_def)

abbreviation receipt_events :: "Event list \<Rightarrow> Event list" where
  "receipt_events evs \<equiv> filter (\<lambda>ev. EType ev = EventTypeReceipt) evs"

lemma push_loop_receipts:
  "receipt_inv s \<Longrightarrow> push_loop env s = (s', evs) \<Longrightarrow>
     (if awaitingReceipt s then length (receipt_events evs) \<le> 1 else receipt_events evs = []) \<and>
     list_all (\<lambda>ev. ReceiptExpected ev = expectedReceiptOrder s) (receipt_events evs) \<and>
     (if receipt_events evs = [] then awaitingReceipt s' = awaitingReceipt s \<and> expectedReceiptOrder s' = expectedReceiptOrder s
      else \<not> awaitingReceipt s')"
proof (induction s arbitrary: s' evs rule: push_induct [where env = env])
  case (Incomplete s)
  then show ?case by (simp add: push_loop_framing [of env s])
next
  case (BadLength s issue)
  then show ?case by (auto simp: push_loop_framing [of env s])
next
  case (Fatal s frame rest t ev)
  have "receipt_step s t ev"
    using handle_frame_receipt [OF receipts.set_buffer [OF Fatal(4)] Fatal(2)] by (simp add: receipt_step_def split: if_splits)
  with Fatal show ?case by (auto simp: push_loop_framing [of env s] receipt_step_def)
next
  case (Step s frame rest t ev)
  have st: "receipt_step s t ev"
    using handle_frame_receipt [OF receipts.set_buffer [OF Step(6)] Step(2)]
    by (simp add: receipt_step_def split: if_splits)
  obtain s2 evs2 where p: "push_loop env t = (s2, evs2)" by fastforce
  have e: "evs = ev # evs2" "s' = s2" using Step p by (simp_all add: push_loop_framing [of env s])
  have "receipt_inv t" using st by (simp add: receipt_step_def)
  note ih = Step.IH [OF this p]
  show ?case using ih st unfolding e receipt_step_def
    by (cases "EType ev = EventTypeReceipt"; cases "awaitingReceipt t"; cases "receipt_events evs2 = []") simp_all
qed

lemma PushInbound_receipts:
  assumes "receipt_inv s" and "PushInbound env s chunk = (s', evs)"
  shows "receipt_inv s'" and "list_all receipt_event_ok evs"
    and "if awaitingReceipt s then length (receipt_events evs) \<le> 1 else receipt_events evs = []"
    and "list_all (\<lambda>ev. ReceiptExpected ev = expectedReceiptOrder s) (receipt_events evs)"
    and "if receipt_events evs = [] then awaitingReceipt s' = awaitingReceipt s \<and> expectedReceiptOrder s' = expectedReceiptOrder s
      else \<not> awaitingReceipt s'"
proof -
  show "receipt_inv s'" "list_all receipt_event_ok evs" using receipts.PushInbound_keeps [OF assms] by simp_all
  have "(if awaitingReceipt s then length (receipt_events evs) \<le> 1 else receipt_events evs = []) \<and>
     list_all (\<lambda>ev. ReceiptExpected ev = expectedReceiptOrder s) (receipt_events evs) \<and>
     (if receipt_events evs = [] then awaitingReceipt s' = awaitingReceipt s \<and> expectedReceiptOrder s' = expectedReceiptOrder s
      else \<not> awaitingReceipt s')"
    using push_loop_receipts [OF receipts.set_buffer [OF assms(1), of "buffer s @ chunk"], of env s' evs] assms(2)
    by (auto simp: PushInbound_def split: if_splits)
  then show "if awaitingReceipt s then length (receipt_events evs) \<le> 1 else receipt_events evs = []"
    and "list_all (\<lambda>ev. ReceiptExpected ev = expectedReceiptOrder s) (receipt_events evs)"
    and "if receipt_events evs = [] then awaitingReceipt s' = awaitingReceipt s \<and> expectedReceiptOrder s' = expectedReceiptOrder s
      else \<not> awaitingReceipt s'" by blast+
qed

subsection \<open>Reachable sessions\<close>

text \<open>The steps the owner of an adapter takes, and the sessions they reach.\<close>

inductive session_step :: "wire_env \<Rightarrow> SessionAdapter \<Rightarrow> SessionAdapter \<Rightarrow> bool" for env where
  Push: "session_step env s (fst (PushInbound env s chunk))"
| Expect: "session_step env s (SetExpectedReceipt s ids)"
| Observe: "session_step env s (ObserveNonFatal s err)"

inductive reachable_session :: "wire_env \<Rightarrow> HelloPayload \<Rightarrow> bool \<Rightarrow> SessionAdapter \<Rightarrow> bool" for env hello auth where
  New: "reachable_session env hello auth (NewSessionAdapter hello auth)"
| Step: "reachable_session env hello auth s \<Longrightarrow> session_step env s s' \<Longrightarrow> reachable_session env hello auth s'"

lemma expect_loop_inv:
  assumes "dom idx = set order" and "distinct order" and "[] \<notin> set order"
    and "expect_loop ids order idx = (order', idx')"
  shows "dom idx' = set order' \<and> distinct order' \<and> [] \<notin> set order' \<and>
         set order' = set order \<union> (set ids - {[]})"
  using assms
proof (induction ids arbitrary: order idx)
  case Nil
  then show ?case by simp
next
  case (Cons item rest)
  show ?case
  proof (cases "item = [] \<or> idx item \<noteq> None")
    case True
    then show ?thesis using Cons by (auto simp: domIff split: if_splits)
  next
    case False
    then have "item \<notin> set order" using Cons.prems(1) by auto
    moreover have "dom (idx(item \<mapsto> of_nat (length order))) = set (order @ [item])"
      using Cons.prems(1) by simp
    ultimately show ?thesis
      using Cons.IH [of "idx(item \<mapsto> of_nat (length order))" "order @ [item]"] Cons.prems False
      by (auto simp del: dom_fun_upd fun_upd_apply)
  qed
qed

lemma SetExpectedReceipt_inv:
  "receipt_inv (SetExpectedReceipt s ids)"
  "awaitingReceipt (SetExpectedReceipt s ids)"
  "set (expectedReceiptOrder (SetExpectedReceipt s ids)) = set ids - {[]}"
  using expect_loop_inv [of Map.empty "[]" ids]
  by (auto simp: SetExpectedReceipt_def receipt_inv_def split: prod.splits)

text \<open>Between calls a live session holds less than one frame.\<close>

lemma push_loop_drained:
  "\<not> terminated s \<Longrightarrow> push_loop env s = (s', evs) \<Longrightarrow> terminated s' \<or> next_frame (buffer s') = Incomplete"
proof (induction s arbitrary: s' evs rule: push_induct [where env = env])
  case (Incomplete s)
  then show ?case by (simp add: push_loop_framing [of env s])
next
  case (BadLength s issue)
  then show ?case by (auto simp: push_loop_framing [of env s])
next
  case (Fatal s frame rest t ev)
  then show ?case using handle_frame_fatal [OF Fatal(2)] by (auto simp: push_loop_framing [of env s])
next
  case (Step s frame rest t ev)
  then show ?case using handle_frame_fatal [OF Step(2)]
    by (auto simp: push_loop_framing [of env s] split: prod.splits)
qed

lemma Incomplete_short: "next_frame b = Incomplete \<Longrightarrow> length b < 4 + MaxFrameBytes"
  by (auto simp: next_frame_def split: if_splits)

definition session_inv :: "bool \<Rightarrow> SessionAdapter \<Rightarrow> bool" where
  "session_inv auth s \<longleftrightarrow> receipt_inv s \<and> authenticatedRelay s = auth \<and>
     (terminated s \<or> next_frame (buffer s) = Incomplete)"

lemma session_inv_push:
  assumes "session_inv auth s"
  shows "session_inv auth (fst (PushInbound env s chunk))"
proof -
  obtain s' evs where p: "PushInbound env s chunk = (s', evs)" by fastforce
  then show ?thesis
    using assms receipts.PushInbound_keeps [OF _ p] trust.PushInbound_keeps [OF _ p]
      push_loop_drained [of "s\<lparr>buffer := buffer s @ chunk\<rparr>" env s' evs]
    by (auto simp: session_inv_def PushInbound_def split: if_splits)
qed

lemma reachable_session_inv:
  assumes "reachable_session env hello auth s"
  shows "session_inv auth s"
  using assms
proof induction
  case New
  then show ?case by (simp add: session_inv_def receipt_inv_def NewSessionAdapter_def next_frame_def)
next
  case (Step s s')
  from Step(2) show ?case
  proof cases
    case (Push chunk)
    then show ?thesis using session_inv_push [OF Step.IH] by simp
  next
    case (Expect ids)
    then show ?thesis using Step.IH SetExpectedReceipt_inv(1) [of s ids]
      by (auto simp: session_inv_def SetExpectedReceipt_def split: prod.splits)
  next
    case (Observe err)
    then show ?thesis using Step.IH by (auto simp: session_inv_def receipt_inv_def ObserveNonFatal_def)
  qed
qed

subsection \<open>Runs of a session\<close>

text \<open>The calls of the owner of an adapter in order, and the events they raise.\<close>

datatype session_op = PushOp bytes | ExpectOp "string list" | ObserveOp "gerr option"

fun session_do :: "wire_env \<Rightarrow> SessionAdapter \<Rightarrow> session_op \<Rightarrow> SessionAdapter \<times> Event list" where
  "session_do env s (PushOp chunk) = PushInbound env s chunk"
| "session_do env s (ExpectOp ids) = (SetExpectedReceipt s ids, [])"
| "session_do env s (ObserveOp err) = (ObserveNonFatal s err, [])"

fun session_run :: "wire_env \<Rightarrow> SessionAdapter \<Rightarrow> session_op list \<Rightarrow> SessionAdapter \<times> Event list" where
  "session_run env s [] = (s, [])"
| "session_run env s (op # ops) = (case session_do env s op of
     (s', evs) \<Rightarrow> (case session_run env s' ops of (s'', evs') \<Rightarrow> (s'', evs @ evs')))"

lemma session_run_append:
  "session_run env s (ops @ ops') = (case session_run env s ops of
     (s', evs) \<Rightarrow> (case session_run env s' ops' of (s'', evs') \<Rightarrow> (s'', evs @ evs')))"
  by (induction ops arbitrary: s) (auto split: prod.splits)

text \<open>Until the next \<open>SetExpectedReceipt\<close> there is at most one receipt, for what is expected now.\<close>

lemma session_run_receipts:
  assumes "receipt_inv s" and "\<forall>ids. ExpectOp ids \<notin> set ops"
  shows "list_all receipt_event_ok (snd (session_run env s ops)) \<and>
    (if awaitingReceipt s then length (receipt_events (snd (session_run env s ops))) \<le> 1
     else receipt_events (snd (session_run env s ops)) = []) \<and>
    list_all (\<lambda>ev. ReceiptExpected ev = expectedReceiptOrder s) (receipt_events (snd (session_run env s ops)))"
  using assms
proof (induction ops arbitrary: s)
  case (Cons op ops)
  obtain s1 evs where d: "session_do env s op = (s1, evs)" by fastforce
  have st: "receipt_inv s1 \<and> list_all receipt_event_ok evs \<and>
      (if awaitingReceipt s then length (receipt_events evs) \<le> 1 else receipt_events evs = []) \<and>
      list_all (\<lambda>ev. ReceiptExpected ev = expectedReceiptOrder s) (receipt_events evs) \<and>
      (if receipt_events evs = [] then awaitingReceipt s1 = awaitingReceipt s \<and> expectedReceiptOrder s1 = expectedReceiptOrder s
       else \<not> awaitingReceipt s1)"
  proof (cases op)
    case (PushOp chunk)
    with d PushInbound_receipts [OF Cons.prems(1), of env chunk s1 evs] show ?thesis by simp
  next
    case (ObserveOp err)
    with d have "s1 = s \<or> s1 = s\<lparr>lastObserverError := err\<rparr>" "evs = []" by (auto simp: ObserveNonFatal_def)
    with Cons.prems(1) show ?thesis by (elim disjE) (simp_all add: receipt_inv_def)
  qed (use Cons.prems(2) in auto)
  then have ih: "list_all receipt_event_ok (snd (session_run env s1 ops)) \<and>
    (if awaitingReceipt s1 then length (receipt_events (snd (session_run env s1 ops))) \<le> 1
     else receipt_events (snd (session_run env s1 ops)) = []) \<and>
    list_all (\<lambda>ev. ReceiptExpected ev = expectedReceiptOrder s1) (receipt_events (snd (session_run env s1 ops)))"
    using Cons.prems(2) by (intro Cons.IH) auto
  have "snd (session_run env s (op # ops)) = evs @ snd (session_run env s1 ops)" using d by (simp split: prod.splits)
  with st ih show ?case by (cases "receipt_events evs = []") (auto split: if_splits)
qed simp

text \<open>A chunk that completes a RELAY_INGEST frame in a live session.\<close>

lemma ingest_chunk:
  assumes "\<not> terminated s" and "EncodeLengthPrefixed frame = Inr (buffer s @ chunk)"
    and "DecodeEnvelope env frame = Inr (FrameTypeRelayIngest, payload)" and "ParseRelayIngestPayload (Some payload) = Inr ingest"
    and "next_frame (buffer s) = Incomplete" and "authenticatedRelay s = auth"
  shows "snd (PushInbound env s chunk) =
      [(event (if auth then EventTypeRelayIngest else EventTypeUntrustedRelay) FrameTypeRelayIngest)\<lparr>EItemIDs := ItemIDs ingest\<rparr>] \<and>
    untrustedRelayIngest (fst (PushInbound env s chunk)) = (if auth then untrustedRelayIngest s else s64 (untrustedRelayIngest s + 1))"
proof -
  have whole: "next_frame (buffer s @ chunk) = Whole frame []" using next_frame_prefixed [OF assms(2), of "[]"] by simp
  with assms(5) have "chunk \<noteq> []" by auto
  then have push: "PushInbound env s chunk = (case handle_frame env (s\<lparr>buffer := []\<rparr>) frame of
      (s', ev) \<Rightarrow> if EType ev = EventTypeFatal then (s', [ev]) else case push_loop env s' of (s'', evs) \<Rightarrow> (s'', ev # evs))"
    using assms(1) by (simp add: PushInbound_def push_loop_framing [of env "s\<lparr>buffer := buffer s @ chunk\<rparr>"] whole)
  have idle: "push_loop env t = (t, [])" if "buffer t = []" for t using that by (simp add: push_loop.simps)
  show ?thesis unfolding push using assms(6)
    by (simp add: handle_frame_def assms(3) dispatch_frame_def on_relay_ingest_def assms(4) idle)
qed

lemma push_loop_fatal:
  "\<not> terminated s \<Longrightarrow> push_loop env s = (s', evs) \<Longrightarrow>
     list_all (\<lambda>ev. EType ev \<noteq> EventTypeFatal) (butlast evs) \<and>
     (terminated s' \<longleftrightarrow> evs \<noteq> [] \<and> EType (last evs) = EventTypeFatal)"
proof (induction s arbitrary: s' evs rule: push_induct [where env = env])
  case (Incomplete s)
  then show ?case by (simp add: push_loop_framing [of env s])
next
  case (BadLength s issue)
  then show ?case by (auto simp: push_loop_framing [of env s])
next
  case (Fatal s frame rest t ev)
  then show ?case using handle_frame_fatal [OF Fatal(2)] by (auto simp: push_loop_framing [of env s])
next
  case (Step s frame rest t ev)
  then show ?case using handle_frame_fatal [OF Step(2)]
    by (auto simp: push_loop_framing [of env s] split: prod.splits if_splits)
qed

subsection \<open>Properties\<close>

text \<open>
  Claim C1. How a byte stream is cut into chunks does not matter: feeding the chunks one by one
  raises exactly the events, in the same order, of feeding their concatenation at once, and the two
  sessions end in the same state (up to the dead buffer of a terminated session).  This holds for
  every stream, malformed ones included, and from every session state.
\<close>

theorem push_chunking_independent:
  "snd (push_all env s chunks) = snd (PushInbound env s (concat chunks)) \<and>
   same_session (fst (PushInbound env s (concat chunks))) (fst (push_all env s chunks))"
  using push_all_concat [of env s chunks] by auto

text \<open>
  Claim C17. The session delivers frames: when the stream, however it is cut into chunks, is the
  concatenation of length-prefixed frames, a live session with an empty buffer raises exactly the
  events of handling these frames in order, up to and including the first fatal one.
\<close>

theorem push_refines_frames:
  assumes "list_all2 (\<lambda>f out. EncodeLengthPrefixed f = Inr out) frames outs"
    and "concat chunks = concat outs" and "\<not> terminated s" and "buffer s = []"
  shows "snd (push_all env s chunks) = snd (run_frames env s frames) \<and>
         same_session (fst (PushInbound env s (concat chunks))) (fst (run_frames env s frames))"
proof (cases "concat outs = []")
  case True
  have "out \<noteq> []" if "out \<in> set outs" for out
    using assms(1) that by (auto simp: list_all2_conv_all_nth in_set_conv_nth EncodeLengthPrefixed_ok)
  with True have "outs = []" by (cases outs) auto
  with assms push_all_concat [of env s chunks] show ?thesis by (auto simp: PushInbound_def)
next
  case False
  obtain t where "push_loop env (s\<lparr>buffer := concat outs\<rparr>) = (t, snd (run_frames env s frames))"
    "same_session t (fst (run_frames env s frames))"
    using push_loop_frames [OF assms(1,3,4)] by blast
  then have "PushInbound env s (concat chunks) = (t, snd (run_frames env s frames))"
    unfolding assms(2) using False assms(3,4) by (simp add: PushInbound_def del: concat_eq_Nil_conv)
  with push_all_concat [of env s chunks] \<open>same_session t _\<close> show ?thesis by auto
qed

text \<open>A session that expects a receipt, and a HELLO and an empty RECEIPT as one-byte frames.\<close>

definition sample_wire :: wire_env where
  "sample_wire = sample_env\<lparr>cbor_envelope :=
     (\<lambda>f. if f = ''H'' then Some (FrameTypeHello, Some (hello_fields (BuildRelayHello ''r'')))
          else if f = ''R'' then Some (FrameTypeReceipt, Some [(''received'', GArr [GStr ''a''])])
          else None)\<rparr>"

definition sample_session :: SessionAdapter where
  "sample_session = SetExpectedReceipt (NewSessionAdapter (BuildRelayHello ''r'') False) [''a'', ''b'']"

lemma prefix_one: "be_bytes 4 (Suc 0) = [NUL, NUL, NUL, CHR 0x01]"
proof -
  have "be_bytes (Suc (Suc (Suc (Suc 0)))) 1 = [NUL, NUL, NUL, CHR 0x01]"
    by (simp add: char_of_def bit_0)
  moreover have four: "(4 :: nat) = Suc (Suc (Suc (Suc 0)))" by simp
  ultimately show ?thesis unfolding four by (simp only: One_nat_def)
qed

theorem push_refines_frames_witness:
  "snd (push_all sample_wire sample_session [[NUL, NUL], [NUL, CHR 0x01, CHR ''H'', NUL], [NUL, NUL, CHR 0x01, CHR ''R'']]) =
   snd (run_frames sample_wire sample_session [''H'', ''R''])"
proof -
  have "list_all2 (\<lambda>f out. EncodeLengthPrefixed f = Inr out) [''H'', ''R'']
      [[NUL, NUL, NUL, CHR 0x01, CHR ''H''], [NUL, NUL, NUL, CHR 0x01, CHR ''R'']]"
    by (simp add: EncodeLengthPrefixed_def prefix_one)
  from push_refines_frames [OF this, of "[[NUL, NUL], [NUL, CHR 0x01, CHR ''H'', NUL], [NUL, NUL, CHR 0x01, CHR ''R'']]"
      sample_session sample_wire]
  show ?thesis by (simp add: sample_session_def SetExpectedReceipt_def NewSessionAdapter_def)
qed

text \<open>
  Claim C32. Fatal events and termination go together: when a live session handles a chunk, no event
  but the last is fatal, the session is terminated exactly when the last event is fatal, and a
  terminated session ignores all further input.
\<close>

theorem fatal_event_terminates:
  assumes "PushInbound env s chunk = (s', evs)" and "\<not> terminated s"
  shows "list_all (\<lambda>ev. EType ev \<noteq> EventTypeFatal) (butlast evs) \<and>
         (terminated s' \<longleftrightarrow> evs \<noteq> [] \<and> EType (last evs) = EventTypeFatal) \<and>
         (terminated s' \<longrightarrow> PushInbound env s' chunk' = (s', []))"
  using push_loop_fatal [of "s\<lparr>buffer := buffer s @ chunk\<rparr>" env s' evs] assms
  by (auto simp: PushInbound_def split: if_splits)

theorem fatal_event_terminates_witness:
  "terminated (fst (PushInbound sample_wire sample_session [NUL, NUL, NUL, NUL])) \<and>
   PushInbound sample_wire (fst (PushInbound sample_wire sample_session [NUL, NUL, NUL, NUL])) ''x'' =
     (fst (PushInbound sample_wire sample_session [NUL, NUL, NUL, NUL]), [])"
proof -
  have "PushInbound sample_wire sample_session [NUL, NUL, NUL, NUL] =
      (sample_session\<lparr>buffer := [NUL, NUL, NUL, NUL], terminated := True\<rparr>,
       [fatal_event [] (FrameErr ZeroFrameLength)])"
    by (simp add: PushInbound_def push_loop.simps sample_session_def SetExpectedReceipt_def NewSessionAdapter_def)
  from fatal_event_terminates [OF this, of "''x''"] this show ?thesis
    by (simp add: sample_session_def SetExpectedReceipt_def NewSessionAdapter_def)
qed


text \<open>
  Claim C18. Receipts acknowledge only what was sent last, and once: through any calls of a session, no receipt is raised
  before the first \<open>SetExpectedReceipt\<close>; and between one \<open>SetExpectedReceipt\<close> and the next, whatever the
  peer sends and whatever was expected before, at most one receipt is raised, it names as expected exactly the non-empty ids of
  that call, and it lists distinct ids all among them.
\<close>

theorem receipts_only_for_pending:
  assumes "\<forall>xs. ExpectOp xs \<notin> set ops" and "s = fst (session_run env (NewSessionAdapter hello auth) (before @ [ExpectOp ids]))"
  shows "receipt_events (snd (session_run env (NewSessionAdapter hello auth) ops)) = [] \<and>
    length (receipt_events (snd (session_run env s ops))) \<le> 1 \<and>
    (\<forall>ev \<in> set (receipt_events (snd (session_run env s ops))). set (ReceiptExpected ev) = set ids - {[]} \<and>
       (\<exists>r. EReceipt ev = Some r \<and> distinct (Accepted r) \<and> set (Accepted r) \<subseteq> set ids - {[]}))"
proof -
  have new: "receipt_inv (NewSessionAdapter hello auth)" "\<not> awaitingReceipt (NewSessionAdapter hello auth)"
    by (simp_all add: NewSessionAdapter_def receipt_inv_def)
  have s: "s = SetExpectedReceipt (fst (session_run env (NewSessionAdapter hello auth) before)) ids"
    using assms(2) by (simp add: session_run_append split: prod.splits)
  note expect = SetExpectedReceipt_inv [of "fst (session_run env (NewSessionAdapter hello auth) before)" ids, folded s]
  from session_run_receipts [OF new(1) assms(1), of env] session_run_receipts [OF expect(1) assms(1), of env] new(2) expect(2,3)
  show ?thesis by (auto simp: list_all_iff receipt_event_ok_def)
qed

lemma sample_order: "expectedReceiptOrder sample_session = [''a'', ''b'']"
  by (simp add: sample_session_def SetExpectedReceipt_def)

lemma sample_receipt:
  "PushInbound sample_wire sample_session [NUL, NUL, NUL, CHR 0x01, CHR ''R''] =
     (sample_session\<lparr>buffer := [], lastFrameType := FrameTypeReceipt, awaitingReceipt := False,
        expectedReceiptOrder := [], expectedReceiptIndex := Map.empty\<rparr>,
      [(event EventTypeReceipt FrameTypeReceipt)
         \<lparr>EReceipt := Some \<lparr>Accepted = [''a'']\<rparr>, ReceiptExpected := [''a'', ''b'']\<rparr>])"
  by (simp add: PushInbound_def push_loop.simps sample_session_def SetExpectedReceipt_def NewSessionAdapter_def
      handle_frame_def DecodeEnvelope_def sample_wire_def dispatch_frame_def on_receipt_def
      ParseReceiptPayload_def only_fields_def parseStringSlice_GArr [where out = "[''a'']"]
      hasDuplicateStrings_def validateExpectedReceipt_def)

theorem receipts_only_for_pending_witness:
  "\<exists>ev r. receipt_events (snd (session_run sample_wire sample_session [PushOp [NUL, NUL, NUL, CHR 0x01, CHR ''R'']])) = [ev] \<and>
     EReceipt ev = Some r \<and> set (Accepted r) \<subseteq> {''a'', ''b''} \<and> set (ReceiptExpected ev) = {''a'', ''b''}"
proof -
  let ?ops = "[PushOp [NUL, NUL, NUL, CHR 0x01, CHR ''R'']]"
  have s: "sample_session = fst (session_run sample_wire (NewSessionAdapter (BuildRelayHello ''r'') False) ([] @ [ExpectOp [''a'', ''b'']]))"
    by (simp add: sample_session_def)
  have "\<forall>xs. ExpectOp xs \<notin> set ?ops" by simp
  from receipts_only_for_pending [OF this s] show ?thesis by (simp add: sample_receipt)
qed

text \<open>
  Claim C19. In every reachable session the buffer holds less than one maximal frame with its prefix, unless the session has
  ended, whatever the peer sends; the ids expected in a receipt are distinct and non-empty and are exactly the
  keys of the index; and ingested ids are trusted exactly from an authenticated relay: when a chunk completes a well-formed
  RELAY_INGEST frame in a live session, its ids are raised in one event, as ingested if the session is authenticated and as
  untrusted, and counted as such, if it is not; and no chunk at all raises ids the other way round.
\<close>

theorem session_invariants:
  assumes "reachable_session env hello auth s"
  shows "(terminated s \<or> length (buffer s) < 4 + MaxFrameBytes) \<and>
         distinct (expectedReceiptOrder s) \<and> [] \<notin> set (expectedReceiptOrder s) \<and>
         dom (expectedReceiptIndex s) = set (expectedReceiptOrder s) \<and>
         list_all (\<lambda>ev. (EType ev = EventTypeRelayIngest \<longrightarrow> auth) \<and> (EType ev = EventTypeUntrustedRelay \<longrightarrow> \<not> auth))
           (snd (PushInbound env s chunk)) \<and>
         (\<not> terminated s \<and> EncodeLengthPrefixed frame = Inr (buffer s @ chunk) \<and>
          DecodeEnvelope env frame = Inr (FrameTypeRelayIngest, payload) \<and> ParseRelayIngestPayload (Some payload) = Inr ingest \<longrightarrow>
          snd (PushInbound env s chunk) =
            [(event (if auth then EventTypeRelayIngest else EventTypeUntrustedRelay) FrameTypeRelayIngest)\<lparr>EItemIDs := ItemIDs ingest\<rparr>] \<and>
          untrustedRelayIngest (fst (PushInbound env s chunk)) = (if auth then untrustedRelayIngest s else s64 (untrustedRelayIngest s + 1)))"
proof -
  note inv = reachable_session_inv [OF assms, unfolded session_inv_def receipt_inv_def]
  obtain s' evs where p: "PushInbound env s chunk = (s', evs)" by fastforce
  have "snd (PushInbound env s chunk) =
            [(event (if auth then EventTypeRelayIngest else EventTypeUntrustedRelay) FrameTypeRelayIngest)\<lparr>EItemIDs := ItemIDs ingest\<rparr>] \<and>
          untrustedRelayIngest (fst (PushInbound env s chunk)) = (if auth then untrustedRelayIngest s else s64 (untrustedRelayIngest s + 1))"
    if "\<not> terminated s" "EncodeLengthPrefixed frame = Inr (buffer s @ chunk)"
      "DecodeEnvelope env frame = Inr (FrameTypeRelayIngest, payload)" "ParseRelayIngestPayload (Some payload) = Inr ingest"
    using ingest_chunk [OF that] inv that(1) by blast
  with trust.PushInbound_keeps [OF _ p, of auth] p inv show ?thesis
    by (auto dest: Incomplete_short)
qed

theorem session_invariants_witness:
  "length (buffer sample_session) < 4 + MaxFrameBytes \<and> distinct (expectedReceiptOrder sample_session)"
proof -
  have "reachable_session sample_wire (BuildRelayHello ''r'') False sample_session"
    unfolding sample_session_def by (rule reachable_session.Step [OF reachable_session.New session_step.Expect])
  from session_invariants [OF this] show ?thesis
    by (simp add: sample_session_def SetExpectedReceipt_def NewSessionAdapter_def)
qed

end
