(* ===== verification/Go_Time.thy ===== *)
theory Go_Time
  imports Go_Base
begin

text \<open>
  \<open>time.Time\<close> as the relay uses it: an instant in nanoseconds since the Unix epoch and the
  location it is shown in.  Instants are compared by \<open>Before\<close>, \<open>After\<close> and
  \<open>Equal\<close>; the location matters only to \<open>Format\<close>, which the store keys are made of.
  The offset of the machine's local zone at an instant is the parameter \<open>lo\<close> of every
  function that formats (seconds east of UTC, as the zone database gives it); \<open>Fixed\<close> is a zone made by
  \<open>time.FixedZone\<close> for a parsed offset.
  \<open>time.Duration\<close> is an \<^typ>\<open>int\<close> of nanoseconds.
\<close>

datatype location = UTC | Local | Fixed int

record gotime =
  instant :: int
  loc :: location

abbreviation second :: int where "second \<equiv> 1000000000"
abbreviation millisecond :: int where "millisecond \<equiv> 1000000"

definition zero_time :: gotime where
  "zero_time = \<lparr>instant = - 62135596800 * second, loc = UTC\<rparr>"

definition IsZero :: "gotime \<Rightarrow> bool" where
  "IsZero t \<longleftrightarrow> instant t = - 62135596800 * second"

definition Before :: "gotime \<Rightarrow> gotime \<Rightarrow> bool" where
  "Before t u \<longleftrightarrow> instant t < instant u"

definition After :: "gotime \<Rightarrow> gotime \<Rightarrow> bool" where
  "After t u \<longleftrightarrow> instant t > instant u"

definition Add :: "gotime \<Rightarrow> int \<Rightarrow> gotime" where
  "Add t d = t\<lparr>instant := instant t + d\<rparr>"

definition toUTC :: "gotime \<Rightarrow> gotime" where
  "toUTC t = t\<lparr>loc := UTC\<rparr>"

text \<open>\<open>Sub\<close> saturates at the ends of \<open>time.Duration\<close>.\<close>

definition Sub :: "gotime \<Rightarrow> gotime \<Rightarrow> int" where
  "Sub t u = max (- (2 ^ 63)) (min (2 ^ 63 - 1) (instant t - instant u))"

text \<open>\<open>Unix\<close>, \<open>UnixMilli\<close> and \<open>UnixNano\<close>, each an \<open>int64\<close>, and the
  constructors \<open>time.Unix\<close> (local time) and \<open>time.UnixMilli\<close>.\<close>

definition Unix :: "gotime \<Rightarrow> int" where
  "Unix t = s64 (instant t div second)"

definition UnixMilli :: "gotime \<Rightarrow> int" where
  "UnixMilli t = s64 (instant t div millisecond)"

definition UnixNano :: "gotime \<Rightarrow> int" where
  "UnixNano t = s64 (instant t)"

definition time_Unix :: "int \<Rightarrow> int \<Rightarrow> gotime" where
  "time_Unix sec nsec = \<lparr>instant = sec * second + nsec, loc = Local\<rparr>"

definition time_UnixMilli :: "int \<Rightarrow> gotime" where
  "time_UnixMilli ms = \<lparr>instant = ms * millisecond, loc = Local\<rparr>"

lemmas time_defs = IsZero_def Before_def After_def Add_def toUTC_def Sub_def

subsection \<open>Decimal text\<close>

fun dec_digits :: "nat \<Rightarrow> string" where
  "dec_digits n = (if n < 10 then [''0123456789'' ! n]
     else dec_digits (n div 10) @ [''0123456789'' ! (n mod 10)])"

declare dec_digits.simps [simp del]

text \<open>\<open>appendInt\<close>: at least \<open>width\<close> digits, a minus sign in front of a negative number.\<close>

definition dec_pad :: "nat \<Rightarrow> nat \<Rightarrow> string" where
  "dec_pad width n = replicate (width - length (dec_digits n)) (CHR ''0'') @ dec_digits n"

definition append_int :: "int \<Rightarrow> nat \<Rightarrow> string" where
  "append_int x width = (if x < 0 then CHR ''-'' # dec_pad width (nat (- x)) else dec_pad width (nat x))"

text \<open>The characters a rendered time is made of.\<close>

definition time_char :: "char \<Rightarrow> bool" where
  "time_char c \<longleftrightarrow> c \<in> set ''0123456789-:.TZ+''"

lemma digit_time_char: "n < 10 \<Longrightarrow> time_char (''0123456789'' ! n)"
proof -
  assume "n < 10"
  then have "''0123456789'' ! n \<in> set ''0123456789''" by (intro nth_mem) simp
  then show ?thesis by (auto simp: time_char_def)
qed

lemma dec_digits_time_char: "c \<in> set (dec_digits n) \<Longrightarrow> time_char c"
proof (induction n rule: dec_digits.induct)
  case (1 n)
  show ?case
  proof (cases "n < 10")
    case True
    with 1 show ?thesis by (auto simp: dec_digits.simps [of n] digit_time_char)
  next
    case False
    with 1 show ?thesis by (auto simp: dec_digits.simps [of n] digit_time_char)
  qed
qed

lemma append_int_time_char: "c \<in> set (append_int x w) \<Longrightarrow> time_char c"
  by (auto simp: append_int_def dec_pad_def dest: dec_digits_time_char split: if_splits)
     (simp_all add: time_char_def)

subsection \<open>RFC3339Nano\<close>

text \<open>The proleptic Gregorian date of a day number counted from 1970-01-01.\<close>

definition civil_of_month :: "int \<Rightarrow> int \<Rightarrow> int \<Rightarrow> int \<times> int \<times> int" where
  "civil_of_month y doy mp =
     (if mp < 10 then (y, mp + 3, doy - (153 * mp + 2) div 5 + 1)
      else (y + 1, mp - 9, doy - (153 * mp + 2) div 5 + 1))"

definition civil_of_year :: "int \<Rightarrow> int \<Rightarrow> int \<times> int \<times> int" where
  "civil_of_year y doy = civil_of_month y doy ((5 * doy + 2) div 153)"

definition civil_of_era :: "int \<Rightarrow> int \<Rightarrow> int \<Rightarrow> int \<times> int \<times> int" where
  "civil_of_era era doe yoe = civil_of_year (yoe + era * 400) (doe - (365 * yoe + yoe div 4 - yoe div 100))"

definition civil_of_day :: "int \<Rightarrow> int \<Rightarrow> int \<times> int \<times> int" where
  "civil_of_day era doe =
     civil_of_era era doe ((doe - doe div 1460 + doe div 36524 - doe div 146096) div 365)"

definition civil_date :: "int \<Rightarrow> int \<times> int \<times> int" where
  "civil_date days = civil_of_day ((days + 719468) div 146097) ((days + 719468) mod 146097)"

lemmas civil_defs =
  civil_date_def civil_of_day_def civil_of_era_def civil_of_year_def civil_of_month_def

text \<open>\<open>appendNano\<close> with \<open>.999999999\<close>: nine digits, trailing zeros dropped, the point too
  when nothing is left.\<close>

definition append_nano :: "nat \<Rightarrow> string" where
  "append_nano n = (case rev (dropWhile (\<lambda>c. c = CHR ''0'') (rev (dec_pad 9 n))) of
     [] \<Rightarrow> [] | ds \<Rightarrow> CHR ''.'' # ds)"

definition append_zone :: "int \<Rightarrow> string" where
  "append_zone offset =
     (if offset = 0 then ''Z''
      else let zone = sgn offset * (\<bar>offset\<bar> div 60)
           in (if zone < 0 then ''-'' else ''+'') @ append_int (\<bar>zone\<bar> div 60) 2 @ '':'' @
              append_int (\<bar>zone\<bar> mod 60) 2)"

definition zone_offset :: "(int \<Rightarrow> int) \<Rightarrow> gotime \<Rightarrow> int" where
  "zone_offset lo t = (case loc t of UTC \<Rightarrow> 0 | Local \<Rightarrow> lo (instant t) | Fixed offset \<Rightarrow> offset)"

text \<open>\<open>t.Format(time.RFC3339Nano)\<close>.\<close>

definition format_date :: "int \<times> int \<times> int \<Rightarrow> string" where
  "format_date = (\<lambda>(y, m, d). append_int y 4 @ ''-'' @ append_int m 2 @ ''-'' @ append_int d 2)"

definition format_clock :: "int \<Rightarrow> string" where
  "format_clock sod = append_int (sod div 3600) 2 @ '':'' @ append_int (sod mod 3600 div 60) 2 @ '':'' @
     append_int (sod mod 60) 2"

definition format_at :: "int \<Rightarrow> int \<Rightarrow> int \<Rightarrow> string" where
  "format_at secs nsec off = format_date (civil_date (secs div 86400)) @ ''T'' @
     format_clock (secs mod 86400) @ append_nano (nat nsec) @ append_zone off"

definition rfc3339nano :: "(int \<Rightarrow> int) \<Rightarrow> gotime \<Rightarrow> string" where
  "rfc3339nano lo t =
     format_at (instant t div second + zone_offset lo t) (instant t mod second) (zone_offset lo t)"

lemmas format_defs = rfc3339nano_def format_at_def format_clock_def format_date_def civil_defs
  zone_offset_def append_zone_def append_nano_def append_int_def dec_pad_def

lemma append_nano_time_char: "c \<in> set (append_nano n) \<Longrightarrow> time_char c"
proof -
  let ?ds = "rev (dropWhile (\<lambda>c. c = CHR ''0'') (rev (dec_pad 9 n)))"
  assume "c \<in> set (append_nano n)"
  then have "c = CHR ''.'' \<or> c \<in> set ?ds"
    unfolding append_nano_def by (cases ?ds) (simp_all del: set_rev)
  moreover have "c \<in> set ?ds \<Longrightarrow> c \<in> set (dec_pad 9 n)"
    by (auto dest: set_dropWhileD)
  moreover have "dec_pad 9 n = append_int (int n) 9" by (simp add: append_int_def)
  moreover have "time_char CHR ''.''" by (simp add: time_char_def)
  ultimately show ?thesis by (metis append_int_time_char)
qed

lemma append_zone_time_char: "c \<in> set (append_zone off) \<Longrightarrow> time_char c"
  by (auto simp: append_zone_def Let_def dest: append_int_time_char split: if_splits)
     (simp_all add: time_char_def)

lemma rfc3339nano_time_char: "c \<in> set (rfc3339nano lo t) \<Longrightarrow> time_char c"
  by (auto simp: rfc3339nano_def format_at_def format_clock_def format_date_def split: prod.splits
      dest: append_int_time_char append_nano_time_char append_zone_time_char)
     (simp_all add: time_char_def)

text \<open>A rendered time holds no NUL byte, so it can be a field of a NUL-separated key.\<close>

lemma rfc3339nano_no_NUL [simp]: "NUL \<notin> set (rfc3339nano lo t)"
proof
  assume "NUL \<in> set (rfc3339nano lo t)"
  then have "time_char NUL" by (rule rfc3339nano_time_char)
  then show False by (simp add: time_char_def)
qed

lemma rfc3339nano_not_nil [simp]: "rfc3339nano lo t \<noteq> []"
  by (simp add: rfc3339nano_def format_at_def)

end
