(* ===== verification/Drain.thy ===== *)
theory Drain
  imports Go_Time
begin

text \<open>
  The bounded drain session of \<^verbatim>\<open>internal/gossipv1/drain_session.go\<close>: the budgets of one
  encounter, what it has used of them, and the reason it stopped.  \<open>time.Now()\<close> is the argument
  \<open>now\<close>; the mutex makes each method one step.
\<close>

datatype DrainStopReason = DrainStopReasonNone | DrainStopReasonConvergedNoWant
  | DrainStopReasonNoEligibleItems | DrainStopReasonRepeatedNoProgress | DrainStopReasonSessionTimeBudget
  | DrainStopReasonSessionByteBudget | DrainStopReasonSessionRoundBudget | DrainStopReasonClientDisconnect
  | DrainStopReasonClientSilence | DrainStopReasonFairnessYield | DrainStopReasonProtocolFatal
  | DrainStopReasonStorageError | DrainStopReasonSessionTransportBackoff

record DrainSessionLimits =
  RoundBudget :: int
  ByteBudget :: int
  WallClockBudget :: int
  NoProgressRoundCap :: int
  YieldEveryNRounds :: int
  SilenceTimeout :: int
  FairnessYieldEnable :: bool

record DrainSessionSnapshot =
  SessionID :: string
  AuthenticatedWayfarerID :: string
  ConnectionStartAt :: gotime
  LastProgressAt :: gotime
  RoundsCompleted :: int
  ItemsRequested :: int
  ItemsTransferred :: int
  ItemsAcknowledged :: int
  BytesSent :: int
  BytesReceived :: int
  NoProgressStreak :: int
  StopReason :: DrainStopReason

record DrainSession =
  state :: DrainSessionSnapshot
  limits :: DrainSessionLimits

definition DefaultDrainSessionLimits :: DrainSessionLimits where
  "DefaultDrainSessionLimits = \<lparr>RoundBudget = 8, ByteBudget = 8 * 2 ^ 20, WallClockBudget = 45 * second,
     NoProgressRoundCap = 2, YieldEveryNRounds = 4, SilenceTimeout = 45 * second,
     FairnessYieldEnable = True\<rparr>"

definition Normalize :: "DrainSessionLimits \<Rightarrow> DrainSessionLimits" where
  "Normalize l = l\<lparr>RoundBudget := max 0 (RoundBudget l), ByteBudget := max 0 (ByteBudget l),
     WallClockBudget := max 0 (WallClockBudget l), NoProgressRoundCap := max 0 (NoProgressRoundCap l),
     YieldEveryNRounds := max 0 (YieldEveryNRounds l), SilenceTimeout := max 0 (SilenceTimeout l)\<rparr>"

definition NewDrainSession :: "string \<Rightarrow> gotime \<Rightarrow> gotime \<Rightarrow> DrainSessionLimits \<Rightarrow> DrainSession" where
  "NewDrainSession sessionID startedAt now lim =
     \<lparr>state = \<lparr>SessionID = sessionID, AuthenticatedWayfarerID = [],
        ConnectionStartAt = (if IsZero startedAt then toUTC now else startedAt), LastProgressAt = zero_time,
        RoundsCompleted = 0, ItemsRequested = 0, ItemsTransferred = 0, ItemsAcknowledged = 0,
        BytesSent = 0, BytesReceived = 0, NoProgressStreak = 0, StopReason = DrainStopReasonNone\<rparr>,
      limits = Normalize lim\<rparr>"

definition BindAuthenticatedWayfarerID :: "DrainSession \<Rightarrow> string \<Rightarrow> DrainSession" where
  "BindAuthenticatedWayfarerID s wayfarerID =
     (if wayfarerID = [] then s else s\<lparr>state := state s\<lparr>AuthenticatedWayfarerID := wayfarerID\<rparr>\<rparr>)"

definition set_stop :: "DrainSession \<Rightarrow> DrainStopReason \<Rightarrow> DrainSession" where
  "set_stop s reason = s\<lparr>state := state s\<lparr>StopReason := reason\<rparr>\<rparr>"

definition stopReasonForBudgetExceeded :: "DrainSession \<Rightarrow> gotime \<Rightarrow> DrainSession \<times> DrainStopReason" where
  "stopReasonForBudgetExceeded s now =
     (if StopReason (state s) \<noteq> DrainStopReasonNone then (s, StopReason (state s))
      else if RoundBudget (limits s) > 0 \<and> RoundsCompleted (state s) \<ge> RoundBudget (limits s)
           then (set_stop s DrainStopReasonSessionRoundBudget, DrainStopReasonSessionRoundBudget)
      else if WallClockBudget (limits s) > 0 \<and> Sub now (ConnectionStartAt (state s)) \<ge> WallClockBudget (limits s)
           then (set_stop s DrainStopReasonSessionTimeBudget, DrainStopReasonSessionTimeBudget)
      else if ByteBudget (limits s) > 0 \<and> s64 (BytesSent (state s) + BytesReceived (state s)) \<ge> ByteBudget (limits s)
           then (set_stop s DrainStopReasonSessionByteBudget, DrainStopReasonSessionByteBudget)
      else (s, DrainStopReasonNone))"

definition RecordBytesSent :: "DrainSession \<Rightarrow> int \<Rightarrow> gotime \<Rightarrow> DrainSession \<times> DrainStopReason" where
  "RecordBytesSent s n now =
     (if n \<le> 0 then (s, DrainStopReasonNone)
      else stopReasonForBudgetExceeded
             (s\<lparr>state := state s\<lparr>BytesSent := s64 (BytesSent (state s) + n)\<rparr>\<rparr>) (toUTC now))"

definition RecordBytesReceived :: "DrainSession \<Rightarrow> int \<Rightarrow> gotime \<Rightarrow> DrainSession \<times> DrainStopReason" where
  "RecordBytesReceived s n now =
     (if n \<le> 0 then (s, DrainStopReasonNone)
      else stopReasonForBudgetExceeded
             (s\<lparr>state := state s\<lparr>BytesReceived := s64 (BytesReceived (state s) + n)\<rparr>\<rparr>) (toUTC now))"

definition CanSendBytes :: "DrainSession \<Rightarrow> int \<Rightarrow> gotime \<Rightarrow> DrainSession \<times> bool \<times> DrainStopReason" where
  "CanSendBytes s n now =
     (if n \<le> 0 then (s, True, DrainStopReasonNone)
      else case stopReasonForBudgetExceeded s (toUTC now) of
             (s, reason) \<Rightarrow>
               if reason \<noteq> DrainStopReasonNone then (s, False, reason)
               else if ByteBudget (limits s) > 0 \<and>
                       s64 (s64 (BytesSent (state s) + BytesReceived (state s)) + n) \<ge> ByteBudget (limits s)
                    then (set_stop s DrainStopReasonSessionByteBudget, False, DrainStopReasonSessionByteBudget)
               else (s, True, DrainStopReasonNone))"

definition recordProgressLocked :: "DrainSession \<Rightarrow> gotime \<Rightarrow> DrainSession" where
  "recordProgressLocked s now =
     (if IsZero now then s else s\<lparr>state := state s\<lparr>LastProgressAt := now\<rparr>\<rparr>)"

definition RecordRequested :: "DrainSession \<Rightarrow> int \<Rightarrow> gotime \<Rightarrow> DrainSession" where
  "RecordRequested s n now =
     (if n \<le> 0 then s
      else recordProgressLocked
             (s\<lparr>state := state s\<lparr>ItemsRequested := s64 (ItemsRequested (state s) + n)\<rparr>\<rparr>) (toUTC now))"

definition RecordTransferred :: "DrainSession \<Rightarrow> int \<Rightarrow> gotime \<Rightarrow> DrainSession" where
  "RecordTransferred s n now =
     (if n \<le> 0 then s
      else recordProgressLocked
             (s\<lparr>state := state s\<lparr>ItemsTransferred := s64 (ItemsTransferred (state s) + n)\<rparr>\<rparr>) (toUTC now))"

definition RecordAcknowledged :: "DrainSession \<Rightarrow> int \<Rightarrow> gotime \<Rightarrow> DrainSession" where
  "RecordAcknowledged s n now =
     (if n \<le> 0 then s
      else recordProgressLocked
             (s\<lparr>state := state s\<lparr>ItemsAcknowledged := s64 (ItemsAcknowledged (state s) + n)\<rparr>\<rparr>) (toUTC now))"

definition CompleteRound :: "DrainSession \<Rightarrow> bool \<Rightarrow> gotime \<Rightarrow> DrainSession" where
  "CompleteRound s progressed now =
     (let s = s\<lparr>state := state s\<lparr>RoundsCompleted := s64 (RoundsCompleted (state s) + 1)\<rparr>\<rparr>
      in if progressed
         then recordProgressLocked (s\<lparr>state := state s\<lparr>NoProgressStreak := 0\<rparr>\<rparr>) (toUTC now)
         else s\<lparr>state := state s\<lparr>NoProgressStreak := s64 (NoProgressStreak (state s) + 1)\<rparr>\<rparr>)"

definition CanStartAnotherRound ::
  "DrainSession \<Rightarrow> gotime \<Rightarrow> gotime \<Rightarrow> DrainSession \<times> bool \<times> DrainStopReason" where
  "CanStartAnotherRound s at now =
     (let at = (if IsZero at then toUTC now else at)
      in if StopReason (state s) \<noteq> DrainStopReasonNone then (s, False, StopReason (state s))
         else case stopReasonForBudgetExceeded s at of
                (s, reason) \<Rightarrow>
                  if reason \<noteq> DrainStopReasonNone then (s, False, reason)
                  else if NoProgressRoundCap (limits s) > 0 \<and> NoProgressStreak (state s) \<ge> NoProgressRoundCap (limits s)
                  then (set_stop s DrainStopReasonRepeatedNoProgress, False, DrainStopReasonRepeatedNoProgress)
                  else if FairnessYieldEnable (limits s) \<and> YieldEveryNRounds (limits s) > 0 \<and>
                          RoundsCompleted (state s) > 0 \<and> RoundsCompleted (state s) mod YieldEveryNRounds (limits s) = 0
                  then (set_stop s DrainStopReasonFairnessYield, False, DrainStopReasonFairnessYield)
                  else (s, True, DrainStopReasonNone))"

definition Stop :: "DrainSession \<Rightarrow> DrainStopReason \<Rightarrow> DrainSession" where
  "Stop s reason =
     (if reason = DrainStopReasonNone then s
      else if StopReason (state s) \<noteq> DrainStopReasonNone then s
      else set_stop s reason)"

subsection \<open>Steps\<close>

text \<open>Every method that changes the session, in any order and at any time.\<close>

inductive drain_step :: "DrainSession \<Rightarrow> DrainSession \<Rightarrow> bool" where
  bind: "drain_step s (BindAuthenticatedWayfarerID s w)"
| sent: "drain_step s (fst (RecordBytesSent s n now))"
| received: "drain_step s (fst (RecordBytesReceived s n now))"
| can_send: "drain_step s (fst (CanSendBytes s n now))"
| requested: "drain_step s (RecordRequested s n now)"
| transferred: "drain_step s (RecordTransferred s n now)"
| acknowledged: "drain_step s (RecordAcknowledged s n now)"
| complete: "drain_step s (CompleteRound s progressed now)"
| can_start: "drain_step s (fst (CanStartAnotherRound s at now))"
| stop: "drain_step s (Stop s reason)"

lemmas drain_defs = BindAuthenticatedWayfarerID_def RecordBytesSent_def RecordBytesReceived_def
  CanSendBytes_def RecordRequested_def RecordTransferred_def RecordAcknowledged_def CompleteRound_def
  CanStartAnotherRound_def Stop_def recordProgressLocked_def set_stop_def stopReasonForBudgetExceeded_def

lemma drain_step_limits: "drain_step s s' \<Longrightarrow> limits s' = limits s"
  by (cases rule: drain_step.cases, assumption) (simp_all add: drain_defs Let_def)

lemma drain_step_stop:
  "drain_step s s' \<Longrightarrow> StopReason (state s) \<noteq> DrainStopReasonNone \<Longrightarrow>
     StopReason (state s') = StopReason (state s)"
  by (cases rule: drain_step.cases, assumption) (simp_all add: drain_defs Let_def)

text \<open>The loop that drives a drain: rounds run as long as the session grants them.  Each entry is
  the time of the request, the wall clock and whether the round made progress.\<close>

fun drain_rounds :: "DrainSession \<Rightarrow> (gotime \<times> gotime \<times> bool) list \<Rightarrow> DrainSession \<times> nat" where
  "drain_rounds s [] = (s, 0)"
| "drain_rounds s ((at, now, progressed) # rest) =
     (case CanStartAnotherRound s at now of
        (s', granted, _) \<Rightarrow>
          if \<not> granted then (s', 0)
          else (case drain_rounds (CompleteRound s' progressed now) rest of (s'', n) \<Rightarrow> (s'', Suc n)))"

lemma CanStart_granted:
  assumes "CanStartAnotherRound s at now = (s', True, reason)"
  shows "s' = s" and "StopReason (state s) = DrainStopReasonNone" and "reason = DrainStopReasonNone"
    and "RoundBudget (limits s) > 0 \<Longrightarrow> RoundsCompleted (state s) < RoundBudget (limits s)"
    and "FairnessYieldEnable (limits s) \<Longrightarrow> YieldEveryNRounds (limits s) > 0 \<Longrightarrow>
           RoundsCompleted (state s) > 0 \<Longrightarrow> RoundsCompleted (state s) mod YieldEveryNRounds (limits s) \<noteq> 0"
    and "NoProgressRoundCap (limits s) > 0 \<Longrightarrow> NoProgressStreak (state s) < NoProgressRoundCap (limits s)"
    and "ByteBudget (limits s) > 0 \<Longrightarrow> s64 (BytesSent (state s) + BytesReceived (state s)) < ByteBudget (limits s)"
    and "WallClockBudget (limits s) > 0 \<Longrightarrow>
           Sub (if IsZero at then toUTC now else at) (ConnectionStartAt (state s)) < WallClockBudget (limits s)"
  using assms by (auto simp: CanStartAnotherRound_def stopReasonForBudgetExceeded_def Let_def split: if_splits)

lemma CompleteRound_facts [simp]:
  "limits (CompleteRound s p now) = limits s"
  "RoundsCompleted (state (CompleteRound s p now)) = s64 (RoundsCompleted (state s) + 1)"
  by (simp_all add: CompleteRound_def recordProgressLocked_def Let_def)

text \<open>The rounds a loop can run from a session that has completed \<open>RoundsCompleted\<close> rounds.\<close>

lemma drain_rounds_bound:
  assumes "drain_rounds s reqs = (s', n)" and "0 < RoundBudget (limits s)" and "fits64 (RoundBudget (limits s))"
    and "0 \<le> RoundsCompleted (state s)" and "RoundsCompleted (state s) \<le> RoundBudget (limits s)"
  shows "int n \<le> RoundBudget (limits s) - RoundsCompleted (state s)"
  using assms
proof (induction s reqs arbitrary: s' n rule: drain_rounds.induct)
  case (1 s)
  then show ?case by simp
next
  case (2 s at now progressed rest)
  obtain t granted reason where c: "CanStartAnotherRound s at now = (t, granted, reason)" by (metis prod_cases3)
  show ?case
  proof (cases granted)
    case False
    then show ?thesis using 2 c by auto
  next
    case True
    with c have ts: "t = s" and less: "RoundsCompleted (state s) < RoundBudget (limits s)"
      using CanStart_granted [of s at now t reason] "2.prems"(2) by auto
    let ?u = "CompleteRound s progressed now"
    obtain v m where d: "drain_rounds ?u rest = (v, m)" by fastforce
    have e: "s64 (RoundsCompleted (state s) + 1) = RoundsCompleted (state s) + 1"
      using "2.prems"(3,4) less by (intro s64_id) (simp add: fits64_def)
    have "int m \<le> RoundBudget (limits ?u) - RoundsCompleted (state ?u)"
      using "2.IH" [of t "(granted, reason)" granted reason v m] c True d "2.prems" less
      by (simp add: ts e)
    moreover have "n = Suc m" using "2.prems"(1) c True ts d by simp
    ultimately show ?thesis by (simp add: e)
  qed
qed

subsection \<open>Properties\<close>

text \<open>
  The stop reason of a drain session is set once and for all: whatever sequence of methods
  is called after it, it stays the first reason given, and every later request for a round is refused
  with that reason.
\<close>

lemma drain_stop_sticky:
  assumes "drain_step\<^sup>*\<^sup>* s s'" and "StopReason (state s) \<noteq> DrainStopReasonNone"
  shows "StopReason (state s') = StopReason (state s) \<and>
         CanStartAnotherRound s' at now = (s', False, StopReason (state s))"
proof -
  from assms(1) have "StopReason (state s') = StopReason (state s)"
    by (induction rule: rtranclp_induct) (use assms(2) drain_step_stop in auto)
  with assms(2) show ?thesis by (simp add: CanStartAnotherRound_def)
qed

text \<open>
  A drain always ends: from a new session with a positive round budget, the loop that runs
  rounds as long as \<open>CanStartAnotherRound\<close> grants them runs at most as many rounds as the
  budget, whatever the clock and the progress of the rounds.
\<close>

lemma drain_rounds_within_budget:
  assumes "0 < RoundBudget lim" and "fits64 (RoundBudget lim)"
  shows "int (snd (drain_rounds (NewDrainSession sessionID startedAt now lim) reqs)) \<le> RoundBudget lim"
proof -
  obtain s' n where "drain_rounds (NewDrainSession sessionID startedAt now lim) reqs = (s', n)" by fastforce
  from drain_rounds_bound [OF this] assms show ?thesis
    using \<open>drain_rounds _ reqs = (s', n)\<close> by (simp add: NewDrainSession_def Normalize_def max_def)
qed

lemma drain_rounds_within_budget_example:
  "int (snd (drain_rounds (NewDrainSession ''s'' zero_time zero_time DefaultDrainSessionLimits)
     (replicate 100 (zero_time, zero_time, True)))) \<le> 8"
  using drain_rounds_within_budget [of DefaultDrainSessionLimits "''s''" zero_time zero_time
      "replicate 100 (zero_time, zero_time, True)"]
  by (simp add: DefaultDrainSessionLimits_def fits64_def)

text \<open>
  Bytes that \<open>CanSendBytes\<close> grants stay strictly inside the byte budget: when it
  grants \<open>n\<close> bytes of a session with a positive budget and they are then recorded as sent, the
  session has not stopped for bytes and the bytes sent and received together are below the budget.
\<close>

lemma granted_bytes_within_budget:
  assumes "CanSendBytes s n now = (s', True, reason)" and "0 < n" and "0 < ByteBudget (limits s)"
    and "0 \<le> BytesSent (state s)" and "0 \<le> BytesReceived (state s)"
    and "BytesSent (state s) + BytesReceived (state s) + n < 2 ^ 63"
  shows "s' = s \<and>
    BytesSent (state (fst (RecordBytesSent s n later))) + BytesReceived (state (fst (RecordBytesSent s n later)))
      < ByteBudget (limits s) \<and>
    snd (RecordBytesSent s n later) \<noteq> DrainStopReasonSessionByteBudget"
proof -
  have f: "s64 x = x" if "0 \<le> x" "x < 2 ^ 63" for x using that by (intro s64_id) (simp add: fits64_def)
  have e: "s64 (BytesSent (state s) + BytesReceived (state s)) = BytesSent (state s) + BytesReceived (state s)"
    "s64 (BytesSent (state s) + BytesReceived (state s) + n) = BytesSent (state s) + BytesReceived (state s) + n"
    "s64 (BytesSent (state s) + n) = BytesSent (state s) + n"
    "s64 (BytesSent (state s) + n + BytesReceived (state s)) = BytesSent (state s) + n + BytesReceived (state s)"
    using assms(2,4-6) by (auto intro!: f)
  from assms(1-3) have "s' = s" and "StopReason (state s) = DrainStopReasonNone"
    and "BytesSent (state s) + BytesReceived (state s) + n < ByteBudget (limits s)"
    by (auto simp: CanSendBytes_def stopReasonForBudgetExceeded_def e split: if_splits)
  then show ?thesis
    using assms(2) by (simp add: RecordBytesSent_def stopReasonForBudgetExceeded_def e set_stop_def)
qed

end
