(* ===== verification/Bolt.thy ===== *)
theory Bolt
  imports Relay_Prelude
begin

text \<open>
  The interface of \<^verbatim>\<open>go.etcd.io/bbolt\<close> that the stores use.  The library is not part of the
  repository, so its operations are a parameter \<open>api\<close> of every definition that uses them, and
  what its documentation promises is the locale \<open>bolt\<close>: a bucket is a map from keys to
  values, a key is stored unless it is empty or too long, and a cursor walks the keys in byte order.
  \<open>bolt_cursor\<close> adds the one promise that only \<open>deleteKeyPrefix\<close> relies on: that
  \<open>Next\<close> after \<open>Delete\<close> continues with the following key.
\<close>

text \<open>
  \<open>bput\<close> returns \<open>None\<close> when \<open>Put\<close> returns an error; \<open>bseek b k\<close> lists
  the pairs a cursor yields from \<open>Seek(k)\<close> by \<open>Next\<close> (with \<open>First\<close> as the seek
  of the empty key); \<open>bnext_del b k\<close> is the key \<open>Next\<close> yields on bucket \<open>b\<close> when
  the cursor has just deleted the pair at \<open>k\<close>.
\<close>

record 'b bolt_api =
  bempty :: 'b
  bget :: "'b \<Rightarrow> bytes \<Rightarrow> bytes option"
  bput :: "'b \<Rightarrow> bytes \<Rightarrow> bytes \<Rightarrow> 'b option"
  bdelete :: "'b \<Rightarrow> bytes \<Rightarrow> 'b"
  bseek :: "'b \<Rightarrow> bytes \<Rightarrow> (bytes \<times> bytes) list"
  bnext_del :: "'b \<Rightarrow> bytes \<Rightarrow> bytes option"

text \<open>The limits of \<open>Put\<close>: \<open>MaxKeySize\<close> and \<open>MaxValueSize\<close>.\<close>

definition key_ok :: "bytes \<Rightarrow> bool" where
  "key_ok k \<longleftrightarrow> k \<noteq> [] \<and> length k \<le> 32768"

definition value_ok :: "bytes \<Rightarrow> bool" where
  "value_ok v \<longleftrightarrow> length v \<le> 2 ^ 31 - 2"

locale bolt =
  fixes api :: "'b bolt_api"
  assumes get_empty: "bget api (bempty api) k = None"
    and put_ok: "key_ok k \<Longrightarrow> value_ok v \<Longrightarrow> \<exists>b'. bput api b k v = Some b'"
    and put_bad: "\<not> key_ok k \<or> \<not> value_ok v \<Longrightarrow> bput api b k v = None"
    and get_put: "bput api b k v = Some b' \<Longrightarrow> bget api b' = (bget api b)(k \<mapsto> v)"
    and get_delete: "bget api (bdelete api b k) = (bget api b)(k := None)"
    and seek_entries: "(k, v) \<in> set (bseek api b k0) \<longleftrightarrow> bget api b k = Some v \<and> k0 \<le> k"
    and seek_sorted: "sorted_wrt (<) (map fst (bseek api b k0))"
    and get_key: "bget api b k = Some v \<Longrightarrow> key_ok k"
begin

lemma put_Some:
  "bput api b k v = Some b' \<Longrightarrow> key_ok k \<and> value_ok v \<and> bget api b' = (bget api b)(k \<mapsto> v)"
  using put_bad [of k v b] get_put by fastforce

lemma seek_distinct: "distinct (map fst (bseek api b k0))"
  by (rule sorted_wrt_less_imp_distinct) (rule seek_sorted)

lemma seek_keys: "fst ` set (bseek api b k0) = {k \<in> dom (bget api b). k0 \<le> k}"
proof -
  have "k \<in> fst ` set (bseek api b k0) \<longleftrightarrow> (\<exists>v. (k, v) \<in> set (bseek api b k0))" for k by force
  then show ?thesis by (auto simp: seek_entries)
qed

text \<open>A cursor's list is determined by its content and its order.\<close>

lemma seek_unique:
  assumes "sorted_wrt (<) (map fst xs)" and "\<And>k v. (k, v) \<in> set xs \<longleftrightarrow> bget api b k = Some v \<and> k0 \<le> k"
  shows "bseek api b k0 = xs"
proof (rule map_sorted_distinct_set_unique [where f = fst])
  show "set (bseek api b k0) = set xs"
    using assms(2) by (auto simp: seek_entries)
  then show "inj_on fst (set (bseek api b k0) \<union> set xs)"
    using assms(2) by (auto simp: inj_on_def)
qed (use seek_sorted assms(1) in \<open>simp_all add: strict_sorted_iff\<close>)

lemma seek_cong: "bget api b = bget api b' \<Longrightarrow> bseek api b k0 = bseek api b' k0"
  by (rule seek_unique) (simp_all add: seek_sorted seek_entries)

lemma seek_delete_first:
  assumes "bseek api b k0 = (k, v) # rest"
  shows "bseek api (bdelete api b k) k0 = rest" and "bseek api (bdelete api b k) k = rest"
proof -
  have s: "sorted_wrt (<) (map fst ((k, v) # rest))" using seek_sorted [of b k0] assms by simp
  then have lt: "k < k'" if "(k', v') \<in> set rest" for k' v' using that by force
  have e: "(k', v') \<in> set ((k, v) # rest) \<longleftrightarrow> bget api b k' = Some v' \<and> k0 \<le> k'" for k' v'
    using seek_entries [of k' v' b k0] assms by simp
  have k: "bget api b k = Some v" "k0 \<le> k" using e [of k v] by simp_all
  show "bseek api (bdelete api b k) k0 = rest"
    by (rule seek_unique) (use s lt e in \<open>auto simp: get_delete\<close>)
  have "(k', v') \<in> set rest \<longleftrightarrow> bget api (bdelete api b k) k' = Some v' \<and> k \<le> k'" for k' v'
    using e [of k' v'] lt [of k' v'] k order.trans [of k0 k k'] by (auto simp: get_delete)
  then show "bseek api (bdelete api b k) k = rest"
    by (rule seek_unique [rotated]) (use s in simp)
qed

text \<open>
  A scan that seeks a prefix and stops at the first key without it yields exactly the pairs
  whose key has the prefix.
\<close>

lemma prefix_scan_from:
  assumes "p \<le> k0"
  shows "takeWhile (\<lambda>(k, v). has_prefix k p) (bseek api b k0) = filter (\<lambda>(k, v). has_prefix k p) (bseek api b k0)"
proof -
  have "takeWhile (\<lambda>(k, v). has_prefix k p) xs = filter (\<lambda>(k, v). has_prefix k p) xs"
    if "sorted_wrt (<) (map fst xs)" "\<forall>k \<in> fst ` set xs. p \<le> k" for xs :: "(bytes \<times> bytes) list"
    using that
  proof (induction xs)
    case (Cons x xs)
    show ?case
    proof (cases "has_prefix (fst x) p")
      case False
      have "\<not> has_prefix (fst y) p" if "y \<in> set xs" for y
      proof
        assume "has_prefix (fst y) p"
        moreover have "fst x \<le> fst y" "p \<le> fst x" using Cons.prems that by auto
        ultimately show False using False has_prefix_convex by blast
      qed
      then have "filter (\<lambda>(k, v). has_prefix k p) xs = []" by (auto simp: filter_empty_conv)
      with False show ?thesis by (auto split: prod.splits)
    qed (use Cons in \<open>auto split: prod.splits\<close>)
  qed simp
  moreover have "\<forall>k \<in> fst ` set (bseek api b k0). p \<le> k"
    unfolding seek_keys using assms by auto
  ultimately show ?thesis using seek_sorted by blast
qed

lemma prefix_scan:
  "takeWhile (\<lambda>(k, v). has_prefix k p) (bseek api b p) = filter (\<lambda>(k, v). has_prefix k p) (bseek api b p)"
  by (rule prefix_scan_from) simp

lemma seek_later:
  assumes "k0 \<le> k1"
  shows "bseek api b k1 = filter (\<lambda>(k, v). k1 \<le> k) (bseek api b k0)"
proof (rule seek_unique)
  show "sorted_wrt (<) (map fst (filter (\<lambda>(k, v). k1 \<le> k) (bseek api b k0)))"
    using seek_sorted by (rule sorted_wrt_filter_fst)
qed (use assms in \<open>auto simp: seek_entries\<close>)

lemma prefix_scan_set:
  "set (takeWhile (\<lambda>(k, v). has_prefix k p) (bseek api b p)) =
     {(k, v). bget api b k = Some v \<and> has_prefix k p}"
  unfolding prefix_scan by (auto simp: seek_entries has_prefix_ge)

end

locale bolt_cursor = bolt +
  assumes next_after_delete:
    "bget api b k = None \<Longrightarrow> bnext_del api b k = (case bseek api b k of [] \<Rightarrow> None | (k', _) # _ \<Rightarrow> Some k')"

subsection \<open>A bucket kept in memory\<close>

text \<open>
  A bucket as an association list, the latest pair of a key first, walked in key order: the
  instance that shows the promises can be kept, and the one the examples of the development run on.
\<close>

type_synonym mem_bucket = "(bytes \<times> bytes) list"

definition mem_get :: "mem_bucket \<Rightarrow> bytes \<Rightarrow> bytes option" where
  "mem_get b k = (if key_ok k then map_of b k else None)"

definition mem_keys :: "mem_bucket \<Rightarrow> bytes list" where
  "mem_keys b = filter key_ok (sort (remdups (map fst b)))"

definition mem_seek :: "mem_bucket \<Rightarrow> bytes \<Rightarrow> (bytes \<times> bytes) list" where
  "mem_seek b k0 = map (\<lambda>k. (k, the (map_of b k))) (filter (\<lambda>k. k0 \<le> k) (mem_keys b))"

definition mem_bolt :: "mem_bucket bolt_api" where
  "mem_bolt = \<lparr>bempty = [], bget = mem_get,
     bput = (\<lambda>b k v. if key_ok k \<and> value_ok v then Some ((k, v) # b) else None),
     bdelete = (\<lambda>b k. filter (\<lambda>(k', _). k' \<noteq> k) b), bseek = mem_seek,
     bnext_del = (\<lambda>b k. case mem_seek b k of [] \<Rightarrow> None | (k', _) # _ \<Rightarrow> Some k')\<rparr>"

lemma mem_get_put: "key_ok k \<Longrightarrow> mem_get ((k, v) # b) = (mem_get b)(k \<mapsto> v)"
  by (rule ext) (simp add: mem_get_def)

lemma mem_get_delete: "mem_get (filter (\<lambda>(k', _). k' \<noteq> k) b) = (mem_get b)(k := None)"
proof -
  have "map_of (filter (\<lambda>(k', _). k' \<noteq> k) b) k' = (if k' = k then None else map_of b k')" for k'
    by (induction b) auto
  then show ?thesis by (intro ext) (simp add: mem_get_def)
qed

lemma mem_seek_set: "(k, v) \<in> set (mem_seek b k0) \<longleftrightarrow> mem_get b k = Some v \<and> k0 \<le> k"
proof -
  have "k \<in> fst ` set b \<longleftrightarrow> (\<exists>v. map_of b k = Some v)"
    by (metis map_of_eq_None_iff not_Some_eq)
  then show ?thesis by (auto simp: mem_seek_def mem_keys_def mem_get_def)
qed

lemma mem_seek_sorted: "sorted_wrt (<) (map fst (mem_seek b k0))"
  by (simp add: mem_seek_def mem_keys_def comp_def strict_sorted_iff sorted_wrt_filter)

lemma mem_bolt_cursor: "bolt_cursor mem_bolt"
  by unfold_locales
     (auto simp: mem_bolt_def mem_get_put mem_get_delete mem_seek_set mem_seek_sorted mem_get_def
       split: if_splits)

interpretation mem: bolt_cursor mem_bolt
  by (rule mem_bolt_cursor)

lemma mem_bolt_laws: "bolt mem_bolt"
  by (rule mem.bolt_axioms)

end
