(* ===== verification/Codec.thy ===== *)
theory Codec
  imports Go_Time
begin

text \<open>
  Records and keys of the two stores: \<open>Message\<close> (\<^verbatim>\<open>internal/model/message.go\<close>) and
  \<open>Envelope\<close> (\<^verbatim>\<open>internal/model/envelope.go\<close>) with their binary codecs
  (\<^verbatim>\<open>internal/store/codec.go\<close> and \<open>EnvelopeCodec\<close>) and the composite keys of the
  buckets.  Readers are modelled with their short-read behaviour.
\<close>

record Message =
  MID :: string
  MFrom :: string
  MTo :: string
  MPayload :: string
  MCreatedAt :: gotime
  MExpiresAt :: gotime
  MDelivered :: bool
  MDeliveredAt :: "gotime option"

record Envelope =
  EID :: string
  EDestinationID :: string
  EOpaquePayload :: bytes
  EOriginRelayID :: string
  ECurrentHopCount :: int
  ECreatedAt :: gotime
  EExpiresAt :: gotime

datatype envelope_err = ErrEnvelopeInvalidID | ErrEnvelopeInvalidDestination | ErrEnvelopeInvalidTimestamp
  | ErrEnvelopeHopLimitExceeded | ErrEnvelopeTooLarge | ErrEnvelopeExpired

text \<open>Errors of the stores: a short read, a failed \<open>Put\<close> (with the place), a missing record.\<close>

datatype serr = ReadEOF | ErrInvalidKey | PutFailed string | NotFound string | NilRecord
  | BadCursor | ItemIDRequired
  | EnvelopeError envelope_err

subsection \<open>Readers\<close>

text \<open>\<open>binary.Read\<close> of an \<open>n\<close>-byte integer from a \<open>bytes.Reader\<close>.\<close>

definition read_uint :: "nat \<Rightarrow> bytes \<Rightarrow> serr + (nat \<times> bytes)" where
  "read_uint n r = (if length r < n then Inl ReadEOF else Inr (be_val (take n r), drop n r))"

definition read_int64 :: "bytes \<Rightarrow> serr + (int \<times> bytes)" where
  "read_int64 r = (if length r < 8 then Inl ReadEOF else Inr (int64_val (take 8 r), drop 8 r))"

text \<open>\<open>buf.Read(make([]byte, n))\<close>: an error only at the end of the data; a short read leaves
  the rest of the slice zero.\<close>

definition read_slice :: "nat \<Rightarrow> bytes \<Rightarrow> serr + (bytes \<times> bytes)" where
  "read_slice n r = (if r = [] then Inl ReadEOF
     else Inr (take n r @ replicate (n - length r) NUL, drop n r))"

definition read_string :: "bytes \<Rightarrow> serr + (bytes \<times> bytes)" where
  "read_string r = bindE (read_uint 2 r) (\<lambda>(len, r). read_slice len r)"

text \<open>\<open>binary.Read\<close> from a \<open>bytes.Buffer\<close> with the error dropped: the variable stays
  zero and what was left is consumed.\<close>

definition buf_uint :: "nat \<Rightarrow> bytes \<Rightarrow> nat \<times> bytes" where
  "buf_uint n b = (if length b < n then (0, []) else (be_val (take n b), drop n b))"

definition buf_int64 :: "bytes \<Rightarrow> int \<times> bytes" where
  "buf_int64 b = (if length b < 8 then (0, []) else (int64_val (take 8 b), drop 8 b))"

subsection \<open>Messages\<close>

definition put_string16 :: "bytes \<Rightarrow> bytes" where
  "put_string16 s = be_bytes 2 (length s) @ s"

definition EncodeMessage :: "Message \<Rightarrow> bytes" where
  "EncodeMessage msg =
     put_string16 (MID msg) @ put_string16 (MFrom msg) @ put_string16 (MTo msg) @
     put_string16 (MPayload msg) @ be_int64 (Unix (MCreatedAt msg)) @ be_int64 (Unix (MExpiresAt msg)) @
     [if MDelivered msg then CHR 0x01 else CHR 0x00]"

definition DecodeMessage :: "bytes \<Rightarrow> serr + Message" where
  "DecodeMessage data =
     bindE (read_string data) (\<lambda>(i, r).
     bindE (read_string r) (\<lambda>(from, r).
     bindE (read_string r) (\<lambda>(to, r).
     bindE (read_string r) (\<lambda>(payload, r).
     bindE (read_int64 r) (\<lambda>(createdAtUnix, r).
     bindE (read_int64 r) (\<lambda>(expiresAtUnix, r).
     case r of
       [] \<Rightarrow> Inl ReadEOF
     | deliveredByte # _ \<Rightarrow>
         Inr \<lparr>MID = i, MFrom = from, MTo = to, MPayload = payload,
              MCreatedAt = time_Unix createdAtUnix 0, MExpiresAt = time_Unix expiresAtUnix 0,
              MDelivered = (deliveredByte = CHR 0x01), MDeliveredAt = None\<rparr>))))))"

subsection \<open>Envelopes\<close>

definition Validate :: "Envelope \<Rightarrow> envelope_err + unit" where
  "Validate e =
     (if EID e = [] then Inl ErrEnvelopeInvalidID
      else if EDestinationID e = [] then Inl ErrEnvelopeInvalidDestination
      else if IsZero (ECreatedAt e) then Inl ErrEnvelopeInvalidTimestamp
      else if IsZero (EExpiresAt e) then Inl ErrEnvelopeInvalidTimestamp
      else if Before (EExpiresAt e) (ECreatedAt e) then Inl ErrEnvelopeInvalidTimestamp
      else Inr ())"

definition IsExpired :: "Envelope \<Rightarrow> gotime \<Rightarrow> bool" where
  "IsExpired e now = After now (EExpiresAt e)"

definition EncodeEnvelopeRecord :: "Envelope \<Rightarrow> bytes" where
  "EncodeEnvelopeRecord env =
     put_string16 (EID env) @ put_string16 (EDestinationID env) @ put_string16 (EOriginRelayID env) @
     be_bytes 4 (length (EOpaquePayload env)) @ EOpaquePayload env @
     be_bytes 2 (nat (ECurrentHopCount env mod 65536)) @
     be_int64 (UnixNano (ECreatedAt env)) @ be_int64 (UnixNano (EExpiresAt env))"

text \<open>A length-prefixed field of \<open>DecodeEnvelope\<close>, with the error of a field that is too short.\<close>

definition buf_field :: "nat \<Rightarrow> envelope_err \<Rightarrow> bytes \<Rightarrow> envelope_err + (bytes \<times> bytes)" where
  "buf_field n err b = (case buf_uint n b of (len, b) \<Rightarrow>
     if length b < len then Inl err else Inr (take len b, drop len b))"

definition DecodeEnvelopeRecord :: "bytes \<Rightarrow> envelope_err + Envelope" where
  "DecodeEnvelopeRecord data =
     (if length data < 2 then Inl ErrEnvelopeInvalidID
      else
        bindE (buf_field 2 ErrEnvelopeInvalidID data) (\<lambda>(i, b).
        bindE (buf_field 2 ErrEnvelopeInvalidDestination b) (\<lambda>(dest, b).
        bindE (buf_field 2 ErrEnvelopeInvalidDestination b) (\<lambda>(origin, b).
        bindE (buf_field 4 ErrEnvelopeTooLarge b) (\<lambda>(payload, b).
        case buf_uint 2 b of (hopCount, b) \<Rightarrow>
        (case buf_int64 b of (createdUnix, b) \<Rightarrow>
        (case buf_int64 b of (expiresUnix, b) \<Rightarrow>
          Inr \<lparr>EID = i, EDestinationID = dest, EOpaquePayload = payload, EOriginRelayID = origin,
               ECurrentHopCount = int hopCount, ECreatedAt = time_Unix 0 createdUnix,
               EExpiresAt = time_Unix 0 expiresUnix\<rparr>)))))))"

subsection \<open>Keys\<close>

definition EncodeQueueKey :: "(int \<Rightarrow> int) \<Rightarrow> string \<Rightarrow> gotime \<Rightarrow> string \<Rightarrow> bytes" where
  "EncodeQueueKey lo to createdAt msgID = to @ NUL # rfc3339nano lo createdAt @ NUL # msgID"

definition EncodeExpiryKey :: "(int \<Rightarrow> int) \<Rightarrow> string \<Rightarrow> gotime \<Rightarrow> bytes" where
  "EncodeExpiryKey lo msgID expiresAt = rfc3339nano lo expiresAt @ NUL # msgID"

definition EncodeMsgIDKey :: "string \<Rightarrow> bytes" where
  "EncodeMsgIDKey msgID = msgID"

definition EncodeDeliveryKey :: "string \<Rightarrow> string \<Rightarrow> bytes" where
  "EncodeDeliveryKey msgID recipientID = msgID @ NUL # recipientID"

definition DecodeDeliveryKey :: "bytes \<Rightarrow> serr + (string \<times> string)" where
  "DecodeDeliveryKey data = (case split_byte NUL data of
     [msgID, recipientID] \<Rightarrow> Inr (msgID, recipientID)
   | _ \<Rightarrow> Inl ErrInvalidKey)"

definition DestinationIndexKey :: "string \<Rightarrow> string \<Rightarrow> bytes" where
  "DestinationIndexKey destinationID msgID = destinationID @ NUL # msgID"

definition ExpiryIndexKey :: "(int \<Rightarrow> int) \<Rightarrow> gotime \<Rightarrow> string \<Rightarrow> bytes" where
  "ExpiryIndexKey lo expiresAt msgID = rfc3339nano lo expiresAt @ NUL # msgID"

definition SeenKey :: "string \<Rightarrow> string \<Rightarrow> bytes" where
  "SeenKey envelopeID relayID = envelopeID @ NUL # relayID"

definition RelayIngestKey :: "string \<Rightarrow> bytes" where
  "RelayIngestKey itemID = itemID"

lemmas key_defs = EncodeQueueKey_def EncodeExpiryKey_def EncodeMsgIDKey_def EncodeDeliveryKey_def
  DestinationIndexKey_def ExpiryIndexKey_def SeenKey_def RelayIngestKey_def

subsection \<open>Facts\<close>

text \<open>The first component of a composite key can be read back when it has no separator.\<close>

lemma split_at_NUL:
  assumes "NUL \<notin> set a" and "NUL \<notin> set b"
  shows "a @ NUL # s = b @ NUL # t \<longleftrightarrow> a = b \<and> s = t"
proof
  assume "a @ NUL # s = b @ NUL # t"
  then have "Some (a, s) = Some (b, t)"
    unfolding cut_byte_append [OF assms(1), symmetric] cut_byte_append [OF assms(2), symmetric] by (rule arg_cong)
  then show "a = b \<and> s = t" by simp
qed simp

lemma prefix_NUL:
  assumes "NUL \<notin> set a" and "NUL \<notin> set b"
  shows "has_prefix (a @ NUL # s) (b @ [NUL]) \<longleftrightarrow> a = b"
  by (simp add: has_prefix_iff split_at_NUL [OF assms])

lemma put_string16_read:
  assumes "length s < 65536" and "rest \<noteq> []"
  shows "read_string (put_string16 s @ rest) = Inr (s, rest)"
proof -
  have "read_uint 2 (be_bytes 2 (length s) @ s @ rest) = Inr (length s, s @ rest)"
    using assms(1) by (simp add: read_uint_def be_val_be_bytes)
  then show ?thesis using assms(2) by (simp add: read_string_def put_string16_def read_slice_def)
qed

lemma read_int64_be [simp]: "read_int64 (be_int64 x @ rest) = Inr (s64 x, rest)"
  by (simp add: read_int64_def int64_val_be_int64)

lemma be_int64_not_nil [simp]: "be_int64 x \<noteq> []"
  using length_be_int64 [of x] by (metis length_0_conv zero_neq_numeral)

lemma put_string16_not_nil [simp]: "put_string16 s \<noteq> []"
  by (simp add: put_string16_def numeral_2_eq_2)

lemma s64_Unix [simp]: "s64 (Unix t) = Unix t" "s64 (UnixNano t) = UnixNano t"
  by (simp_all add: Unix_def UnixNano_def s64_id)

text \<open>What a message is after a round trip through the store: whole seconds, shown in local time.\<close>

definition stored_time :: "gotime \<Rightarrow> gotime" where
  "stored_time t = time_Unix (Unix t) 0"

definition stored_message :: "Message \<Rightarrow> Message" where
  "stored_message m = m\<lparr>MCreatedAt := stored_time (MCreatedAt m), MExpiresAt := stored_time (MExpiresAt m),
     MDeliveredAt := None\<rparr>"

definition message_fits :: "Message \<Rightarrow> bool" where
  "message_fits m \<longleftrightarrow> length (MID m) < 65536 \<and> length (MFrom m) < 65536 \<and> length (MTo m) < 65536 \<and>
     length (MPayload m) < 65536"

lemma DecodeMessage_EncodeMessage:
  "message_fits m \<Longrightarrow> DecodeMessage (EncodeMessage m) = Inr (stored_message m)"
  by (simp add: DecodeMessage_def EncodeMessage_def message_fits_def put_string16_read stored_message_def
      stored_time_def)

lemma buf_field_put16:
  "length s < 65536 \<Longrightarrow> buf_field 2 err (put_string16 s @ rest) = Inr (s, rest)"
  by (simp add: buf_field_def buf_uint_def put_string16_def be_val_be_bytes)

lemma buf_field_put32:
  "length s < 2 ^ 32 \<Longrightarrow> buf_field 4 err (be_bytes 4 (length s) @ s @ rest) = Inr (s, rest)"
  by (simp add: buf_field_def buf_uint_def be_val_be_bytes)

lemma buf_int64_be [simp]: "buf_int64 (be_int64 x @ rest) = (s64 x, rest)"
  by (simp add: buf_int64_def int64_val_be_int64)

definition envelope_fits :: "Envelope \<Rightarrow> bool" where
  "envelope_fits e \<longleftrightarrow> length (EID e) < 65536 \<and> length (EDestinationID e) < 65536 \<and>
     length (EOriginRelayID e) < 65536 \<and> length (EOpaquePayload e) < 2 ^ 32 \<and>
     0 \<le> ECurrentHopCount e \<and> ECurrentHopCount e < 65536 \<and>
     fits64 (instant (ECreatedAt e)) \<and> fits64 (instant (EExpiresAt e))"

definition local_time :: "gotime \<Rightarrow> gotime" where
  "local_time t = t\<lparr>loc := Local\<rparr>"

definition stored_envelope :: "Envelope \<Rightarrow> Envelope" where
  "stored_envelope e = e\<lparr>ECreatedAt := local_time (ECreatedAt e), EExpiresAt := local_time (EExpiresAt e)\<rparr>"

lemma DecodeEnvelopeRecord_Encode:
  assumes "envelope_fits e"
  shows "DecodeEnvelopeRecord (EncodeEnvelopeRecord e) = Inr (stored_envelope e)"
proof -
  have h: "be_val (be_bytes 2 (nat (ECurrentHopCount e mod 65536))) = nat (ECurrentHopCount e)"
    using assms by (simp add: be_val_be_bytes envelope_fits_def nat_mod_as_int)
  have t: "time_Unix 0 (UnixNano (ECreatedAt e)) = local_time (ECreatedAt e)"
    "time_Unix 0 (UnixNano (EExpiresAt e)) = local_time (EExpiresAt e)"
    using assms by (simp_all add: time_Unix_def UnixNano_def s64_id local_time_def envelope_fits_def)
  have l: "\<not> length (EncodeEnvelopeRecord e) < 2" by (simp add: EncodeEnvelopeRecord_def)
  have b: "buf_uint 2 (be_bytes 2 n @ rest) = (be_val (be_bytes 2 n), rest)" for n rest
    by (simp add: buf_uint_def)
  from l show ?thesis
    using assms h t buf_int64_be [of "UnixNano (EExpiresAt e)" "[]"]
    by (simp add: DecodeEnvelopeRecord_def EncodeEnvelopeRecord_def envelope_fits_def buf_field_put16
        buf_field_put32 b stored_envelope_def)
qed

subsection \<open>Properties\<close>

definition sample_message :: Message where
  "sample_message = \<lparr>MID = ''m1'', MFrom = ''alice'', MTo = ''bob'', MPayload = ''aGk'',
     MCreatedAt = \<lparr>instant = 1500000001500000000, loc = UTC\<rparr>,
     MExpiresAt = \<lparr>instant = 1500003601500000000, loc = UTC\<rparr>, MDelivered = False, MDeliveredAt = None\<rparr>"

text \<open>
  A payload of exactly 64 KiB, which the federation path lets through, is lost: its length
  wraps to zero in the 16-bit prefix, so the record that is read back has an empty payload and takes
  the first payload bytes for its creation and expiry times.
\<close>

lemma message_codec_loses_64k_payload:
  assumes "length (MPayload m) = 65536" and "length (MID m) < 65536" and "length (MFrom m) < 65536"
    and "length (MTo m) < 65536"
  shows "DecodeMessage (EncodeMessage m) = Inr (m\<lparr>MPayload := [],
    MCreatedAt := time_Unix (int64_val (take 8 (MPayload m))) 0,
    MExpiresAt := time_Unix (int64_val (take 8 (drop 8 (MPayload m)))) 0,
    MDelivered := (MPayload m ! 16 = CHR 0x01), MDeliveredAt := None\<rparr>)"
proof -
  let ?P = "MPayload m" and ?d = "if MDelivered m then CHR 0x01 else CHR 0x00"
  let ?tail = "be_int64 (Unix (MCreatedAt m)) @ be_int64 (Unix (MExpiresAt m)) @ [?d]"
  have "be_bytes 2 65536 = be_bytes 2 0" using be_bytes_mod [of 2 65536] by simp
  then have w: "put_string16 ?P = put_string16 [] @ ?P" by (simp add: put_string16_def assms(1))
  have d: "drop 16 ?P = ?P ! 16 # drop 17 ?P"
    using Cons_nth_drop_Suc [of 16 ?P] assms(1) by simp
  have ne: "?P \<noteq> []" using assms(1) by auto
  have "read_string (put_string16 [] @ ?P @ ?tail) = Inr ([], ?P @ ?tail)"
    by (rule put_string16_read) (simp_all add: ne)
  moreover have "read_int64 (?P @ ?tail) = Inr (int64_val (take 8 ?P), drop 8 ?P @ ?tail)"
    using assms(1) by (simp add: read_int64_def)
  moreover have "read_int64 (drop 8 ?P @ ?tail) = Inr (int64_val (take 8 (drop 8 ?P)), ?P ! 16 # drop 17 ?P @ ?tail)"
    using assms(1) d by (simp add: read_int64_def)
  ultimately show ?thesis
    unfolding DecodeMessage_def EncodeMessage_def w using assms(2-4)
    by (simp add: put_string16_read)
qed

lemma message_codec_loses_64k_payload_example:
  "is_ok (DecodeMessage (EncodeMessage (sample_message\<lparr>MPayload := replicate 65536 CHR ''A''\<rparr>))) \<and>
   DecodeMessage (EncodeMessage (sample_message\<lparr>MPayload := replicate 65536 CHR ''A''\<rparr>)) \<noteq>
     Inr (stored_message (sample_message\<lparr>MPayload := replicate 65536 CHR ''A''\<rparr>))"
  using message_codec_loses_64k_payload [of "sample_message\<lparr>MPayload := replicate 65536 CHR ''A''\<rparr>"]
  by (simp add: sample_message_def stored_message_def)

text \<open>
  A federation envelope survives its codec: when its ids are shorter than 64 KiB, its payload
  is shorter than 4 GiB, its hop count fits 16 bits and its times fit nanoseconds in 64 bits, decoding
  the encoding gives it back at the same instants.
\<close>

lemma envelope_codec_roundtrip:
  assumes "envelope_fits e"
  shows "DecodeEnvelopeRecord (EncodeEnvelopeRecord e) = Inr (stored_envelope e)"
  using assms by (rule DecodeEnvelopeRecord_Encode)

definition sample_envelope :: Envelope where
  "sample_envelope = \<lparr>EID = ''e1'', EDestinationID = ''bob'', EOpaquePayload = ''xyz'', EOriginRelayID = ''relay-a'',
     ECurrentHopCount = 3, ECreatedAt = \<lparr>instant = 1500000001500000000, loc = UTC\<rparr>,
     EExpiresAt = \<lparr>instant = 1500003601500000000, loc = UTC\<rparr>\<rparr>"

end
