(* ===== verification/Message_Store.thy ===== *)
theory Message_Store
  imports Bolt Codec
begin

text \<open>
  The message store of \<^verbatim>\<open>internal/store/bbolt_store.go\<close>: its seven buckets, every method of
  the \<open>Store\<close> interface, and what the methods promise when the buckets behave as bbolt
  documents (locale \<open>bolt\<close>).  \<open>Open\<close> creates the buckets before any other method runs,
  so that a database is the record of all seven; \<open>time.Now()\<close> is the argument \<open>now\<close> and
  \<open>lo\<close> is the local zone.  The debug logs of the source have no counterpart.
\<close>

record 'b msg_db =
  BucketMessages :: 'b
  BucketQueueByRecipient :: 'b
  BucketDeliveryState :: 'b
  BucketAckState :: 'b
  BucketExpiryIndex :: 'b
  BucketMsgIDIndex :: 'b
  BucketMeta :: 'b

definition open_msg_db :: "'b bolt_api \<Rightarrow> 'b msg_db" where
  "open_msg_db api = \<lparr>BucketMessages = bempty api, BucketQueueByRecipient = bempty api,
     BucketDeliveryState = bempty api, BucketAckState = bempty api, BucketExpiryIndex = bempty api,
     BucketMsgIDIndex = bempty api, BucketMeta = bempty api\<rparr>"

text \<open>\<open>db.Update(f)\<close>: the changes of \<open>f\<close> are committed when it returns no error and rolled
  back otherwise.\<close>

definition db_update :: "'d \<Rightarrow> (serr + 'd \<times> 'a) \<Rightarrow> 'd \<times> (serr + 'a)" where
  "db_update db r = (case r of Inl e \<Rightarrow> (db, Inl e) | Inr (db', x) \<Rightarrow> (db', Inr x))"

definition put_in :: "'b bolt_api \<Rightarrow> 'b \<Rightarrow> bytes \<Rightarrow> bytes \<Rightarrow> string \<Rightarrow> serr + 'b" where
  "put_in api b k v place = (case bput api b k v of None \<Rightarrow> Inl (PutFailed place) | Some b' \<Rightarrow> Inr b')"

text \<open>\<open>time.Time.MarshalBinary\<close>, with the empty slice for its error (an offset out of range).\<close>

definition MarshalBinary :: "(int \<Rightarrow> int) \<Rightarrow> gotime \<Rightarrow> bytes" where
  "MarshalBinary lo t =
     (let off = zone_offset lo t;
          offMin = (if loc t = UTC then - 1 else sgn off * (\<bar>off\<bar> div 60));
          offSec = (if loc t = UTC then 0 else sgn off * (\<bar>off\<bar> mod 60));
          body = be_int64 (instant t div second + 62135596800) @ be_bytes 4 (nat (instant t mod second)) @
                 be_bytes 2 (nat (offMin mod 65536))
      in if loc t \<noteq> UTC \<and> (offMin < - 32768 \<or> offMin = - 1 \<or> offMin > 32767) then []
         else if offSec = 0 then CHR 0x01 # body
         else CHR 0x02 # body @ be_bytes 1 (nat (offSec mod 256)))"

subsection \<open>Methods\<close>

definition PersistMessage ::
  "'b bolt_api \<Rightarrow> (int \<Rightarrow> int) \<Rightarrow> 'b msg_db \<Rightarrow> Message option \<Rightarrow> 'b msg_db \<times> (serr + unit)" where
  "PersistMessage api lo db msg_opt = db_update db (case msg_opt of
     None \<Rightarrow> Inl NilRecord
   | Some msg \<Rightarrow>
       bindE (put_in api (BucketMessages db) (MID msg) (EncodeMessage msg) ''messages'') (\<lambda>messages.
       bindE (put_in api (BucketQueueByRecipient db) (EncodeQueueKey lo (MTo msg) (MCreatedAt msg) (MID msg))
                (MID msg) ''queue'') (\<lambda>queue.
       bindE (put_in api (BucketExpiryIndex db) (EncodeExpiryKey lo (MID msg) (MExpiresAt msg))
                (MID msg) ''expiry'') (\<lambda>expiry.
       bindE (put_in api (BucketMsgIDIndex db) (EncodeMsgIDKey (MID msg)) (MID msg) ''msgid'') (\<lambda>msgid.
       Inr (db\<lparr>BucketMessages := messages, BucketQueueByRecipient := queue, BucketExpiryIndex := expiry,
               BucketMsgIDIndex := msgid\<rparr>, ()))))))"

text \<open>The scan of a recipient's queue; \<open>suppressed\<close> tells which messages are counted but left out.\<close>

fun queue_scan ::
  "(bytes \<Rightarrow> bytes option) \<Rightarrow> bytes \<Rightarrow> int \<Rightarrow> (string \<Rightarrow> bool) \<Rightarrow> int \<Rightarrow> (bytes \<times> bytes) list \<Rightarrow> Message list" where
  "queue_scan messages prefix limit suppressed count [] = []"
| "queue_scan messages prefix limit suppressed count ((k, v) # rest) =
     (if \<not> count < limit then []
      else if \<not> has_prefix k prefix then []
      else case messages v of
             None \<Rightarrow> queue_scan messages prefix limit suppressed count rest
           | Some msgBytes \<Rightarrow>
               (case DecodeMessage msgBytes of
                  Inl _ \<Rightarrow> queue_scan messages prefix limit suppressed count rest
                | Inr msg \<Rightarrow>
                    (if suppressed v then [] else [msg]) @
                    queue_scan messages prefix limit suppressed (count + 1) rest))"

definition GetQueuedMessages :: "'b bolt_api \<Rightarrow> 'b msg_db \<Rightarrow> string \<Rightarrow> int \<Rightarrow> serr + Message list" where
  "GetQueuedMessages api db recipientID limit = Inr
     (queue_scan (bget api (BucketMessages db)) (recipientID @ [NUL]) limit
        (\<lambda>msgID. bget api (BucketDeliveryState db) (EncodeDeliveryKey msgID recipientID) \<noteq> None) 0
        (bseek api (BucketQueueByRecipient db) (recipientID @ [NUL])))"

definition GetQueuedMessagesRaw :: "'b bolt_api \<Rightarrow> 'b msg_db \<Rightarrow> string \<Rightarrow> int \<Rightarrow> serr + Message list" where
  "GetQueuedMessagesRaw api db recipientID limit = Inr
     (queue_scan (bget api (BucketMessages db)) (recipientID @ [NUL]) limit (\<lambda>_. False) 0
        (bseek api (BucketQueueByRecipient db) (recipientID @ [NUL])))"

definition MarkDelivered ::
  "'b bolt_api \<Rightarrow> (int \<Rightarrow> int) \<Rightarrow> gotime \<Rightarrow> 'b msg_db \<Rightarrow> string \<Rightarrow> string \<Rightarrow> 'b msg_db \<times> (serr + unit)" where
  "MarkDelivered api lo now db msgID recipientID = db_update db
     (if bget api (BucketMessages db) msgID = None then Inl (NotFound msgID)
      else bindE (put_in api (BucketDeliveryState db) (EncodeDeliveryKey msgID recipientID)
                    (MarshalBinary lo now) ''delivery'') (\<lambda>b.
           Inr (db\<lparr>BucketDeliveryState := b\<rparr>, ())))"

definition MarkAcked ::
  "'b bolt_api \<Rightarrow> (int \<Rightarrow> int) \<Rightarrow> gotime \<Rightarrow> 'b msg_db \<Rightarrow> string \<Rightarrow> string \<Rightarrow> 'b msg_db \<times> (serr + bool)" where
  "MarkAcked api lo now db msgID recipientID = db_update db
     (if bget api (BucketAckState db) (EncodeDeliveryKey msgID recipientID) \<noteq> None then Inr (db, False)
      else bindE (put_in api (BucketAckState db) (EncodeDeliveryKey msgID recipientID)
                    (MarshalBinary lo now) ''ack'') (\<lambda>b.
           Inr (db\<lparr>BucketAckState := b\<rparr>, True)))"

text \<open>The loop of \<open>MarkAckedBatch\<close>: the bucket and the ids that changed state.\<close>

fun ack_batch_loop ::
  "'b bolt_api \<Rightarrow> bytes \<Rightarrow> string \<Rightarrow> 'b \<Rightarrow> string set \<Rightarrow> string list \<Rightarrow> serr + 'b \<times> string set" where
  "ack_batch_loop api nowBytes recipientID b transitioned [] = Inr (b, transitioned)"
| "ack_batch_loop api nowBytes recipientID b transitioned (msgID # rest) =
     (if msgID = [] then ack_batch_loop api nowBytes recipientID b transitioned rest
      else if bget api b (EncodeDeliveryKey msgID recipientID) \<noteq> None
           then ack_batch_loop api nowBytes recipientID b transitioned rest
      else bindE (put_in api b (EncodeDeliveryKey msgID recipientID) nowBytes ''ack'') (\<lambda>b'.
           ack_batch_loop api nowBytes recipientID b' (insert msgID transitioned) rest))"

definition MarkAckedBatch ::
  "'b bolt_api \<Rightarrow> (int \<Rightarrow> int) \<Rightarrow> gotime \<Rightarrow> 'b msg_db \<Rightarrow> string list \<Rightarrow> string \<Rightarrow> 'b msg_db \<times> (serr + string set)" where
  "MarkAckedBatch api lo now db msgIDs recipientID =
     (if msgIDs = [] then (db, Inr {})
      else db_update db
        (bindE (ack_batch_loop api (MarshalBinary lo now) recipientID (BucketAckState db) {} msgIDs)
           (\<lambda>(b, transitioned). Inr (db\<lparr>BucketAckState := b\<rparr>, transitioned))))"

definition IsDeliveredTo :: "'b bolt_api \<Rightarrow> 'b msg_db \<Rightarrow> string \<Rightarrow> string \<Rightarrow> serr + bool" where
  "IsDeliveredTo api db msgID recipientID =
     Inr (bget api (BucketDeliveryState db) (EncodeDeliveryKey msgID recipientID) \<noteq> None)"

definition IsAckedBy :: "'b bolt_api \<Rightarrow> 'b msg_db \<Rightarrow> string \<Rightarrow> string \<Rightarrow> serr + bool" where
  "IsAckedBy api db msgID recipientID =
     Inr (bget api (BucketAckState db) (EncodeDeliveryKey msgID recipientID) \<noteq> None)"

definition GetMessageByID :: "'b bolt_api \<Rightarrow> 'b msg_db \<Rightarrow> string \<Rightarrow> serr + Message" where
  "GetMessageByID api db msgID = (case bget api (BucketMessages db) msgID of
     None \<Rightarrow> Inl (NotFound msgID)
   | Some msgBytes \<Rightarrow> DecodeMessage msgBytes)"

text \<open>
  \<open>deleteKeyPrefix\<close>: the cursor stands at \<open>cur\<close>; fuel is one more than the pairs from the
  prefix on, and running out of it is the value \<open>None\<close> (see \<open>deleteKeyPrefix_ends\<close>).
\<close>

fun delete_prefix_loop :: "'b bolt_api \<Rightarrow> bytes \<Rightarrow> nat \<Rightarrow> 'b \<Rightarrow> bytes option \<Rightarrow> 'b option" where
  "delete_prefix_loop api prefix fuel b None = Some b"
| "delete_prefix_loop api prefix 0 b (Some k) = None"
| "delete_prefix_loop api prefix (Suc fuel) b (Some k) =
     (if \<not> has_prefix k prefix then Some b
      else delete_prefix_loop api prefix fuel (bdelete api b k) (bnext_del api (bdelete api b k) k))"

definition first_key :: "(bytes \<times> bytes) list \<Rightarrow> bytes option" where
  "first_key kvs = (case kvs of [] \<Rightarrow> None | (k, _) # _ \<Rightarrow> Some k)"

definition deleteKeyPrefix :: "'b bolt_api \<Rightarrow> 'b \<Rightarrow> bytes \<Rightarrow> 'b option" where
  "deleteKeyPrefix api b prefix =
     delete_prefix_loop api prefix (Suc (length (bseek api b prefix))) b (first_key (bseek api b prefix))"

text \<open>The part of \<open>RemoveMessage\<close> that drops the index entries of the stored record.\<close>

definition remove_indexes :: "'b bolt_api \<Rightarrow> (int \<Rightarrow> int) \<Rightarrow> 'b msg_db \<Rightarrow> string \<Rightarrow> 'b msg_db" where
  "remove_indexes api lo db msgID = (case bget api (BucketMessages db) msgID of
     None \<Rightarrow> db
   | Some msgBytes \<Rightarrow>
       (case DecodeMessage msgBytes of
          Inl _ \<Rightarrow> db
        | Inr msg \<Rightarrow> db\<lparr>BucketQueueByRecipient :=
              bdelete api (BucketQueueByRecipient db) (EncodeQueueKey lo (MTo msg) (MCreatedAt msg) (MID msg)),
            BucketExpiryIndex :=
              bdelete api (BucketExpiryIndex db) (EncodeExpiryKey lo (MID msg) (MExpiresAt msg))\<rparr>))"

text \<open>\<open>None\<close> is a cursor that never ends.\<close>

definition RemoveMessage :: "'b bolt_api \<Rightarrow> (int \<Rightarrow> int) \<Rightarrow> 'b msg_db \<Rightarrow> string \<Rightarrow> 'b msg_db option" where
  "RemoveMessage api lo db msgID =
     (let db = remove_indexes api lo db msgID;
          db = db\<lparr>BucketMessages := bdelete api (BucketMessages db) msgID,
                  BucketMsgIDIndex := bdelete api (BucketMsgIDIndex db) (EncodeMsgIDKey msgID)\<rparr>
      in case deleteKeyPrefix api (BucketDeliveryState db) (msgID @ [NUL]) of
           None \<Rightarrow> None
         | Some delivery \<Rightarrow>
             (case deleteKeyPrefix api (BucketAckState db) (msgID @ [NUL]) of
                None \<Rightarrow> None
              | Some ack \<Rightarrow> Some (db\<lparr>BucketDeliveryState := delivery, BucketAckState := ack\<rparr>)))"

fun expired_scan :: "(bytes \<Rightarrow> bytes option) \<Rightarrow> string \<Rightarrow> (bytes \<times> bytes) list \<Rightarrow> Message list" where
  "expired_scan messages beforeStr [] = []"
| "expired_scan messages beforeStr ((k, v) # rest) =
     (if length (split_byte NUL k) < 2 then expired_scan messages beforeStr rest
      else if hd (split_byte NUL k) > beforeStr then []
      else case messages v of
             None \<Rightarrow> expired_scan messages beforeStr rest
           | Some msgBytes \<Rightarrow>
               (case DecodeMessage msgBytes of
                  Inl _ \<Rightarrow> expired_scan messages beforeStr rest
                | Inr msg \<Rightarrow> msg # expired_scan messages beforeStr rest))"

definition GetExpiredMessages :: "'b bolt_api \<Rightarrow> (int \<Rightarrow> int) \<Rightarrow> 'b msg_db \<Rightarrow> gotime \<Rightarrow> serr + Message list" where
  "GetExpiredMessages api lo db before = Inr
     (expired_scan (bget api (BucketMessages db)) (rfc3339nano lo before) (bseek api (BucketExpiryIndex db) []))"

definition MetaLastSweep :: bytes where
  "MetaLastSweep = ''last_sweep''"

definition GetLastSweepTime :: "'b bolt_api \<Rightarrow> 'b msg_db \<Rightarrow> serr + gotime" where
  "GetLastSweepTime api db = Inr (case bget api (BucketMeta db) MetaLastSweep of
     None \<Rightarrow> zero_time
   | Some v \<Rightarrow> time_Unix (if length v \<ge> 8 then int64_val (take 8 v) else 0) 0)"

definition SetLastSweepTime :: "'b bolt_api \<Rightarrow> 'b msg_db \<Rightarrow> gotime \<Rightarrow> 'b msg_db \<times> (serr + unit)" where
  "SetLastSweepTime api db t = db_update db
     (bindE (put_in api (BucketMeta db) MetaLastSweep (be_int64 (Unix t)) ''meta'') (\<lambda>b.
      Inr (db\<lparr>BucketMeta := b\<rparr>, ())))"

fun recipients_loop :: "string set \<Rightarrow> (bytes \<times> bytes) list \<Rightarrow> string list" where
  "recipients_loop seen [] = []"
| "recipients_loop seen ((k, v) # rest) =
     (let recipient = hd (split_byte NUL k)
      in if recipient \<in> seen then recipients_loop seen rest
         else recipient # recipients_loop (insert recipient seen) rest)"

definition GetAllRecipientIDs :: "'b bolt_api \<Rightarrow> 'b msg_db \<Rightarrow> serr + string list" where
  "GetAllRecipientIDs api db = Inr (recipients_loop {} (bseek api (BucketQueueByRecipient db) []))"

fun queued_ids_scan :: "(bytes \<Rightarrow> bytes option) \<Rightarrow> bytes \<Rightarrow> (bytes \<times> bytes) list \<Rightarrow> string list" where
  "queued_ids_scan messages prefix [] = []"
| "queued_ids_scan messages prefix ((k, v) # rest) =
     (if \<not> has_prefix k prefix then []
      else if messages v = None then queued_ids_scan messages prefix rest
      else v # queued_ids_scan messages prefix rest)"

definition GetAllQueuedMessageIDs :: "'b bolt_api \<Rightarrow> 'b msg_db \<Rightarrow> string \<Rightarrow> serr + string list" where
  "GetAllQueuedMessageIDs api db to = Inr
     (queued_ids_scan (bget api (BucketMessages db)) (to @ [NUL])
        (bseek api (BucketQueueByRecipient db) (to @ [NUL])))"

subsection \<open>Facts about the scans\<close>

text \<open>The readable records among the entries of an index, each with the id that led to it.\<close>

fun readable :: "(bytes \<Rightarrow> bytes option) \<Rightarrow> (bytes \<times> bytes) list \<Rightarrow> (string \<times> Message) list" where
  "readable messages [] = []"
| "readable messages ((k, v) # rest) = (case messages v of
     None \<Rightarrow> readable messages rest
   | Some bs \<Rightarrow> (case DecodeMessage bs of
       Inl _ \<Rightarrow> readable messages rest
     | Inr m \<Rightarrow> (v, m) # readable messages rest))"

lemma set_readable:
  "(i, m) \<in> set (readable messages es) \<longleftrightarrow>
     (\<exists>k bs. (k, i) \<in> set es \<and> messages i = Some bs \<and> DecodeMessage bs = Inr m)"
  by (induction messages es rule: readable.induct) (auto split: option.splits sum.splits)

lemma queue_scan_eq:
  "queue_scan messages p limit suppressed c es =
     map snd (filter (\<lambda>(i, m). \<not> suppressed i)
       (take (nat (limit - c)) (readable messages (takeWhile (\<lambda>(k, v). has_prefix k p) es))))"
proof (induction messages p limit suppressed c es rule: queue_scan.induct)
  case (1 messages p limit suppressed c)
  then show ?case by simp
next
  case (2 messages p limit suppressed c k v rest)
  show ?case
  proof (cases "c < limit \<and> has_prefix k p")
    case True
    then have "nat (limit - c) = Suc (nat (limit - (c + 1)))" by linarith
    with True 2 show ?thesis by (auto split: option.splits sum.splits)
  qed auto
qed

lemma queued_ids_scan_eq:
  "queued_ids_scan messages p es =
     filter (\<lambda>v. messages v \<noteq> None) (map snd (takeWhile (\<lambda>(k, v). has_prefix k p) es))"
  by (induction messages p es rule: queued_ids_scan.induct) auto

lemma recipients_loop_props:
  "set (recipients_loop seen es) = (\<lambda>(k, v). hd (split_byte NUL k)) ` set es - seen \<and>
   distinct (recipients_loop seen es)"
  by (induction seen es rule: recipients_loop.induct) (auto simp: Let_def)

subsection \<open>Facts about the methods\<close>

lemma db_update_Inr: "db_update db r = (db', Inr x) \<longleftrightarrow> r = Inr (db', x)"
  by (auto simp: db_update_def split: sum.splits)

lemma db_update_Inl: "db_update db r = (db', Inl e) \<longleftrightarrow> r = Inl e \<and> db' = db"
  by (auto simp: db_update_def split: sum.splits)

text \<open>The queue entry and the expiry entry of a message.\<close>

definition queue_key :: "(int \<Rightarrow> int) \<Rightarrow> Message \<Rightarrow> bytes" where
  "queue_key lo m = EncodeQueueKey lo (MTo m) (MCreatedAt m) (MID m)"

definition expiry_key :: "(int \<Rightarrow> int) \<Rightarrow> Message \<Rightarrow> bytes" where
  "expiry_key lo m = EncodeExpiryKey lo (MID m) (MExpiresAt m)"

text \<open>A message the store accepts: its id and its keys within the limits of \<open>Put\<close>.\<close>

definition storable :: "(int \<Rightarrow> int) \<Rightarrow> Message \<Rightarrow> bool" where
  "storable lo m \<longleftrightarrow> key_ok (MID m) \<and> key_ok (queue_key lo m) \<and> key_ok (expiry_key lo m) \<and>
     value_ok (EncodeMessage m) \<and> value_ok (MID m)"

lemma delivery_key_inj:
  assumes "NUL \<notin> set i" and "NUL \<notin> set j"
  shows "EncodeDeliveryKey i r = EncodeDeliveryKey j s \<longleftrightarrow> i = j \<and> r = s"
  unfolding EncodeDeliveryKey_def by (rule split_at_NUL [OF assms])

context bolt
begin

lemma put_in_Inr:
  "put_in api b k v place = Inr b' \<Longrightarrow> key_ok k \<and> value_ok v \<and> bget api b' = (bget api b)(k \<mapsto> v)"
  by (auto simp: put_in_def dest: put_Some split: option.splits)

lemma put_in_ok: "key_ok k \<Longrightarrow> value_ok v \<Longrightarrow> \<exists>b'. put_in api b k v place = Inr b'"
  using put_ok [of k v b] by (auto simp: put_in_def)

lemma put_in_bad: "\<not> (key_ok k \<and> value_ok v) \<Longrightarrow> put_in api b k v place = Inl (PutFailed place)"
  using put_bad [of k v b] by (simp add: put_in_def)

lemma persist_buckets:
  assumes "PersistMessage api lo db (Some m) = (db', Inr ())"
  shows "bget api (BucketMessages db') = (bget api (BucketMessages db))(MID m \<mapsto> EncodeMessage m)"
    and "bget api (BucketQueueByRecipient db') = (bget api (BucketQueueByRecipient db))(queue_key lo m \<mapsto> MID m)"
    and "bget api (BucketExpiryIndex db') = (bget api (BucketExpiryIndex db))(expiry_key lo m \<mapsto> MID m)"
    and "bget api (BucketMsgIDIndex db') = (bget api (BucketMsgIDIndex db))(MID m \<mapsto> MID m)"
    and "BucketDeliveryState db' = BucketDeliveryState db" and "BucketAckState db' = BucketAckState db"
    and "storable lo m"
  using assms
  by (auto simp: PersistMessage_def db_update_Inr queue_key_def expiry_key_def EncodeMsgIDKey_def
      storable_def dest!: put_in_Inr)

lemma persist_succeeds:
  assumes "storable lo m"
  shows "\<exists>db'. PersistMessage api lo db (Some m) = (db', Inr ())"
proof -
  from assms obtain a b c d where
    "put_in api (BucketMessages db) (MID m) (EncodeMessage m) ''messages'' = Inr a"
    "put_in api (BucketQueueByRecipient db) (queue_key lo m) (MID m) ''queue'' = Inr b"
    "put_in api (BucketExpiryIndex db) (expiry_key lo m) (MID m) ''expiry'' = Inr c"
    "put_in api (BucketMsgIDIndex db) (MID m) (MID m) ''msgid'' = Inr d"
    unfolding storable_def by (meson put_in_ok)
  then show ?thesis
    by (simp add: PersistMessage_def queue_key_def expiry_key_def EncodeMsgIDKey_def db_update_def)
qed

lemma persist_get:
  assumes "PersistMessage api lo db (Some m) = (db', Inr ())"
  shows "GetMessageByID api db' i = (if i = MID m then DecodeMessage (EncodeMessage m) else GetMessageByID api db i)"
  by (simp add: GetMessageByID_def persist_buckets(1) [OF assms])

lemma GetQueuedMessages_eq:
  "GetQueuedMessages api db r limit = Inr (map snd (filter
     (\<lambda>(i, m). bget api (BucketDeliveryState db) (EncodeDeliveryKey i r) = None)
     (take (nat limit) (readable (bget api (BucketMessages db))
        (filter (\<lambda>(k, v). has_prefix k (r @ [NUL])) (bseek api (BucketQueueByRecipient db) (r @ [NUL])))))))"
  by (simp add: GetQueuedMessages_def queue_scan_eq prefix_scan)

lemma GetQueuedMessagesRaw_eq:
  "GetQueuedMessagesRaw api db r limit = Inr (map snd (take (nat limit)
     (readable (bget api (BucketMessages db))
        (filter (\<lambda>(k, v). has_prefix k (r @ [NUL])) (bseek api (BucketQueueByRecipient db) (r @ [NUL]))))))"
  by (simp add: GetQueuedMessagesRaw_def queue_scan_eq prefix_scan)

lemma GetAllQueuedMessageIDs_set:
  assumes "GetAllQueuedMessageIDs api db r = Inr ids"
  shows "set ids = {i. (\<exists>k. bget api (BucketQueueByRecipient db) k = Some i \<and> has_prefix k (r @ [NUL])) \<and>
                       bget api (BucketMessages db) i \<noteq> None}"
  using assms prefix_scan_set [of "r @ [NUL]" "BucketQueueByRecipient db"]
  by (force simp: GetAllQueuedMessageIDs_def queued_ids_scan_eq image_iff)

text \<open>Markers of delivery and of acknowledgement.\<close>

lemma MarkDelivered_effect:
  assumes "MarkDelivered api lo now db i r = (db', Inr ())"
  shows "bget api (BucketDeliveryState db') =
           (bget api (BucketDeliveryState db))(EncodeDeliveryKey i r \<mapsto> MarshalBinary lo now)"
    and "db' = db\<lparr>BucketDeliveryState := BucketDeliveryState db'\<rparr>"
    and "bget api (BucketMessages db) i \<noteq> None"
  using assms by (auto simp: MarkDelivered_def db_update_Inr dest!: put_in_Inr split: if_splits)

lemma MarkAcked_effect:
  assumes "MarkAcked api lo now db i r = (db', Inr changed)"
  shows "changed \<longleftrightarrow> bget api (BucketAckState db) (EncodeDeliveryKey i r) = None"
    and "bget api (BucketAckState db') = (if changed
           then (bget api (BucketAckState db))(EncodeDeliveryKey i r \<mapsto> MarshalBinary lo now)
           else bget api (BucketAckState db))"
    and "db' = db\<lparr>BucketAckState := BucketAckState db'\<rparr>"
  using assms by (auto simp: MarkAcked_def db_update_Inr dest!: put_in_Inr split: if_splits)

lemma value_ok_Marshal: "value_ok (MarshalBinary lo now)"
  by (simp add: value_ok_def MarshalBinary_def Let_def)

end

context bolt
begin

lemma ack_batch_loop_effect:
  assumes "ack_batch_loop api nowBytes r b tr ids = Inr (b', tr')" and "\<forall>i \<in> set ids. NUL \<notin> set i"
  shows "(bget api b' k = (if bget api b k = None \<and> (\<exists>i \<in> set ids. i \<noteq> [] \<and> k = EncodeDeliveryKey i r)
             then Some nowBytes else bget api b k)) \<and>
         tr' = tr \<union> {i \<in> set ids. i \<noteq> [] \<and> bget api b (EncodeDeliveryKey i r) = None}"
  using assms
proof (induction ids arbitrary: b tr)
  case Nil
  then show ?case by simp
next
  case (Cons i rest)
  show ?case
  proof (cases "i = [] \<or> bget api b (EncodeDeliveryKey i r) \<noteq> None")
    case True
    with Cons show ?thesis by (auto split: if_splits)
  next
    case False
    then obtain c where c: "put_in api b (EncodeDeliveryKey i r) nowBytes ''ack'' = Inr c"
      and l: "ack_batch_loop api nowBytes r c (insert i tr) rest = Inr (b', tr')" using Cons.prems(1) by auto
    have g: "bget api c = (bget api b)(EncodeDeliveryKey i r \<mapsto> nowBytes)" using put_in_Inr [OF c] by simp
    have inj: "EncodeDeliveryKey j r = EncodeDeliveryKey i r \<longleftrightarrow> j = i" if "j \<in> set rest" for j
      using delivery_key_inj [of j i r r] Cons.prems(2) that by auto
    from Cons.IH [OF l] Cons.prems(2) False inj show ?thesis by (auto simp: g)
  qed
qed

end

subsection \<open>Removing\<close>

context bolt_cursor
begin

text \<open>\<open>deleteKeyPrefix\<close> ends, and drops exactly the keys with the prefix.\<close>

lemma delete_prefix_loop_ends:
  "length (bseek api b p) < fuel \<Longrightarrow>
   \<exists>b'. delete_prefix_loop api p fuel b (first_key (bseek api b p)) = Some b' \<and>
        bget api b' = (\<lambda>k. if has_prefix k p then None else bget api b k)"
proof (induction fuel arbitrary: b)
  case 0
  then show ?case by simp
next
  case (Suc fuel)
  show ?case
  proof (cases "bseek api b p")
    case Nil
    then have "bget api b k = None" if "has_prefix k p" for k
      using seek_entries [of k _ b p] has_prefix_ge [OF that] by (cases "bget api b k") auto
    with Nil show ?thesis by (auto simp: first_key_def)
  next
    case (Cons kv rest)
    obtain k v where kv: "kv = (k, v)" by fastforce
    note sd = seek_delete_first [OF Cons [unfolded kv]]
    show ?thesis
    proof (cases "has_prefix k p")
      case True
      have "bnext_del api (bdelete api b k) k = first_key (bseek api (bdelete api b k) p)"
        using next_after_delete [of "bdelete api b k" k] by (simp add: get_delete sd first_key_def)
      moreover have "length (bseek api (bdelete api b k) p) < fuel" using Suc.prems Cons sd by simp
      moreover have "(\<lambda>k'. if has_prefix k' p then None else bget api (bdelete api b k) k') =
          (\<lambda>k'. if has_prefix k' p then None else bget api b k')"
        using True by (auto simp: get_delete fun_eq_iff)
      moreover have "first_key (bseek api b p) = Some k" by (simp add: Cons kv first_key_def)
      ultimately show ?thesis
        using Suc.IH [of "bdelete api b k"] True by auto
    next
      case False
      have "bget api b k' = None" if "has_prefix k' p" for k'
      proof (rule ccontr)
        assume "bget api b k' \<noteq> None"
        with has_prefix_ge [OF that] have "k' \<in> fst ` set (bseek api b p)"
          unfolding seek_keys by auto
        with Cons kv seek_sorted [of b p] have "k \<le> k'" by auto
        moreover have "p \<le> k" using Cons kv seek_entries [of k v b p] by simp
        ultimately show False using has_prefix_convex [OF _ _ that] False by blast
      qed
      with Cons kv False show ?thesis by (auto simp: first_key_def)
    qed
  qed
qed

lemma deleteKeyPrefix_ends:
  "\<exists>b'. deleteKeyPrefix api b p = Some b' \<and>
        bget api b' = (\<lambda>k. if has_prefix k p then None else bget api b k)"
  unfolding deleteKeyPrefix_def by (rule delete_prefix_loop_ends) simp

lemma remove_indexes_simps [simp]:
  "BucketMessages (remove_indexes api lo db i) = BucketMessages db"
  "BucketDeliveryState (remove_indexes api lo db i) = BucketDeliveryState db"
  "BucketAckState (remove_indexes api lo db i) = BucketAckState db"
  "BucketMsgIDIndex (remove_indexes api lo db i) = BucketMsgIDIndex db"
  by (simp_all add: remove_indexes_def split: option.splits sum.splits)

lemma RemoveMessage_effect:
  "\<exists>db'. RemoveMessage api lo db i = Some db' \<and>
     bget api (BucketMessages db') = (bget api (BucketMessages db))(i := None) \<and>
     bget api (BucketMsgIDIndex db') = (bget api (BucketMsgIDIndex db))(i := None) \<and>
     bget api (BucketDeliveryState db') =
       (\<lambda>k. if has_prefix k (i @ [NUL]) then None else bget api (BucketDeliveryState db) k) \<and>
     bget api (BucketAckState db') =
       (\<lambda>k. if has_prefix k (i @ [NUL]) then None else bget api (BucketAckState db) k) \<and>
     BucketQueueByRecipient db' = BucketQueueByRecipient (remove_indexes api lo db i) \<and>
     BucketExpiryIndex db' = BucketExpiryIndex (remove_indexes api lo db i)"
proof -
  obtain d a where "deleteKeyPrefix api (BucketDeliveryState db) (i @ [NUL]) = Some d"
    "bget api d = (\<lambda>k. if has_prefix k (i @ [NUL]) then None else bget api (BucketDeliveryState db) k)"
    "deleteKeyPrefix api (BucketAckState db) (i @ [NUL]) = Some a"
    "bget api a = (\<lambda>k. if has_prefix k (i @ [NUL]) then None else bget api (BucketAckState db) k)"
    using deleteKeyPrefix_ends [of "BucketDeliveryState db" "i @ [NUL]"]
      deleteKeyPrefix_ends [of "BucketAckState db" "i @ [NUL]"] by blast
  then show ?thesis by (simp add: RemoveMessage_def Let_def get_delete EncodeMsgIDKey_def)
qed

end

subsection \<open>Properties\<close>

text \<open>
  A message that is persisted can be read and is queued: if its id and keys are within the
  limits of bbolt and its texts within those of the codec, then \<open>PersistMessage\<close> succeeds, \<open>GetMessageByID\<close> returns it, the recipient's queue lists it, and every
  other message reads as before.
\<close>

lemma persisted_message_is_queued:
  assumes "bolt api" and "storable lo m" and "message_fits m"
  shows "\<exists>db'. PersistMessage api lo db (Some m) = (db', Inr ()) \<and>
    GetMessageByID api db' (MID m) = Inr (stored_message m) \<and>
    (\<exists>ids. GetAllQueuedMessageIDs api db' (MTo m) = Inr ids \<and> MID m \<in> set ids) \<and>
    (\<forall>i. i = MID m \<or> GetMessageByID api db' i = GetMessageByID api db i)"
proof -
  obtain db' where p: "PersistMessage api lo db (Some m) = (db', Inr ())"
    using bolt.persist_succeeds [OF assms(1,2)] by blast
  obtain ids where ids: "GetAllQueuedMessageIDs api db' (MTo m) = Inr ids"
    by (simp add: GetAllQueuedMessageIDs_def)
  have "has_prefix (queue_key lo m) (MTo m @ [NUL])"
    by (simp add: queue_key_def EncodeQueueKey_def has_prefix_iff)
  then have "MID m \<in> set ids"
    unfolding bolt.GetAllQueuedMessageIDs_set [OF assms(1) ids]
    using bolt.persist_buckets(1,2) [OF assms(1) p] by auto
  with p ids show ?thesis
    using bolt.persist_get [OF assms(1) p] DecodeMessage_EncodeMessage [OF assms(3)] by auto
qed

lemma sample_storable: "storable (\<lambda>_. 0) sample_message"
  by (simp add: storable_def key_ok_def value_ok_def queue_key_def expiry_key_def key_defs sample_message_def
      EncodeMessage_def put_string16_def format_defs dec_digits.simps)

text \<open>
  What a fetch returns: \<open>GetQueuedMessages\<close> takes the first \<open>limit\<close> readable
  messages of the recipient's queue, in key order, and returns those that were not delivered to the
  recipient; entries of other recipients, dangling entries and undecodable records are never counted.
\<close>

lemma queued_messages_exact:
  assumes "bolt api"
  shows "GetQueuedMessages api db r limit = Inr (map snd (filter
     (\<lambda>(i, m). IsDeliveredTo api db i r = Inr False)
     (take (nat limit) (readable (bget api (BucketMessages db))
        (filter (\<lambda>(k, v). has_prefix k (r @ [NUL])) (bseek api (BucketQueueByRecipient db) (r @ [NUL])))))))"
  by (simp add: bolt.GetQueuedMessages_eq [OF assms] IsDeliveredTo_def)

text \<open>
  Acknowledgements are durable, idempotent and per recipient: marking an item acked reports
  a transition exactly when it was not acked before, the item is acked afterwards, a second call
  changes nothing and reports no transition, and no other pair of item and recipient changes (item
  ids without zero bytes).
\<close>

lemma ack_idempotent_and_isolated:
  assumes "bolt api" and "MarkAcked api lo now db i r = (db', Inr changed)"
    and "NUL \<notin> set i" and "NUL \<notin> set j"
  shows "(changed \<longleftrightarrow> IsAckedBy api db i r = Inr False) \<and> IsAckedBy api db' i r = Inr True \<and>
    MarkAcked api lo now' db' i r = (db', Inr False) \<and>
    ((j, s) = (i, r) \<or> IsAckedBy api db' j s = IsAckedBy api db j s) \<and>
    IsDeliveredTo api db' j s = IsDeliveredTo api db j s"
proof -
  note e = bolt.MarkAcked_effect [OF assms(1,2)]
  have "bget api (BucketAckState db') (EncodeDeliveryKey i r) \<noteq> None" using e(1,2) by auto
  moreover have "BucketDeliveryState db' = BucketDeliveryState db" by (subst e(3)) simp
  ultimately show ?thesis
    using e(1,2) delivery_key_inj [OF assms(3,4), of r s]
    by (auto simp: IsAckedBy_def IsDeliveredTo_def MarkAcked_def db_update_def)
qed

lemma ack_batch_effect:
  assumes "bolt api" and "list_all (\<lambda>i. NUL \<notin> set i) ids" and "NUL \<notin> set j"
  shows "case MarkAckedBatch api lo now db ids r of
     (db', Inl e) \<Rightarrow> db' = db
   | (db', Inr transitioned) \<Rightarrow>
       transitioned = {i \<in> set ids. i \<noteq> [] \<and> IsAckedBy api db i r = Inr False} \<and>
       (j \<in> set ids \<and> j \<noteq> [] \<longrightarrow> IsAckedBy api db' j r = Inr True) \<and>
       (j \<notin> set ids \<or> j = [] \<or> s \<noteq> r \<longrightarrow> IsAckedBy api db' j s = IsAckedBy api db j s)"
proof (cases "MarkAckedBatch api lo now db ids r")
  case (Pair db' res)
  show ?thesis
  proof (cases res)
    case (Inl e)
    with Pair show ?thesis by (auto simp: MarkAckedBatch_def db_update_Inl split: if_splits)
  next
    case (Inr tr)
    show ?thesis
    proof (cases "ids = []")
      case True
      with Pair Inr show ?thesis by (auto simp: MarkAckedBatch_def)
    next
      case False
      with Pair Inr obtain b where
        l: "ack_batch_loop api (MarshalBinary lo now) r (BucketAckState db) {} ids = Inr (b, tr)"
        and db': "db' = db\<lparr>BucketAckState := b\<rparr>"
        by (auto simp: MarkAckedBatch_def db_update_Inr)
      have c: "\<forall>i \<in> set ids. NUL \<notin> set i" using assms(2) by (simp add: list_all_iff)
      have k: "(\<exists>i \<in> set ids. i \<noteq> [] \<and> EncodeDeliveryKey j s = EncodeDeliveryKey i r) \<longleftrightarrow>
          j \<in> set ids \<and> j \<noteq> [] \<and> s = r" for s
        using delivery_key_inj [OF assms(3)] c by blast
      note e = bolt.ack_batch_loop_effect [OF assms(1) l c]
      from e [of "EncodeDeliveryKey j r"] e [of "EncodeDeliveryKey j s"] Pair Inr k show ?thesis
        by (auto simp: IsAckedBy_def db')
    qed
  qed
qed

text \<open>
  Removing a message always ends and removes it for good: when the cursor behaves as bbolt
  promises, afterwards the message is not found, no queue lists it, no delivery or ack marker of it
  is left, and the records and markers of all other messages are as before.
\<close>

lemma removed_message_is_gone:
  assumes "bolt_cursor api" and "NUL \<notin> set i"
  shows "\<exists>db'. RemoveMessage api lo db i = Some db' \<and> GetMessageByID api db' i = Inl (NotFound i) \<and>
    (\<forall>r ids. GetAllQueuedMessageIDs api db' r = Inr ids \<longrightarrow> i \<notin> set ids) \<and>
    (\<forall>r. IsDeliveredTo api db' i r = Inr False \<and> IsAckedBy api db' i r = Inr False) \<and>
    (\<forall>j r. j = i \<or> NUL \<in> set j \<or> GetMessageByID api db' j = GetMessageByID api db j \<and>
       IsDeliveredTo api db' j r = IsDeliveredTo api db j r \<and> IsAckedBy api db' j r = IsAckedBy api db j r)"
proof -
  from assms(1) have b: "bolt api" by (simp add: bolt_cursor_def)
  obtain db' where r: "RemoveMessage api lo db i = Some db'"
    and m: "bget api (BucketMessages db') = (bget api (BucketMessages db))(i := None)"
    and d: "bget api (BucketDeliveryState db') =
      (\<lambda>k. if has_prefix k (i @ [NUL]) then None else bget api (BucketDeliveryState db) k)"
    and a: "bget api (BucketAckState db') =
      (\<lambda>k. if has_prefix k (i @ [NUL]) then None else bget api (BucketAckState db) k)"
    using bolt_cursor.RemoveMessage_effect [OF assms(1)] by blast
  have q: "i \<notin> set ids" if "GetAllQueuedMessageIDs api db' r = Inr ids" for r ids
    using bolt.GetAllQueuedMessageIDs_set [OF b that] m by simp
  have "has_prefix (EncodeDeliveryKey j r) (i @ [NUL]) \<longleftrightarrow> j = i" if "NUL \<notin> set j" for j r
    unfolding EncodeDeliveryKey_def by (rule prefix_NUL [OF that assms(2)])
  with r m d a q assms(2) show ?thesis
    by (auto simp: GetMessageByID_def IsDeliveredTo_def IsAckedBy_def)
qed

text \<open>
  Index entries leak: \<open>RemoveMessage\<close> recomputes the queue key from the stored record, whose
  times are cut to seconds and shown in local time.  When the creation time was written differently,
  the queue entry of a message that was persisted and then removed stays in the database.
\<close>

lemma remove_leaks_queue_entry:
  assumes "bolt_cursor api" and "message_fits m" and "NUL \<notin> set (MTo m)"
    and "rfc3339nano lo (MCreatedAt m) \<noteq> rfc3339nano lo (stored_time (MCreatedAt m))"
    and "PersistMessage api lo db (Some m) = (db1, Inr ())"
    and "RemoveMessage api lo db1 (MID m) = Some db2"
  shows "bget api (BucketQueueByRecipient db2) (queue_key lo m) = Some (MID m)"
proof -
  from assms(1) have b: "bolt api" by (simp add: bolt_cursor_def)
  have d: "bget api (BucketMessages db1) (MID m) = Some (EncodeMessage m)"
    and q: "bget api (BucketQueueByRecipient db1) (queue_key lo m) = Some (MID m)"
    using bolt.persist_buckets(1,2) [OF b assms(5)] by simp_all
  have "queue_key lo m \<noteq> EncodeQueueKey lo (MTo m) (stored_time (MCreatedAt m)) (MID m)"
    using assms(4) split_at_NUL [OF rfc3339nano_no_NUL rfc3339nano_no_NUL]
    by (simp add: queue_key_def EncodeQueueKey_def)
  moreover have "BucketQueueByRecipient db2 = bdelete api (BucketQueueByRecipient db1)
      (EncodeQueueKey lo (MTo m) (stored_time (MCreatedAt m)) (MID m))"
    using bolt_cursor.RemoveMessage_effect [OF assms(1), of lo db1 "MID m"] assms(6) d
      DecodeMessage_EncodeMessage [OF assms(2)]
    by (simp add: remove_indexes_def stored_message_def)
  ultimately show ?thesis using q by (simp add: bolt.get_delete [OF b])
qed

lemma remove_leaks_queue_entry_example:
  "\<exists>db1 db2. PersistMessage mem_bolt (\<lambda>_. 0) (open_msg_db mem_bolt) (Some sample_message) = (db1, Inr ()) \<and>
     RemoveMessage mem_bolt (\<lambda>_. 0) db1 ''m1'' = Some db2 \<and>
     bget mem_bolt (BucketQueueByRecipient db2) (queue_key (\<lambda>_. 0) sample_message) = Some ''m1''"
proof -
  obtain db1 where p: "PersistMessage mem_bolt (\<lambda>_. 0) (open_msg_db mem_bolt) (Some sample_message) = (db1, Inr ())"
    using mem.persist_succeeds [OF sample_storable] by blast
  obtain db2 where r: "RemoveMessage mem_bolt (\<lambda>_. 0) db1 (MID sample_message) = Some db2"
    using mem.RemoveMessage_effect by blast
  have "rfc3339nano (\<lambda>_. 0) (MCreatedAt sample_message) \<noteq>
      rfc3339nano (\<lambda>_. 0) (stored_time (MCreatedAt sample_message))"
    by (simp add: sample_message_def stored_time_def time_Unix_def Unix_def s64_def format_defs dec_digits.simps)
  from remove_leaks_queue_entry [OF mem_bolt_cursor _ _ this p r] p r show ?thesis
    by (auto simp: message_fits_def sample_message_def)
qed

text \<open>
  Delivered messages use up the fetch limit: when the first \<open>limit\<close> readable messages of a
  recipient's queue were all delivered, \<open>GetQueuedMessages\<close> returns nothing, whatever undelivered
  messages are queued behind them.
\<close>

lemma delivered_head_hides_queue:
  assumes "bolt api"
    and "list_all (\<lambda>(i, m). IsDeliveredTo api db i r = Inr True) (take (nat limit)
      (readable (bget api (BucketMessages db)) (filter (\<lambda>(k, v). has_prefix k (r @ [NUL]))
        (bseek api (BucketQueueByRecipient db) (r @ [NUL])))))"
  shows "GetQueuedMessages api db r limit = Inr []"
proof -
  have "filter (\<lambda>(i, m). bget api (BucketDeliveryState db) (EncodeDeliveryKey i r) = None) xs = []"
    if "list_all (\<lambda>(i, m). IsDeliveredTo api db i r = Inr True) xs" for xs :: "(string \<times> Message) list"
    using that by (auto simp: filter_empty_conv list_all_iff IsDeliveredTo_def)
  from this [OF assms(2)] show ?thesis by (simp add: bolt.GetQueuedMessages_eq [OF assms(1)])
qed

text \<open>Two messages queued for one recipient, the first of them delivered.\<close>

definition later_message :: Message where
  "later_message = sample_message\<lparr>MID := ''m2'', MCreatedAt := \<lparr>instant = 1500000009000000000, loc = UTC\<rparr>\<rparr>"

lemma sample_queue_keys:
  "queue_key (\<lambda>_. 0) sample_message = ''bob'' @ NUL # ''2017-07-14T02:40:01.5Z'' @ NUL # ''m1''"
  "queue_key (\<lambda>_. 0) later_message = ''bob'' @ NUL # ''2017-07-14T02:40:09Z'' @ NUL # ''m2''"
  by (simp_all add: queue_key_def EncodeQueueKey_def sample_message_def later_message_def format_defs
      dec_digits.simps)

definition half_delivered :: "mem_bucket msg_db" where
  "half_delivered = (open_msg_db mem_bolt)
     \<lparr>BucketMessages := [(''m1'', EncodeMessage sample_message), (''m2'', EncodeMessage later_message)],
      BucketQueueByRecipient := [(queue_key (\<lambda>_. 0) sample_message, ''m1''), (queue_key (\<lambda>_. 0) later_message, ''m2'')],
      BucketDeliveryState := [(EncodeDeliveryKey ''m1'' ''bob'', [])]\<rparr>"

lemma half_delivered_queue:
  "bseek mem_bolt (BucketQueueByRecipient half_delivered) (''bob'' @ [NUL]) =
     [(queue_key (\<lambda>_. 0) sample_message, ''m1''), (queue_key (\<lambda>_. 0) later_message, ''m2'')]"
  unfolding half_delivered_def sample_queue_keys
  by (simp add: mem_bolt_def mem_seek_def mem_keys_def key_ok_def char_less_iff)

lemma delivered_head_hides_queue_example:
  "GetQueuedMessages mem_bolt half_delivered ''bob'' 1 = Inr [] \<and>
   IsDeliveredTo mem_bolt half_delivered ''m2'' ''bob'' = Inr False"
proof -
  have m1: "bget mem_bolt (BucketMessages half_delivered) ''m1'' = Some (EncodeMessage sample_message)"
    by (simp add: half_delivered_def mem_bolt_def mem_get_def key_ok_def)
  have p: "has_prefix (queue_key lo m) (MTo m @ [NUL])" for lo m
    by (simp add: queue_key_def EncodeQueueKey_def has_prefix_iff)
  have "filter (\<lambda>(k, v). has_prefix k (''bob'' @ [NUL])) (bseek mem_bolt (BucketQueueByRecipient half_delivered) (''bob'' @ [NUL])) =
      [(queue_key (\<lambda>_. 0) sample_message, ''m1''), (queue_key (\<lambda>_. 0) later_message, ''m2'')]"
    using p [of "\<lambda>_. 0" sample_message] p [of "\<lambda>_. 0" later_message] unfolding half_delivered_queue
    by (simp add: later_message_def sample_message_def)
  moreover have "DecodeMessage (EncodeMessage sample_message) = Inr (stored_message sample_message)"
    by (rule DecodeMessage_EncodeMessage) (simp add: message_fits_def sample_message_def)
  moreover have d: "IsDeliveredTo mem_bolt half_delivered ''m1'' ''bob'' = Inr True"
    "IsDeliveredTo mem_bolt half_delivered ''m2'' ''bob'' = Inr False"
    by (simp_all add: IsDeliveredTo_def half_delivered_def mem_bolt_def mem_get_def key_ok_def EncodeDeliveryKey_def)
  ultimately show ?thesis
    using delivered_head_hides_queue [OF mem_bolt_laws, of half_delivered "''bob''" 1] m1 by simp
qed

text \<open>
  The expiry scan compares texts, not times: RFC 3339 text drops trailing zeros of the
  fraction, so that a later time can have a smaller text.  Whenever the text of a message's expiry is
  greater than that of the time asked for, a store that holds only this message reports nothing as
  expired, even if its expiry has passed.
\<close>

lemma expiry_scan_compares_text:
  assumes "bolt api" and "PersistMessage api lo (open_msg_db api) (Some m) = (db', Inr ())"
    and "rfc3339nano lo (MExpiresAt m) > rfc3339nano lo before"
  shows "GetExpiredMessages api lo db' before = Inr []"
proof -
  have "bget api (BucketExpiryIndex db') = [expiry_key lo m \<mapsto> MID m]"
    using bolt.persist_buckets(3) [OF assms(1,2)]
    by (simp add: fun_eq_iff open_msg_db_def bolt.get_empty [OF assms(1)])
  then have "bseek api (BucketExpiryIndex db') [] = [(expiry_key lo m, MID m)]"
    by (intro bolt.seek_unique [OF assms(1)]) (auto split: if_splits)
  with assms(3) show ?thesis
    by (simp add: GetExpiredMessages_def expiry_key_def EncodeExpiryKey_def split_byte_append Suc_le_eq)
qed

definition on_the_second :: Message where
  "on_the_second = sample_message\<lparr>MExpiresAt := \<lparr>instant = 1500003601000000000, loc = UTC\<rparr>\<rparr>"

lemma expiry_scan_compares_text_example:
  "\<exists>db'. PersistMessage mem_bolt (\<lambda>_. 0) (open_msg_db mem_bolt) (Some on_the_second) = (db', Inr ()) \<and>
     GetExpiredMessages mem_bolt (\<lambda>_. 0) db' \<lparr>instant = 1500003601500000000, loc = UTC\<rparr> = Inr [] \<and>
     After \<lparr>instant = 1500003601500000000, loc = UTC\<rparr> (MExpiresAt on_the_second)"
proof -
  have "storable (\<lambda>_. 0) on_the_second"
    by (simp add: storable_def key_ok_def value_ok_def queue_key_def expiry_key_def key_defs on_the_second_def
        sample_message_def EncodeMessage_def put_string16_def format_defs dec_digits.simps)
  then obtain db' where p: "PersistMessage mem_bolt (\<lambda>_. 0) (open_msg_db mem_bolt) (Some on_the_second) = (db', Inr ())"
    using mem.persist_succeeds by blast
  have "rfc3339nano (\<lambda>_. 0) (MExpiresAt on_the_second) >
      rfc3339nano (\<lambda>_. 0) \<lparr>instant = 1500003601500000000, loc = UTC\<rparr>"
    by (simp add: on_the_second_def sample_message_def format_defs dec_digits.simps char_less_iff)
  from expiry_scan_compares_text [OF mem_bolt_laws p this] p show ?thesis
    by (simp add: After_def on_the_second_def)
qed

end
