(* ===== verification/Envelope_Store.thy ===== *)
theory Envelope_Store
  imports Message_Store Digest_Ids
begin

text \<open>
  The federation envelope store of \<^verbatim>\<open>internal/store/envelope_store.go\<close>: its seven buckets, every
  method of the \<open>EnvelopeStore\<close> interface, the invariant that the destination index mirrors the
  stored envelopes, and the paging of a destination's item ids.  Conventions are those of
  \<open>Message_Store\<close>.
\<close>

record 'b env_db =
  BucketEnvelopes :: 'b
  BucketByDestination :: 'b
  BucketByExpiry :: 'b
  BucketEnvelopeExpiry :: 'b
  BucketSeen :: 'b
  BucketRelayIngest :: 'b
  BucketEnvMeta :: 'b

definition new_env_db :: "'b bolt_api \<Rightarrow> 'b env_db" where
  "new_env_db api = \<lparr>BucketEnvelopes = bempty api, BucketByDestination = bempty api, BucketByExpiry = bempty api,
     BucketEnvelopeExpiry = bempty api, BucketSeen = bempty api, BucketRelayIngest = bempty api,
     BucketEnvMeta = bempty api\<rparr>"

subsection \<open>Keys and eligibility\<close>

definition encodeUnixNano :: "int \<Rightarrow> bytes" where
  "encodeUnixNano unixNano = be_int64 unixNano"

definition decodeUnixNano :: "bytes \<Rightarrow> int option" where
  "decodeUnixNano raw = (if length raw < 8 then None else Some (int64_val (take 8 raw)))"

definition destinationIndexPrefix :: "string \<Rightarrow> bytes" where
  "destinationIndexPrefix destinationID = destinationID @ [NUL]"

definition destinationIndexItemID :: "bytes \<Rightarrow> bytes \<Rightarrow> string option" where
  "destinationIndexItemID prefix key =
     (if length key \<le> length prefix \<or> \<not> has_prefix key prefix then None else Some (drop (length prefix) key))"

definition destinationIndexItemIDFromKey :: "bytes \<Rightarrow> string option" where
  "destinationIndexItemIDFromKey key = (case cut_byte NUL key of
     None \<Rightarrow> None
   | Some (_, rest) \<Rightarrow> if rest = [] then None else Some rest)"

text \<open>\<open>envelopeExpiryBucket.Get\<close> gives a nil slice for a missing key, which is too short to decode.\<close>

definition isEligibleDestinationItem :: "string \<Rightarrow> bytes option \<Rightarrow> int \<Rightarrow> bool" where
  "isEligibleDestinationItem itemID encodedExpiry nowUnixNano =
     (if \<not> IsDigestHexID itemID then False
      else case decodeUnixNano (case encodedExpiry of None \<Rightarrow> [] | Some raw \<Rightarrow> raw) of
             None \<Rightarrow> False
           | Some expiresAtUnixNano \<Rightarrow> \<not> nowUnixNano > expiresAtUnixNano)"

subsection \<open>Opening\<close>

fun backfill_loop :: "'b bolt_api \<Rightarrow> 'b \<Rightarrow> (bytes \<times> bytes) list \<Rightarrow> serr + 'b" where
  "backfill_loop api expiry [] = Inr expiry"
| "backfill_loop api expiry ((envID, encodedEnvelope) # rest) =
     (if bget api expiry envID \<noteq> None then backfill_loop api expiry rest
      else case DecodeEnvelopeRecord encodedEnvelope of
             Inl _ \<Rightarrow> backfill_loop api expiry rest
           | Inr envelope \<Rightarrow>
               bindE (put_in api expiry envID (encodeUnixNano (UnixNano (toUTC (EExpiresAt envelope)))) ''backfill'')
                 (\<lambda>expiry'. backfill_loop api expiry' rest))"

definition backfillEnvelopeExpiryIndex :: "'b bolt_api \<Rightarrow> 'b env_db \<Rightarrow> serr + 'b env_db" where
  "backfillEnvelopeExpiryIndex api db =
     bindE (backfill_loop api (BucketEnvelopeExpiry db) (bseek api (BucketEnvelopes db) []))
       (\<lambda>b. Inr (db\<lparr>BucketEnvelopeExpiry := b\<rparr>))"

definition OpenEnvelopeStore :: "'b bolt_api \<Rightarrow> 'b env_db \<Rightarrow> 'b env_db \<times> (serr + unit)" where
  "OpenEnvelopeStore api db = db_update db
     (bindE (backfillEnvelopeExpiryIndex api db) (\<lambda>db'. Inr (db', ())))"

subsection \<open>Envelopes\<close>

text \<open>The part of \<open>PersistEnvelope\<close> that drops the index entries of the envelope it replaces.\<close>

definition drop_stale_indexes :: "'b bolt_api \<Rightarrow> (int \<Rightarrow> int) \<Rightarrow> 'b env_db \<Rightarrow> Envelope \<Rightarrow> 'b env_db" where
  "drop_stale_indexes api lo db env = (case bget api (BucketEnvelopes db) (EID env) of
     None \<Rightarrow> db
   | Some existingBytes \<Rightarrow>
       (case DecodeEnvelopeRecord existingBytes of
          Inl _ \<Rightarrow> db
        | Inr existing \<Rightarrow>
            (let existingDestKey = DestinationIndexKey (EDestinationID existing) (EID env);
                 newDestKey = DestinationIndexKey (EDestinationID env) (EID env);
                 existingExpiryKey = ExpiryIndexKey lo (EExpiresAt existing) (EID env);
                 newExpiryKey = ExpiryIndexKey lo (EExpiresAt env) (EID env)
             in db\<lparr>BucketByDestination :=
                     (if existingDestKey \<noteq> newDestKey then bdelete api (BucketByDestination db) existingDestKey
                      else BucketByDestination db),
                   BucketByExpiry :=
                     (if existingExpiryKey \<noteq> newExpiryKey then bdelete api (BucketByExpiry db) existingExpiryKey
                      else BucketByExpiry db)\<rparr>)))"

definition PersistEnvelope ::
  "'b bolt_api \<Rightarrow> (int \<Rightarrow> int) \<Rightarrow> 'b env_db \<Rightarrow> Envelope \<Rightarrow> 'b env_db \<times> (serr + unit)" where
  "PersistEnvelope api lo db0 env = db_update db0
     (let db = drop_stale_indexes api lo db0 env
      in bindE (mapErr EnvelopeError (Validate env)) (\<lambda>_.
         bindE (put_in api (BucketEnvelopes db) (EID env) (EncodeEnvelopeRecord env) ''envelopes'') (\<lambda>envelopes.
         bindE (put_in api (BucketByDestination db) (DestinationIndexKey (EDestinationID env) (EID env))
                  (EID env) ''destination'') (\<lambda>destination.
         bindE (put_in api (BucketByExpiry db) (ExpiryIndexKey lo (EExpiresAt env) (EID env)) (EID env) ''expiry'')
           (\<lambda>expiry.
         bindE (put_in api (BucketEnvelopeExpiry db) (EID env)
                  (encodeUnixNano (UnixNano (toUTC (EExpiresAt env)))) ''envelope_expiry'') (\<lambda>envelope_expiry.
         Inr (db\<lparr>BucketEnvelopes := envelopes, BucketByDestination := destination, BucketByExpiry := expiry,
                 BucketEnvelopeExpiry := envelope_expiry\<rparr>, ())))))))"

definition GetEnvelopeByID :: "'b bolt_api \<Rightarrow> 'b env_db \<Rightarrow> string \<Rightarrow> serr + Envelope" where
  "GetEnvelopeByID api db envID = (case bget api (BucketEnvelopes db) envID of
     None \<Rightarrow> Inl (NotFound envID)
   | Some envBytes \<Rightarrow> mapErr EnvelopeError (DecodeEnvelopeRecord envBytes))"

fun destination_scan ::
  "(bytes \<Rightarrow> bytes option) \<Rightarrow> gotime \<Rightarrow> bytes \<Rightarrow> int \<Rightarrow> int \<Rightarrow> (bytes \<times> bytes) list \<Rightarrow> Envelope list" where
  "destination_scan envelopes now prefix limit count [] = []"
| "destination_scan envelopes now prefix limit count ((k, v) # rest) =
     (if \<not> count < limit then []
      else if \<not> has_prefix k prefix then []
      else case envelopes v of
             None \<Rightarrow> destination_scan envelopes now prefix limit count rest
           | Some envBytes \<Rightarrow>
               (case DecodeEnvelopeRecord envBytes of
                  Inl _ \<Rightarrow> destination_scan envelopes now prefix limit count rest
                | Inr env \<Rightarrow>
                    if IsExpired env now then destination_scan envelopes now prefix limit count rest
                    else env # destination_scan envelopes now prefix limit (count + 1) rest))"

definition GetEnvelopesByDestination ::
  "'b bolt_api \<Rightarrow> gotime \<Rightarrow> 'b env_db \<Rightarrow> string \<Rightarrow> int \<Rightarrow> serr + Envelope list" where
  "GetEnvelopesByDestination api now db destID limit = Inr
     (destination_scan (bget api (BucketEnvelopes db)) now (destID @ [NUL]) limit 0
        (bseek api (BucketByDestination db) (destID @ [NUL])))"

subsection \<open>Paging\<close>

fun eligible_scan :: "(bytes \<Rightarrow> bytes option) \<Rightarrow> int \<Rightarrow> bytes \<Rightarrow> (bytes \<times> bytes) list \<Rightarrow> string list" where
  "eligible_scan expiry now prefix [] = []"
| "eligible_scan expiry now prefix ((k, v) # rest) =
     (if \<not> has_prefix k prefix then []
      else case destinationIndexItemID prefix k of
             None \<Rightarrow> eligible_scan expiry now prefix rest
           | Some itemID \<Rightarrow>
               if \<not> isEligibleDestinationItem itemID (expiry itemID) now then eligible_scan expiry now prefix rest
               else itemID # eligible_scan expiry now prefix rest)"

text \<open>The second loop; \<open>n\<close> is the number of ids collected so far.\<close>

fun page_scan ::
  "(bytes \<Rightarrow> bytes option) \<Rightarrow> int \<Rightarrow> bytes \<Rightarrow> string \<Rightarrow> int \<Rightarrow> int \<Rightarrow> (bytes \<times> bytes) list \<Rightarrow> string list" where
  "page_scan expiry now prefix afterCursor limit n [] = []"
| "page_scan expiry now prefix afterCursor limit n ((k, v) # rest) =
     (if \<not> n < limit then []
      else if \<not> has_prefix k prefix then []
      else case destinationIndexItemID prefix k of
             None \<Rightarrow> page_scan expiry now prefix afterCursor limit n rest
           | Some itemID \<Rightarrow>
               if afterCursor \<noteq> [] \<and> itemID = afterCursor
               then page_scan expiry now prefix afterCursor limit n rest
               else if \<not> isEligibleDestinationItem itemID (expiry itemID) now
               then page_scan expiry now prefix afterCursor limit n rest
               else itemID # page_scan expiry now prefix afterCursor limit (n + 1) rest)"

definition GetEnvelopeIDsByDestinationPage ::
  "'b bolt_api \<Rightarrow> gotime \<Rightarrow> 'b env_db \<Rightarrow> string \<Rightarrow> string \<Rightarrow> int \<Rightarrow> serr + string list \<times> string \<times> int \<times> string list" where
  "GetEnvelopeIDsByDestinationPage api now db destID afterCursor limit =
     (if limit \<le> 0 then Inr ([], [], 0, [])
      else if afterCursor \<noteq> [] \<and> \<not> IsDigestHexID afterCursor then Inl BadCursor
      else let prefix = destinationIndexPrefix destID;
               nowUnixNano = UnixNano (toUTC now);
               eligibleIDs = eligible_scan (bget api (BucketEnvelopeExpiry db)) nowUnixNano prefix
                 (bseek api (BucketByDestination db) prefix);
               totalCount = int (length eligibleIDs);
               startKey = (if afterCursor \<noteq> [] then prefix @ afterCursor else prefix);
               pageIDs = page_scan (bget api (BucketEnvelopeExpiry db)) nowUnixNano prefix afterCursor limit 0
                 (bseek api (BucketByDestination db) startKey)
           in if totalCount = 0 then Inr ([], [], 0, [])
              else Inr (pageIDs, if length pageIDs > 0 then last pageIDs else [], totalCount, eligibleIDs))"

fun all_ids_loop :: "(bytes \<Rightarrow> bytes option) \<Rightarrow> int \<Rightarrow> string set \<Rightarrow> (bytes \<times> bytes) list \<Rightarrow> string set" where
  "all_ids_loop expiry now eligible [] = eligible"
| "all_ids_loop expiry now eligible ((k, v) # rest) =
     (case destinationIndexItemIDFromKey k of
        None \<Rightarrow> all_ids_loop expiry now eligible rest
      | Some itemID \<Rightarrow>
          if \<not> isEligibleDestinationItem itemID (expiry itemID) now then all_ids_loop expiry now eligible rest
          else all_ids_loop expiry now (insert itemID eligible) rest)"

text \<open>The keys of the map come out in any order and are sorted afterwards.\<close>

definition GetAllEnvelopeIDs :: "'b bolt_api \<Rightarrow> gotime \<Rightarrow> 'b env_db \<Rightarrow> serr + string list" where
  "GetAllEnvelopeIDs api now db = Inr (SortDigestHexIDs (sorted_list_of_set
     (all_ids_loop (bget api (BucketEnvelopeExpiry db)) (UnixNano (toUTC now)) {}
        (bseek api (BucketByDestination db) []))))"

subsection \<open>Removal and expiry\<close>

definition RemoveEnvelope :: "'b bolt_api \<Rightarrow> (int \<Rightarrow> int) \<Rightarrow> 'b env_db \<Rightarrow> string \<Rightarrow> 'b env_db \<times> (serr + unit)" where
  "RemoveEnvelope api lo db envID = db_update db
     (let db' = (case bget api (BucketEnvelopes db) envID of
              None \<Rightarrow> db
            | Some envBytes \<Rightarrow>
                (case DecodeEnvelopeRecord envBytes of
                   Inl _ \<Rightarrow> db
                 | Inr env \<Rightarrow> db\<lparr>BucketByDestination :=
                       bdelete api (BucketByDestination db) (DestinationIndexKey (EDestinationID env) envID),
                     BucketByExpiry :=
                       bdelete api (BucketByExpiry db) (ExpiryIndexKey lo (EExpiresAt env) envID)\<rparr>))
      in Inr (db'\<lparr>BucketEnvelopes := bdelete api (BucketEnvelopes db') envID,
                  BucketEnvelopeExpiry := bdelete api (BucketEnvelopeExpiry db') envID\<rparr>, ()))"

fun expired_envelopes_scan :: "(bytes \<Rightarrow> bytes option) \<Rightarrow> string \<Rightarrow> (bytes \<times> bytes) list \<Rightarrow> Envelope list" where
  "expired_envelopes_scan envelopes beforeStr [] = []"
| "expired_envelopes_scan envelopes beforeStr ((k, v) # rest) =
     (if length (split_byte NUL k) < 2 then expired_envelopes_scan envelopes beforeStr rest
      else if hd (split_byte NUL k) > beforeStr then []
      else case envelopes v of
             None \<Rightarrow> expired_envelopes_scan envelopes beforeStr rest
           | Some envBytes \<Rightarrow>
               (case DecodeEnvelopeRecord envBytes of
                  Inl _ \<Rightarrow> expired_envelopes_scan envelopes beforeStr rest
                | Inr env \<Rightarrow> env # expired_envelopes_scan envelopes beforeStr rest))"

definition GetExpiredEnvelopes ::
  "'b bolt_api \<Rightarrow> (int \<Rightarrow> int) \<Rightarrow> 'b env_db \<Rightarrow> gotime \<Rightarrow> serr + Envelope list" where
  "GetExpiredEnvelopes api lo db before = Inr
     (expired_envelopes_scan (bget api (BucketEnvelopes db)) (rfc3339nano lo before) (bseek api (BucketByExpiry db) []))"

subsection \<open>Seen and relay-ingest markers\<close>

definition MarkSeen ::
  "'b bolt_api \<Rightarrow> (int \<Rightarrow> int) \<Rightarrow> gotime \<Rightarrow> 'b env_db \<Rightarrow> string \<Rightarrow> string \<Rightarrow> 'b env_db \<times> (serr + unit)" where
  "MarkSeen api lo now db envID relayID = db_update db
     (bindE (put_in api (BucketSeen db) (SeenKey envID relayID) (rfc3339nano lo now) ''seen'') (\<lambda>b.
      Inr (db\<lparr>BucketSeen := b\<rparr>, ())))"

definition IsSeenBy :: "'b bolt_api \<Rightarrow> 'b env_db \<Rightarrow> string \<Rightarrow> string \<Rightarrow> serr + bool" where
  "IsSeenBy api db envID relayID = Inr (bget api (BucketSeen db) (SeenKey envID relayID) \<noteq> None)"

fun seen_loop :: "'b bolt_api \<Rightarrow> bytes \<Rightarrow> string \<Rightarrow> 'b \<Rightarrow> string list \<Rightarrow> serr + 'b" where
  "seen_loop api stamp itemID b [] = Inr b"
| "seen_loop api stamp itemID b (relayID # rest) =
     (if relayID = [] then seen_loop api stamp itemID b rest
      else bindE (put_in api b (SeenKey itemID relayID) stamp ''seen'') (\<lambda>b'.
           seen_loop api stamp itemID b' rest))"

definition MarkSeenAndRelayIngestEmitted ::
  "'b bolt_api \<Rightarrow> (int \<Rightarrow> int) \<Rightarrow> gotime \<Rightarrow> 'b env_db \<Rightarrow> string \<Rightarrow> string list \<Rightarrow> 'b env_db \<times> (serr + bool)" where
  "MarkSeenAndRelayIngestEmitted api lo now db itemID relayIDs =
     (if itemID = [] then (db, Inl ItemIDRequired)
      else db_update db
        (bindE (seen_loop api (rfc3339nano lo now) itemID (BucketSeen db) relayIDs) (\<lambda>seen.
         if bget api (BucketRelayIngest db) (RelayIngestKey itemID) \<noteq> None
         then Inr (db\<lparr>BucketSeen := seen\<rparr>, False)
         else bindE (put_in api (BucketRelayIngest db) (RelayIngestKey itemID) (rfc3339nano lo now) ''ingest'') (\<lambda>b.
              Inr (db\<lparr>BucketSeen := seen, BucketRelayIngest := b\<rparr>, True)))))"

definition MarkRelayIngestEmitted ::
  "'b bolt_api \<Rightarrow> (int \<Rightarrow> int) \<Rightarrow> gotime \<Rightarrow> 'b env_db \<Rightarrow> string \<Rightarrow> 'b env_db \<times> (serr + bool)" where
  "MarkRelayIngestEmitted api lo now db itemID =
     (if itemID = [] then (db, Inl ItemIDRequired)
      else db_update db
        (if bget api (BucketRelayIngest db) (RelayIngestKey itemID) \<noteq> None then Inr (db, False)
         else bindE (put_in api (BucketRelayIngest db) (RelayIngestKey itemID) (rfc3339nano lo now) ''ingest'') (\<lambda>b.
              Inr (db\<lparr>BucketRelayIngest := b\<rparr>, True))))"

definition IsRelayIngestEmitted :: "'b bolt_api \<Rightarrow> 'b env_db \<Rightarrow> string \<Rightarrow> serr + bool" where
  "IsRelayIngestEmitted api db itemID =
     (if itemID = [] then Inl ItemIDRequired
      else Inr (bget api (BucketRelayIngest db) (RelayIngestKey itemID) \<noteq> None))"

definition GetAllDestinationIDs :: "'b bolt_api \<Rightarrow> 'b env_db \<Rightarrow> serr + string list" where
  "GetAllDestinationIDs api db = Inr (recipients_loop {} (bseek api (BucketByDestination db) []))"

definition GetEnvelopeLastSweepTime :: "'b bolt_api \<Rightarrow> 'b env_db \<Rightarrow> serr + gotime" where
  "GetEnvelopeLastSweepTime api db = Inr (case bget api (BucketEnvMeta db) MetaLastSweep of
     None \<Rightarrow> zero_time
   | Some v \<Rightarrow> time_Unix (if length v \<ge> 8 then int64_val (take 8 v) else 0) 0)"

definition SetEnvelopeLastSweepTime :: "'b bolt_api \<Rightarrow> 'b env_db \<Rightarrow> gotime \<Rightarrow> 'b env_db \<times> (serr + unit)" where
  "SetEnvelopeLastSweepTime api db t = db_update db
     (bindE (put_in api (BucketEnvMeta db) MetaLastSweep (be_int64 (Unix t)) ''meta'') (\<lambda>b.
      Inr (db\<lparr>BucketEnvMeta := b\<rparr>, ())))"

subsection \<open>Facts about paging\<close>

lemma not_eligible_nil [simp]: "\<not> isEligibleDestinationItem [] e now"
  by (auto simp: isEligibleDestinationItem_def IsDigestHexID_def dest: isDigestHex_length)

lemma item_of_prefixed:
  assumes "has_prefix k p"
  shows "destinationIndexItemID p k = (if drop (length p) k = [] then None else Some (drop (length p) k))"
  using assms by (simp add: destinationIndexItemID_def)

lemma eligible_scan_eq:
  "eligible_scan expiry now p es = filter (\<lambda>i. isEligibleDestinationItem i (expiry i) now)
     (map (\<lambda>(k, v). drop (length p) k) (takeWhile (\<lambda>(k, v). has_prefix k p) es))"
  by (induction expiry now p es rule: eligible_scan.induct) (auto simp: item_of_prefixed split: if_splits)

lemma page_scan_eq:
  "page_scan expiry now p c limit n es = take (nat (limit - n))
     (filter (\<lambda>i. (c = [] \<or> i \<noteq> c) \<and> isEligibleDestinationItem i (expiry i) now)
       (map (\<lambda>(k, v). drop (length p) k) (takeWhile (\<lambda>(k, v). has_prefix k p) es)))"
proof (induction expiry now p c limit n es rule: page_scan.induct)
  case (1 expiry now p c limit n)
  then show ?case by simp
next
  case (2 expiry now p c limit n k v rest)
  show ?case
  proof (cases "n < limit \<and> has_prefix k p")
    case True
    then have "nat (limit - n) = Suc (nat (limit - (n + 1)))" by linarith
    with True 2 show ?thesis by (auto simp: item_of_prefixed split: if_splits)
  qed auto
qed

text \<open>The eligible item ids of a destination, and that a scan of the index lists them in order.\<close>

definition eligible_ids :: "'b bolt_api \<Rightarrow> gotime \<Rightarrow> 'b env_db \<Rightarrow> string \<Rightarrow> string list" where
  "eligible_ids api now db dest =
     eligible_scan (bget api (BucketEnvelopeExpiry db)) (UnixNano (toUTC now)) (destinationIndexPrefix dest)
       (bseek api (BucketByDestination db) (destinationIndexPrefix dest))"

definition eligible :: "'b bolt_api \<Rightarrow> gotime \<Rightarrow> 'b env_db \<Rightarrow> string \<Rightarrow> bool" where
  "eligible api now db i =
     isEligibleDestinationItem i (bget api (BucketEnvelopeExpiry db) i) (UnixNano (toUTC now))"

lemma eligible_fun:
  "(\<lambda>i. isEligibleDestinationItem i (bget api (BucketEnvelopeExpiry db) i) (UnixNano (toUTC now))) =
     eligible api now db"
  by (rule ext) (simp add: eligible_def)

lemma cursor_filter:
  fixes p :: bytes
  assumes "\<not> P []"
  shows "filter (\<lambda>i. (c = [] \<or> i \<noteq> c) \<and> P i) (map (\<lambda>(k, v). drop (length p) k)
      (filter (\<lambda>(k, v). has_prefix k p) (filter (\<lambda>(k, v). p @ c \<le> k) xs))) =
    filter (\<lambda>i. c < i) (filter P (map (\<lambda>(k, v). drop (length p) k) (filter (\<lambda>(k, v). has_prefix k p) xs)))"
proof (induction xs)
  case (Cons x xs)
  obtain k v where x: "x = (k, v)" by fastforce
  show ?case
  proof (cases "has_prefix k p")
    case True
    then obtain r where r: "k = p @ r" by (auto simp: has_prefix_iff)
    have "p @ c \<le> p @ r \<longleftrightarrow> c \<le> r" by (rule append_le_iff)
    then show ?thesis
      using True Cons r x assms by (cases "r = []") (auto simp: less_le)
  next
    case False
    then show ?thesis using Cons x by simp
  qed
qed simp

context bolt
begin

lemma prefixed_items_sorted:
  assumes "p \<le> k0"
  shows "sorted_wrt (<) (map (\<lambda>(k, v). drop (length p) k) (filter (\<lambda>(k, v). has_prefix k p) (bseek api b k0)))"
proof -
  have "sorted_wrt (<) (map (\<lambda>(k, v). drop (length p) k) (filter (\<lambda>(k, v). has_prefix k p) xs))"
    if "sorted_wrt (<) (map fst xs)" for xs :: "(bytes \<times> bytes) list"
    using that
  proof (induction xs)
    case (Cons x xs)
    then show ?case
      by (auto simp: has_prefix_iff append_less_iff split: prod.splits)
  qed simp
  then show ?thesis using seek_sorted by blast
qed

lemma eligible_ids_eq:
  "eligible_ids api now db dest = filter (eligible api now db)
     (map (\<lambda>(k, v). drop (length (dest @ [NUL])) k)
       (filter (\<lambda>(k, v). has_prefix k (dest @ [NUL])) (bseek api (BucketByDestination db) (dest @ [NUL]))))"
  by (simp only: eligible_ids_def eligible_scan_eq prefix_scan eligible_fun destinationIndexPrefix_def)

lemma eligible_ids_sorted: "sorted_wrt (<) (eligible_ids api now db dest)"
  unfolding eligible_ids_eq by (intro sorted_wrt_filter prefixed_items_sorted) simp

lemma eligible_ids_set:
  "set (eligible_ids api now db dest) =
     {i. bget api (BucketByDestination db) (DestinationIndexKey dest i) \<noteq> None \<and> eligible api now db i}"
proof -
  let ?p = "dest @ [NUL]"
  have "(\<exists>k v. (k, v) \<in> set (bseek api (BucketByDestination db) ?p) \<and> has_prefix k ?p \<and> i = drop (length ?p) k) \<longleftrightarrow>
      bget api (BucketByDestination db) (?p @ i) \<noteq> None" for i
    unfolding seek_entries has_prefix_iff using prefix_le [of ?p i] by fastforce
  then show ?thesis
    by (auto simp: eligible_ids_eq DestinationIndexKey_def image_iff split: prod.splits)
qed

lemma page_from_cursor:
  "page_scan (bget api (BucketEnvelopeExpiry db)) (UnixNano (toUTC now)) (dest @ [NUL]) c limit 0
     (bseek api (BucketByDestination db) (dest @ [NUL] @ c)) =
   take (nat limit) (filter (\<lambda>i. c < i) (eligible_ids api now db dest))"
proof -
  let ?p = "dest @ [NUL]"
  have le: "?p \<le> ?p @ c" by (rule prefix_le)
  have "\<not> eligible api now db []" by (simp add: eligible_def)
  note f = cursor_filter [of "eligible api now db", OF this, of c ?p "bseek api (BucketByDestination db) ?p"]
  have "takeWhile (\<lambda>(k, v). has_prefix k ?p) (bseek api (BucketByDestination db) (dest @ [NUL] @ c)) =
      filter (\<lambda>(k, v). has_prefix k ?p) (filter (\<lambda>(k, v). ?p @ c \<le> k) (bseek api (BucketByDestination db) ?p))"
    using prefix_scan_from [OF le, of "BucketByDestination db"] seek_later [OF le, of "BucketByDestination db"]
    by simp
  then show ?thesis
    by (simp only: page_scan_eq eligible_ids_eq eligible_def [symmetric] diff_0_right f)
qed

lemma page_eq:
  assumes "limit > 0" and "c = [] \<or> IsDigestHexID c"
  shows "GetEnvelopeIDsByDestinationPage api now db dest c limit =
    (let E = eligible_ids api now db dest; page = take (nat limit) (filter (\<lambda>i. c < i) E)
     in Inr (page, if page = [] then [] else last page, int (length E), E))"
proof -
  have e: "eligible_scan (bget api (BucketEnvelopeExpiry db)) (UnixNano (toUTC now)) (dest @ [NUL])
      (bseek api (BucketByDestination db) (dest @ [NUL])) = eligible_ids api now db dest"
    by (simp add: eligible_ids_def destinationIndexPrefix_def)
  have s: "(if c \<noteq> [] then (dest @ [NUL]) @ c else dest @ [NUL]) = dest @ [NUL] @ c" by simp
  show ?thesis
    unfolding GetEnvelopeIDsByDestinationPage_def destinationIndexPrefix_def Let_def s e page_from_cursor
    using assms by auto
qed

end

text \<open>A reader that asks page after page, each from the cursor of the one before; fuel is the
  number of pages it asks for.\<close>

fun read_pages :: "'b bolt_api \<Rightarrow> gotime \<Rightarrow> 'b env_db \<Rightarrow> string \<Rightarrow> int \<Rightarrow> nat \<Rightarrow> string \<Rightarrow> string list" where
  "read_pages api now db dest limit 0 cursor = []"
| "read_pages api now db dest limit (Suc fuel) cursor =
     (case GetEnvelopeIDsByDestinationPage api now db dest cursor limit of
        Inl _ \<Rightarrow> []
      | Inr (ids, next, _, _) \<Rightarrow>
          if ids = [] then [] else ids @ read_pages api now db dest limit fuel next)"

lemma read_pages_from:
  assumes "bolt api" and "limit > 0" and "c = [] \<or> IsDigestHexID c"
    and "length (filter (\<lambda>i. c < i) (eligible_ids api now db dest)) < fuel"
  shows "read_pages api now db dest limit fuel c = filter (\<lambda>i. c < i) (eligible_ids api now db dest)"
  using assms(3,4)
proof (induction fuel arbitrary: c)
  case 0
  then show ?case by simp
next
  case (Suc fuel)
  let ?E = "eligible_ids api now db dest"
  let ?R = "filter (\<lambda>i. c < i) ?E"
  let ?page = "take (nat limit) ?R"
  have srt: "sorted_wrt (<) ?R"
    by (intro sorted_wrt_filter bolt.eligible_ids_sorted [OF assms(1)])
  show ?case
  proof (cases "?R = []")
    case True
    then show ?thesis using bolt.page_eq [OF assms(1,2) Suc.prems(1), of now db dest] by (simp add: Let_def)
  next
    case False
    then have pne: "?page \<noteq> []" using assms(2) by simp
    let ?n = "last ?page"
    have "?n \<in> set ?R" using last_in_set [OF pne] by (rule in_set_takeD)
    then have nE: "?n \<in> set ?E" "c < ?n" by simp_all
    then have n: "IsDigestHexID ?n"
      using bolt.eligible_ids_set [OF assms(1), of now db dest]
      by (auto simp: eligible_def isEligibleDestinationItem_def split: if_splits)
    have "filter (\<lambda>i. ?n < i) ?E = filter (\<lambda>i. ?n < i) ?R"
      using nE(2) by (auto intro!: filter_cong)
    also have "\<dots> = drop (nat limit) ?R" by (rule filter_greater_last [OF srt pne])
    finally have rest: "filter (\<lambda>i. ?n < i) ?E = drop (nat limit) ?R" .
    have "0 < length ?R" "0 < nat limit" using False assms(2) by simp_all
    then have "length (drop (nat limit) ?R) < fuel" using Suc.prems(2) unfolding length_drop by linarith
    with Suc.IH [of ?n] n rest have "read_pages api now db dest limit fuel ?n = drop (nat limit) ?R" by simp
    then show ?thesis
      using bolt.page_eq [OF assms(1,2) Suc.prems(1), of now db dest] pne False
      by (simp add: Let_def)
  qed
qed

subsection \<open>The destination index\<close>

text \<open>
  Envelopes that survive the codec and whose destination can be read off their index key.  Nothing in the store
  refuses the others: an expiry beyond the year 2262 overflows the nanoseconds of the record.  What is said of
  reachable stores below is said of stores that were given good envelopes only.
\<close>

definition good_env :: "Envelope \<Rightarrow> bool" where
  "good_env e \<longleftrightarrow> envelope_fits e \<and> NUL \<notin> set (EDestinationID e)"

text \<open>
  The invariant: every record is the encoding of a good envelope under its id, listed under its
  destination and with its expiry; every index entry and every expiry belongs to a record.
\<close>

definition env_record :: "'b bolt_api \<Rightarrow> 'b env_db \<Rightarrow> string \<Rightarrow> Envelope \<Rightarrow> bool" where
  "env_record api db i e \<longleftrightarrow> bget api (BucketEnvelopes db) i = Some (EncodeEnvelopeRecord e) \<and> EID e = i \<and> good_env e"

definition env_inv :: "'b bolt_api \<Rightarrow> 'b env_db \<Rightarrow> bool" where
  "env_inv api db \<longleftrightarrow>
     (\<forall>i bs. bget api (BucketEnvelopes db) i = Some bs \<longrightarrow> (\<exists>e. env_record api db i e)) \<and>
     (\<forall>i e. env_record api db i e \<longrightarrow>
        bget api (BucketByDestination db) (DestinationIndexKey (EDestinationID e) i) = Some i \<and>
        bget api (BucketEnvelopeExpiry db) i = Some (encodeUnixNano (UnixNano (EExpiresAt e)))) \<and>
     (\<forall>k i. bget api (BucketByDestination db) k = Some i \<longrightarrow>
        (\<exists>e. env_record api db i e \<and> k = DestinationIndexKey (EDestinationID e) i)) \<and>
     (\<forall>i. bget api (BucketEnvelopeExpiry db) i \<noteq> None \<longrightarrow> bget api (BucketEnvelopes db) i \<noteq> None)"

lemma UnixNano_toUTC [simp]: "UnixNano (toUTC t) = UnixNano t"
  by (simp add: UnixNano_def toUTC_def)

lemma encode_env_inj:
  assumes "EncodeEnvelopeRecord e = EncodeEnvelopeRecord e'" and "good_env e" and "good_env e'"
  shows "EDestinationID e = EDestinationID e'" and "UnixNano (EExpiresAt e) = UnixNano (EExpiresAt e')"
proof -
  have "stored_envelope e = stored_envelope e'"
    using DecodeEnvelopeRecord_Encode [of e] DecodeEnvelopeRecord_Encode [of e'] assms by (simp add: good_env_def)
  then have "EDestinationID (stored_envelope e) = EDestinationID (stored_envelope e')"
    and "instant (EExpiresAt (stored_envelope e)) = instant (EExpiresAt (stored_envelope e'))" by simp_all
  then show "EDestinationID e = EDestinationID e'" and "UnixNano (EExpiresAt e) = UnixNano (EExpiresAt e')"
    by (simp_all add: stored_envelope_def local_time_def UnixNano_def)
qed

lemma dest_key_inj:
  assumes "NUL \<notin> set d" and "NUL \<notin> set d'"
  shows "DestinationIndexKey d i = DestinationIndexKey d' j \<longleftrightarrow> d = d' \<and> i = j"
  unfolding DestinationIndexKey_def by (rule split_at_NUL [OF assms])

lemma drop_stale_other [simp]:
  "BucketEnvelopes (drop_stale_indexes api lo db e) = BucketEnvelopes db"
  "BucketEnvelopeExpiry (drop_stale_indexes api lo db e) = BucketEnvelopeExpiry db"
  "BucketSeen (drop_stale_indexes api lo db e) = BucketSeen db"
  "BucketRelayIngest (drop_stale_indexes api lo db e) = BucketRelayIngest db"
  by (simp_all add: drop_stale_indexes_def Let_def split: option.splits sum.splits)

context bolt
begin

lemma drop_stale_dest:
  assumes "env_inv api db"
  shows "bget api (BucketByDestination (drop_stale_indexes api lo db e)) k =
    (if \<exists>e0. env_record api db (EID e) e0 \<and> EDestinationID e0 \<noteq> EDestinationID e \<and>
              k = DestinationIndexKey (EDestinationID e0) (EID e)
     then None else bget api (BucketByDestination db) k)"
proof (cases "bget api (BucketEnvelopes db) (EID e)")
  case None
  then show ?thesis by (simp add: drop_stale_indexes_def env_record_def)
next
  case (Some bs)
  with assms obtain e0 where e0: "env_record api db (EID e) e0" unfolding env_inv_def by metis
  then have bs: "bs = EncodeEnvelopeRecord e0" "good_env e0" using Some by (simp_all add: env_record_def)
  then have d: "DecodeEnvelopeRecord bs = Inr (stored_envelope e0)"
    by (simp add: DecodeEnvelopeRecord_Encode good_env_def)
  have u: "EDestinationID e1 = EDestinationID e0" if "env_record api db (EID e) e1" for e1
    using that e0 encode_env_inj(1) [of e1 e0] by (auto simp: env_record_def)
  have dk: "DestinationIndexKey (EDestinationID e0) (EID e) \<noteq> DestinationIndexKey (EDestinationID e) (EID e) \<longleftrightarrow>
      EDestinationID e0 \<noteq> EDestinationID e"
    by (simp add: DestinationIndexKey_def)
  have "(\<exists>e0. env_record api db (EID e) e0 \<and> EDestinationID e0 \<noteq> EDestinationID e \<and>
              k = DestinationIndexKey (EDestinationID e0) (EID e)) \<longleftrightarrow>
      EDestinationID e0 \<noteq> EDestinationID e \<and> k = DestinationIndexKey (EDestinationID e0) (EID e)"
    using e0 u by metis
  then show ?thesis
    using Some d dk by (simp add: drop_stale_indexes_def Let_def stored_envelope_def get_delete)
qed

lemma persist_env_buckets:
  assumes "PersistEnvelope api lo db e = (db', Inr ())"
  shows "bget api (BucketEnvelopes db') = (bget api (BucketEnvelopes db))(EID e \<mapsto> EncodeEnvelopeRecord e)"
    and "bget api (BucketByDestination db') =
      (bget api (BucketByDestination (drop_stale_indexes api lo db e)))(DestinationIndexKey (EDestinationID e) (EID e) \<mapsto> EID e)"
    and "bget api (BucketEnvelopeExpiry db') =
      (bget api (BucketEnvelopeExpiry db))(EID e \<mapsto> encodeUnixNano (UnixNano (EExpiresAt e)))"
    and "BucketSeen db' = BucketSeen db" and "BucketRelayIngest db' = BucketRelayIngest db"
    and "Validate e = Inr ()"
  using assms by (auto simp: PersistEnvelope_def db_update_Inr Let_def dest!: put_in_Inr)

text \<open>Persisting an envelope leaves exactly its new entry in the destination index.\<close>

lemma persist_env_dest:
  assumes "env_inv api db" and "good_env e" and "PersistEnvelope api lo db e = (db', Inr ())"
  shows "bget api (BucketByDestination db') k = Some i \<longleftrightarrow>
      (if k = DestinationIndexKey (EDestinationID e) (EID e) then i = EID e
       else i \<noteq> EID e \<and> bget api (BucketByDestination db) k = Some i)"
proof (cases "k = DestinationIndexKey (EDestinationID e) (EID e)")
  case False
  have "i \<noteq> (EID e)" if "bget api (BucketByDestination (drop_stale_indexes api lo db e)) k = Some i"
  proof
    assume "i = (EID e)"
    with that have "bget api (BucketByDestination db) k = Some (EID e)"
      and n: "\<not> (\<exists>e0. env_record api db (EID e) e0 \<and> EDestinationID e0 \<noteq> EDestinationID e \<and>
            k = DestinationIndexKey (EDestinationID e0) (EID e))"
      by (auto simp: drop_stale_dest [OF assms(1)] split: if_splits)
    with assms(1) obtain e0 where "env_record api db (EID e) e0" "k = DestinationIndexKey (EDestinationID e0) (EID e)"
      unfolding env_inv_def by blast
    with n False show False by auto
  qed
  moreover have "bget api (BucketByDestination (drop_stale_indexes api lo db e)) k = Some i"
    if "i \<noteq> (EID e)" "bget api (BucketByDestination db) k = Some i"
  proof -
    from assms(1) that(2) obtain e1 where "env_record api db i e1" "k = DestinationIndexKey (EDestinationID e1) i"
      unfolding env_inv_def by blast
    with that show ?thesis by (auto simp: drop_stale_dest [OF assms(1)] env_record_def good_env_def dest_key_inj)
  qed
  moreover have "bget api (BucketByDestination db) k = Some i"
    if "bget api (BucketByDestination (drop_stale_indexes api lo db e)) k = Some i"
    using that by (simp add: drop_stale_dest [OF assms(1)] split: if_splits)
  ultimately show ?thesis
    using False by (auto simp: persist_env_buckets(2) [OF assms(3)])
qed (auto simp: persist_env_buckets(2) [OF assms(3)])

lemma persist_env_inv:
  assumes "env_inv api db" and "good_env e" and "PersistEnvelope api lo db e = (db', Inr ())"
  shows "env_inv api db'"
proof -
  note b = persist_env_buckets [OF assms(3)]
  let ?i = "EID e"
  have new: "env_record api db' ?i e1 \<longleftrightarrow> EncodeEnvelopeRecord e1 = EncodeEnvelopeRecord e \<and> EID e1 = ?i \<and> good_env e1" for e1
    by (auto simp: env_record_def b(1))
  have old: "env_record api db' i e1 \<longleftrightarrow> env_record api db i e1" if "i \<noteq> ?i" for i e1
    using that by (simp add: env_record_def b(1))
  have e: "env_record api db' ?i e" using assms(2) by (simp add: new)
  note dest = persist_env_dest [OF assms]
  show ?thesis
    unfolding env_inv_def
  proof (intro conjI allI impI)
    fix i bs assume "bget api (BucketEnvelopes db') i = Some bs"
    then show "\<exists>e. env_record api db' i e"
      using e old assms(1) by (cases "i = ?i") (auto simp: b(1) env_inv_def)
  next
    fix i e1 assume r: "env_record api db' i e1"
    show "bget api (BucketByDestination db') (DestinationIndexKey (EDestinationID e1) i) = Some i"
    proof (cases "i = ?i")
      case True
      with r encode_env_inj(1) [of e1 e] assms(2) show ?thesis by (simp add: new dest)
    next
      case False
      with r have "env_record api db i e1" by (simp add: old)
      with False assms(1,2) show ?thesis
        by (auto simp: dest env_inv_def env_record_def good_env_def dest_key_inj)
    qed
    show "bget api (BucketEnvelopeExpiry db') i = Some (encodeUnixNano (UnixNano (EExpiresAt e1)))"
      using r encode_env_inj(2) [of e1 e] assms(1,2) old
      by (cases "i = ?i") (auto simp: new b(3) env_inv_def)
  next
    fix k i assume "bget api (BucketByDestination db') k = Some i"
    then show "\<exists>e. env_record api db' i e \<and> k = DestinationIndexKey (EDestinationID e) i"
      using e old assms(1) unfolding dest by (auto simp: env_inv_def split: if_splits)
  next
    fix i assume "bget api (BucketEnvelopeExpiry db') i \<noteq> None"
    then show "bget api (BucketEnvelopes db') i \<noteq> None"
      using assms(1) by (cases "i = ?i") (auto simp: b(1,3) env_inv_def)
  qed
qed

lemma remove_env_buckets:
  assumes "env_inv api db" and "RemoveEnvelope api lo db i = (db', r)"
  shows "bget api (BucketEnvelopes db') = (bget api (BucketEnvelopes db))(i := None)"
    and "bget api (BucketEnvelopeExpiry db') = (bget api (BucketEnvelopeExpiry db))(i := None)"
    and "bget api (BucketByDestination db') k =
      (if \<exists>e. env_record api db i e \<and> k = DestinationIndexKey (EDestinationID e) i then None
       else bget api (BucketByDestination db) k)"
    and "BucketSeen db' = BucketSeen db" and "BucketRelayIngest db' = BucketRelayIngest db" and "r = Inr ()"
proof -
  have *: "bget api (BucketEnvelopes db') = (bget api (BucketEnvelopes db))(i := None) \<and>
    bget api (BucketEnvelopeExpiry db') = (bget api (BucketEnvelopeExpiry db))(i := None) \<and>
    bget api (BucketByDestination db') k =
      (if \<exists>e. env_record api db i e \<and> k = DestinationIndexKey (EDestinationID e) i then None
       else bget api (BucketByDestination db) k) \<and>
    BucketSeen db' = BucketSeen db \<and> BucketRelayIngest db' = BucketRelayIngest db \<and> r = Inr ()"
  proof (cases "bget api (BucketEnvelopes db) i")
    case None
    with assms(2) show ?thesis by (auto simp: RemoveEnvelope_def db_update_def get_delete env_record_def)
  next
    case (Some bs)
    with assms(1) obtain e where e: "env_record api db i e" unfolding env_inv_def by metis
    then have d: "DecodeEnvelopeRecord bs = Inr (stored_envelope e)"
      using Some by (simp add: env_record_def DecodeEnvelopeRecord_Encode good_env_def)
    have "EDestinationID e1 = EDestinationID e" if "env_record api db i e1" for e1
      using that e encode_env_inj(1) [of e1 e] by (auto simp: env_record_def)
    with e have "(\<exists>e1. env_record api db i e1 \<and> k = DestinationIndexKey (EDestinationID e1) i) \<longleftrightarrow>
        k = DestinationIndexKey (EDestinationID e) i" by metis
    with assms(2) Some d show ?thesis
      by (auto simp: RemoveEnvelope_def db_update_def get_delete stored_envelope_def Let_def)
  qed
  from * show "bget api (BucketEnvelopes db') = (bget api (BucketEnvelopes db))(i := None)"
    "bget api (BucketEnvelopeExpiry db') = (bget api (BucketEnvelopeExpiry db))(i := None)"
    "bget api (BucketByDestination db') k =
      (if \<exists>e. env_record api db i e \<and> k = DestinationIndexKey (EDestinationID e) i then None
       else bget api (BucketByDestination db) k)"
    "BucketSeen db' = BucketSeen db" "BucketRelayIngest db' = BucketRelayIngest db" "r = Inr ()" by blast+
qed

lemma remove_env_inv:
  assumes "env_inv api db" and "RemoveEnvelope api lo db i = (db', r)"
  shows "env_inv api db'"
proof -
  note b = remove_env_buckets [OF assms]
  have rec: "env_record api db' j e \<longleftrightarrow> j \<noteq> i \<and> env_record api db j e" for j e
    by (auto simp: env_record_def b(1))
  have dest: "bget api (BucketByDestination db') k = Some j \<longleftrightarrow> j \<noteq> i \<and> bget api (BucketByDestination db) k = Some j" for k j
  proof
    assume k: "bget api (BucketByDestination db') k = Some j"
    then have "bget api (BucketByDestination db) k = Some j" by (simp add: b(3) split: if_splits)
    moreover from this assms(1) obtain e where "env_record api db j e" "k = DestinationIndexKey (EDestinationID e) j"
      unfolding env_inv_def by blast
    ultimately show "j \<noteq> i \<and> bget api (BucketByDestination db) k = Some j"
      using k by (auto simp: b(3) split: if_splits)
  next
    assume a: "j \<noteq> i \<and> bget api (BucketByDestination db) k = Some j"
    with assms(1) obtain e where "env_record api db j e" "k = DestinationIndexKey (EDestinationID e) j"
      unfolding env_inv_def by blast
    with a show "bget api (BucketByDestination db') k = Some j"
      by (auto simp: b(3) env_record_def good_env_def dest_key_inj)
  qed
  show ?thesis
    using assms(1) unfolding env_inv_def rec dest
    by (auto simp: b(1,2))
qed

end

subsection \<open>Reachable databases\<close>

text \<open>The databases the methods lead to, when only good envelopes are persisted.\<close>

inductive env_reachable :: "'b bolt_api \<Rightarrow> (int \<Rightarrow> int) \<Rightarrow> 'b env_db \<Rightarrow> bool" for api lo where
  New: "env_reachable api lo (new_env_db api)"
| Persist: "env_reachable api lo db \<Longrightarrow> good_env e \<Longrightarrow> env_reachable api lo (fst (PersistEnvelope api lo db e))"
| Remove: "env_reachable api lo db \<Longrightarrow> env_reachable api lo (fst (RemoveEnvelope api lo db i))"
| Seen: "env_reachable api lo db \<Longrightarrow> env_reachable api lo (fst (MarkSeen api lo now db i q))"
| Ingest: "env_reachable api lo db \<Longrightarrow> env_reachable api lo (fst (MarkRelayIngestEmitted api lo now db i))"
| Both: "env_reachable api lo db \<Longrightarrow> env_reachable api lo (fst (MarkSeenAndRelayIngestEmitted api lo now db i qs))"
| Sweep: "env_reachable api lo db \<Longrightarrow> env_reachable api lo (fst (SetEnvelopeLastSweepTime api db t))"

lemma env_inv_cong:
  assumes "env_inv api db" and "BucketEnvelopes db' = BucketEnvelopes db"
    and "BucketByDestination db' = BucketByDestination db" and "BucketEnvelopeExpiry db' = BucketEnvelopeExpiry db"
  shows "env_inv api db'"
  using assms by (simp add: env_inv_def env_record_def)

lemma markers_keep_envelopes:
  assumes "db' \<in> {fst (MarkSeen api lo now db i q), fst (MarkRelayIngestEmitted api lo now db i),
      fst (MarkSeenAndRelayIngestEmitted api lo now db i qs), fst (SetEnvelopeLastSweepTime api db t)}"
  shows "BucketEnvelopes db' = BucketEnvelopes db" and "BucketByDestination db' = BucketByDestination db"
    and "BucketEnvelopeExpiry db' = BucketEnvelopeExpiry db"
  using assms
  by (auto simp: MarkSeen_def MarkRelayIngestEmitted_def MarkSeenAndRelayIngestEmitted_def
      SetEnvelopeLastSweepTime_def db_update_def bindE_Inr_iff split: sum.splits)

lemma env_reachable_inv:
  assumes "bolt api" and "env_reachable api lo db"
  shows "env_inv api db"
  using assms(2)
proof induction
  case New
  then show ?case by (simp add: env_inv_def env_record_def new_env_db_def bolt.get_empty [OF assms(1)])
next
  case (Persist db e)
  obtain db' r where p: "PersistEnvelope api lo db e = (db', r)" by fastforce
  show ?case
  proof (cases r)
    case (Inl err)
    with p have "db' = db" unfolding PersistEnvelope_def Inl db_update_Inl by simp
    with p Persist.IH show ?thesis by simp
  next
    case (Inr u)
    then show ?thesis using bolt.persist_env_inv [OF assms(1) Persist.IH Persist.hyps(2)] p by auto
  qed
next
  case (Remove db i)
  obtain db' r where "RemoveEnvelope api lo db i = (db', r)" by fastforce
  then show ?case using bolt.remove_env_inv [OF assms(1) Remove.IH] by auto
next
  case (Seen db now i q)
  then show ?case by (elim env_inv_cong; intro markers_keep_envelopes) blast+
next
  case (Ingest db now i)
  then show ?case by (elim env_inv_cong; intro markers_keep_envelopes) blast+
next
  case (Both db now i qs)
  then show ?case by (elim env_inv_cong; intro markers_keep_envelopes) blast+
next
  case (Sweep db t)
  then show ?case by (elim env_inv_cong; intro markers_keep_envelopes) blast+
qed

text \<open>The envelopes addressed to a destination that have not expired.\<close>

definition live_for :: "'b bolt_api \<Rightarrow> gotime \<Rightarrow> 'b env_db \<Rightarrow> string \<Rightarrow> string \<Rightarrow> bool" where
  "live_for api now db dest i \<longleftrightarrow> isDigestHex i \<and> (\<exists>e. GetEnvelopeByID api db i = Inr e \<and>
     EDestinationID e = dest \<and> \<not> IsExpired e now)"

lemma eligible_iff:
  assumes "env_inv api db" and "env_record api db i e" and "fits64 (instant now)"
  shows "eligible api now db i \<longleftrightarrow> isDigestHex i \<and> \<not> IsExpired e now"
proof -
  have "bget api (BucketEnvelopeExpiry db) i = Some (be_int64 (UnixNano (EExpiresAt e)))"
    using assms(1,2) unfolding env_inv_def encodeUnixNano_def by blast
  moreover have "fits64 (instant (EExpiresAt e))"
    using assms(2) by (simp add: env_record_def good_env_def envelope_fits_def)
  ultimately show ?thesis
    using assms(3) by (auto simp: eligible_def isEligibleDestinationItem_def decodeUnixNano_def IsDigestHexID_def
        int64_val_be_int64 UnixNano_def toUTC_def s64_id IsExpired_def After_def)
qed

lemma live_iff:
  assumes "bolt api" and "env_inv api db" and "fits64 (instant now)" and "NUL \<notin> set dest"
  shows "live_for api now db dest i \<longleftrightarrow>
    bget api (BucketByDestination db) (DestinationIndexKey dest i) \<noteq> None \<and> eligible api now db i"
proof
  assume l: "live_for api now db dest i"
  then obtain bs where "bget api (BucketEnvelopes db) i = Some bs"
    by (auto simp: live_for_def GetEnvelopeByID_def split: option.splits)
  with assms(2) obtain e where e: "env_record api db i e" unfolding env_inv_def by blast
  then have g: "GetEnvelopeByID api db i = Inr (stored_envelope e)"
    by (simp add: env_record_def GetEnvelopeByID_def DecodeEnvelopeRecord_Encode good_env_def)
  from e assms(2) have "bget api (BucketByDestination db) (DestinationIndexKey (EDestinationID e) i) = Some i"
    unfolding env_inv_def by blast
  with l g eligible_iff [OF assms(2) e assms(3)]
  show "bget api (BucketByDestination db) (DestinationIndexKey dest i) \<noteq> None \<and> eligible api now db i"
    by (auto simp: live_for_def stored_envelope_def local_time_def IsExpired_def After_def)
next
  assume a: "bget api (BucketByDestination db) (DestinationIndexKey dest i) \<noteq> None \<and> eligible api now db i"
  then obtain j where "bget api (BucketByDestination db) (DestinationIndexKey dest i) = Some j" by auto
  with assms(2) obtain e where e: "env_record api db j e" "DestinationIndexKey dest i = DestinationIndexKey (EDestinationID e) j"
    unfolding env_inv_def by blast
  then have "dest = EDestinationID e" "i = j"
    using dest_key_inj [OF assms(4), of "EDestinationID e" i j] by (auto simp: env_record_def good_env_def)
  with e(1) a eligible_iff [OF assms(2) e(1) assms(3)] show "live_for api now db dest i"
    by (auto simp: live_for_def env_record_def GetEnvelopeByID_def DecodeEnvelopeRecord_Encode good_env_def
        stored_envelope_def local_time_def IsExpired_def After_def)
qed

lemma eligible_ids_live:
  assumes "bolt api" and "env_reachable api lo db" and "fits64 (instant now)" and "NUL \<notin> set dest"
  shows "set (eligible_ids api now db dest) = {i. live_for api now db dest i}"
  unfolding bolt.eligible_ids_set [OF assms(1)]
  using live_iff [OF assms(1) env_reachable_inv [OF assms(1,2)] assms(3,4)] by blast

subsection \<open>Properties\<close>

text \<open>
  Claim C8. A page of a destination's item ids is exact: in every reachable database, for a positive
  limit and an empty or valid cursor, \<open>GetEnvelopeIDsByDestinationPage\<close> returns the first \<open>limit\<close> ids
  after the cursor, the last of them as next cursor, and the number and the list of all ids; that list
  is strictly sorted and consists of exactly the digest ids whose stored envelope is addressed to
  the destination and has not expired.
\<close>

theorem destination_page_exact:
  assumes "bolt api" and "env_reachable api lo db" and "fits64 (instant now)" and "NUL \<notin> set dest"
    and "limit > 0" and "cursor = [] \<or> isDigestHex cursor"
  shows "\<exists>E. sorted_wrt (<) E \<and> set E = {i. live_for api now db dest i} \<and>
    GetEnvelopeIDsByDestinationPage api now db dest cursor limit =
      (let page = take (nat limit) (filter (\<lambda>i. cursor < i) E)
       in Inr (page, if page = [] then [] else last page, int (length E), E))"
proof (intro exI conjI)
  show "sorted_wrt (<) (eligible_ids api now db dest)" by (rule bolt.eligible_ids_sorted [OF assms(1)])
  show "set (eligible_ids api now db dest) = {i. live_for api now db dest i}"
    by (rule eligible_ids_live [OF assms(1-4)])
  show "GetEnvelopeIDsByDestinationPage api now db dest cursor limit =
      (let page = take (nat limit) (filter (\<lambda>i. cursor < i) (eligible_ids api now db dest))
       in Inr (page, if page = [] then [] else last page, int (length (eligible_ids api now db dest)),
            eligible_ids api now db dest))"
    using bolt.page_eq [OF assms(1,5)] assms(6) by (simp add: IsDigestHexID_def Let_def)
qed

text \<open>
  Claim C31. Paging reaches everything once: a reader that starts with the empty cursor and follows the
  cursor it is given collects, in finitely many pages, exactly the sorted list of all ids that are
  addressed to the destination and live, none of them twice.
\<close>

theorem paging_enumerates_destination:
  assumes "bolt api" and "env_reachable api lo db" and "fits64 (instant now)" and "NUL \<notin> set dest"
    and "limit > 0"
  shows "\<exists>n. \<forall>pages > n. sorted_wrt (<) (read_pages api now db dest limit pages []) \<and>
           set (read_pages api now db dest limit pages []) = {i. live_for api now db dest i}"
proof (intro exI allI impI)
  let ?E = "eligible_ids api now db dest"
  fix pages assume n: "length ?E < pages"
  have "[] < i" if "i \<in> set ?E" for i
    unfolding Nil_less_iff using that bolt.eligible_ids_set [OF assms(1), of now db dest]
    by (auto simp: eligible_def)
  then have "filter (\<lambda>i. [] < i) ?E = ?E" by (simp add: filter_id_conv)
  then have "read_pages api now db dest limit pages [] = ?E"
    using read_pages_from [OF assms(1,5), of "[]" now db dest pages] n by simp
  then show "sorted_wrt (<) (read_pages api now db dest limit pages []) \<and>
      set (read_pages api now db dest limit pages []) = {i. live_for api now db dest i}"
    using bolt.eligible_ids_sorted [OF assms(1)] bolt.eligible_ids_set [OF assms(1)]
      live_iff [OF assms(1) env_reachable_inv [OF assms(1,2)] assms(3,4)] by auto
qed

text \<open>A database with one live envelope for \<open>bob\<close> under a digest id.\<close>

definition digest_id :: string where
  "digest_id = replicate 64 CHR ''a''"

definition one_envelope :: "mem_bucket env_db" where
  "one_envelope = fst (PersistEnvelope mem_bolt (\<lambda>_. 0) (new_env_db mem_bolt) (sample_envelope\<lparr>EID := digest_id\<rparr>))"

lemma one_envelope_reachable: "env_reachable mem_bolt (\<lambda>_. 0) one_envelope"
  unfolding one_envelope_def
  by (intro env_reachable.Persist env_reachable.New)
     (simp add: good_env_def envelope_fits_def sample_envelope_def digest_id_def fits64_def)

theorem destination_page_exact_witness:
  "\<exists>E. set E = {i. live_for mem_bolt \<lparr>instant = 1500000002000000000, loc = UTC\<rparr> one_envelope ''bob'' i} \<and>
     GetEnvelopeIDsByDestinationPage mem_bolt \<lparr>instant = 1500000002000000000, loc = UTC\<rparr> one_envelope ''bob'' [] 64 =
       (let page = take 64 (filter (\<lambda>i. [] < i) E)
        in Inr (page, if page = [] then [] else last page, int (length E), E))"
  using destination_page_exact [OF mem_bolt_laws one_envelope_reachable,
      of "\<lparr>instant = 1500000002000000000, loc = UTC\<rparr>" "''bob''" 64 "[]"]
  by (auto simp: fits64_def)

theorem paging_enumerates_destination_witness:
  "\<exists>n. \<forall>pages > n. set (read_pages mem_bolt \<lparr>instant = 1500000002000000000, loc = UTC\<rparr> one_envelope ''bob'' 64 pages []) =
     {i. live_for mem_bolt \<lparr>instant = 1500000002000000000, loc = UTC\<rparr> one_envelope ''bob'' i}"
  using paging_enumerates_destination [OF mem_bolt_laws one_envelope_reachable,
      of "\<lparr>instant = 1500000002000000000, loc = UTC\<rparr>" "''bob''" 64]
  by (auto simp: fits64_def)

end
