(* ===== verification/Store_Interfaces.thy ===== *)
theory Store_Interfaces
  imports Envelope_Store
begin

text \<open>
  The Go interfaces \<open>store.Store\<close> and \<open>store.EnvelopeStore\<close> (\<^verbatim>\<open>internal/store/store.go\<close>): each is a
  record of operations on the state of the store, and what the engine relies on is the locale of its
  contract.  The two bbolt stores are shown to keep the contracts.
\<close>

subsection \<open>Operations\<close>

record 'd Store =
  sPersistMessage :: "'d \<Rightarrow> Message option \<Rightarrow> 'd \<times> (serr + unit)"
  sGetQueuedMessages :: "'d \<Rightarrow> string \<Rightarrow> int \<Rightarrow> serr + Message list"
  sGetQueuedMessagesRaw :: "'d \<Rightarrow> string \<Rightarrow> int \<Rightarrow> serr + Message list"
  sMarkDelivered :: "gotime \<Rightarrow> 'd \<Rightarrow> string \<Rightarrow> string \<Rightarrow> 'd \<times> (serr + unit)"
  sMarkAcked :: "gotime \<Rightarrow> 'd \<Rightarrow> string \<Rightarrow> string \<Rightarrow> 'd \<times> (serr + bool)"
  sMarkAckedBatch :: "gotime \<Rightarrow> 'd \<Rightarrow> string list \<Rightarrow> string \<Rightarrow> 'd \<times> (serr + string set)"
  sIsDeliveredTo :: "'d \<Rightarrow> string \<Rightarrow> string \<Rightarrow> serr + bool"
  sIsAckedBy :: "'d \<Rightarrow> string \<Rightarrow> string \<Rightarrow> serr + bool"
  sGetMessageByID :: "'d \<Rightarrow> string \<Rightarrow> serr + Message"
  sRemoveMessage :: "'d \<Rightarrow> string \<Rightarrow> 'd option"
  sGetExpiredMessages :: "'d \<Rightarrow> gotime \<Rightarrow> serr + Message list"
  sGetLastSweepTime :: "'d \<Rightarrow> serr + gotime"
  sSetLastSweepTime :: "'d \<Rightarrow> gotime \<Rightarrow> 'd \<times> (serr + unit)"
  sGetAllRecipientIDs :: "'d \<Rightarrow> serr + string list"
  sGetAllQueuedMessageIDs :: "'d \<Rightarrow> string \<Rightarrow> serr + string list"

record 'e EnvelopeStore =
  ePersistEnvelope :: "'e \<Rightarrow> Envelope \<Rightarrow> 'e \<times> (serr + unit)"
  eGetEnvelopeByID :: "'e \<Rightarrow> string \<Rightarrow> serr + Envelope"
  eGetEnvelopesByDestination :: "gotime \<Rightarrow> 'e \<Rightarrow> string \<Rightarrow> int \<Rightarrow> serr + Envelope list"
  eGetEnvelopeIDsByDestinationPage ::
    "gotime \<Rightarrow> 'e \<Rightarrow> string \<Rightarrow> string \<Rightarrow> int \<Rightarrow> serr + string list \<times> string \<times> int \<times> string list"
  eGetAllEnvelopeIDs :: "gotime \<Rightarrow> 'e \<Rightarrow> serr + string list"
  eRemoveEnvelope :: "'e \<Rightarrow> string \<Rightarrow> 'e \<times> (serr + unit)"
  eGetExpiredEnvelopes :: "'e \<Rightarrow> gotime \<Rightarrow> serr + Envelope list"
  eMarkSeen :: "gotime \<Rightarrow> 'e \<Rightarrow> string \<Rightarrow> string \<Rightarrow> 'e \<times> (serr + unit)"
  eIsSeenBy :: "'e \<Rightarrow> string \<Rightarrow> string \<Rightarrow> serr + bool"
  eMarkRelayIngestEmitted :: "gotime \<Rightarrow> 'e \<Rightarrow> string \<Rightarrow> 'e \<times> (serr + bool)"
  eIsRelayIngestEmitted :: "'e \<Rightarrow> string \<Rightarrow> serr + bool"
  eMarkSeenAndRelayIngestEmitted :: "gotime \<Rightarrow> 'e \<Rightarrow> string \<Rightarrow> string list \<Rightarrow> 'e \<times> (serr + bool)"
  eGetAllDestinationIDs :: "'e \<Rightarrow> serr + string list"
  eGetLastSweepTime :: "'e \<Rightarrow> serr + gotime"
  eSetLastSweepTime :: "'e \<Rightarrow> gotime \<Rightarrow> 'e \<times> (serr + unit)"

text \<open>The two bbolt stores as implementations.\<close>

definition bbolt_store :: "'b bolt_api \<Rightarrow> (int \<Rightarrow> int) \<Rightarrow> 'b msg_db Store" where
  "bbolt_store api lo = \<lparr>sPersistMessage = PersistMessage api lo, sGetQueuedMessages = GetQueuedMessages api,
     sGetQueuedMessagesRaw = GetQueuedMessagesRaw api, sMarkDelivered = MarkDelivered api lo,
     sMarkAcked = MarkAcked api lo, sMarkAckedBatch = MarkAckedBatch api lo, sIsDeliveredTo = IsDeliveredTo api, sIsAckedBy = IsAckedBy api,
     sGetMessageByID = GetMessageByID api, sRemoveMessage = RemoveMessage api lo,
     sGetExpiredMessages = GetExpiredMessages api lo, sGetLastSweepTime = GetLastSweepTime api,
     sSetLastSweepTime = SetLastSweepTime api, sGetAllRecipientIDs = GetAllRecipientIDs api,
     sGetAllQueuedMessageIDs = GetAllQueuedMessageIDs api\<rparr>"

definition bbolt_envelope_store :: "'b bolt_api \<Rightarrow> (int \<Rightarrow> int) \<Rightarrow> 'b env_db EnvelopeStore" where
  "bbolt_envelope_store api lo = \<lparr>ePersistEnvelope = PersistEnvelope api lo, eGetEnvelopeByID = GetEnvelopeByID api,
     eGetEnvelopesByDestination = GetEnvelopesByDestination api,
     eGetEnvelopeIDsByDestinationPage = GetEnvelopeIDsByDestinationPage api,
     eGetAllEnvelopeIDs = GetAllEnvelopeIDs api, eRemoveEnvelope = RemoveEnvelope api lo, eGetExpiredEnvelopes = GetExpiredEnvelopes api lo,
     eMarkSeen = MarkSeen api lo, eIsSeenBy = IsSeenBy api,
     eMarkRelayIngestEmitted = MarkRelayIngestEmitted api lo, eIsRelayIngestEmitted = IsRelayIngestEmitted api,
     eMarkSeenAndRelayIngestEmitted = MarkSeenAndRelayIngestEmitted api lo,
     eGetAllDestinationIDs = GetAllDestinationIDs api, eGetLastSweepTime = GetEnvelopeLastSweepTime api,
     eSetLastSweepTime = SetEnvelopeLastSweepTime api\<rparr>"

text \<open>The operations of the two implementations, read off the records.\<close>

lemma store_sel [simp]:
  "sPersistMessage (bbolt_store api lo) = PersistMessage api lo"
  "sGetQueuedMessages (bbolt_store api lo) = GetQueuedMessages api"
  "sGetQueuedMessagesRaw (bbolt_store api lo) = GetQueuedMessagesRaw api"
  "sMarkDelivered (bbolt_store api lo) = MarkDelivered api lo"
  "sMarkAcked (bbolt_store api lo) = MarkAcked api lo"
  "sMarkAckedBatch (bbolt_store api lo) = MarkAckedBatch api lo"
  "sIsDeliveredTo (bbolt_store api lo) = IsDeliveredTo api"
  "sIsAckedBy (bbolt_store api lo) = IsAckedBy api"
  "sGetMessageByID (bbolt_store api lo) = GetMessageByID api"
  "sRemoveMessage (bbolt_store api lo) = RemoveMessage api lo"
  "sGetExpiredMessages (bbolt_store api lo) = GetExpiredMessages api lo"
  "sGetLastSweepTime (bbolt_store api lo) = GetLastSweepTime api"
  "sSetLastSweepTime (bbolt_store api lo) = SetLastSweepTime api"
  "sGetAllRecipientIDs (bbolt_store api lo) = GetAllRecipientIDs api"
  "sGetAllQueuedMessageIDs (bbolt_store api lo) = GetAllQueuedMessageIDs api"
  by (simp_all add: bbolt_store_def)

lemma estore_sel [simp]:
  "ePersistEnvelope (bbolt_envelope_store api lo) = PersistEnvelope api lo"
  "eGetEnvelopeByID (bbolt_envelope_store api lo) = GetEnvelopeByID api"
  "eGetEnvelopesByDestination (bbolt_envelope_store api lo) = GetEnvelopesByDestination api"
  "eGetEnvelopeIDsByDestinationPage (bbolt_envelope_store api lo) = GetEnvelopeIDsByDestinationPage api"
  "eGetAllEnvelopeIDs (bbolt_envelope_store api lo) = GetAllEnvelopeIDs api"
  "eRemoveEnvelope (bbolt_envelope_store api lo) = RemoveEnvelope api lo"
  "eGetExpiredEnvelopes (bbolt_envelope_store api lo) = GetExpiredEnvelopes api lo"
  "eMarkSeen (bbolt_envelope_store api lo) = MarkSeen api lo"
  "eIsSeenBy (bbolt_envelope_store api lo) = IsSeenBy api"
  "eMarkRelayIngestEmitted (bbolt_envelope_store api lo) = MarkRelayIngestEmitted api lo"
  "eIsRelayIngestEmitted (bbolt_envelope_store api lo) = IsRelayIngestEmitted api"
  "eMarkSeenAndRelayIngestEmitted (bbolt_envelope_store api lo) = MarkSeenAndRelayIngestEmitted api lo"
  "eGetAllDestinationIDs (bbolt_envelope_store api lo) = GetAllDestinationIDs api"
  "eGetLastSweepTime (bbolt_envelope_store api lo) = GetEnvelopeLastSweepTime api"
  "eSetLastSweepTime (bbolt_envelope_store api lo) = SetEnvelopeLastSweepTime api"
  by (simp_all add: bbolt_envelope_store_def)

subsection \<open>Contracts\<close>

text \<open>
  A message store: \<open>ok\<close> is its well-formedness.  Markers are per pair of message and recipient
  (for message ids without zero bytes), they do not change the queue, and the filtered fetch leaves
  out what was delivered to the recipient.
\<close>

locale message_store =
  fixes ops :: "'d Store" and ok :: "'d \<Rightarrow> bool"
  assumes persist_ok: "ok d \<Longrightarrow> sPersistMessage ops d mo = (d', r) \<Longrightarrow> ok d'"
    and deliver_ok: "ok d \<Longrightarrow> sMarkDelivered ops now d i q = (d', r) \<Longrightarrow> ok d'"
    and ack_ok: "ok d \<Longrightarrow> sMarkAcked ops now d i q = (d', r') \<Longrightarrow> ok d'"
    and delivered_set: "sMarkDelivered ops now d i q = (d', Inr ()) \<Longrightarrow> sIsDeliveredTo ops d' i q = Inr True"
    and acked_set: "sMarkAcked ops now d i q = (d', Inr ch) \<Longrightarrow> sIsAckedBy ops d' i q = Inr True"
    and acked_new: "sMarkAcked ops now d i q = (d', Inr ch) \<Longrightarrow> ch \<longleftrightarrow> sIsAckedBy ops d i q = Inr False"
    and acked_again: "sIsAckedBy ops d i q = Inr True \<Longrightarrow> sMarkAcked ops now d i q = (d, Inr False)"
    and acked_other: "sMarkAcked ops now d i q = (d', Inr ch) \<Longrightarrow> NUL \<notin> set i \<Longrightarrow> NUL \<notin> set j \<Longrightarrow>
      (j, p) \<noteq> (i, q) \<Longrightarrow> sIsAckedBy ops d' j p = sIsAckedBy ops d j p"
    and ack_queue: "sMarkAcked ops now d i q = (d', Inr ch) \<Longrightarrow>
      sGetQueuedMessagesRaw ops d' p n = sGetQueuedMessagesRaw ops d p n"
    and fetch_undelivered: "ok d \<Longrightarrow> sGetQueuedMessages ops d q n = Inr ms \<Longrightarrow> m \<in> set ms \<Longrightarrow>
      sIsDeliveredTo ops d (MID m) q = Inr False"
    and get_persisted: "sPersistMessage ops d (Some m) = (d', Inr ()) \<Longrightarrow> message_fits m \<Longrightarrow>
      sGetMessageByID ops d' (MID m) = Inr (stored_message m)"
    and persist_marks: "sPersistMessage ops d mo = (d', r) \<Longrightarrow>
      sIsAckedBy ops d' j p = sIsAckedBy ops d j p \<and> sIsDeliveredTo ops d' j p = sIsDeliveredTo ops d j p"
    and deliver_acked: "sMarkDelivered ops now d i q = (d', r) \<Longrightarrow> sIsAckedBy ops d' j p = sIsAckedBy ops d j p"
    and deliver_mono: "sMarkDelivered ops now d i q = (d', r) \<Longrightarrow> sIsDeliveredTo ops d j p = Inr True \<Longrightarrow>
      sIsDeliveredTo ops d' j p = Inr True"
    and ack_delivered: "sMarkAcked ops now d i q = (d', r') \<Longrightarrow> sIsDeliveredTo ops d' j p = sIsDeliveredTo ops d j p"
    and ack_mono: "sMarkAcked ops now d i q = (d', r') \<Longrightarrow> sIsAckedBy ops d j p = Inr True \<Longrightarrow>
      sIsAckedBy ops d' j p = Inr True"
    and remove_ok: "ok d \<Longrightarrow> sRemoveMessage ops d i = Some d' \<Longrightarrow> ok d'"
    and remove_marks: "sRemoveMessage ops d i = Some d' \<Longrightarrow> NUL \<notin> set i \<Longrightarrow> NUL \<notin> set j \<Longrightarrow> i \<noteq> j \<Longrightarrow>
      sIsAckedBy ops d' j p = sIsAckedBy ops d j p \<and> sIsDeliveredTo ops d' j p = sIsDeliveredTo ops d j p"

text \<open>
  An envelope store: what was persisted is read back, the seen markers grow, and the ingest marker of
  an item is created once and outlives everything.
\<close>

locale envelope_store =
  fixes ops :: "'e EnvelopeStore"
  assumes get_persisted: "ePersistEnvelope ops d e = (d', Inr ()) \<Longrightarrow> envelope_fits e \<Longrightarrow>
      eGetEnvelopeByID ops d' (EID e) = Inr (stored_envelope e)"
    and persist_emitted: "ePersistEnvelope ops d e = (d', r) \<Longrightarrow>
      eIsRelayIngestEmitted ops d' i = eIsRelayIngestEmitted ops d i"
    and persist_seen: "ePersistEnvelope ops d e = (d', r) \<Longrightarrow> eIsSeenBy ops d' i q = eIsSeenBy ops d i q"
    and remove_emitted: "eRemoveEnvelope ops d j = (d', r) \<Longrightarrow>
      eIsRelayIngestEmitted ops d' i = eIsRelayIngestEmitted ops d i"
    and seen_emitted: "eMarkSeen ops now d j q = (d', r) \<Longrightarrow>
      eIsRelayIngestEmitted ops d' i = eIsRelayIngestEmitted ops d i"
    and seen_get: "eMarkSeen ops now d j q = (d', r) \<Longrightarrow> eGetEnvelopeByID ops d' i = eGetEnvelopeByID ops d i"
    and seen_set: "eMarkSeen ops now d j q = (d', Inr ()) \<Longrightarrow> eIsSeenBy ops d' j q = Inr True"
    and mark_new: "eMarkSeenAndRelayIngestEmitted ops now d j qs = (d', Inr ch) \<Longrightarrow>
      ch \<longleftrightarrow> eIsRelayIngestEmitted ops d j = Inr False"
    and mark_emitted: "eMarkSeenAndRelayIngestEmitted ops now d j qs = (d', Inr ch) \<Longrightarrow>
      eIsRelayIngestEmitted ops d' i = (if i = j then Inr True else eIsRelayIngestEmitted ops d i)"
    and mark_failed: "eMarkSeenAndRelayIngestEmitted ops now d j qs = (d', Inl err) \<Longrightarrow> d' = d"
    and mark_seen: "eMarkSeenAndRelayIngestEmitted ops now d j qs = (d', Inr ch) \<Longrightarrow> q \<in> set qs \<Longrightarrow> q \<noteq> [] \<Longrightarrow>
      eIsSeenBy ops d' j q = Inr True"
    and mark_get: "eMarkSeenAndRelayIngestEmitted ops now d j qs = (d', r') \<Longrightarrow>
      eGetEnvelopeByID ops d' i = eGetEnvelopeByID ops d i"
    and remove_seen: "eRemoveEnvelope ops d j = (d', r) \<Longrightarrow> eIsSeenBy ops d' i q = eIsSeenBy ops d i q"
    and seen_mono: "eMarkSeen ops now d j q = (d', r) \<Longrightarrow> eIsSeenBy ops d i p = Inr True \<Longrightarrow>
      eIsSeenBy ops d' i p = Inr True"
    and mark_mono: "eMarkSeenAndRelayIngestEmitted ops now d j qs = (d', r') \<Longrightarrow> eIsSeenBy ops d i p = Inr True \<Longrightarrow>
      eIsSeenBy ops d' i p = Inr True"

subsection \<open>The bbolt message store\<close>

text \<open>Every record that can be read carries the id it is stored under.\<close>

definition msg_ids_ok :: "'b bolt_api \<Rightarrow> 'b msg_db \<Rightarrow> bool" where
  "msg_ids_ok api db \<longleftrightarrow> (\<forall>i bs m. bget api (BucketMessages db) i = Some bs \<longrightarrow> DecodeMessage bs = Inr m \<longrightarrow> MID m = i)"

lemma decoded_id:
  assumes "length (MID m) < 65536" and "DecodeMessage (EncodeMessage m) = Inr m'"
  shows "MID m' = MID m"
proof -
  have "EncodeMessage m = put_string16 (MID m) @ drop (2 + length (MID m)) (EncodeMessage m)"
    by (simp add: EncodeMessage_def put_string16_def)
  moreover have "drop (2 + length (MID m)) (EncodeMessage m) \<noteq> []"
    by (simp add: EncodeMessage_def put_string16_def)
  ultimately have "read_string (EncodeMessage m) = Inr (MID m, drop (2 + length (MID m)) (EncodeMessage m))"
    using put_string16_read [OF assms(1)] by metis
  with assms(2) show ?thesis
    by (auto simp: DecodeMessage_def split: list.split_asm) (metis Message.select_convs(1) neq_Nil_conv)
qed

context bolt
begin

lemma persist_ids_ok:
  assumes "msg_ids_ok api db" and "PersistMessage api lo db m = (db', r)"
  shows "msg_ids_ok api db'"
proof (cases "r = Inr ()")
  case True
  with assms(2) obtain m' where m: "m = Some m'"
    by (cases m) (auto simp: PersistMessage_def db_update_def)
  note b = persist_buckets [OF assms(2) [unfolded True m]]
  have len: "length (MID m') < 65536" using b(7) by (simp add: storable_def key_ok_def)
  show ?thesis unfolding msg_ids_ok_def
  proof (intro allI impI)
    fix i bs x assume "bget api (BucketMessages db') i = Some bs" and "DecodeMessage bs = Inr x"
    then show "MID x = i"
      using assms(1) decoded_id [OF len, of x] by (cases "i = MID m'") (auto simp: b(1) msg_ids_ok_def)
  qed
next
  case False
  with assms show ?thesis
    by (cases r) (auto simp: PersistMessage_def db_update_Inl)
qed

lemma fetched_undelivered:
  assumes "msg_ids_ok api db" and "GetQueuedMessages api db q n = Inr ms" and "m \<in> set ms"
  shows "IsDeliveredTo api db (MID m) q = Inr False"
proof -
  let ?R = "readable (bget api (BucketMessages db))
      (filter (\<lambda>(k, v). has_prefix k (q @ [NUL])) (bseek api (BucketQueueByRecipient db) (q @ [NUL])))"
  from assms(2,3) obtain i where i: "(i, m) \<in> set (take (nat n) ?R)"
    and d: "bget api (BucketDeliveryState db) (EncodeDeliveryKey i q) = None"
    by (auto simp: GetQueuedMessages_eq)
  from in_set_takeD [OF i] assms(1) have "MID m = i" unfolding set_readable msg_ids_ok_def by blast
  with d show ?thesis by (simp add: IsDeliveredTo_def)
qed

lemma mark_messages:
  "MarkDelivered api lo now db i q = (db', r) \<Longrightarrow> BucketMessages db' = BucketMessages db"
  "MarkAcked api lo now db i q = (db', r') \<Longrightarrow>
     BucketMessages db' = BucketMessages db \<and> BucketQueueByRecipient db' = BucketQueueByRecipient db"
  by (auto simp: MarkDelivered_def MarkAcked_def db_update_def split: sum.splits if_splits)

lemma persist_marks:
  "PersistMessage api lo db m = (db', r) \<Longrightarrow>
     BucketAckState db' = BucketAckState db \<and> BucketDeliveryState db' = BucketDeliveryState db"
  by (auto simp: PersistMessage_def db_update_def Let_def split: option.splits sum.splits if_splits)

lemma mark_other_bucket:
  "MarkDelivered api lo now db i q = (db', r) \<Longrightarrow> BucketAckState db' = BucketAckState db"
  "MarkAcked api lo now db i q = (db', r') \<Longrightarrow> BucketDeliveryState db' = BucketDeliveryState db"
  by (auto simp: MarkDelivered_def MarkAcked_def db_update_def split: sum.splits if_splits)

lemma mark_mono:
  "MarkDelivered api lo now db i q = (db', r) \<Longrightarrow> bget api (BucketDeliveryState db) k \<noteq> None \<Longrightarrow>
     bget api (BucketDeliveryState db') k \<noteq> None"
  "MarkAcked api lo now db i q = (db', r') \<Longrightarrow> bget api (BucketAckState db) k \<noteq> None \<Longrightarrow>
     bget api (BucketAckState db') k \<noteq> None"
  by (auto simp: MarkDelivered_def MarkAcked_def db_update_def dest!: put_in_Inr split: sum.splits if_splits)

lemma delete_prefix_loop_keeps:
  "delete_prefix_loop api prefix fuel b cur = Some b' \<Longrightarrow> \<not> has_prefix k prefix \<Longrightarrow> bget api b' k = bget api b k"
proof (induction fuel arbitrary: b cur)
  case 0
  then show ?case by (cases cur) auto
next
  case (Suc fuel)
  show ?case
  proof (cases cur)
    case (Some c)
    with Suc show ?thesis by (auto simp: get_delete split: if_splits)
  qed (use Suc.prems in auto)
qed

lemma delivery_key_prefix:
  "NUL \<notin> set i \<Longrightarrow> NUL \<notin> set j \<Longrightarrow> i \<noteq> j \<Longrightarrow> \<not> has_prefix (EncodeDeliveryKey j p) (i @ [NUL])"
  by (auto simp: EncodeDeliveryKey_def has_prefix_iff split_at_NUL)

lemma remove_message_keeps:
  assumes "RemoveMessage api lo db i = Some db'"
  shows "BucketMessages db' = bdelete api (BucketMessages db) i"
    and "\<not> has_prefix k (i @ [NUL]) \<Longrightarrow> bget api (BucketAckState db') k = bget api (BucketAckState db) k \<and>
      bget api (BucketDeliveryState db') k = bget api (BucketDeliveryState db) k"
  using assms delete_prefix_loop_keeps
  by (auto simp: RemoveMessage_def remove_indexes_def Let_def deleteKeyPrefix_def split: option.splits sum.splits)

lemma message_store_contract: "message_store (bbolt_store api lo) (msg_ids_ok api)"
proof (unfold_locales, goal_cases)
  case 1
  then show ?case using persist_ids_ok by simp
next
  case 2
  then show ?case using mark_messages(1) by (fastforce simp: msg_ids_ok_def)
next
  case 3
  then show ?case using mark_messages(2) by (fastforce simp: msg_ids_ok_def)
next
  case 4
  then show ?case using MarkDelivered_effect(1) by (fastforce simp: IsDeliveredTo_def)
next
  case (5 now d i q d' ch)
  then show ?case using MarkAcked_effect(1,2) [of lo now d i q d' ch] by (auto simp: IsAckedBy_def)
next
  case (6 now d i q d' ch)
  then show ?case using MarkAcked_effect(1) [of lo now d i q d' ch] by (auto simp: IsAckedBy_def)
next
  case 7
  then show ?case by (simp add: IsAckedBy_def MarkAcked_def db_update_def)
next
  case (8 now d i q d' ch j p)
  then show ?case
    using MarkAcked_effect(2) [of lo now d i q d' ch] delivery_key_inj [OF 8(3,2), of p q]
    by (auto simp: IsAckedBy_def)
next
  case (9 now d i q d' ch p n)
  then show ?case using mark_messages(2) [of lo now d i q d' "Inr ch"] by (simp add: GetQueuedMessagesRaw_def)
next
  case 10
  then show ?case using fetched_undelivered by simp
next
  case 11
  then show ?case using persist_get DecodeMessage_EncodeMessage by simp
next
  case (12 d mo d' r j p)
  then show ?case using persist_marks [of lo d mo d' r] by (simp add: IsAckedBy_def IsDeliveredTo_def)
next
  case (13 now d i q d' r j p)
  then show ?case using mark_other_bucket(1) [of lo now d i q d' r] by (simp add: IsAckedBy_def)
next
  case (14 now d i q d' r j p)
  then show ?case using mark_mono(1) [of lo now d i q d' r] by (simp add: IsDeliveredTo_def)
next
  case (15 now d i q d' r' j p)
  then show ?case using mark_other_bucket(2) [of lo now d i q d' r'] by (simp add: IsDeliveredTo_def)
next
  case (16 now d i q d' r' j p)
  then show ?case using mark_mono(2) [of lo now d i q d' r'] by (simp add: IsAckedBy_def)
next
  case (17 d i d')
  then show ?case
    using remove_message_keeps(1) [of lo d i d'] by (auto simp: msg_ids_ok_def get_delete)
next
  case (18 d i d' j p)
  then show ?case
    using remove_message_keeps(2) [of lo d i d'] delivery_key_prefix [of i j p]
    by (simp add: IsAckedBy_def IsDeliveredTo_def)
qed

end

subsection \<open>The bbolt envelope store\<close>

context bolt
begin

lemma seen_loop_keeps:
  "seen_loop api stamp j b qs = Inr b' \<Longrightarrow> bget api b k \<noteq> None \<Longrightarrow> bget api b' k \<noteq> None"
proof (induction qs arbitrary: b)
  case (Cons p rest)
  show ?case
  proof (cases "p = []")
    case False
    with Cons.prems(1) obtain c where "put_in api b (SeenKey j p) stamp ''seen'' = Inr c"
      and l: "seen_loop api stamp j c rest = Inr b'" by auto
    then have "bget api c k \<noteq> None" using put_in_Inr Cons.prems(2) by fastforce
    with Cons.IH [OF l] show ?thesis by simp
  qed (use Cons in auto)
qed simp

lemma seen_loop_marks:
  "seen_loop api stamp j b qs = Inr b' \<Longrightarrow> q \<in> set qs \<Longrightarrow> q \<noteq> [] \<Longrightarrow> bget api b' (SeenKey j q) \<noteq> None"
proof (induction qs arbitrary: b)
  case (Cons p rest)
  show ?case
  proof (cases "p = []")
    case False
    with Cons.prems(1) obtain c where c: "put_in api b (SeenKey j p) stamp ''seen'' = Inr c"
      and l: "seen_loop api stamp j c rest = Inr b'" by auto
    then have "bget api c (SeenKey j p) \<noteq> None" using put_in_Inr by fastforce
    with seen_loop_keeps [OF l] Cons.IH [OF l] Cons.prems(2,3) show ?thesis by auto
  qed (use Cons in auto)
qed simp

lemma mark_ingest_effect:
  assumes "MarkSeenAndRelayIngestEmitted api lo now db j qs = (db', Inr ch)"
  shows "ch \<longleftrightarrow> bget api (BucketRelayIngest db) j = None" and "j \<noteq> []"
    and "(bget api (BucketRelayIngest db') i \<noteq> None) \<longleftrightarrow> i = j \<or> bget api (BucketRelayIngest db) i \<noteq> None"
    and "BucketEnvelopes db' = BucketEnvelopes db"
    and "\<exists>stamp. seen_loop api stamp j (BucketSeen db) qs = Inr (BucketSeen db')"
  using assms
  by (auto simp: MarkSeenAndRelayIngestEmitted_def db_update_Inr RelayIngestKey_def dest!: put_in_Inr
      split: if_splits)

lemma persist_env_other:
  "PersistEnvelope api lo db e = (db', r) \<Longrightarrow> BucketSeen db' = BucketSeen db \<and> BucketRelayIngest db' = BucketRelayIngest db"
  by (auto simp: PersistEnvelope_def db_update_def Let_def split: sum.splits if_splits)

lemma seen_markers_mono:
  "MarkSeen api lo now db j q = (db', r) \<Longrightarrow> bget api (BucketSeen db) k \<noteq> None \<Longrightarrow> bget api (BucketSeen db') k \<noteq> None"
  "MarkSeenAndRelayIngestEmitted api lo now db j qs = (db', r') \<Longrightarrow> bget api (BucketSeen db) k \<noteq> None \<Longrightarrow>
     bget api (BucketSeen db') k \<noteq> None"
  by (auto simp: MarkSeen_def MarkSeenAndRelayIngestEmitted_def db_update_def dest!: put_in_Inr
      dest: seen_loop_keeps split: sum.splits if_splits)

lemma remove_env_other:
  "RemoveEnvelope api lo db j = (db', r) \<Longrightarrow> BucketRelayIngest db' = BucketRelayIngest db \<and> BucketSeen db' = BucketSeen db"
  by (auto simp: RemoveEnvelope_def db_update_def Let_def split: option.splits sum.splits)

lemma mark_seen_effect:
  assumes "MarkSeen api lo now db j q = (db', r)"
  shows "BucketRelayIngest db' = BucketRelayIngest db" and "BucketEnvelopes db' = BucketEnvelopes db"
    and "r = Inr () \<Longrightarrow> bget api (BucketSeen db') (SeenKey j q) \<noteq> None"
  using assms by (auto simp: MarkSeen_def db_update_def dest!: put_in_Inr split: sum.splits)

lemma envelope_store_contract: "envelope_store (bbolt_envelope_store api lo)"
proof (unfold_locales, goal_cases)
  case (1 d e d')
  then show ?case
    using persist_env_buckets(1) [of lo d e d'] DecodeEnvelopeRecord_Encode [of e]
    by (simp add: GetEnvelopeByID_def)
next
  case (2 d e d' r i)
  then show ?case using persist_env_other [of lo d e d' r] by (simp add: IsRelayIngestEmitted_def)
next
  case (3 d e d' r i q)
  then show ?case using persist_env_other [of lo d e d' r] by (simp add: IsSeenBy_def)
next
  case (4 d j d' r i)
  then show ?case using remove_env_other [of lo d j d' r] by (simp add: IsRelayIngestEmitted_def)
next
  case (5 now d j q d' r i)
  then show ?case using mark_seen_effect(1) [of lo now d j q d' r] by (simp add: IsRelayIngestEmitted_def)
next
  case (6 now d j q d' r i)
  then show ?case using mark_seen_effect(2) [of lo now d j q d' r] by (simp add: GetEnvelopeByID_def)
next
  case (7 now d j q d')
  then show ?case using mark_seen_effect(3) [of lo now d j q d' "Inr ()"] by (simp add: IsSeenBy_def)
next
  case (8 now d j qs d' ch)
  then show ?case using mark_ingest_effect(1,2) [of lo now d j qs d' ch]
    by (simp add: IsRelayIngestEmitted_def RelayIngestKey_def)
next
  case (9 now d j qs d' ch i)
  then show ?case using mark_ingest_effect(2,3) [of lo now d j qs d' ch]
    by (auto simp: IsRelayIngestEmitted_def RelayIngestKey_def)
next
  case (10 now d j qs d' err)
  then show ?case by (auto simp: MarkSeenAndRelayIngestEmitted_def db_update_Inl split: if_splits)
next
  case (11 now d j qs d' ch q)
  then show ?case using mark_ingest_effect(5) [of lo now d j qs d' ch] seen_loop_marks
    by (fastforce simp: IsSeenBy_def)
next
  case (12 now d j qs d' r' i)
  then have "BucketEnvelopes d' = BucketEnvelopes d"
    by (auto simp: MarkSeenAndRelayIngestEmitted_def db_update_def split: sum.splits if_splits)
  then show ?case by (simp add: GetEnvelopeByID_def)
next
  case (13 d j d' r i q)
  then show ?case using remove_env_other [of lo d j d' r] by (simp add: IsSeenBy_def)
next
  case (14 now d j q d' r i p)
  then show ?case using seen_markers_mono(1) [of lo now d j q d' r] by (simp add: IsSeenBy_def)
next
  case (15 now d j qs d' r' i p)
  then show ?case using seen_markers_mono(2) [of lo now d j qs d' r'] by (simp add: IsSeenBy_def)
qed

end

text \<open>The contracts hold of the bbolt stores over any bbolt that keeps its promises.\<close>

sublocale bolt \<subseteq> store: message_store "bbolt_store api lo" "msg_ids_ok api" for lo
  by (rule message_store_contract)

sublocale bolt \<subseteq> estore: envelope_store "bbolt_envelope_store api lo" for lo
  by (rule envelope_store_contract)

interpretation mem_store: message_store "bbolt_store mem_bolt lo" "msg_ids_ok mem_bolt" for lo
  by (rule bolt.message_store_contract [OF mem_bolt_laws])

interpretation mem_estore: envelope_store "bbolt_envelope_store mem_bolt lo" for lo
  by (rule bolt.envelope_store_contract [OF mem_bolt_laws])

end
