(* ===== verification/Engine.thy ===== *)
theory Engine
  imports Store_Interfaces Transfer_Objects
begin

text \<open>
  The store-and-forward engine of \<^verbatim>\<open>internal/storeforward\<close>: what a client's send, pull and ack do, how
  a payload forwarded by another relay is accepted, and how an envelope is prepared for the next hop.
  The engine is written against the interfaces of \<open>Store_Interfaces\<close>; its lemmas are proved
  once under their contracts and reach the bbolt stores by the interpretations there.
\<close>

subsection \<open>State and configuration\<close>

record engine_cfg =
  relayID :: string
  maxTTL :: int
  ackDrivenSuppression :: bool

record RelayIngestSignal =
  SignalItemID :: string
  Trusted :: bool
  SourceRelay :: string

datatype RelayForwardStatus = RelayForwardAccepted | RelayForwardDuplicate | RelayForwardExpired
  | RelayForwardSeenLoop | RelayForwardInvalid | RelayForwardTooLarge

datatype eng_err = StoreErr serr | ErrForwardMessageInvalid | ErrForwardMessageTooLarge
  | EnvelopeErrE envelope_err

definition SetAckDrivenSuppression :: "engine_cfg \<Rightarrow> bool \<Rightarrow> engine_cfg" where
  "SetAckDrivenSuppression e enabled = e\<lparr>ackDrivenSuppression := enabled\<rparr>"

definition IsAckDrivenSuppression :: "engine_cfg \<Rightarrow> bool" where
  "IsAckDrivenSuppression e = ackDrivenSuppression e"

subsection \<open>Clients\<close>

definition DeliveryIdentity :: "string \<Rightarrow> string \<Rightarrow> string" where
  "DeliveryIdentity wayfarerID deviceID = (if deviceID = [] then wayfarerID else wayfarerID @ [NUL] @ deviceID)"

definition QueueRecipient :: "string \<Rightarrow> string" where
  "QueueRecipient deliveryIdentity = (case cut_byte NUL deliveryIdentity of
     None \<Rightarrow> deliveryIdentity
   | Some (before, _) \<Rightarrow> before)"

abbreviation (input) defaultPullLimit :: int where "defaultPullLimit \<equiv> 50"
abbreviation (input) maxPullLimit :: int where "maxPullLimit \<equiv> 100"

definition NormalizePullLimit :: "int \<Rightarrow> int" where
  "NormalizePullLimit limit = (if limit \<le> 0 \<or> limit > maxPullLimit then defaultPullLimit else limit)"

text \<open>\<open>None\<close> is the panic of \<open>ComputeItemID\<close> when CBOR encoding fails.\<close>

definition AcceptClientSend ::
  "wire_env \<Rightarrow> engine_cfg \<Rightarrow> gotime \<Rightarrow> string \<Rightarrow> string \<Rightarrow> string \<Rightarrow> int \<Rightarrow> (Message \<times> int) option" where
  "AcceptClientSend env e now from to payloadB64 ttlSeconds =
     (let ttl = s64 (ttlSeconds * second);
          ttl = (if ttl \<le> 0 \<or> ttl > maxTTL e then maxTTL e else ttl);
          expiresAt = Add now ttl
      in map_option (\<lambda>itemID. (\<lparr>MID = itemID, MFrom = from, MTo = to, MPayload = payloadB64, MCreatedAt = now,
            MExpiresAt = expiresAt, MDelivered = False, MDeliveredAt = None\<rparr>, ttl))
           (ComputeItemID env from to payloadB64 (Unix (toUTC now)) (Unix (toUTC expiresAt))))"

fun filter_pull :: "(string \<Rightarrow> serr + bool) \<Rightarrow> Message list \<Rightarrow> serr + Message list" where
  "filter_pull hidden [] = Inr []"
| "filter_pull hidden (msg # rest) =
     bindE (hidden (MID msg)) (\<lambda>h.
     bindE (filter_pull hidden rest) (\<lambda>filtered. Inr (if h then filtered else msg # filtered)))"

definition PullForDeliveryIdentity ::
  "'d Store \<Rightarrow> engine_cfg \<Rightarrow> 'd \<Rightarrow> string \<Rightarrow> int \<Rightarrow> serr + Message list" where
  "PullForDeliveryIdentity st e d deliveryIdentity limit =
     (let queueRecipient = QueueRecipient deliveryIdentity;
          fetchQueued = (if ackDrivenSuppression e then sGetQueuedMessagesRaw st else sGetQueuedMessages st)
      in bindE (fetchQueued d queueRecipient (NormalizePullLimit limit)) (\<lambda>messages.
         if \<not> ackDrivenSuppression e \<and> deliveryIdentity = queueRecipient then Inr messages
         else filter_pull (\<lambda>msgID. if ackDrivenSuppression e then sIsAckedBy st d msgID deliveryIdentity
                                   else sIsDeliveredTo st d msgID deliveryIdentity) messages))"

definition AckClientDelivery ::
  "'d Store \<Rightarrow> engine_cfg \<Rightarrow> gotime \<Rightarrow> 'd \<Rightarrow> string \<Rightarrow> string \<Rightarrow> 'd \<times> (serr + bool)" where
  "AckClientDelivery st e now d msgID deliveryIdentity =
     (if ackDrivenSuppression e then sMarkAcked st now d msgID deliveryIdentity
      else case sIsDeliveredTo st d msgID deliveryIdentity of
             Inl err \<Rightarrow> (d, Inl err)
           | Inr delivered \<Rightarrow>
               if delivered then (d, Inr False)
               else (case sMarkDelivered st now d msgID deliveryIdentity of
                       (d', Inl err) \<Rightarrow> (d', Inl err)
                     | (d', Inr _) \<Rightarrow> (d', Inr True)))"

definition MarkDelivery :: "'d Store \<Rightarrow> gotime \<Rightarrow> 'd \<Rightarrow> string \<Rightarrow> string \<Rightarrow> 'd \<times> (serr + unit)" where
  "MarkDelivery st now d msgID deliveryIdentity = sMarkDelivered st now d msgID deliveryIdentity"

definition EngineRemoveMessage :: "'d Store \<Rightarrow> 'd \<Rightarrow> string \<Rightarrow> 'd option" where
  "EngineRemoveMessage st d msgID = sRemoveMessage st d msgID"

subsection \<open>Envelope state\<close>

definition envelopeFromMessage :: "Message \<Rightarrow> string \<Rightarrow> Envelope" where
  "envelopeFromMessage msg originRelayID = \<lparr>EID = MID msg, EDestinationID = MTo msg, EOpaquePayload = MPayload msg,
     EOriginRelayID = originRelayID, ECurrentHopCount = 0, ECreatedAt = MCreatedAt msg, EExpiresAt = MExpiresAt msg\<rparr>"

definition isValidForwardMessage :: "Message option \<Rightarrow> bool" where
  "isValidForwardMessage msg_opt = (case msg_opt of
     None \<Rightarrow> False
   | Some msg \<Rightarrow>
       if MID msg = [] \<or> MFrom msg = [] \<or> MTo msg = [] \<or> MPayload msg = [] then False
       else if IsZero (MCreatedAt msg) \<or> IsZero (MExpiresAt msg) then False
       else True)"

text \<open>\<open>isNotFoundErr\<close> looks for \<open>not found\<close> in the text; only the look-ups of the stores say so.\<close>

definition isNotFoundErr :: "serr \<Rightarrow> bool" where
  "isNotFoundErr err = (case err of NotFound _ \<Rightarrow> True | _ \<Rightarrow> False)"

definition relayIngestItemID :: "Message option \<Rightarrow> string" where
  "relayIngestItemID msg_opt = (case msg_opt of None \<Rightarrow> [] | Some msg \<Rightarrow> MID msg)"

definition isAuthenticatedRelayContext :: "string \<Rightarrow> bool" where
  "isAuthenticatedRelayContext sourceRelayID \<longleftrightarrow> sourceRelayID \<noteq> []"

definition relayIngestSeenRelayIDs :: "string \<Rightarrow> string \<Rightarrow> string list" where
  "relayIngestSeenRelayIDs sourceRelayID localRelayID =
     sort_slice (<) (remdups (filter (\<lambda>r. r \<noteq> []) [sourceRelayID, localRelayID]))"

text \<open>The envelope store is \<open>None\<close> when federation is not configured; its state is \<open>ed\<close>.\<close>

definition fill_origin :: "Envelope \<Rightarrow> string \<Rightarrow> Envelope" where
  "fill_origin envelope originRelayID =
     (if EOriginRelayID envelope = [] then envelope\<lparr>EOriginRelayID := originRelayID\<rparr> else envelope)"

definition persistEnvelopeState ::
  "'e EnvelopeStore option \<Rightarrow> 'e \<Rightarrow> Message \<Rightarrow> string \<Rightarrow> 'e \<times> (serr + Envelope)" where
  "persistEnvelopeState es ed msg originRelayID = (case es of
     None \<Rightarrow> (ed, Inr (envelopeFromMessage msg originRelayID))
   | Some ops \<Rightarrow>
       (case eGetEnvelopeByID ops ed (MID msg) of
          Inl err \<Rightarrow>
            if \<not> isNotFoundErr err then (ed, Inl err)
            else (let envelope = fill_origin (envelopeFromMessage msg originRelayID) originRelayID
                  in case ePersistEnvelope ops ed envelope of
                       (ed', Inl err) \<Rightarrow> (ed', Inl err)
                     | (ed', Inr _) \<Rightarrow> (ed', Inr envelope))
        | Inr stored \<Rightarrow>
            (let envelope = fill_origin stored originRelayID
             in case ePersistEnvelope ops ed envelope of
                  (ed', Inl err) \<Rightarrow> (ed', Inl err)
                | (ed', Inr _) \<Rightarrow> (ed', Inr envelope))))"

definition EnginePersistMessage ::
  "'d Store \<Rightarrow> 'e EnvelopeStore option \<Rightarrow> engine_cfg \<Rightarrow> 'd \<Rightarrow> 'e \<Rightarrow> Message option \<Rightarrow> 'd \<times> 'e \<times> (serr + unit)" where
  "EnginePersistMessage st es e d ed msg_opt = (case msg_opt of
     None \<Rightarrow> (case sPersistMessage st d None of (d', r) \<Rightarrow> (d', ed, r))
   | Some msg \<Rightarrow>
       (case sPersistMessage st d (Some msg) of
          (d', Inl err) \<Rightarrow> (d', ed, Inl err)
        | (d', Inr _) \<Rightarrow>
            if es = None then (d', ed, Inr ())
            else (case persistEnvelopeState es ed msg (relayID e) of
                    (ed', Inl err) \<Rightarrow> (d', ed', Inl err)
                  | (ed', Inr _) \<Rightarrow> (d', ed', Inr ()))))"

subsection \<open>Forwarding\<close>

record RelayForwardResult =
  Status :: RelayForwardStatus
  REnvelope :: "Envelope option"

text \<open>An error comes with the status of the result beside it (\<open>None\<close>: the zero value, no status).\<close>

type_synonym forward_err = "RelayForwardStatus option \<times> eng_err"

text \<open>
  The steps of \<open>AcceptRelayForward\<close> after the checks: persist the message when it is new, update the
  envelope, set the markers and emit the ingest signal.  The result is the state of both stores, the
  signals emitted and the outcome.  The type assertion to \<open>relayIngestAtomicMarker\<close> always succeeds,
  because \<open>EnvelopeStore\<close> itself has the method.
\<close>

definition mark_ingest ::
  "'e EnvelopeStore option \<Rightarrow> engine_cfg \<Rightarrow> gotime \<Rightarrow> 'e \<Rightarrow> string \<Rightarrow> Message \<Rightarrow> bool \<Rightarrow> 'e \<times> (serr + bool)" where
  "mark_ingest es e now ed sourceRelayID msg messageAlreadyExists = (case es of
     None \<Rightarrow> (ed, Inr (\<not> messageAlreadyExists))
   | Some ops \<Rightarrow> eMarkSeenAndRelayIngestEmitted ops now ed (relayIngestItemID (Some msg))
                   (relayIngestSeenRelayIDs sourceRelayID (relayID e)))"

definition forward_tail ::
  "'e EnvelopeStore option \<Rightarrow> engine_cfg \<Rightarrow> gotime \<Rightarrow> 'd \<Rightarrow> 'e \<Rightarrow> string \<Rightarrow> Message \<Rightarrow> bool \<Rightarrow> bool \<Rightarrow>
   'd \<times> 'e \<times> RelayIngestSignal list \<times> (forward_err + RelayForwardResult)" where
  "forward_tail es e now d ed sourceRelayID msg messageAlreadyExists seenBySource =
     (case persistEnvelopeState es ed msg sourceRelayID of
        (ed1, Inl err) \<Rightarrow> (d, ed1, [], Inl (None, StoreErr err))
      | (ed1, Inr envelope) \<Rightarrow>
          (case mark_ingest es e now ed1 sourceRelayID msg messageAlreadyExists of
             (ed2, Inl err) \<Rightarrow> (d, ed2, [], Inl (None, StoreErr err))
           | (ed2, Inr markerCreated) \<Rightarrow>
               (d, ed2,
                (if markerCreated
                 then [\<lparr>SignalItemID = relayIngestItemID (Some msg),
                        Trusted = isAuthenticatedRelayContext sourceRelayID, SourceRelay = sourceRelayID\<rparr>]
                 else []),
                Inr \<lparr>Status = (if \<not> messageAlreadyExists then RelayForwardAccepted
                                 else if seenBySource then RelayForwardSeenLoop else RelayForwardDuplicate),
                     REnvelope = Some envelope\<rparr>)))"

definition forward_checked ::
  "'d Store \<Rightarrow> 'e EnvelopeStore option \<Rightarrow> engine_cfg \<Rightarrow> gotime \<Rightarrow> 'd \<Rightarrow> 'e \<Rightarrow> string \<Rightarrow> Message \<Rightarrow>
   'd \<times> 'e \<times> RelayIngestSignal list \<times> (forward_err + RelayForwardResult)" where
  "forward_checked st es e now d ed sourceRelayID msg =
     (case (case es of
              None \<Rightarrow> Inr False
            | Some ops \<Rightarrow> if sourceRelayID = [] then Inr False else eIsSeenBy ops ed (MID msg) sourceRelayID) of
        Inl err \<Rightarrow> (d, ed, [], Inl (None, StoreErr err))
      | Inr seenBySource \<Rightarrow>
          (case sGetMessageByID st d (MID msg) of
             Inr _ \<Rightarrow> forward_tail es e now d ed sourceRelayID msg True seenBySource
           | Inl err \<Rightarrow>
               if \<not> isNotFoundErr err then (d, ed, [], Inl (None, StoreErr err))
               else if seenBySource then (d, ed, [], Inr \<lparr>Status = RelayForwardSeenLoop, REnvelope = None\<rparr>)
               else (case sPersistMessage st d (Some msg) of
                       (d', Inl err) \<Rightarrow> (d', ed, [], Inl (None, StoreErr err))
                     | (d', Inr _) \<Rightarrow> forward_tail es e now d' ed sourceRelayID msg False seenBySource)))"

definition AcceptRelayForward ::
  "'d Store \<Rightarrow> 'e EnvelopeStore option \<Rightarrow> engine_cfg \<Rightarrow> gotime \<Rightarrow> 'd \<Rightarrow> 'e \<Rightarrow> string \<Rightarrow> Message option \<Rightarrow> int \<Rightarrow>
   'd \<times> 'e \<times> RelayIngestSignal list \<times> (forward_err + RelayForwardResult)" where
  "AcceptRelayForward st es e now d ed sourceRelayID msg_opt maxPayloadSize =
     (if \<not> isValidForwardMessage msg_opt then (d, ed, [], Inl (Some RelayForwardInvalid, ErrForwardMessageInvalid))
      else let msg = the msg_opt
      in if maxPayloadSize > 0 \<and> int (length (MPayload msg)) > maxPayloadSize
         then (d, ed, [], Inl (Some RelayForwardTooLarge, ErrForwardMessageTooLarge))
         else if After now (MExpiresAt msg)
         then (d, ed, [], Inr \<lparr>Status = RelayForwardExpired, REnvelope = None\<rparr>)
         else forward_checked st es e now d ed sourceRelayID msg)"

definition PrepareForwardingEnvelope ::
  "'e EnvelopeStore option \<Rightarrow> engine_cfg \<Rightarrow> gotime \<Rightarrow> 'e \<Rightarrow> Message option \<Rightarrow> int \<Rightarrow> 'e \<times> (eng_err + Envelope)" where
  "PrepareForwardingEnvelope es e now ed msg_opt maxHops =
     (if \<not> isValidForwardMessage msg_opt then (ed, Inl ErrForwardMessageInvalid)
      else case persistEnvelopeState es ed (the msg_opt) (relayID e) of
             (ed1, Inl err) \<Rightarrow> (ed1, Inl (StoreErr err))
           | (ed1, Inr envelope) \<Rightarrow>
               if After now (EExpiresAt envelope) then (ed1, Inl (EnvelopeErrE ErrEnvelopeExpired))
               else let nextHop = s64 (ECurrentHopCount envelope + 1)
               in if maxHops > 0 \<and> nextHop > maxHops then (ed1, Inl (EnvelopeErrE ErrEnvelopeHopLimitExceeded))
                  else let envelope = envelope\<lparr>ECurrentHopCount := nextHop\<rparr>
                  in (case es of
                        None \<Rightarrow> (ed1, Inr envelope)
                      | Some ops \<Rightarrow>
                          (case ePersistEnvelope ops ed1 envelope of
                             (ed2, Inl err) \<Rightarrow> (ed2, Inl (StoreErr err))
                           | (ed2, Inr _) \<Rightarrow>
                               if relayID e = [] then (ed2, Inr envelope)
                               else (case eMarkSeen ops now ed2 (EID envelope) (relayID e) of
                                       (ed3, Inl err) \<Rightarrow> (ed3, Inl (StoreErr err))
                                     | (ed3, Inr _) \<Rightarrow> (ed3, Inr envelope)))))"

definition ReserveForwardingCandidate ::
  "'e EnvelopeStore option \<Rightarrow> gotime \<Rightarrow> 'e \<Rightarrow> string \<Rightarrow> string \<Rightarrow> 'e \<times> (serr + bool)" where
  "ReserveForwardingCandidate es now ed envelopeID relay = (case es of
     None \<Rightarrow> (ed, Inr True)
   | Some ops \<Rightarrow>
       if envelopeID = [] \<or> relay = [] then (ed, Inr True)
       else case eIsSeenBy ops ed envelopeID relay of
              Inl err \<Rightarrow> (ed, Inl err)
            | Inr seen \<Rightarrow>
                if seen then (ed, Inr False)
                else (case eMarkSeen ops now ed envelopeID relay of
                        (ed', Inl err) \<Rightarrow> (ed', Inl err)
                      | (ed', Inr _) \<Rightarrow> (ed', Inr True)))"

fun sweep_loop :: "'e EnvelopeStore \<Rightarrow> 'e \<Rightarrow> nat \<Rightarrow> Envelope list \<Rightarrow> 'e \<times> nat \<times> serr option" where
  "sweep_loop ops ed removed [] = (ed, removed, None)"
| "sweep_loop ops ed removed (env # rest) = (case eRemoveEnvelope ops ed (EID env) of
     (ed', Inl err) \<Rightarrow> (ed', removed, Some err)
   | (ed', Inr _) \<Rightarrow> sweep_loop ops ed' (Suc removed) rest)"

definition SweepExpiredEnvelopes :: "'e EnvelopeStore option \<Rightarrow> 'e \<Rightarrow> gotime \<Rightarrow> 'e \<times> nat \<times> serr option" where
  "SweepExpiredEnvelopes es ed before = (case es of
     None \<Rightarrow> (ed, 0, None)
   | Some ops \<Rightarrow> (case eGetExpiredEnvelopes ops ed before of
       Inl err \<Rightarrow> (ed, 0, Some err)
     | Inr expired \<Rightarrow> sweep_loop ops ed 0 expired))"

subsection \<open>Runs\<close>

text \<open>
  The operations the client, federation and sweep paths call on a federated engine, in any order, each
  at its own time; what a run makes observable is the ingest signals and the granted reservations.
\<close>

datatype engine_op =
    OpPersist Message
  | OpAck gotime string string
  | OpMarkDelivery gotime string string
  | OpForward gotime string "Message option" int
  | OpPrepare gotime "Message option" int
  | OpReserve gotime string string
  | OpSweep gotime
  | OpRemove string

datatype engine_event = IngestEmitted RelayIngestSignal | Reserved string string

fun engine_step :: "'d Store \<Rightarrow> 'e EnvelopeStore \<Rightarrow> engine_cfg \<Rightarrow> 'd \<times> 'e \<Rightarrow> engine_op \<Rightarrow> ('d \<times> 'e) \<times> engine_event list" where
  "engine_step st es e (d, ed) (OpPersist msg) =
     (let (d', ed', _) = EnginePersistMessage st (Some es) e d ed (Some msg) in ((d', ed'), []))"
| "engine_step st es e (d, ed) (OpAck now i q) = ((fst (AckClientDelivery st e now d i q), ed), [])"
| "engine_step st es e (d, ed) (OpMarkDelivery now i q) = ((fst (MarkDelivery st now d i q), ed), [])"
| "engine_step st es e (d, ed) (OpForward now src msg mx) =
     (let (d', ed', sigs, _) = AcceptRelayForward st (Some es) e now d ed src msg mx
      in ((d', ed'), map IngestEmitted sigs))"
| "engine_step st es e (d, ed) (OpPrepare now msg mx) =
     ((d, fst (PrepareForwardingEnvelope (Some es) e now ed msg mx)), [])"
| "engine_step st es e (d, ed) (OpReserve now i relay) =
     (let (ed', r) = ReserveForwardingCandidate (Some es) now ed i relay
      in ((d, ed'), if r = Inr True then [Reserved i relay] else []))"
| "engine_step st es e (d, ed) (OpSweep before) = ((d, fst (SweepExpiredEnvelopes (Some es) ed before)), [])"
| "engine_step st es e (d, ed) (OpRemove i) =
     ((case EngineRemoveMessage st d i of None \<Rightarrow> d | Some d' \<Rightarrow> d', ed), [])"

fun engine_run :: "'d Store \<Rightarrow> 'e EnvelopeStore \<Rightarrow> engine_cfg \<Rightarrow> 'd \<times> 'e \<Rightarrow> engine_op list \<Rightarrow> ('d \<times> 'e) \<times> engine_event list" where
  "engine_run st es e s [] = (s, [])"
| "engine_run st es e s (x # xs) =
     (let (s', evs) = engine_step st es e s x; (s'', evs') = engine_run st es e s' xs in (s'', evs @ evs'))"

subsection \<open>Things that happen at most once in a run\<close>

text \<open>
  An event that happens only while its mark is not set, and sets it, happens at most once in a run,
  and never after the mark is set.
\<close>

locale at_most_once =
  fixes st :: "'d Store" and es :: "'e EnvelopeStore" and e :: engine_cfg
    and marked :: "'e \<Rightarrow> bool" and hit :: "engine_event \<Rightarrow> bool"
  assumes mark_kept: "marked ed \<Longrightarrow> engine_step st es e (d, ed) x = ((d', ed'), evs) \<Longrightarrow> marked ed'"
    and mark_stops: "marked ed \<Longrightarrow> engine_step st es e (d, ed) x = ((d', ed'), evs) \<Longrightarrow> filter hit evs = []"
    and hit_marks: "engine_step st es e (d, ed) x = ((d', ed'), evs) \<Longrightarrow> filter hit evs \<noteq> [] \<Longrightarrow> marked ed'"
    and one_event: "engine_step st es e s x = (s', evs) \<Longrightarrow> length evs \<le> 1"
begin

lemma run_marked:
  "marked ed \<Longrightarrow> engine_run st es e (d, ed) xs = ((d', ed'), evs) \<Longrightarrow> marked ed' \<and> filter hit evs = []"
proof (induction xs arbitrary: d ed evs)
  case (Cons x xs)
  from Cons.prems(2) obtain d1 ed1 ev1 ev2 where s: "engine_step st es e (d, ed) x = ((d1, ed1), ev1)"
    and r: "engine_run st es e (d1, ed1) xs = ((d', ed'), ev2)" and evs: "evs = ev1 @ ev2"
    by (auto split: prod.splits)
  from Cons.IH [OF mark_kept [OF Cons.prems(1) s] r] mark_stops [OF Cons.prems(1) s] evs show ?case by simp
qed simp

lemma run_once: "engine_run st es e (d, ed) xs = ((d', ed'), evs) \<Longrightarrow> length (filter hit evs) \<le> 1"
proof (induction xs arbitrary: d ed evs)
  case (Cons x xs)
  from Cons.prems obtain d1 ed1 ev1 ev2 where s: "engine_step st es e (d, ed) x = ((d1, ed1), ev1)"
    and r: "engine_run st es e (d1, ed1) xs = ((d', ed'), ev2)" and evs: "evs = ev1 @ ev2"
    by (auto split: prod.splits)
  show ?case
  proof (cases "filter hit ev1 = []")
    case True
    with Cons.IH [OF r] evs show ?thesis by simp
  next
    case False
    from run_marked [OF hit_marks [OF s False] r] have "filter hit ev2 = []" by simp
    moreover have "length (filter hit ev1) \<le> 1" using one_event [OF s] length_filter_le order_trans by blast
    ultimately show ?thesis using evs by simp
  qed
qed simp

end

lemma forward_one_signal:
  "AcceptRelayForward st es e now d ed src m mx = (d', ed', sigs, r) \<Longrightarrow> length sigs \<le> 1"
  by (auto simp: AcceptRelayForward_def forward_checked_def forward_tail_def Let_def
      split: if_splits sum.splits prod.splits option.splits)

lemma step_one_event: "engine_step st es e s x = (s', evs) \<Longrightarrow> length evs \<le> 1"
proof (cases s; cases x)
  fix d ed now src m mx
  assume "engine_step st es e s x = (s', evs)" and "s = (d, ed)" and "x = OpForward now src m mx"
  then show ?thesis by (auto dest: forward_one_signal split: prod.splits)
qed (auto simp: Let_def split: prod.splits if_splits)

text \<open>What the operations do to the markers of the envelope store.\<close>

definition emitted :: "'e EnvelopeStore \<Rightarrow> string \<Rightarrow> 'e \<Rightarrow> bool" where
  "emitted es i ed \<longleftrightarrow> eIsRelayIngestEmitted es ed i = Inr True"

definition seen_by :: "'e EnvelopeStore \<Rightarrow> string \<Rightarrow> string \<Rightarrow> 'e \<Rightarrow> bool" where
  "seen_by es i q ed \<longleftrightarrow> eIsSeenBy es ed i q = Inr True"

context envelope_store
begin

lemmas keep_marks = emitted_def seen_by_def persist_emitted persist_seen remove_emitted remove_seen seen_emitted

lemma persistEnvelopeState_marks:
  assumes "persistEnvelopeState (Some ops) ed m o' = (ed', r)"
  shows "emitted ops i ed' = emitted ops i ed" and "seen_by ops i q ed' = seen_by ops i q ed"
  using assms
  by (auto simp: persistEnvelopeState_def Let_def keep_marks split: sum.splits prod.splits if_splits)

lemma persist_marks:
  assumes "ePersistEnvelope ops ed x = (ed', r)"
  shows "emitted ops i ed' = emitted ops i ed" and "seen_by ops i q ed' = seen_by ops i q ed"
  using assms by (auto simp: keep_marks)

lemma mark_seen_marks:
  assumes "eMarkSeen ops now ed j p = (ed', r)"
  shows "emitted ops i ed' = emitted ops i ed" and "seen_by ops i q ed \<Longrightarrow> seen_by ops i q ed'"
  using assms by (auto simp: keep_marks seen_mono)

lemma prepare_cases:
  assumes "PrepareForwardingEnvelope (Some ops) e now ed m mx = (ed', r)"
  obtains (unchanged) "ed' = ed"
    | (stored) r1 where "persistEnvelopeState (Some ops) ed (the m) (relayID e) = (ed', r1)"
    | (counted) r1 ed1 x r2 where "persistEnvelopeState (Some ops) ed (the m) (relayID e) = (ed1, r1)"
        and "ePersistEnvelope ops ed1 x = (ed', r2)"
    | (marked) r1 ed1 x r2 ed2 r3 where "persistEnvelopeState (Some ops) ed (the m) (relayID e) = (ed1, r1)"
        and "ePersistEnvelope ops ed1 x = (ed2, r2)" and "eMarkSeen ops now ed2 (EID x) (relayID e) = (ed', r3)"
  using assms
  by (auto simp: PrepareForwardingEnvelope_def Let_def split: sum.splits prod.splits if_splits)

lemma prepare_marks:
  assumes "PrepareForwardingEnvelope (Some ops) e now ed m mx = (ed', r)"
  shows "emitted ops i ed' = emitted ops i ed" and "seen_by ops i q ed \<Longrightarrow> seen_by ops i q ed'"
proof -
  have "emitted ops i ed' = emitted ops i ed \<and> (seen_by ops i q ed \<longrightarrow> seen_by ops i q ed')"
    using assms
  proof (cases rule: prepare_cases)
    case (stored r1)
    then show ?thesis by (simp add: persistEnvelopeState_marks)
  next
    case (counted r1 ed1 x r2)
    then show ?thesis by (simp add: persistEnvelopeState_marks persist_marks)
  next
    case (marked r1 ed1 x r2 ed2 r3)
    note m = persistEnvelopeState_marks [OF marked(1)] persist_marks [OF marked(2)] mark_seen_marks [OF marked(3)]
    then show ?thesis by simp
  qed simp
  then show "emitted ops i ed' = emitted ops i ed" and "seen_by ops i q ed \<Longrightarrow> seen_by ops i q ed'" by auto
qed

lemma reserve_marks:
  assumes "ReserveForwardingCandidate (Some ops) now ed j p = (ed', r)"
  shows "emitted ops i ed' = emitted ops i ed" and "seen_by ops i q ed \<Longrightarrow> seen_by ops i q ed'"
    and "j \<noteq> [] \<Longrightarrow> p \<noteq> [] \<Longrightarrow> r = Inr True \<Longrightarrow> \<not> seen_by ops j p ed \<and> seen_by ops j p ed'"
  using assms
  by (auto simp: ReserveForwardingCandidate_def seen_by_def emitted_def seen_emitted dest: seen_mono seen_set
      split: sum.splits prod.splits if_splits)

lemma sweep_loop_marks:
  assumes "sweep_loop ops ed n xs = (ed', r)"
  shows "emitted ops i ed' = emitted ops i ed" and "seen_by ops i q ed' = seen_by ops i q ed"
  using assms
  by (induction xs arbitrary: ed n) (auto simp: keep_marks split: sum.splits prod.splits)

lemma forward_tail_marks:
  assumes "forward_tail (Some ops) e now d ed src m ex sb = (d', ed', sigs, r)"
  shows "emitted ops i ed \<Longrightarrow> emitted ops i ed'" and "seen_by ops i q ed \<Longrightarrow> seen_by ops i q ed'"
    and "x \<in> set sigs \<Longrightarrow> \<not> emitted ops (SignalItemID x) ed \<and> emitted ops (SignalItemID x) ed'"
proof -
  obtain ed1 r1 where p: "persistEnvelopeState (Some ops) ed m src = (ed1, r1)" by fastforce
  note keep = persistEnvelopeState_marks [OF p]
  let ?mark = "eMarkSeenAndRelayIngestEmitted ops now ed1 (MID m) (relayIngestSeenRelayIDs src (relayID e))"
  have "(emitted ops i ed1 \<longrightarrow> emitted ops i ed') \<and> (seen_by ops i q ed1 \<longrightarrow> seen_by ops i q ed') \<and>
    (x \<in> set sigs \<longrightarrow> \<not> emitted ops (SignalItemID x) ed1 \<and> emitted ops (SignalItemID x) ed')"
  proof (cases r1)
    case (Inr env)
    obtain ed2 r2 where k: "?mark = (ed2, r2)" by fastforce
    show ?thesis
    proof (cases r2)
      case (Inr ch)
      with k p \<open>r1 = Inr env\<close> assms have "ed' = ed2"
        and "sigs = (if ch then [\<lparr>SignalItemID = MID m, Trusted = isAuthenticatedRelayContext src, SourceRelay = src\<rparr>] else [])"
        by (auto simp: forward_tail_def mark_ingest_def relayIngestItemID_def)
      with mark_new [of now ed1 "MID m" _ ed2 ch] mark_emitted [of now ed1 "MID m" _ ed2 ch] mark_mono [OF k] k Inr
      show ?thesis by (auto simp: emitted_def seen_by_def)
    next
      case (Inl err)
      with k p \<open>r1 = Inr env\<close> assms mark_failed [of now ed1 "MID m" _ ed2 err] show ?thesis
        by (auto simp: forward_tail_def mark_ingest_def relayIngestItemID_def)
    qed
  qed (use assms p in \<open>auto simp: forward_tail_def\<close>)
  with keep show "emitted ops i ed \<Longrightarrow> emitted ops i ed'" and "seen_by ops i q ed \<Longrightarrow> seen_by ops i q ed'"
    and "x \<in> set sigs \<Longrightarrow> \<not> emitted ops (SignalItemID x) ed \<and> emitted ops (SignalItemID x) ed'" by auto
qed

lemma forward_marks:
  assumes "AcceptRelayForward st (Some ops) e now d ed src m mx = (d', ed', sigs, r)"
  shows "emitted ops i ed \<Longrightarrow> emitted ops i ed'" and "seen_by ops i q ed \<Longrightarrow> seen_by ops i q ed'"
    and "x \<in> set sigs \<Longrightarrow> \<not> emitted ops (SignalItemID x) ed \<and> emitted ops (SignalItemID x) ed'"
proof -
  have "ed' = ed \<and> sigs = [] \<or>
      (\<exists>d1 ex sb. forward_tail (Some ops) e now d1 ed src (the m) ex sb = (d', ed', sigs, r))"
    using assms by (auto simp: AcceptRelayForward_def forward_checked_def Let_def
        split: if_splits sum.splits prod.splits)
  then show "emitted ops i ed \<Longrightarrow> emitted ops i ed'" and "seen_by ops i q ed \<Longrightarrow> seen_by ops i q ed'"
    and "x \<in> set sigs \<Longrightarrow> \<not> emitted ops (SignalItemID x) ed \<and> emitted ops (SignalItemID x) ed'"
    by (metis forward_tail_marks(1), metis forward_tail_marks(2), metis forward_tail_marks(3) empty_iff empty_set)
qed

lemma step_marks:
  assumes "engine_step st ops e (d, ed) x = ((d', ed'), evs)"
  shows "emitted ops i ed \<Longrightarrow> emitted ops i ed'" and "seen_by ops i q ed \<Longrightarrow> seen_by ops i q ed'"
proof -
  have "(emitted ops i ed \<longrightarrow> emitted ops i ed') \<and> (seen_by ops i q ed \<longrightarrow> seen_by ops i q ed')"
  proof (cases x)
    case (OpPersist m)
    with assms show ?thesis
      by (auto simp: EnginePersistMessage_def persistEnvelopeState_marks split: prod.splits sum.splits)
  next
    case (OpForward now src m mx)
    with assms forward_marks show ?thesis by (fastforce split: prod.splits)
  next
    case (OpPrepare now m mx)
    with assms prepare_marks [of e now ed m mx] show ?thesis
      by (cases "PrepareForwardingEnvelope (Some ops) e now ed m mx") auto
  next
    case (OpReserve now j p)
    with assms reserve_marks [of now ed j p] show ?thesis by (auto split: prod.splits)
  next
    case (OpSweep before)
    with assms show ?thesis
      by (cases "sweep_loop ops ed 0 (projr (eGetExpiredEnvelopes ops ed before))")
         (auto simp: SweepExpiredEnvelopes_def sweep_loop_marks split: sum.splits)
  qed (use assms in auto)
  then show "emitted ops i ed \<Longrightarrow> emitted ops i ed'" and "seen_by ops i q ed \<Longrightarrow> seen_by ops i q ed'" by auto
qed

end

definition is_ingest :: "string \<Rightarrow> engine_event \<Rightarrow> bool" where
  "is_ingest i ev = (case ev of IngestEmitted sig \<Rightarrow> SignalItemID sig = i | Reserved _ _ \<Rightarrow> False)"

definition is_grant :: "string \<Rightarrow> string \<Rightarrow> engine_event \<Rightarrow> bool" where
  "is_grant i relay ev \<longleftrightarrow> i \<noteq> [] \<and> relay \<noteq> [] \<and> ev = Reserved i relay"

context envelope_store
begin

lemma ingest_step:
  assumes "engine_step st ops e (d, ed) x = ((d', ed'), evs)" and "filter (is_ingest i) evs \<noteq> []"
  shows "\<not> emitted ops i ed \<and> emitted ops i ed'"
proof (cases x)
  case (OpForward now src m mx)
  with assms obtain sigs r where "AcceptRelayForward st (Some ops) e now d ed src m mx = (d', ed', sigs, r)"
    and "evs = map IngestEmitted sigs" by (auto split: prod.splits)
  with forward_marks(3) assms(2) show ?thesis by (fastforce simp: is_ingest_def filter_empty_conv)
qed (use assms in \<open>auto simp: Let_def is_ingest_def split: prod.splits if_splits\<close>)

lemma grant_step:
  assumes "engine_step st ops e (d, ed) x = ((d', ed'), evs)" and "filter (is_grant i relay) evs \<noteq> []"
  shows "\<not> seen_by ops i relay ed \<and> seen_by ops i relay ed'"
proof (cases x)
  case (OpReserve now j p)
  with assms have "ReserveForwardingCandidate (Some ops) now ed i relay = (ed', Inr True)" and "i \<noteq> []" "relay \<noteq> []"
    by (auto simp: is_grant_def filter_empty_conv split: prod.splits if_splits)
  with reserve_marks(3) show ?thesis by blast
qed (use assms in \<open>auto simp: Let_def is_grant_def filter_empty_conv split: prod.splits\<close>)

end

sublocale envelope_store \<subseteq> ingest: at_most_once st ops e "emitted ops i" "is_ingest i" for st :: "'d Store" and e i
  by unfold_locales (use step_marks(1) ingest_step step_one_event in \<open>fastforce\<close>)+

sublocale envelope_store \<subseteq> grant: at_most_once st ops e "seen_by ops i relay" "is_grant i relay"
  for st :: "'d Store" and e i relay
  by unfold_locales (use step_marks(2) grant_step step_one_event in \<open>fastforce\<close>)+

context envelope_store
begin

lemma ingest_once: "length (filter (is_ingest i) (snd (engine_run st ops e (d, ed) xs))) \<le> 1"
  by (metis ingest.run_once prod.collapse)

lemma grant_once: "length (filter (is_grant i relay) (snd (engine_run st ops e (d, ed) xs))) \<le> 1"
  by (metis grant.run_once prod.collapse)

lemma not_granted_again:
  assumes "seen_by ops i relay ed" and "i \<noteq> []" and "relay \<noteq> []"
  shows "Reserved i relay \<notin> set (snd (engine_run st ops e (d, ed) xs))"
proof -
  obtain d' ed' evs where r: "engine_run st ops e (d, ed) xs = ((d', ed'), evs)" by (metis prod.collapse)
  from grant.run_marked [OF assms(1) this] assms(2,3) have "Reserved i relay \<notin> set evs"
    by (auto simp: filter_empty_conv is_grant_def)
  with r show ?thesis by simp
qed

end

subsection \<open>Pull and ack\<close>

text \<open>The marker that suppresses an item for a delivery identity in the configured mode.\<close>

definition suppressed :: "'d Store \<Rightarrow> engine_cfg \<Rightarrow> string \<Rightarrow> string \<Rightarrow> 'd \<Rightarrow> bool" where
  "suppressed st e i q d \<longleftrightarrow>
     (if ackDrivenSuppression e then sIsAckedBy st d i q else sIsDeliveredTo st d i q) = Inr True"

lemma filter_pull_members:
  "filter_pull hidden ms = Inr ms' \<Longrightarrow> m \<in> set ms' \<longleftrightarrow> m \<in> set ms \<and> hidden (MID m) = Inr False"
  by (induction ms arbitrary: ms') (auto split: if_splits)

lemma filter_pull_cong:
  "(\<And>m. m \<in> set ms \<Longrightarrow> f (MID m) = g (MID m)) \<Longrightarrow> filter_pull f ms = filter_pull g ms"
  by (induction ms) auto

text \<open>Operations that do not remove the item (nor an id that could be taken for a prefix of its keys).\<close>

definition keeps_item :: "string \<Rightarrow> engine_op \<Rightarrow> bool" where
  "keeps_item i x = (case x of OpRemove j \<Rightarrow> j \<noteq> i \<and> NUL \<notin> set j | _ \<Rightarrow> True)"

context message_store
begin

lemma pull_leaves_out_suppressed:
  assumes "ok d" and "suppressed ops e i q d" and "PullForDeliveryIdentity ops e d q n = Inr ms" and "m \<in> set ms"
  shows "MID m \<noteq> i"
proof (cases "\<not> ackDrivenSuppression e \<and> q = QueueRecipient q")
  case True
  then have c: "\<not> ackDrivenSuppression e" "QueueRecipient q = q" by auto
  with assms(3) have "sGetQueuedMessages ops d q (NormalizePullLimit n) = Inr ms"
    by (simp add: PullForDeliveryIdentity_def)
  from fetch_undelivered [OF assms(1) this assms(4)] assms(2) c show ?thesis by (auto simp: suppressed_def)
next
  case False
  with assms show ?thesis by (auto simp: PullForDeliveryIdentity_def suppressed_def filter_pull_members)
qed

lemma ack_suppresses:
  assumes "AckClientDelivery ops e now d i q = (d', Inr ch)"
  shows "suppressed ops e i q d'"
  using assms acked_set delivered_set
  by (auto simp: AckClientDelivery_def suppressed_def split: if_splits sum.splits prod.splits)

lemma ack_cases:
  assumes "AckClientDelivery ops e now d i q = (d', r)"
  obtains "sMarkAcked ops now d i q = (d', r)" | "d' = d" | r' where "sMarkDelivered ops now d i q = (d', r')"
  using assms by (auto simp: AckClientDelivery_def split: if_splits sum.splits prod.splits)

lemma deliver_keeps:
  assumes "sMarkDelivered ops now d i q = (d', r)" and "suppressed ops e j p d"
  shows "suppressed ops e j p d'"
  using assms(2) deliver_acked [OF assms(1)] deliver_mono [OF assms(1)] by (simp add: suppressed_def split: if_splits)

lemma ack_keeps:
  assumes "AckClientDelivery ops e now d i q = (d', r)"
  shows "ok d \<Longrightarrow> ok d'" and "suppressed ops e j p d \<Longrightarrow> suppressed ops e j p d'"
proof -
  show "ok d \<Longrightarrow> ok d'" using ack_cases [OF assms] ack_ok deliver_ok by metis
  assume sup: "suppressed ops e j p d"
  from assms show "suppressed ops e j p d'"
  proof (cases rule: ack_cases)
    case 1
    with sup ack_mono [OF 1] ack_delivered [OF 1] show ?thesis by (simp add: suppressed_def split: if_splits)
  next
    case 3
    from deliver_keeps [OF 3 sup] show ?thesis .
  qed (use sup in simp)
qed

lemma forward_keeps:
  assumes "AcceptRelayForward ops es e now d ed src m mx = (d', ed', sigs, r)"
  shows "ok d \<Longrightarrow> ok d'" and "suppressed ops e j p d \<Longrightarrow> suppressed ops e j p d'"
proof -
  have "d' = d \<or> (\<exists>mo r. sPersistMessage ops d mo = (d', r))"
    using assms by (auto simp: AcceptRelayForward_def forward_checked_def forward_tail_def Let_def
        split: if_splits sum.splits prod.splits)
  then show "ok d \<Longrightarrow> ok d'" and "suppressed ops e j p d \<Longrightarrow> suppressed ops e j p d'"
    using persist_ok persist_marks by (auto simp: suppressed_def)
qed

lemma step_keeps:
  assumes "engine_step ops es e (d, ed) x = ((d', ed'), evs)" and "ok d" and "suppressed ops e i q d"
    and "keeps_item i x" and "NUL \<notin> set i"
  shows "ok d' \<and> suppressed ops e i q d'"
proof (cases x)
  case (OpPersist m)
  with assms(1) obtain r where "sPersistMessage ops d (Some m) = (d', r)"
    by (auto simp: EnginePersistMessage_def split: prod.splits sum.splits)
  with assms(2,3) persist_ok persist_marks show ?thesis by (auto simp: suppressed_def)
next
  case (OpAck now j p)
  with assms(1-3) show ?thesis using ack_keeps by (cases "AckClientDelivery ops e now d j p") auto
next
  case (OpMarkDelivery now j p)
  with assms(1-3) show ?thesis
    using deliver_keeps deliver_ok by (cases "sMarkDelivered ops now d j p") (auto simp: MarkDelivery_def)
next
  case (OpForward now src m mx)
  with assms(1) obtain sigs r where "AcceptRelayForward ops (Some es) e now d ed src m mx = (d', ed', sigs, r)"
    by (auto split: prod.splits)
  from forward_keeps [OF this] assms(2,3) show ?thesis by simp
next
  case (OpRemove j)
  show ?thesis
  proof (cases "sRemoveMessage ops d j")
    case (Some d1)
    with OpRemove assms(1,4) have "sRemoveMessage ops d j = Some d'" "j \<noteq> i" "NUL \<notin> set j"
      by (auto simp: EngineRemoveMessage_def keeps_item_def)
    with remove_ok remove_marks assms(2,3,5) show ?thesis by (auto simp: suppressed_def)
  qed (use OpRemove assms in \<open>auto simp: EngineRemoveMessage_def\<close>)
qed (use assms in \<open>auto simp: Let_def split: prod.splits\<close>)

lemma run_keeps:
  "engine_run ops es e (d, ed) xs = ((d', ed'), evs) \<Longrightarrow> ok d \<Longrightarrow> suppressed ops e i q d \<Longrightarrow>
   list_all (keeps_item i) xs \<Longrightarrow> NUL \<notin> set i \<Longrightarrow> ok d' \<and> suppressed ops e i q d'"
proof (induction xs arbitrary: d ed evs)
  case (Cons x xs)
  from Cons.prems(1) obtain d1 ed1 ev1 ev2 where s: "engine_step ops es e (d, ed) x = ((d1, ed1), ev1)"
    and r: "engine_run ops es e (d1, ed1) xs = ((d', ed'), ev2)" by (auto split: prod.splits)
  from step_keeps [OF s] Cons.prems(2-5) have "ok d1 \<and> suppressed ops e i q d1" by simp
  with Cons.IH [OF r] Cons.prems(4,5) show ?case by simp
qed simp

text \<open>The whole story of an acknowledged item.\<close>

lemma acked_never_pulled:
  assumes "ok d" and "AckClientDelivery ops e now d i q = (d1, Inr ch)"
    and "engine_run ops es e (d1, ed) xs = ((d2, ed'), evs)" and "list_all (keeps_item i) xs" and "NUL \<notin> set i"
    and "PullForDeliveryIdentity ops e d2 q n = Inr ms"
  shows "i \<notin> MID ` set ms"
proof -
  from run_keeps [OF assms(3) ack_keeps(1) [OF assms(2,1)] ack_suppresses [OF assms(2)] assms(4,5)]
  have "ok d2" and "suppressed ops e i q d2" by auto
  from pull_leaves_out_suppressed [OF this assms(6)] show ?thesis by auto
qed

lemma ack_leaves_others:
  assumes "ackDrivenSuppression e" and "AckClientDelivery ops e now d i q = (d', Inr ch)" and "NUL \<notin> set i"
    and "\<And>ms m. sGetQueuedMessagesRaw ops d (QueueRecipient p) (NormalizePullLimit n) = Inr ms \<Longrightarrow>
      m \<in> set ms \<Longrightarrow> NUL \<notin> set (MID m)" and "p \<noteq> q"
  shows "PullForDeliveryIdentity ops e d' p n = PullForDeliveryIdentity ops e d p n"
proof -
  have a: "sMarkAcked ops now d i q = (d', Inr ch)" using assms(1,2) by (simp add: AckClientDelivery_def)
  note raw = ack_queue [OF a, of "QueueRecipient p" "NormalizePullLimit n"]
  show ?thesis
  proof (cases "sGetQueuedMessagesRaw ops d (QueueRecipient p) (NormalizePullLimit n)")
    case (Inr ms)
    have "filter_pull (\<lambda>j. sIsAckedBy ops d' j p) ms = filter_pull (\<lambda>j. sIsAckedBy ops d j p) ms"
      using acked_other [OF a assms(3)] assms(4) [OF Inr] assms(5) by (intro filter_pull_cong) simp
    with assms(1) raw Inr show ?thesis by (simp add: PullForDeliveryIdentity_def)
  qed (use assms(1) raw in \<open>simp add: PullForDeliveryIdentity_def\<close>)
qed

end

subsection \<open>Accepted forwards and hop counts\<close>

lemma relayIngestSeenRelayIDs_set: "set (relayIngestSeenRelayIDs a b) = {a, b} - {[]}"
  by (auto simp: relayIngestSeenRelayIDs_def)

lemma forward_accepted:
  assumes "AcceptRelayForward st (Some es) e now d ed src (Some m) mx = (d', ed', sigs, Inr r)"
    and "Status r = RelayForwardAccepted"
  obtains ed1 env ch where "sPersistMessage st d (Some m) = (d', Inr ())"
    and "persistEnvelopeState (Some es) ed m src = (ed1, Inr env)"
    and "eMarkSeenAndRelayIngestEmitted es now ed1 (MID m) (relayIngestSeenRelayIDs src (relayID e)) = (ed', Inr ch)"
  using assms
  by (auto simp: AcceptRelayForward_def forward_checked_def forward_tail_def mark_ingest_def relayIngestItemID_def Let_def
      split: if_splits sum.splits prod.splits)

definition stored_hops :: "'e EnvelopeStore \<Rightarrow> 'e \<Rightarrow> string \<Rightarrow> int" where
  "stored_hops es ed i = (case eGetEnvelopeByID es ed i of Inr x \<Rightarrow> ECurrentHopCount x | Inl _ \<Rightarrow> 0)"

lemma persistEnvelopeState_hops:
  "persistEnvelopeState (Some es) ed m o' = (ed', Inr env) \<Longrightarrow> ECurrentHopCount env = stored_hops es ed (MID m)"
  by (auto simp: persistEnvelopeState_def Let_def stored_hops_def fill_origin_def envelopeFromMessage_def
      split: sum.splits prod.splits if_splits)

lemma prepare_ok:
  assumes "PrepareForwardingEnvelope (Some es) e now ed (Some m) mx = (ed', Inr env)"
  obtains ed1 env1 ed2 where "persistEnvelopeState (Some es) ed m (relayID e) = (ed1, Inr env1)"
    and "env = env1\<lparr>ECurrentHopCount := s64 (ECurrentHopCount env1 + 1)\<rparr>" and "\<not> After now (EExpiresAt env)"
    and "mx > 0 \<longrightarrow> ECurrentHopCount env \<le> mx" and "ePersistEnvelope es ed1 env = (ed2, Inr ())"
    and "ed' = ed2 \<or> (\<exists>r. eMarkSeen es now ed2 (EID env) (relayID e) = (ed', r))"
  using assms
  by (auto simp: PrepareForwardingEnvelope_def Let_def split: if_splits sum.splits prod.splits)

context envelope_store
begin

lemma accepted_envelope:
  assumes "persistEnvelopeState (Some ops) ed m src = (ed1, Inr env)"
    and "eGetEnvelopeByID ops ed (MID m) = Inl (NotFound x)" and "envelope_fits (envelopeFromMessage m src)"
    and "eMarkSeenAndRelayIngestEmitted ops now ed1 (MID m) relays = (ed2, Inr ch)"
  shows "eGetEnvelopeByID ops ed2 (MID m) = Inr (stored_envelope (envelopeFromMessage m src))"
proof -
  have "fill_origin (envelopeFromMessage m src) src = envelopeFromMessage m src"
    by (simp add: fill_origin_def envelopeFromMessage_def)
  with assms(1,2) have "ePersistEnvelope ops ed (envelopeFromMessage m src) = (ed1, Inr ())"
    by (auto simp: persistEnvelopeState_def isNotFoundErr_def Let_def split: sum.splits prod.splits)
  from get_persisted [OF this assms(3)] show ?thesis
    by (simp add: mark_get [OF assms(4)] envelopeFromMessage_def)
qed

lemma prepared_hops:
  assumes "PrepareForwardingEnvelope (Some ops) e now ed (Some m) mx = (ed', Inr env)"
  shows "ECurrentHopCount env = s64 (stored_hops ops ed (MID m) + 1)" and "\<not> After now (EExpiresAt env)"
    and "mx > 0 \<Longrightarrow> ECurrentHopCount env \<le> mx"
    and "envelope_fits env \<Longrightarrow> stored_hops ops ed' (EID env) = ECurrentHopCount env"
proof -
  from prepare_ok [OF assms] obtain ed1 env1 ed2
    where p: "persistEnvelopeState (Some ops) ed m (relayID e) = (ed1, Inr env1)"
    and env: "env = env1\<lparr>ECurrentHopCount := s64 (ECurrentHopCount env1 + 1)\<rparr>"
    and ex: "\<not> After now (EExpiresAt env)" and mx: "mx > 0 \<longrightarrow> ECurrentHopCount env \<le> mx"
    and w: "ePersistEnvelope ops ed1 env = (ed2, Inr ())"
    and ed': "ed' = ed2 \<or> (\<exists>r. eMarkSeen ops now ed2 (EID env) (relayID e) = (ed', r))" .
  show "ECurrentHopCount env = s64 (stored_hops ops ed (MID m) + 1)"
    using persistEnvelopeState_hops [OF p] by (simp add: env)
  show "\<not> After now (EExpiresAt env)" by (rule ex)
  show "mx > 0 \<Longrightarrow> ECurrentHopCount env \<le> mx" using mx by blast
  assume "envelope_fits env"
  with get_persisted [OF w] ed' seen_get have "eGetEnvelopeByID ops ed' (EID env) = Inr (stored_envelope env)" by metis
  then show "stored_hops ops ed' (EID env) = ECurrentHopCount env" by (simp add: stored_hops_def stored_envelope_def)
qed

lemma prepare_refused:
  assumes "0 < mx" and "mx \<le> stored_hops ops ed (MID m)" and "stored_hops ops ed (MID m) < 65536"
  shows "\<not> is_ok (snd (PrepareForwardingEnvelope (Some ops) e now ed (Some m) mx))"
proof
  assume "is_ok (snd (PrepareForwardingEnvelope (Some ops) e now ed (Some m) mx))"
  then obtain ed' env where "PrepareForwardingEnvelope (Some ops) e now ed (Some m) mx = (ed', Inr env)"
    by (cases "PrepareForwardingEnvelope (Some ops) e now ed (Some m) mx") (auto simp: is_ok_def split: sum.splits)
  from prepared_hops(1,3) [OF this] assms show False by (simp add: s64_id fits64_def)
qed

end

context bolt
begin

lemma persist_env_succeeds:
  assumes "Validate e = Inr ()" and "key_ok (EID e)" and "value_ok (EncodeEnvelopeRecord e)" and "value_ok (EID e)"
    and "key_ok (DestinationIndexKey (EDestinationID e) (EID e))" and "key_ok (ExpiryIndexKey lo (EExpiresAt e) (EID e))"
  shows "\<exists>db'. PersistEnvelope api lo db e = (db', Inr ())"
proof -
  let ?db = "drop_stale_indexes api lo db e"
  have "value_ok (encodeUnixNano x)" for x by (simp add: encodeUnixNano_def value_ok_def)
  with assms obtain a b c d where
    "put_in api (BucketEnvelopes ?db) (EID e) (EncodeEnvelopeRecord e) ''envelopes'' = Inr a"
    "put_in api (BucketByDestination ?db) (DestinationIndexKey (EDestinationID e) (EID e)) (EID e) ''destination'' = Inr b"
    "put_in api (BucketByExpiry ?db) (ExpiryIndexKey lo (EExpiresAt e) (EID e)) (EID e) ''expiry'' = Inr c"
    "put_in api (BucketEnvelopeExpiry ?db) (EID e) (encodeUnixNano (UnixNano (toUTC (EExpiresAt e)))) ''envelope_expiry'' = Inr d"
    by (meson put_in_ok)
  with assms(1) show ?thesis by (simp add: PersistEnvelope_def Let_def db_update_def)
qed

lemma seen_loop_succeeds:
  assumes "\<And>q. q \<in> set qs \<Longrightarrow> key_ok (SeenKey j q)" and "value_ok stamp"
  shows "\<exists>b'. seen_loop api stamp j b qs = Inr b'"
  using assms(1)
proof (induction qs arbitrary: b)
  case (Cons q qs)
  then show ?case using put_in_ok [of "SeenKey j q" stamp b "''seen''"] assms(2) by fastforce
qed simp

lemma mark_ingest_succeeds:
  assumes "\<forall>q \<in> set qs. key_ok (SeenKey j q)" and "key_ok j" and "value_ok (rfc3339nano lo now)"
  shows "\<exists>db' ch. MarkSeenAndRelayIngestEmitted api lo now db j qs = (db', Inr ch)"
proof -
  obtain seen where "seen_loop api (rfc3339nano lo now) j (BucketSeen db) qs = Inr seen"
    using seen_loop_succeeds assms(1,3) by blast
  moreover obtain b where "put_in api (BucketRelayIngest db) (RelayIngestKey j) (rfc3339nano lo now) ''ingest'' = Inr b"
    using put_in_ok assms(2,3) by (metis RelayIngestKey_def)
  moreover have "j \<noteq> []" using assms(2) by (auto simp: key_ok_def)
  ultimately show ?thesis by (auto simp: MarkSeenAndRelayIngestEmitted_def db_update_def)
qed

end

subsection \<open>Properties\<close>

text \<open>
  Claim C9. Once a client's acknowledgement of an item is recorded, no later pull of that delivery
  identity returns the item, in either suppression mode, whatever the engine does in between (sends,
  acks, deliveries, forwards, reservations, sweeps, removals of other items).
\<close>

theorem acked_item_never_pulled:
  assumes "bolt api" and "msg_ids_ok api d" and "NUL \<notin> set i"
    and "AckClientDelivery (bbolt_store api lo) e now d i q = (d1, Inr ch)"
    and "list_all (keeps_item i) xs"
    and "PullForDeliveryIdentity (bbolt_store api lo) e
      (fst (fst (engine_run (bbolt_store api lo) (bbolt_envelope_store api lo) e (d1, ed) xs))) q n = Inr ms"
  shows "i \<notin> MID ` set ms"
proof -
  obtain d2 ed2 evs where run: "engine_run (bbolt_store api lo) (bbolt_envelope_store api lo) e (d1, ed) xs = ((d2, ed2), evs)"
    by (metis prod.collapse)
  show ?thesis
    using message_store.acked_never_pulled [OF bolt.message_store_contract [OF assms(1)] assms(2,4) run assms(5,3)]
      assms(6) run by simp
qed

definition sample_cfg :: engine_cfg where
  "sample_cfg = \<lparr>relayID = ''relay-b'', maxTTL = 3600 * second, ackDrivenSuppression = True\<rparr>"

lemma half_delivered_ids: "msg_ids_ok mem_bolt half_delivered"
proof -
  have "DecodeMessage (EncodeMessage sample_message) = Inr (stored_message sample_message)"
    "DecodeMessage (EncodeMessage later_message) = Inr (stored_message later_message)"
    by (rule DecodeMessage_EncodeMessage, simp add: message_fits_def sample_message_def later_message_def)+
  then show ?thesis
    by (auto simp: msg_ids_ok_def half_delivered_def mem_bolt_def mem_get_def stored_message_def sample_message_def
        later_message_def split: if_splits)
qed

lemma pull_returns: "\<exists>ms. PullForDeliveryIdentity (bbolt_store api lo) e d q n = Inr ms"
proof -
  have "\<exists>ms. filter_pull (\<lambda>j. if ackDrivenSuppression e then IsAckedBy api d j q else IsDeliveredTo api d j q) xs = Inr ms" for xs
    by (induction xs) (auto simp: IsAckedBy_def IsDeliveredTo_def)
  then show ?thesis by (auto simp: PullForDeliveryIdentity_def GetQueuedMessagesRaw_def GetQueuedMessages_def Let_def)
qed

theorem acked_item_never_pulled_witness:
  "\<exists>d1 ms. AckClientDelivery (bbolt_store mem_bolt (\<lambda>_. 0)) sample_cfg zero_time half_delivered ''m1'' ''bob'' = (d1, Inr True) \<and>
     PullForDeliveryIdentity (bbolt_store mem_bolt (\<lambda>_. 0)) sample_cfg
       (fst (fst (engine_run (bbolt_store mem_bolt (\<lambda>_. 0)) (bbolt_envelope_store mem_bolt (\<lambda>_. 0)) sample_cfg
          (d1, new_env_db mem_bolt) [OpMarkDelivery zero_time ''m2'' ''bob'']))) ''bob'' 10 = Inr ms \<and>
     ''m1'' \<notin> MID ` set ms"
proof -
  obtain d1 where a: "AckClientDelivery (bbolt_store mem_bolt (\<lambda>_. 0)) sample_cfg zero_time half_delivered ''m1'' ''bob'' = (d1, Inr True)"
    by (simp add: AckClientDelivery_def sample_cfg_def MarkAcked_def half_delivered_def open_msg_db_def put_in_def
        mem_bolt_def mem_get_def key_ok_def EncodeDeliveryKey_def db_update_def mem.value_ok_Marshal)
  obtain ms where p: "PullForDeliveryIdentity (bbolt_store mem_bolt (\<lambda>_. 0)) sample_cfg
       (fst (fst (engine_run (bbolt_store mem_bolt (\<lambda>_. 0)) (bbolt_envelope_store mem_bolt (\<lambda>_. 0)) sample_cfg
          (d1, new_env_db mem_bolt) [OpMarkDelivery zero_time ''m2'' ''bob'']))) ''bob'' 10 = Inr ms"
    using pull_returns by blast
  from acked_item_never_pulled [OF mem_bolt_laws half_delivered_ids _ a _ p] a p show ?thesis
    by (auto simp: keeps_item_def)
qed

text \<open>
  Claim C10. A relay-ingest signal is emitted at most once per item, over any sequence of operations
  of a federated engine: duplicates, loops, removals and sweeps in between do not emit it again.
\<close>

theorem relay_ingest_emitted_once:
  assumes "bolt api"
  shows "length (filter (is_ingest i) (snd (engine_run (bbolt_store api lo) (bbolt_envelope_store api lo) e (d, ed) xs))) \<le> 1"
  by (rule envelope_store.ingest_once [OF bolt.envelope_store_contract [OF assms]])

theorem relay_ingest_emitted_once_witness:
  "length (filter (is_ingest ''m1'') (snd (engine_run (bbolt_store mem_bolt (\<lambda>_. 0)) (bbolt_envelope_store mem_bolt (\<lambda>_. 0))
     sample_cfg (open_msg_db mem_bolt, new_env_db mem_bolt)
     [OpForward (MCreatedAt sample_message) ''relay-a'' (Some sample_message) 0, OpRemove ''m1'',
      OpForward (MCreatedAt sample_message) ''relay-c'' (Some sample_message) 0]))) \<le> 1"
  by (rule relay_ingest_emitted_once [OF mem_bolt_laws])

text \<open>
  Claim C21. An envelope with a non-empty id is reserved for a given relay, also with a non-empty id, at
  most once, over any sequence of operations that run one after the other: no two forwarding rounds get
  the same pair of envelope and relay. (With an empty id the code always answers true.)
\<close>

theorem forwarding_reserved_once:
  assumes "bolt api"
  shows "length (filter (is_grant i relay) (snd (engine_run (bbolt_store api lo) (bbolt_envelope_store api lo) e (d, ed) xs))) \<le> 1"
  by (rule envelope_store.grant_once [OF bolt.envelope_store_contract [OF assms]])

theorem forwarding_reserved_once_witness:
  "length (filter (is_grant ''e1'' ''relay-a'') (snd (engine_run (bbolt_store mem_bolt (\<lambda>_. 0)) (bbolt_envelope_store mem_bolt (\<lambda>_. 0))
     sample_cfg (open_msg_db mem_bolt, new_env_db mem_bolt)
     [OpReserve zero_time ''e1'' ''relay-a'', OpReserve zero_time ''e1'' ''relay-a'']))) \<le> 1"
  by (rule forwarding_reserved_once [OF mem_bolt_laws])

lemma accepted_id_nonempty:
  "AcceptRelayForward st es e now d ed src (Some m) mx = (d', ed', sigs, Inr r) \<Longrightarrow> MID m \<noteq> []"
  by (auto simp: AcceptRelayForward_def isValidForwardMessage_def split: if_splits)

text \<open>
  Claim C20. Take a message whose id, sender, recipient and payload are each shorter than 65536 bytes (the
  record format has 16-bit lengths), whose envelope fits its record (origin shorter than 65536 bytes, payload
  below 4 GiB, creation and expiry within the 64-bit nanosecond range), and whose id has no stored envelope
  yet. When AcceptRelayForward reports it as accepted, it is durable: the message can be read, a fresh
  envelope with hop count zero and the sender as origin is stored, the item is marked seen by the sending
  and by this relay, and the ingest marker is set. It is not offered back: whatever operations of the engine
  follow, none reserves the item for the sending relay or for this one.
\<close>

theorem accepted_forward_is_durable:
  assumes "bolt api" and "message_fits m" and "envelope_fits (envelopeFromMessage m src)"
    and "GetEnvelopeByID api ed (MID m) = Inl (NotFound x)"
    and "AcceptRelayForward (bbolt_store api lo) (Some (bbolt_envelope_store api lo)) e now d ed src (Some m) mx =
      (d', ed', sigs, Inr r)" and "Status r = RelayForwardAccepted"
  shows "GetMessageByID api d' (MID m) = Inr (stored_message m) \<and>
    GetEnvelopeByID api ed' (MID m) = Inr (stored_envelope (envelopeFromMessage m src)) \<and>
    (\<forall>relay \<in> {src, relayID e} - {[]}. IsSeenBy api ed' (MID m) relay = Inr True \<and>
       (\<forall>xs. Reserved (MID m) relay \<notin>
          set (snd (engine_run (bbolt_store api lo) (bbolt_envelope_store api lo) e (d', ed') xs)))) \<and>
    IsRelayIngestEmitted api ed' (MID m) = Inr True"
proof -
  note ms = bolt.message_store_contract [OF assms(1), of lo]
  note es = bolt.envelope_store_contract [OF assms(1), of lo]
  from forward_accepted [OF assms(5,6)] obtain ed1 env ch
    where p: "sPersistMessage (bbolt_store api lo) d (Some m) = (d', Inr ())"
    and s: "persistEnvelopeState (Some (bbolt_envelope_store api lo)) ed m src = (ed1, Inr env)"
    and k: "eMarkSeenAndRelayIngestEmitted (bbolt_envelope_store api lo) now ed1 (MID m)
        (relayIngestSeenRelayIDs src (relayID e)) = (ed', Inr ch)" .
  have "GetMessageByID api d' (MID m) = Inr (stored_message m)"
    using message_store.get_persisted [OF ms p assms(2)] by simp
  moreover have "GetEnvelopeByID api ed' (MID m) = Inr (stored_envelope (envelopeFromMessage m src))"
    using envelope_store.accepted_envelope [OF es s _ assms(3) k] assms(4) by simp
  moreover have "IsSeenBy api ed' (MID m) relay = Inr True \<and> Reserved (MID m) relay \<notin>
      set (snd (engine_run (bbolt_store api lo) (bbolt_envelope_store api lo) e (d', ed') xs))"
    if "relay \<in> {src, relayID e} - {[]}" for relay xs
  proof
    show seen: "IsSeenBy api ed' (MID m) relay = Inr True"
      using envelope_store.mark_seen [OF es k] that by (auto simp: relayIngestSeenRelayIDs_set)
    show "Reserved (MID m) relay \<notin> set (snd (engine_run (bbolt_store api lo) (bbolt_envelope_store api lo) e (d', ed') xs))"
      using envelope_store.not_granted_again [OF es] seen that accepted_id_nonempty [OF assms(5)]
      by (fastforce simp: seen_by_def)
  qed
  moreover have "IsRelayIngestEmitted api ed' (MID m) = Inr True"
    using envelope_store.mark_emitted [OF es k, of "MID m"] by simp
  ultimately show ?thesis by blast
qed

lemma sample_forward:
  "\<exists>d' ed' sigs r. AcceptRelayForward (bbolt_store mem_bolt (\<lambda>_. 0)) (Some (bbolt_envelope_store mem_bolt (\<lambda>_. 0))) sample_cfg
     (MCreatedAt sample_message) (open_msg_db mem_bolt) (new_env_db mem_bolt) ''relay-a'' (Some sample_message) 100 =
     (d', ed', sigs, Inr r) \<and> Status r = RelayForwardAccepted"
proof -
  obtain d' where p: "PersistMessage mem_bolt (\<lambda>_. 0) (open_msg_db mem_bolt) (Some sample_message) = (d', Inr ())"
    using mem.persist_succeeds [OF sample_storable] by blast
  have v: "isValidForwardMessage (Some sample_message)" "MID sample_message = ''m1''" "MPayload sample_message = ''aGk''"
    "\<not> After (MCreatedAt sample_message) (MExpiresAt sample_message)"
    by (simp_all add: isValidForwardMessage_def sample_message_def IsZero_def zero_time_def After_def)
  have n: "GetMessageByID mem_bolt (open_msg_db mem_bolt) ''m1'' = Inl (NotFound ''m1'')"
    "IsSeenBy mem_bolt (new_env_db mem_bolt) ''m1'' ''relay-a'' = Inr False"
    "GetEnvelopeByID mem_bolt (new_env_db mem_bolt) ''m1'' = Inl (NotFound ''m1'')"
    by (simp_all add: GetMessageByID_def IsSeenBy_def GetEnvelopeByID_def open_msg_db_def new_env_db_def mem_bolt_def mem_get_def)
  have f: "fill_origin (envelopeFromMessage sample_message ''relay-a'') ''relay-a'' = envelopeFromMessage sample_message ''relay-a''"
    by (simp add: fill_origin_def envelopeFromMessage_def)
  obtain ed1 where pe: "PersistEnvelope mem_bolt (\<lambda>_. 0) (new_env_db mem_bolt) (envelopeFromMessage sample_message ''relay-a'') = (ed1, Inr ())"
    using mem.persist_env_succeeds [of "envelopeFromMessage sample_message ''relay-a''" "\<lambda>_. 0" "new_env_db mem_bolt"]
    by (simp add: Validate_def envelopeFromMessage_def sample_message_def IsZero_def zero_time_def Before_def key_ok_def
        value_ok_def EncodeEnvelopeRecord_def put_string16_def key_defs format_defs dec_digits.simps)
      blast
  obtain ed' ch where m: "MarkSeenAndRelayIngestEmitted mem_bolt (\<lambda>_. 0) (MCreatedAt sample_message) ed1 ''m1''
      (relayIngestSeenRelayIDs ''relay-a'' ''relay-b'') = (ed', Inr ch)"
    using mem.mark_ingest_succeeds [of "relayIngestSeenRelayIDs ''relay-a'' ''relay-b''" "''m1''" "\<lambda>_. 0" "MCreatedAt sample_message" ed1]
    by (auto simp: relayIngestSeenRelayIDs_set key_ok_def value_ok_def sample_message_def key_defs format_defs dec_digits.simps)
  show ?thesis
    by (simp add: AcceptRelayForward_def v forward_checked_def n isNotFoundErr_def p forward_tail_def persistEnvelopeState_def mark_ingest_def
       f pe relayIngestItemID_def sample_cfg_def m)
qed

theorem accepted_forward_is_durable_witness:
  "\<exists>d' ed' sigs r. AcceptRelayForward (bbolt_store mem_bolt (\<lambda>_. 0)) (Some (bbolt_envelope_store mem_bolt (\<lambda>_. 0))) sample_cfg
     (MCreatedAt sample_message) (open_msg_db mem_bolt) (new_env_db mem_bolt) ''relay-a'' (Some sample_message) 100 =
     (d', ed', sigs, Inr r) \<and> GetMessageByID mem_bolt d' ''m1'' = Inr (stored_message sample_message) \<and>
     IsSeenBy mem_bolt ed' ''m1'' ''relay-a'' = Inr True \<and>
     Reserved ''m1'' ''relay-a'' \<notin> set (snd (engine_run (bbolt_store mem_bolt (\<lambda>_. 0)) (bbolt_envelope_store mem_bolt (\<lambda>_. 0))
       sample_cfg (d', ed') [OpReserve zero_time ''m1'' ''relay-a'']))"
proof -
  have i: "MID sample_message = ''m1''" "message_fits sample_message"
    "envelope_fits (envelopeFromMessage sample_message ''relay-a'')"
    by (simp_all add: sample_message_def message_fits_def envelope_fits_def envelopeFromMessage_def fits64_def)
  have n: "GetEnvelopeByID mem_bolt (new_env_db mem_bolt) (MID sample_message) = Inl (NotFound ''m1'')"
    by (simp add: i(1) GetEnvelopeByID_def new_env_db_def mem_bolt_def mem_get_def)
  from sample_forward obtain d' ed' sigs r where f: "AcceptRelayForward (bbolt_store mem_bolt (\<lambda>_. 0))
     (Some (bbolt_envelope_store mem_bolt (\<lambda>_. 0))) sample_cfg (MCreatedAt sample_message) (open_msg_db mem_bolt)
     (new_env_db mem_bolt) ''relay-a'' (Some sample_message) 100 = (d', ed', sigs, Inr r)"
    and a: "Status r = RelayForwardAccepted" by blast
  from accepted_forward_is_durable [OF mem_bolt_laws i(2,3) n f a] f i(1) show ?thesis
    by (intro exI [of _ d'] exI [of _ ed'] exI [of _ sigs] exI [of _ r]) (simp del: engine_run.simps)
qed

text \<open>
  Claim C22. Preparing an envelope for the next hop counts exactly one hop more than the store has,
  never beyond the configured maximum and never for an expired envelope; the new count is what the
  store has afterwards, and once the stored count has reached the maximum every further attempt is
  refused.
\<close>

theorem forwarding_hops_bounded:
  assumes "bolt api" and "0 < mx"
    and "PrepareForwardingEnvelope (Some (bbolt_envelope_store api lo)) e now ed (Some m) mx = (ed', r)"
  shows "case r of
     Inr env \<Rightarrow> ECurrentHopCount env = s64 (stored_hops (bbolt_envelope_store api lo) ed (MID m) + 1) \<and>
       ECurrentHopCount env \<le> mx \<and> \<not> After now (EExpiresAt env) \<and>
       (envelope_fits env \<longrightarrow> stored_hops (bbolt_envelope_store api lo) ed' (EID env) = ECurrentHopCount env) \<and>
       (stored_hops (bbolt_envelope_store api lo) ed (MID m) < 65536 \<longrightarrow>
         stored_hops (bbolt_envelope_store api lo) ed (MID m) < mx)
   | Inl _ \<Rightarrow> True"
proof (cases r)
  case (Inr env)
  note es = bolt.envelope_store_contract [OF assms(1), of lo]
  from envelope_store.prepared_hops [OF es assms(3) [unfolded Inr]] assms(2)
    envelope_store.prepare_refused [OF es assms(2), of ed m e now] assms(3) Inr
  show ?thesis by fastforce
qed simp

lemma sample_envelope_storable:
  "\<exists>ed'. PersistEnvelope mem_bolt (\<lambda>_. 0) ed ((envelopeFromMessage sample_message relay)\<lparr>ECurrentHopCount := h\<rparr>) = (ed', Inr ())"
  if "length relay < 100"
  using mem.persist_env_succeeds [of "(envelopeFromMessage sample_message relay)\<lparr>ECurrentHopCount := h\<rparr>" "\<lambda>_. 0" ed] that
  by (simp add: Validate_def envelopeFromMessage_def sample_message_def IsZero_def zero_time_def Before_def key_ok_def
      value_ok_def EncodeEnvelopeRecord_def put_string16_def key_defs format_defs dec_digits.simps)

theorem forwarding_hops_bounded_witness:
  "\<exists>ed' env. PrepareForwardingEnvelope (Some (bbolt_envelope_store mem_bolt (\<lambda>_. 0))) sample_cfg (MCreatedAt sample_message)
     (new_env_db mem_bolt) (Some sample_message) 8 = (ed', Inr env) \<and> ECurrentHopCount env = 1"
proof -
  let ?es = "bbolt_envelope_store mem_bolt (\<lambda>_. 0)" and ?ed = "new_env_db mem_bolt"
  have v: "isValidForwardMessage (Some sample_message)" "MID sample_message = ''m1''"
    by (simp_all add: isValidForwardMessage_def sample_message_def IsZero_def zero_time_def)
  have n: "GetEnvelopeByID mem_bolt ?ed ''m1'' = Inl (NotFound ''m1'')"
    by (simp add: GetEnvelopeByID_def new_env_db_def mem_bolt_def mem_get_def)
  have x: "envelopeFromMessage sample_message ''relay-b'' =
      (envelopeFromMessage sample_message ''relay-b'')\<lparr>ECurrentHopCount := 0\<rparr>"
    "EOriginRelayID (envelopeFromMessage sample_message ''relay-b'') = ''relay-b''"
    "\<not> After (MCreatedAt sample_message) (EExpiresAt (envelopeFromMessage sample_message ''relay-b''))"
    "EID (envelopeFromMessage sample_message ''relay-b'') = ''m1''"
    "ECurrentHopCount (envelopeFromMessage sample_message ''relay-b'') = 0"
    by (simp_all add: envelopeFromMessage_def After_def sample_message_def)
  obtain ed1 where p1: "PersistEnvelope mem_bolt (\<lambda>_. 0) ?ed (envelopeFromMessage sample_message ''relay-b'') = (ed1, Inr ())"
    using sample_envelope_storable [of "''relay-b''" ?ed 0] by (simp add: x(1) [symmetric]) blast
  obtain ed2 where p2: "PersistEnvelope mem_bolt (\<lambda>_. 0) ed1
      ((envelopeFromMessage sample_message ''relay-b'')\<lparr>ECurrentHopCount := 1\<rparr>) = (ed2, Inr ())"
    using sample_envelope_storable [of "''relay-b''" ed1 1] by auto
  obtain ed3 where p3: "MarkSeen mem_bolt (\<lambda>_. 0) (MCreatedAt sample_message) ed2 ''m1'' ''relay-b'' = (ed3, Inr ())"
    by (simp add: MarkSeen_def put_in_def mem_bolt_def key_ok_def value_ok_def key_defs sample_message_def db_update_def
        format_defs dec_digits.simps)
  have r: "PrepareForwardingEnvelope (Some ?es) sample_cfg (MCreatedAt sample_message) ?ed (Some sample_message) 8 =
     (ed3, Inr ((envelopeFromMessage sample_message ''relay-b'')\<lparr>ECurrentHopCount := 1\<rparr>))"
    by (simp add: PrepareForwardingEnvelope_def persistEnvelopeState_def v n isNotFoundErr_def fill_origin_def x(2-)
        sample_cfg_def p1 p2 p3 s64_def)
  have h: "stored_hops ?es ?ed (MID sample_message) = 0" by (simp add: stored_hops_def v n)
  from forwarding_hops_bounded [OF mem_bolt_laws _ r] show ?thesis
    unfolding r using h by (simp add: s64_def)
qed

text \<open>
  The relay bounds the lifetime of what a client sends: the granted time to live is positive
  and at most the relay's maximum, it is the requested one when that lies in the range, and the
  message expires exactly that long after its creation.
\<close>

lemma client_send_ttl_bounded:
  assumes "0 < maxTTL e" and "AcceptClientSend env e now from to payload ttlSeconds = Some (msg, ttl)"
  shows "0 < ttl \<and> ttl \<le> maxTTL e \<and> MCreatedAt msg = now \<and> MExpiresAt msg = Add now ttl \<and>
    (0 < ttlSeconds \<and> ttlSeconds * second \<le> maxTTL e \<and> fits64 (maxTTL e) \<longrightarrow> ttl = ttlSeconds * second)"
  using assms by (auto simp: AcceptClientSend_def Let_def s64_id fits64_def split: if_splits)

end
