(* ===== verification/Registry.thy ===== *)
theory Registry
  imports Relay_Prelude
begin

text \<open>
  The registry of connected clients (\<open>ClientRegistry\<close> of \<^verbatim>\<open>internal/model/message.go\<close>): the goroutine
  \<open>Run\<close> takes registrations and disconnections from two channels and keeps two maps under one
  lock, so a run is a sequence of messages.  A client is known by its pointer, a number; its
  \<open>Send\<close> channel is closed when it is unregistered, and closing it twice is a panic.
\<close>

subsection \<open>State and messages\<close>

record Client =
  ptr :: nat
  WayfarerID :: string

record ClientRegistry =
  byID :: "string \<rightharpoonup> nat set"
  byConn :: "nat \<rightharpoonup> string"
  closedSend :: "nat set"

definition NewClientRegistry :: ClientRegistry where
  "NewClientRegistry = \<lparr>byID = Map.empty, byConn = Map.empty, closedSend = {}\<rparr>"

datatype registry_msg = Register Client | Unregister Client

definition register_client :: "ClientRegistry \<Rightarrow> Client \<Rightarrow> ClientRegistry" where
  "register_client r client =
     (let clients = (case byID r (WayfarerID client) of None \<Rightarrow> {} | Some s \<Rightarrow> s)
      in r\<lparr>byID := (byID r)(WayfarerID client \<mapsto> insert (ptr client) clients),
           byConn := (byConn r)(ptr client \<mapsto> WayfarerID client)\<rparr>)"

text \<open>\<open>None\<close> is the panic of \<open>close(client.Send)\<close> on a closed channel.\<close>

definition unregister_client :: "ClientRegistry \<Rightarrow> Client \<Rightarrow> ClientRegistry option" where
  "unregister_client r client = (case byConn r (ptr client) of
     None \<Rightarrow> Some r
   | Some wayfarerID \<Rightarrow>
       (case byID r wayfarerID of
          None \<Rightarrow> Some (r\<lparr>byConn := (byConn r)(ptr client := None)\<rparr>)
        | Some clients \<Rightarrow>
            if ptr client \<notin> clients then Some (r\<lparr>byConn := (byConn r)(ptr client := None)\<rparr>)
            else if ptr client \<in> closedSend r then None
            else let rest = clients - {ptr client}
                 in Some \<lparr>byID = (byID r)(wayfarerID := (if rest = {} then None else Some rest)),
                          byConn = (byConn r)(ptr client := None),
                          closedSend = insert (ptr client) (closedSend r)\<rparr>))"

fun registry_step :: "ClientRegistry \<Rightarrow> registry_msg \<Rightarrow> ClientRegistry option" where
  "registry_step r (Register client) = Some (register_client r client)"
| "registry_step r (Unregister client) = unregister_client r client"

fun Run :: "ClientRegistry \<Rightarrow> registry_msg list \<Rightarrow> ClientRegistry option" where
  "Run r [] = Some r"
| "Run r (msg # rest) = (case registry_step r msg of None \<Rightarrow> None | Some r' \<Rightarrow> Run r' rest)"

definition GetClients :: "ClientRegistry \<Rightarrow> string \<Rightarrow> nat set" where
  "GetClients r wayfarerID = (case byID r wayfarerID of None \<Rightarrow> {} | Some s \<Rightarrow> s)"

definition Count :: "ClientRegistry \<Rightarrow> nat" where
  "Count r = card (dom (byConn r))"

definition IsOnline :: "ClientRegistry \<Rightarrow> string \<Rightarrow> bool" where
  "IsOnline r wayfarerID = (case byID r wayfarerID of None \<Rightarrow> False | Some clients \<Rightarrow> clients \<noteq> {})"

subsection \<open>Specification: the set of connections\<close>

fun connections :: "(nat \<times> string) set \<Rightarrow> registry_msg list \<Rightarrow> (nat \<times> string) set" where
  "connections S [] = S"
| "connections S (Register c # rest) = connections (insert (ptr c, WayfarerID c) S) rest"
| "connections S (Unregister c # rest) = connections {(p, w) \<in> S. p \<noteq> ptr c} rest"

fun registered :: "registry_msg list \<Rightarrow> nat list" where
  "registered [] = []"
| "registered (Register c # rest) = ptr c # registered rest"
| "registered (Unregister c # rest) = registered rest"

text \<open>
  The registry represents the set \<open>S\<close>: the two maps are its two views, no set in \<open>byID\<close> is
  empty, and the channels of connected clients are open.
\<close>

definition represents :: "ClientRegistry \<Rightarrow> (nat \<times> string) set \<Rightarrow> bool" where
  "represents r S \<longleftrightarrow>
     (\<forall>p w. byConn r p = Some w \<longleftrightarrow> (p, w) \<in> S) \<and>
     (\<forall>w. byID r w = (if \<exists>p. (p, w) \<in> S then Some {p. (p, w) \<in> S} else None)) \<and>
     (\<forall>p w. (p, w) \<in> S \<longrightarrow> p \<notin> closedSend r)"

lemma represents_views:
  assumes "represents r S"
  shows "GetClients r w = {p. (p, w) \<in> S}" and "IsOnline r w \<longleftrightarrow> (\<exists>p. (p, w) \<in> S)"
    and "Count r = card (fst ` S)"
proof -
  show "GetClients r w = {p. (p, w) \<in> S}" and "IsOnline r w \<longleftrightarrow> (\<exists>p. (p, w) \<in> S)"
    using assms by (auto simp: represents_def GetClients_def IsOnline_def)
  have "dom (byConn r) = fst ` S" using assms by (force simp: represents_def image_iff)
  then show "Count r = card (fst ` S)" by (simp add: Count_def)
qed

lemma represents_register:
  assumes "represents r S" and "ptr c \<notin> fst ` S" and "ptr c \<notin> closedSend r"
  shows "represents (register_client r c) (insert (ptr c, WayfarerID c) S)"
proof -
  have "(ptr c, w) \<notin> S" for w using assms(2) by force
  with assms(1,3) show ?thesis by (auto simp: represents_def register_client_def Let_def)
qed

lemma represents_unregister:
  assumes "represents r S"
  shows "\<exists>r'. unregister_client r c = Some r' \<and> represents r' {(p, w) \<in> S. p \<noteq> ptr c} \<and>
    closedSend r' \<subseteq> closedSend r \<union> fst ` S"
proof (cases "byConn r (ptr c)")
  case None
  then have "{(p, w) \<in> S. p \<noteq> ptr c} = S" using assms by (force simp: represents_def)
  with None assms show ?thesis by (simp add: unregister_client_def)
next
  case (Some w)
  have view: "byConn r p = Some w' \<longleftrightarrow> (p, w') \<in> S" for p w' using assms by (simp add: represents_def)
  from Some have S: "(ptr c, w) \<in> S" by (simp add: view)
  have only: "w' = w" if "(ptr c, w') \<in> S" for w' using that Some view [of "ptr c" w'] by simp
  let ?C = "{p. (p, w) \<in> S}"
  have id: "byID r w = Some ?C" and op: "ptr c \<notin> closedSend r"
    using assms S by (auto simp: represents_def)
  have "unregister_client r c = Some \<lparr>byID = (byID r)(w := (if ?C - {ptr c} = {} then None else Some (?C - {ptr c}))),
      byConn = (byConn r)(ptr c := None), closedSend = insert (ptr c) (closedSend r)\<rparr>"
    using Some id op S by (simp add: unregister_client_def Let_def)
  moreover have "represents \<lparr>byID = (byID r)(w := (if ?C - {ptr c} = {} then None else Some (?C - {ptr c}))),
      byConn = (byConn r)(ptr c := None), closedSend = insert (ptr c) (closedSend r)\<rparr> {(p, w) \<in> S. p \<noteq> ptr c}"
    using assms only by (auto simp: represents_def)
  ultimately show ?thesis using S by force
qed

lemma Run_represents:
  assumes "represents r S" and "distinct (registered msgs)"
    and "(fst ` S \<union> closedSend r) \<inter> set (registered msgs) = {}"
  shows "\<exists>r'. Run r msgs = Some r' \<and> represents r' (connections S msgs)"
  using assms
proof (induction msgs arbitrary: r S)
  case (Cons msg rest)
  show ?case
  proof (cases msg)
    case (Register c)
    with Cons.prems have fresh: "ptr c \<notin> fst ` S" "ptr c \<notin> closedSend r" by auto
    have "(fst ` insert (ptr c, WayfarerID c) S \<union> closedSend (register_client r c)) \<inter> set (registered rest) = {}"
      using Cons.prems Register by (auto simp: register_client_def Let_def)
    with Cons.IH [OF represents_register [OF Cons.prems(1) fresh]] Cons.prems(2) Register show ?thesis by simp
  next
    case (Unregister c)
    from represents_unregister [OF Cons.prems(1), of c] obtain r' where u: "unregister_client r c = Some r'"
      and rep: "represents r' {(p, w) \<in> S. p \<noteq> ptr c}" and cl: "closedSend r' \<subseteq> closedSend r \<union> fst ` S" by blast
    have "(fst ` {(p, w) \<in> S. p \<noteq> ptr c} \<union> closedSend r') \<inter> set (registered rest) = {}"
      using Cons.prems(3) Unregister cl by fastforce
    with Cons.IH [OF rep] Cons.prems(2) Unregister u show ?thesis by simp
  qed
qed simp

subsection \<open>Properties\<close>

text \<open>
  The registry is the set of live connections: when no client is registered twice, as the
  handshake ensures, every sequence of registrations and disconnections (also of clients that are not
  registered, or repeated) is handled without a panic, so each channel is closed at most once, and
  afterwards \<open>GetClients\<close>, \<open>IsOnline\<close> and \<open>Count\<close> describe exactly the clients
  registered and not yet disconnected.
\<close>

lemma registry_is_live_connections:
  assumes "distinct (registered msgs)"
  shows "\<exists>r. Run NewClientRegistry msgs = Some r \<and>
    (\<forall>w. GetClients r w = {p. (p, w) \<in> connections {} msgs} \<and> (IsOnline r w \<longleftrightarrow> GetClients r w \<noteq> {})) \<and>
    Count r = card (fst ` connections {} msgs)"
proof -
  have "represents NewClientRegistry {}" by (simp add: represents_def NewClientRegistry_def)
  from Run_represents [OF this assms] obtain r where "Run NewClientRegistry msgs = Some r"
    and "represents r (connections {} msgs)" by (auto simp: NewClientRegistry_def)
  with represents_views [of r "connections {} msgs"] show ?thesis by auto
qed

end
