(* ===== verification/WS_State.thy ===== *)
theory WS_State
  imports Session Drain Engine Registry
begin

text \<open>
  The state of the WebSocket endpoint of \<^verbatim>\<open>internal/api/ws.go\<close>: the origin check, the handler and
  its settings, one session per connection, and what the sessions share.  Also the functions that
  put a frame on a client's channel, with the budgets of the drain session they respect.
  Every handler reads the clock once, as the argument \<open>now\<close>; metrics and logs are left out.
\<close>

subsection \<open>Origins\<close>

record OriginChecker =
  allowedOrigins :: "string list"
  devMode :: bool

text \<open>\<open>strings.TrimSpace\<close> on ASCII text.\<close>

definition TrimSpace :: "string \<Rightarrow> string" where
  "TrimSpace s = rev (dropWhile is_space (rev (dropWhile is_space s)))"

definition NewOriginChecker :: "string \<Rightarrow> bool \<Rightarrow> OriginChecker" where
  "NewOriginChecker origins dev =
     (if dev then \<lparr>allowedOrigins = [], devMode = dev\<rparr>
      else \<lparr>allowedOrigins = filter (\<lambda>origin. origin \<noteq> []) (map TrimSpace (split_byte CHR '','' origins)),
            devMode = dev\<rparr>)"

text \<open>The argument is the \<open>Origin\<close> header, empty when the request has none.\<close>

definition Check :: "OriginChecker \<Rightarrow> string \<Rightarrow> bool" where
  "Check oc origin =
     (if devMode oc then True
      else if length (allowedOrigins oc) = 0 then False
      else if origin = [] then True
      else origin \<in> set (allowedOrigins oc))"

subsection \<open>The handler, its sessions and what they share\<close>

record ('d, 'e) WSHandler =
  store :: "'d Store"
  envelopeStore :: "'e EnvelopeStore option"
  engine :: engine_cfg
  handlerRelayID :: string
  handlerMaxTTL :: int
  originChecker :: OriginChecker
  autoDeliverQueued :: bool
  drainLimits :: DrainSessionLimits
  lbMode :: string
  pushOnIngest :: bool
  pushDebounce :: int

definition NewWSHandler :: "'d Store \<Rightarrow> int \<Rightarrow> string \<Rightarrow> bool \<Rightarrow> string \<Rightarrow> ('d, 'e) WSHandler" where
  "NewWSHandler st ttl origins dev relay =
     (let lim = DefaultDrainSessionLimits\<lparr>RoundBudget := 0, ByteBudget := 0, WallClockBudget := 0,
            NoProgressRoundCap := 0, YieldEveryNRounds := 0, SilenceTimeout := 0, FairnessYieldEnable := False\<rparr>
      in \<lparr>store = st, envelopeStore = None,
          engine = SetAckDrivenSuppression \<lparr>relayID = [], maxTTL = ttl, ackDrivenSuppression = False\<rparr> True,
          handlerRelayID = relay, handlerMaxTTL = ttl, originChecker = NewOriginChecker origins dev,
          autoDeliverQueued = True, drainLimits = Normalize lim, lbMode = ''sticky'', pushOnIngest = True,
          pushDebounce = 250 * millisecond\<rparr>)"

definition SetEnvelopeStore :: "('d, 'e) WSHandler \<Rightarrow> 'e EnvelopeStore option \<Rightarrow> ('d, 'e) WSHandler" where
  "SetEnvelopeStore h es = h\<lparr>envelopeStore := es, engine := (engine h)\<lparr>relayID := handlerRelayID h\<rparr>\<rparr>"

definition SetHandlerAckDrivenSuppression :: "('d, 'e) WSHandler \<Rightarrow> bool \<Rightarrow> ('d, 'e) WSHandler" where
  "SetHandlerAckDrivenSuppression h enabled = h\<lparr>engine := SetAckDrivenSuppression (engine h) True\<rparr>"

definition SetAutoDeliverQueued :: "('d, 'e) WSHandler \<Rightarrow> bool \<Rightarrow> ('d, 'e) WSHandler" where
  "SetAutoDeliverQueued h enabled = h\<lparr>autoDeliverQueued := enabled\<rparr>"

definition SetPushOnIngest :: "('d, 'e) WSHandler \<Rightarrow> bool \<Rightarrow> ('d, 'e) WSHandler" where
  "SetPushOnIngest h enabled = h\<lparr>pushOnIngest := enabled\<rparr>"

definition SetPushSummaryDebounce :: "('d, 'e) WSHandler \<Rightarrow> int \<Rightarrow> ('d, 'e) WSHandler" where
  "SetPushSummaryDebounce h window = h\<lparr>pushDebounce := (if window < 0 then 0 else window)\<rparr>"

definition SetDrainSessionLimits :: "('d, 'e) WSHandler \<Rightarrow> DrainSessionLimits \<Rightarrow> ('d, 'e) WSHandler" where
  "SetDrainSessionLimits h lim = h\<lparr>drainLimits := Normalize lim\<rparr>"

definition SetLoadBalancerMode :: "('d, 'e) WSHandler \<Rightarrow> string \<Rightarrow> ('d, 'e) WSHandler" where
  "SetLoadBalancerMode h mode =
     (let normalized = to_lower (TrimSpace mode)
      in if normalized \<in> {[], ''sticky'', ''shared''}
         then h\<lparr>lbMode := (if normalized = [] then ''sticky'' else normalized)\<rparr>
         else h\<lparr>lbMode := ''sticky''\<rparr>)"

text \<open>
  A client is known by its pointer, a number; its fields live in the table \<open>clientInfo\<close>, because the
  session writes them and the pushes of other sessions read them.  \<open>sent\<close> is everything that was put on
  a client's channel, in order; whether there is room for one more frame within the second the sender
  waits is up to the writer on the other end, the parameter \<open>accepts\<close>.  \<open>pushTimers\<close>, \<open>pushExcluded\<close> and
  \<open>pushSessionID\<close> are the maps of the handler; \<open>armedTimers\<close> and \<open>nextTimer\<close> are the runtime's side of its timers.
\<close>

record clientSession =
  client :: nat
  adapter :: SessionAdapter
  drain :: "DrainSession option"
  sessionID :: string
  peerLabel :: string
  handshakeComplete :: bool
  queueRecipient :: string
  summaryCursor :: string
  peerMaxWant :: u64
  lastRoundRequested :: int
  lastRoundTransferred :: int

record client_info =
  cWayfarerID :: string
  cDeviceID :: string
  cDeliveryID :: string

record ('d, 'e) hub =
  db :: 'd
  edb :: 'e
  clients :: ClientRegistry
  clientInfo :: "nat \<Rightarrow> client_info"
  sent :: "nat \<Rightarrow> bytes list"
  pushTimers :: "string \<rightharpoonup> nat"
  armedTimers :: "nat \<rightharpoonup> string"
  nextTimer :: nat
  pushExcluded :: "string \<rightharpoonup> nat set"
  pushSessionID :: "string \<rightharpoonup> string"

record ws_env =
  wire :: wire_env
  accepts :: "nat \<Rightarrow> bytes list \<Rightarrow> bytes \<Rightarrow> bool"

type_synonym ('d, 'e) wst = "clientSession \<times> ('d, 'e) hub"

text \<open>
  Errors: a session stop, an error of the gossip layer, and those the handlers raise themselves.
\<close>

datatype ws_err =
    SessionStop DrainStopReason
  | ProtocolErr gerr
  | StoreFailed serr
  | DuplicateHello
  | EventMissingPayload string
  | BeforeHello string

definition stopSession :: "DrainStopReason \<Rightarrow> ws_err" where
  "stopSession why =
     SessionStop (if why = DrainStopReasonNone then DrainStopReasonClientDisconnect else why)"

definition asSessionStop :: "ws_err \<Rightarrow> DrainStopReason option" where
  "asSessionStop err = (case err of SessionStop why \<Rightarrow> Some why | _ \<Rightarrow> None)"

definition isNotFoundError :: "serr \<Rightarrow> bool" where
  "isNotFoundError err = (case err of NotFound _ \<Rightarrow> True | _ \<Rightarrow> False)"

subsection \<open>Drain sessions\<close>

definition ensureDrainSession ::
  "('d, 'e) WSHandler \<Rightarrow> gotime \<Rightarrow> clientSession \<Rightarrow> clientSession \<times> DrainSession" where
  "ensureDrainSession h now s = (case drain s of
     Some d \<Rightarrow> (s, d)
   | None \<Rightarrow> (let d = NewDrainSession (sessionID s) (toUTC now) now (drainLimits h) in (s\<lparr>drain := Some d\<rparr>, d)))"

text \<open>A method of the drain session that only changes it.\<close>

definition on_drain ::
  "('d, 'e) WSHandler \<Rightarrow> gotime \<Rightarrow> (DrainSession \<Rightarrow> DrainSession) \<Rightarrow> clientSession \<Rightarrow> clientSession" where
  "on_drain h now f s = (case ensureDrainSession h now s of (s, d) \<Rightarrow> s\<lparr>drain := Some (f d)\<rparr>)"

definition finalizeDrainSession ::
  "('d, 'e) WSHandler \<Rightarrow> gotime \<Rightarrow> DrainStopReason \<Rightarrow> clientSession \<Rightarrow> clientSession \<times> DrainStopReason" where
  "finalizeDrainSession h now fallbackReason s =
     (let s = on_drain h now (\<lambda>d. if fallbackReason \<noteq> DrainStopReasonNone then Stop d fallbackReason else d) s;
          stopReason = StopReason (state (snd (ensureDrainSession h now s)))
      in (s, if stopReason = DrainStopReasonNone then DrainStopReasonClientDisconnect else stopReason))"

subsection \<open>Sending\<close>

text \<open>A send on a closed channel panics, and the panic is recovered as a failed send.\<close>

definition sendBinary :: "ws_env \<Rightarrow> ('d, 'e) hub \<Rightarrow> nat \<Rightarrow> bytes \<Rightarrow> ('d, 'e) hub \<times> bool" where
  "sendBinary w u p data =
     (if p \<in> closedSend (clients u) then (u, False)
      else if accepts w p (sent u p) data then (u\<lparr>sent := (sent u)(p := sent u p @ [data])\<rparr>, True)
      else (u, False))"

definition closeClientSend :: "('d, 'e) hub \<Rightarrow> nat \<Rightarrow> ('d, 'e) hub" where
  "closeClientSend u p = u\<lparr>clients := (clients u)\<lparr>closedSend := insert p (closedSend (clients u))\<rparr>\<rparr>"

definition encode_frame :: "wire_env \<Rightarrow> string \<Rightarrow> goval \<Rightarrow> gerr + bytes" where
  "encode_frame env frameType payload =
     bindE (EncodeEnvelope env frameType payload) (\<lambda>frame. EncodeLengthPrefixed frame)"

definition sendLocalHello ::
  "ws_env \<Rightarrow> ('d, 'e) WSHandler \<Rightarrow> gotime \<Rightarrow> ('d, 'e) wst \<Rightarrow> ('d, 'e) wst \<times> (ws_err + unit)" where
  "sendLocalHello w h now st = (case st of (s, u) \<Rightarrow>
     (case ensureDrainSession h now s of (s, d) \<Rightarrow>
     (case InitialHelloBytes (wire w) (adapter s) of
        Inl err \<Rightarrow> ((s, u), Inl (ProtocolErr err))
      | Inr helloBytes \<Rightarrow>
     (case RecordBytesSent d (int (length helloBytes)) now of (d, why) \<Rightarrow>
        if why \<noteq> DrainStopReasonNone then ((s\<lparr>drain := Some d\<rparr>, u), Inl (stopSession why))
        else
     (case sendBinary w u (client s) helloBytes of (u, queued) \<Rightarrow>
        if queued then ((s\<lparr>drain := Some d\<rparr>, u), Inr ())
        else ((s\<lparr>drain := Some (Stop d DrainStopReasonSessionTransportBackoff)\<rparr>, u),
              Inl (stopSession DrainStopReasonSessionTransportBackoff)))))))"

definition sendEnvelope ::
  "ws_env \<Rightarrow> ('d, 'e) WSHandler \<Rightarrow> gotime \<Rightarrow> string \<Rightarrow> goval \<Rightarrow> ('d, 'e) wst \<Rightarrow> ('d, 'e) wst \<times> (ws_err + unit)" where
  "sendEnvelope w h now frameType payload st = (case st of (s, u) \<Rightarrow>
     (case encode_frame (wire w) frameType payload of
        Inl err \<Rightarrow> ((s, u), Inl (ProtocolErr err))
      | Inr prefixed \<Rightarrow>
     (case ensureDrainSession h now s of (s, d) \<Rightarrow>
     (case CanSendBytes d (int (length prefixed)) now of (d, canSend, why) \<Rightarrow>
        if \<not> canSend then ((s\<lparr>drain := Some d\<rparr>, u), Inl (stopSession why))
        else
     (case sendBinary w u (client s) prefixed of (u, queued) \<Rightarrow>
        if \<not> queued
        then ((s\<lparr>drain := Some (Stop d DrainStopReasonSessionTransportBackoff)\<rparr>, u),
              Inl (stopSession DrainStopReasonSessionTransportBackoff))
        else
     (case RecordBytesSent d (int (length prefixed)) now of (d, why) \<Rightarrow>
        if why \<noteq> DrainStopReasonNone then ((s\<lparr>drain := Some d\<rparr>, u), Inl (stopSession why))
        else ((s\<lparr>drain := Some d\<rparr>, u), Inr ())))))))"

end
