(* ===== verification/WS_Handler.thy ===== *)
theory WS_Handler
  imports WS_State
begin

text \<open>
  The handlers of \<^verbatim>\<open>internal/api/ws.go\<close>, one per gossip frame, the summaries they build, the pushes
  to other online clients, and the read pump that drives them.
\<close>

subsection \<open>Summaries of what waits for a recipient\<close>

fun unacked_ids :: "(string \<Rightarrow> serr + bool) \<Rightarrow> string list \<Rightarrow> serr + string list" where
  "unacked_ids acked [] = Inr []"
| "unacked_ids acked (i # rest) =
     bindE (acked i) (\<lambda>a. bindE (unacked_ids acked rest) (\<lambda>filtered. Inr (if a then filtered else i # filtered)))"

text \<open>The preview loop: ids after the cursor, until \<open>MaxSummaryPreviewItems\<close> are collected.\<close>

fun preview_after :: "string \<Rightarrow> nat \<Rightarrow> string list \<Rightarrow> string list" where
  "preview_after afterCursor n [] = []"
| "preview_after afterCursor n (i # rest) =
     (if afterCursor \<noteq> [] \<and> CompareDigestHexIDs i afterCursor \<le> 0 then preview_after afterCursor n rest
      else if n + 1 \<ge> MaxSummaryPreviewItems then [i]
      else i # preview_after afterCursor (n + 1) rest)"

definition preview_page :: "string \<Rightarrow> string list \<Rightarrow> string list \<times> string" where
  "preview_page afterCursor filteredEligible =
     (let page = preview_after afterCursor 0 filteredEligible;
          page = (if page = [] \<and> filteredEligible \<noteq> [] \<and> afterCursor \<noteq> []
                  then preview_after [] 0 filteredEligible else page)
      in (page, if page = [] then [] else last page))"

definition empty_summary :: "SummaryPayload \<times> string" where
  "empty_summary = (BuildSummaryPreviewPayload [] [] [], [])"

definition buildRecipientSummary ::
  "('d, 'e) WSHandler \<Rightarrow> gotime \<Rightarrow> ('d, 'e) hub \<Rightarrow> string \<Rightarrow> string \<Rightarrow> string \<Rightarrow> ws_err + SummaryPayload \<times> string" where
  "buildRecipientSummary h now u recipient deliveryIdentity afterCursor =
     (if recipient = [] then Inr empty_summary
      else case envelopeStore h of
        None \<Rightarrow> Inr empty_summary
      | Some ops \<Rightarrow>
          bindE (mapErr StoreFailed
            (eGetEnvelopeIDsByDestinationPage ops now (edb u) recipient afterCursor (int MaxSummaryPreviewItems)))
            (\<lambda>(previewIDs, nextCursor, totalCount, eligibleIDs).
          bindE (if previewIDs = [] \<and> totalCount > 0 \<and> afterCursor \<noteq> []
                 then bindE (mapErr StoreFailed
                        (eGetEnvelopeIDsByDestinationPage ops now (edb u) recipient [] (int MaxSummaryPreviewItems)))
                        (\<lambda>(wrappedPreview, wrappedCursor, _). Inr (wrappedPreview, wrappedCursor))
                 else Inr (previewIDs, nextCursor))
            (\<lambda>(previewIDs, nextCursor).
          bindE (if deliveryIdentity \<noteq> []
                 then bindE (mapErr StoreFailed
                        (unacked_ids (\<lambda>i. sIsAckedBy (store h) (db u) i deliveryIdentity) eligibleIDs))
                        (\<lambda>filtered. case preview_page afterCursor filtered of
                           (page, cursor) \<Rightarrow> Inr (page, cursor, int (length filtered), filtered))
                 else Inr (previewIDs, nextCursor, totalCount, eligibleIDs))
            (\<lambda>(previewIDs, nextCursor, totalCount, eligibleIDs).
          bindE (mapErr ProtocolErr (NormalizeDigestHexIDs previewIDs))
            (\<lambda>normalizedPreview.
               let normalizedPreview = (if length normalizedPreview > MaxSummaryPreviewItems
                     then take MaxSummaryPreviewItems normalizedPreview else normalizedPreview);
                   summary = BuildSummaryPreviewPayload eligibleIDs normalizedPreview []
               in Inr (summary\<lparr>ItemCount := of_int totalCount\<rparr>, nextCursor))))))"

definition sendDrainSummary ::
  "ws_env \<Rightarrow> ('d, 'e) WSHandler \<Rightarrow> gotime \<Rightarrow> bool \<Rightarrow> ('d, 'e) wst \<Rightarrow> ('d, 'e) wst \<times> (ws_err + unit)" where
  "sendDrainSummary w h now stopWhenEmpty st = (case st of (s, u) \<Rightarrow>
     (case ensureDrainSession h now s of (s, d) \<Rightarrow>
     (case CanStartAnotherRound d (toUTC now) now of (d, canContinue, why) \<Rightarrow>
        if \<not> canContinue then ((s\<lparr>drain := Some d\<rparr>, u), Inl (stopSession why))
        else
     (case buildRecipientSummary h now u (queueRecipient s) (cDeliveryID (clientInfo u (client s))) (summaryCursor s) of
        Inl err \<Rightarrow> ((s\<lparr>drain := Some d\<rparr>, u), Inl (stopSession DrainStopReasonStorageError))
      | Inr (summary, nextCursor) \<Rightarrow>
          let s = s\<lparr>drain := Some d, summaryCursor := nextCursor, lastRoundRequested := 0, lastRoundTransferred := 0\<rparr>
          in if ItemCount summary > 0
             then sendEnvelope w h now FrameTypeSummary (GMapS (summary_fields summary)) (s, u)
             else let d = CompleteRound d False now
             in if stopWhenEmpty
                then ((s\<lparr>drain := Some (Stop d DrainStopReasonNoEligibleItems)\<rparr>, u),
                      Inl (stopSession DrainStopReasonNoEligibleItems))
                else sendEnvelope w h now FrameTypeSummary (GMapS (summary_fields summary)) (s\<lparr>drain := Some d\<rparr>, u)))))"

subsection \<open>HELLO\<close>

definition bind_identity :: "('d, 'e) hub \<Rightarrow> nat \<Rightarrow> HelloPayload \<Rightarrow> ('d, 'e) hub" where
  "bind_identity u p hello =
     u\<lparr>clientInfo := (clientInfo u)(p := \<lparr>cWayfarerID = NodeID hello, cDeviceID = NodePubKey hello,
          cDeliveryID = DeliveryIdentity (NodeID hello) (NodePubKey hello)\<rparr>),
       clients := register_client (clients u) \<lparr>ptr = p, WayfarerID = NodeID hello\<rparr>\<rparr>"

definition handleHelloValidated ::
  "ws_env \<Rightarrow> ('d, 'e) WSHandler \<Rightarrow> gotime \<Rightarrow> Event \<Rightarrow> ('d, 'e) wst \<Rightarrow> ('d, 'e) wst \<times> (ws_err + unit)" where
  "handleHelloValidated w h now ev st = (case st of (s, u) \<Rightarrow>
     if handshakeComplete s then ((s, u), Inl DuplicateHello)
     else (case EHello ev of
        None \<Rightarrow> ((s, u), Inl (EventMissingPayload ''hello''))
      | Some hello \<Rightarrow>
          let u = bind_identity u (client s) hello;
              s = on_drain h now (\<lambda>d. BindAuthenticatedWayfarerID d (NodeID hello)) s;
              s = s\<lparr>peerLabel := NodeID hello,
                    queueRecipient := QueueRecipient (cDeliveryID (clientInfo u (client s))),
                    handshakeComplete := True\<rparr>
          in sendDrainSummary w h now False (s, u)))"

subsection \<open>SUMMARY\<close>

definition hasObjectID :: "('d, 'e) WSHandler \<Rightarrow> ('d, 'e) hub \<Rightarrow> string \<Rightarrow> serr + bool" where
  "hasObjectID h u i =
     (let in_messages = (case sGetMessageByID (store h) (db u) i of
            Inl err \<Rightarrow> if isNotFoundError err then Inr False else Inl err
          | Inr _ \<Rightarrow> Inr True)
      in case envelopeStore h of
           None \<Rightarrow> in_messages
         | Some ops \<Rightarrow> (case eGetEnvelopeByID ops (edb u) i of
             Inl err \<Rightarrow> if \<not> isNotFoundError err then Inl err else in_messages
           | Inr _ \<Rightarrow> Inr True))"

definition validateSummaryPreviewCursor :: "string list \<Rightarrow> string \<Rightarrow> gerr + unit" where
  "validateSummaryPreviewCursor previewIDs previewCursor =
     (if length previewIDs = 0
      then (if previewCursor \<noteq> [] then Inl (SummaryErr CursorMustBeAbsent) else Inr ())
      else if previewCursor = [] then Inl (SummaryErr CursorRequired)
      else if previewCursor \<noteq> last previewIDs then Inl (SummaryErr CursorMismatch)
      else Inr ())"

text \<open>One of the two loops of \<open>computeMissingWant\<close>; the flag is that the limit was reached.\<close>

fun want_loop ::
  "(string \<Rightarrow> bool) \<Rightarrow> (string \<Rightarrow> serr + bool) \<Rightarrow> nat \<Rightarrow> string list \<Rightarrow> string list \<Rightarrow> serr + string list \<times> bool" where
  "want_loop offered known limit [] want = Inr (want, False)"
| "want_loop offered known limit (i # rest) want =
     (if i \<in> set want then want_loop offered known limit rest want
      else if \<not> offered i then want_loop offered known limit rest want
      else case known i of
             Inl err \<Rightarrow> Inl err
           | Inr True \<Rightarrow> want_loop offered known limit rest want
           | Inr False \<Rightarrow>
               if length (want @ [i]) \<ge> limit then Inr (want @ [i], True)
               else want_loop offered known limit rest (want @ [i]))"

definition want_limit :: "u64 \<Rightarrow> nat" where
  "want_limit peer = (if peer > 0 \<and> peer < of_nat MaxWantItems then unat peer else MaxWantItems)"

definition computeMissingWant ::
  "('d, 'e) WSHandler \<Rightarrow> ('d, 'e) hub \<Rightarrow> SummaryPayload option \<Rightarrow> string list \<Rightarrow> u64 \<Rightarrow> ws_err + string list" where
  "computeMissingWant h u summary_opt candidateIDs peer = (case summary_opt of
     None \<Rightarrow> Inr []
   | Some summary \<Rightarrow>
       bindE (mapErr ProtocolErr (NormalizeDigestHexIDs (PreviewItemIDs summary))) (\<lambda>previewIDs.
       let offered = BloomFilterMightContain (BloomFilter summary); known = hasObjectID h u; limit = want_limit peer
       in if limit \<le> 0 then Inr []
          else bindE (mapErr StoreFailed (want_loop offered known limit previewIDs [])) (\<lambda>(want, full).
               if full then Inr (SortDigestHexIDs want)
               else bindE (mapErr ProtocolErr (NormalizeDigestHexIDs candidateIDs)) (\<lambda>candidates.
                    bindE (mapErr StoreFailed (want_loop offered known limit candidates want)) (\<lambda>(want, _).
                    Inr (SortDigestHexIDs want))))))"

definition handleSummary ::
  "ws_env \<Rightarrow> ('d, 'e) WSHandler \<Rightarrow> gotime \<Rightarrow> Event \<Rightarrow> ('d, 'e) wst \<Rightarrow> ('d, 'e) wst \<times> (ws_err + unit)" where
  "handleSummary w h now ev st = (case st of (s, u) \<Rightarrow>
     (case ensureDrainSession h now s of (s, _) \<Rightarrow>
     (case ESummary ev of
        None \<Rightarrow> ((s, u), Inl (EventMissingPayload ''summary''))
      | Some summary \<Rightarrow>
     (case validateSummaryPreviewCursor (PreviewItemIDs summary) (PreviewCursor summary) of
        Inl err \<Rightarrow> ((s, u), Inl (ProtocolErr err))
      | Inr _ \<Rightarrow>
     (case computeMissingWant h u (Some summary) [] (peerMaxWant s) of
        Inl err \<Rightarrow> ((s, u), Inl (stopSession DrainStopReasonStorageError))
      | Inr want \<Rightarrow>
          let s = on_drain h now (\<lambda>d. RecordRequested d (int (length want)) now)
                    (s\<lparr>lastRoundRequested := int (length want)\<rparr>);
              s = (if want = [] then on_drain h now (\<lambda>d. CompleteRound d False now) s else s)
          in sendEnvelope w h now FrameTypeRequest (GMapS (request_fields \<lparr>Want = want\<rparr>)) (s, u))))))"

subsection \<open>REQUEST\<close>

definition loadTransferObjectByItemID ::
  "wire_env \<Rightarrow> ('d, 'e) WSHandler \<Rightarrow> ('d, 'e) hub \<Rightarrow> string \<Rightarrow> serr + TransferObject option" where
  "loadTransferObjectByItemID env h u itemID =
     (if \<not> IsDigestHexID itemID then Inr None
      else let from_messages = (case sGetMessageByID (store h) (db u) itemID of
                 Inl err \<Rightarrow> if isNotFoundError err then Inr None else Inl err
               | Inr message \<Rightarrow> Inr None)
      in case envelopeStore h of
           None \<Rightarrow> from_messages
         | Some ops \<Rightarrow> (case eGetEnvelopeByID ops (edb u) itemID of
             Inl err \<Rightarrow> if \<not> isNotFoundError err then Inl err else from_messages
           | Inr stored \<Rightarrow>
               if length (EOpaquePayload stored) > 0
               then let b64 = b64_encode (EOpaquePayload stored);
                        object = \<lparr>ItemID = itemID, EnvelopeB64 = b64,
                          ExpiryUnixMS = of_int (UnixMilli (toUTC (EExpiresAt stored))),
                          HopCount = of_int (ECurrentHopCount stored),
                          Envelope = \<lparr>From = [], To = [], PayloadB64 = [], CreatedAt = 0, ExpiresAt = 0,
                             ManifestID = [], AuthorSig = []\<rparr>\<rparr>
                    in if ItemID object \<noteq> ComputeTransferObjectItemID object then Inr None
                       else (case DecodeItemEnvelopeB64 env b64 of
                               Inl _ \<Rightarrow> Inr None
                             | Inr parsed \<Rightarrow> Inr (Some (object\<lparr>Envelope := parsed\<rparr>)))
               else from_messages))"

fun serve_loop ::
  "(string \<Rightarrow> serr + TransferObject option) \<Rightarrow> string \<Rightarrow> u64 \<Rightarrow> string list \<Rightarrow> TransferObject list \<Rightarrow> serr + TransferObject list" where
  "serve_loop load recipient nowMS [] objects = Inr objects"
| "serve_loop load recipient nowMS (requestedID # rest) objects =
     (if length objects \<ge> MaxTransferItems then Inr objects
      else case load requestedID of
             Inl err \<Rightarrow> Inl err
           | Inr None \<Rightarrow> serve_loop load recipient nowMS rest objects
           | Inr (Some object) \<Rightarrow>
               if To (Envelope object) \<noteq> recipient then serve_loop load recipient nowMS rest objects
               else if ExpiryUnixMS object \<le> nowMS then serve_loop load recipient nowMS rest objects
               else serve_loop load recipient nowMS rest (objects @ [object]))"

definition handleRequest ::
  "ws_env \<Rightarrow> ('d, 'e) WSHandler \<Rightarrow> gotime \<Rightarrow> Event \<Rightarrow> ('d, 'e) wst \<Rightarrow> ('d, 'e) wst \<times> (ws_err + unit)" where
  "handleRequest w h now ev st = (case st of (s, u) \<Rightarrow>
     (case ensureDrainSession h now s of (s, _) \<Rightarrow>
     (case ERequest ev of
        None \<Rightarrow> ((s, u), Inl (EventMissingPayload ''request''))
      | Some request \<Rightarrow>
          let s = on_drain h now (\<lambda>d. RecordRequested d (int (length (Want request))) now)
                    (s\<lparr>lastRoundRequested := int (length (Want request))\<rparr>)
          in if length (Want request) = 0
             then ((on_drain h now (\<lambda>d. CompleteRound d False now) s, u), Inr ())
             else
     (case ensureDrainSession h now s of (s, d) \<Rightarrow>
     (case CanStartAnotherRound d (toUTC now) now of (d, canContinue, why) \<Rightarrow>
        let s = s\<lparr>drain := Some d\<rparr>
        in if \<not> canContinue then ((s, u), Inl (stopSession why))
           else
     (case serve_loop (loadTransferObjectByItemID (wire w) h u) (queueRecipient s)
             (of_int (UnixMilli (toUTC now))) (Want request) [] of
        Inl err \<Rightarrow> ((s, u), Inl (StoreFailed err))
      | Inr objects \<Rightarrow>
          let s = on_drain h now (\<lambda>d. RecordTransferred d (int (length objects)) now)
                    (s\<lparr>lastRoundTransferred := int (length objects)\<rparr>)
          in if objects = [] then ((on_drain h now (\<lambda>d. CompleteRound d False now) s, u), Inr ())
             else sendEnvelope w h now FrameTypeTransfer (GMapS (transfer_fields objects))
                    (s\<lparr>adapter := SetExpectedReceipt (adapter s) (map ItemID objects)\<rparr>, u)))))))"

subsection \<open>Pushing summaries to the other clients of a recipient\<close>

definition push_one ::
  "ws_env \<Rightarrow> ('d, 'e) WSHandler \<Rightarrow> gotime \<Rightarrow> string \<Rightarrow> nat option \<Rightarrow> nat set \<Rightarrow> nat \<Rightarrow> ('d, 'e) hub \<Rightarrow> ('d, 'e) hub" where
  "push_one w h now recipient sourceClient excluded p u =
     (if sourceClient = Some p then u
      else if p \<in> excluded then u
      else let deliveryIdentity = cDeliveryID (clientInfo u p);
               deliveryIdentity = (if deliveryIdentity = [] then recipient else deliveryIdentity)
      in case buildRecipientSummary h now u recipient deliveryIdentity [] of
           Inl err \<Rightarrow> u
         | Inr (summary, _) \<Rightarrow>
             if ItemCount summary = 0 then u
             else (case encode_frame (wire w) FrameTypeSummary (GMapS (summary_fields summary)) of
                     Inl err \<Rightarrow> u
                   | Inr prefixed \<Rightarrow> fst (sendBinary w u p prefixed)))"

text \<open>
  Go visits the clients of a recipient, and the recipients of a transfer, in no fixed order; here the
  clients come in the order of their pointers and the recipients in the order of their first object.
  A push puts frames on the channel of its client only, so each channel gets the same frames in any
  order.
\<close>

definition pushSummaryToOnlineRecipient ::
  "ws_env \<Rightarrow> ('d, 'e) WSHandler \<Rightarrow> gotime \<Rightarrow> nat option \<Rightarrow> string \<Rightarrow> nat set \<Rightarrow> ('d, 'e) hub \<Rightarrow> ('d, 'e) hub" where
  "pushSummaryToOnlineRecipient w h now sourceClient recipient excluded u =
     (if recipient = [] then u
      else fold (push_one w h now recipient sourceClient excluded)
             (sorted_list_of_set (GetClients (clients u) recipient)) u)"

text \<open>
  A timer is a number: \<open>armedTimers\<close> are those of the runtime that will call back, each with the recipient its
  function closes over, and \<open>pushTimers\<close> is the map of the handler.
\<close>

definition AfterFunc :: "string \<Rightarrow> ('d, 'e) hub \<Rightarrow> ('d, 'e) hub \<times> nat" where
  "AfterFunc recipient u =
     (u\<lparr>armedTimers := (armedTimers u)(nextTimer u \<mapsto> recipient), nextTimer := Suc (nextTimer u)\<rparr>, nextTimer u)"

definition timer_Stop :: "nat option \<Rightarrow> ('d, 'e) hub \<Rightarrow> ('d, 'e) hub" where
  "timer_Stop timer u = (case timer of None \<Rightarrow> u | Some t \<Rightarrow> u\<lparr>armedTimers := (armedTimers u)(t := None)\<rparr>)"

definition enqueueRecipientSummaryPush ::
  "string \<Rightarrow> nat option \<Rightarrow> string \<Rightarrow> ('d, 'e) hub \<Rightarrow> ('d, 'e) hub" where
  "enqueueRecipientSummaryPush sourceSessionID sourceClient recipient u =
     (let u = (if sourceSessionID \<noteq> [] then u\<lparr>pushSessionID := (pushSessionID u)(recipient \<mapsto> sourceSessionID)\<rparr> else u);
          u = (case sourceClient of
                 None \<Rightarrow> u
               | Some p \<Rightarrow> u\<lparr>pushExcluded := (pushExcluded u)(recipient \<mapsto>
                   insert p (case pushExcluded u recipient of None \<Rightarrow> {} | Some excluded \<Rightarrow> excluded))\<rparr>)
      in if pushTimers u recipient \<noteq> None then u
         else let (u, t) = AfterFunc recipient u in u\<lparr>pushTimers := (pushTimers u)(recipient \<mapsto> t)\<rparr>)"

definition flushRecipientSummaryPush ::
  "ws_env \<Rightarrow> ('d, 'e) WSHandler \<Rightarrow> gotime \<Rightarrow> string \<Rightarrow> ('d, 'e) hub \<Rightarrow> ('d, 'e) hub" where
  "flushRecipientSummaryPush w h now recipient u =
     (let timer = pushTimers u recipient;
          excluded = (case pushExcluded u recipient of None \<Rightarrow> {} | Some e \<Rightarrow> e);
          u = u\<lparr>pushTimers := (pushTimers u)(recipient := None), pushSessionID := (pushSessionID u)(recipient := None),
                pushExcluded := (pushExcluded u)(recipient := None)\<rparr>
      in pushSummaryToOnlineRecipient w h now None recipient excluded (timer_Stop timer u))"

text \<open>The runtime runs the function of an armed timer once.\<close>

definition fire_timer ::
  "ws_env \<Rightarrow> ('d, 'e) WSHandler \<Rightarrow> gotime \<Rightarrow> nat \<Rightarrow> ('d, 'e) hub \<Rightarrow> ('d, 'e) hub" where
  "fire_timer w h now t u = (case armedTimers u t of
     None \<Rightarrow> u
   | Some recipient \<Rightarrow> flushRecipientSummaryPush w h now recipient (u\<lparr>armedTimers := (armedTimers u)(t := None)\<rparr>))"

definition push_recipient ::
  "ws_env \<Rightarrow> ('d, 'e) WSHandler \<Rightarrow> gotime \<Rightarrow> string \<Rightarrow> nat \<Rightarrow> string \<Rightarrow> ('d, 'e) hub \<Rightarrow> ('d, 'e) hub" where
  "push_recipient w h now sourceSessionID sourceClient recipient u =
     (if recipient = [] then u
      else if pushDebounce h \<le> 0 then pushSummaryToOnlineRecipient w h now (Some sourceClient) recipient {} u
      else enqueueRecipientSummaryPush sourceSessionID (Some sourceClient) recipient u)"

definition pushSummariesToOnlineRecipients ::
  "ws_env \<Rightarrow> ('d, 'e) WSHandler \<Rightarrow> gotime \<Rightarrow> string \<Rightarrow> nat \<Rightarrow> string list \<Rightarrow> ('d, 'e) hub \<Rightarrow> ('d, 'e) hub" where
  "pushSummariesToOnlineRecipients w h now sourceSessionID sourceClient recipients u =
     (if length recipients = 0 then u
      else if \<not> pushOnIngest h then u
      else fold (push_recipient w h now sourceSessionID sourceClient) (remdups recipients) u)"

subsection \<open>TRANSFER\<close>

datatype import_issue = ImportIdRequired | ImportIdFormat | EnvelopeUndecodable gerr | DestinationRequired
  | SourceRequired | PayloadInvalid | ExpiryMismatch | HopCountTooLarge | ImportIdMismatch | AlreadyExpired

definition message_times :: "gotime \<Rightarrow> TransferObject \<Rightarrow> ItemEnvelope \<Rightarrow> import_issue + gotime \<times> gotime" where
  "message_times now object envelope =
     (let now = toUTC now;
          createdAt = (if CreatedAt envelope > 0 then toUTC (time_Unix (CreatedAt envelope) 0) else now);
          expiresAt = (if ExpiresAt envelope > 0 then toUTC (time_Unix (ExpiresAt envelope) 0)
                       else toUTC (time_UnixMilli (sint (ExpiryUnixMS object))))
      in if After expiresAt createdAt then Inr (createdAt, expiresAt)
         else if \<not> After expiresAt now then Inl AlreadyExpired
         else Inr (Add expiresAt (- second), expiresAt))"

definition transferObjectToMessage :: "wire_env \<Rightarrow> gotime \<Rightarrow> TransferObject \<Rightarrow> import_issue + Message" where
  "transferObjectToMessage env now object =
     bindE (guardE (ItemID object \<noteq> []) ImportIdRequired) (\<lambda>_.
     bindE (guardE (IsDigestHexID (ItemID object)) ImportIdFormat) (\<lambda>_.
     bindE (mapErr EnvelopeUndecodable (DecodeItemEnvelopeB64 env (EnvelopeB64 object))) (\<lambda>envelope.
     bindE (guardE (To envelope \<noteq> []) DestinationRequired) (\<lambda>_.
     bindE (guardE (From envelope \<noteq> []) SourceRequired) (\<lambda>_.
     bindE (guardE (DecodePayloadB64 (PayloadB64 envelope) \<noteq> None) PayloadInvalid) (\<lambda>_.
     bindE (guardE (\<not> (ExpiresAt envelope > 0 \<and> ExpiryUnixMS object \<noteq> of_int (ExpiresAt envelope) * 1000)) ExpiryMismatch) (\<lambda>_.
     bindE (guardE (\<not> HopCount object > 65535) HopCountTooLarge) (\<lambda>_.
     bindE (guardE (ItemID object = ComputeTransferObjectItemID object) ImportIdMismatch) (\<lambda>_.
     bindE (message_times now object envelope) (\<lambda>(createdAt, expiresAt).
     Inr \<lparr>MID = ItemID object, MFrom = From envelope, MTo = To envelope, MPayload = PayloadB64 envelope,
          MCreatedAt = createdAt, MExpiresAt = expiresAt, MDelivered = False, MDeliveredAt = None\<rparr>))))))))))"

datatype persist_issue = EnvelopeNotBase64 | EnvelopeStoreFailed serr

definition transfer_envelope :: "TransferObject \<Rightarrow> bytes \<Rightarrow> Message \<Rightarrow> int \<Rightarrow> string \<Rightarrow> Envelope" where
  "transfer_envelope object envelopeBytes msg hopCount originRelayID =
     \<lparr>EID = MID msg, EDestinationID = MTo msg, EOpaquePayload = envelopeBytes, EOriginRelayID = originRelayID,
      ECurrentHopCount = hopCount, ECreatedAt = MCreatedAt msg, EExpiresAt = MExpiresAt msg\<rparr>"

definition persistTransferEnvelope ::
  "('d, 'e) WSHandler \<Rightarrow> 'e \<Rightarrow> TransferObject \<Rightarrow> Message \<Rightarrow> int \<Rightarrow> string \<Rightarrow> 'e \<times> (persist_issue + unit)" where
  "persistTransferEnvelope h ed object msg hopCount originRelayID = (case envelopeStore h of
     None \<Rightarrow> (ed, Inr ())
   | Some ops \<Rightarrow> (case b64_decode True (EnvelopeB64 object) of
       None \<Rightarrow> (ed, Inl EnvelopeNotBase64)
     | Some envelopeBytes \<Rightarrow>
         (case ePersistEnvelope ops ed (transfer_envelope object envelopeBytes msg hopCount originRelayID) of
            (ed', r) \<Rightarrow> (ed', mapErr EnvelopeStoreFailed r))))"

text \<open>
  One object of a TRANSFER frame: rejected (\<open>Inr None\<close>), accepted with the recipient to notify, or a
  failed look-up, which ends the handler.
\<close>

definition import_object ::
  "ws_env \<Rightarrow> ('d, 'e) WSHandler \<Rightarrow> gotime \<Rightarrow> TransferObject \<Rightarrow> ('d, 'e) hub \<Rightarrow> ('d, 'e) hub \<times> (serr + string option)" where
  "import_object w h now object u = (case transferObjectToMessage (wire w) now object of
     Inl issue \<Rightarrow> (u, Inr None)
   | Inr msg \<Rightarrow>
       let persist_envelope = (\<lambda>u. case persistTransferEnvelope h (edb u) object msg (sint (HopCount object)) [] of
             (ed, Inl issue) \<Rightarrow> (u\<lparr>edb := ed\<rparr>, Inr None)
           | (ed, Inr _) \<Rightarrow> (u\<lparr>edb := ed\<rparr>, Inr (Some (MTo msg))))
       in case sGetMessageByID (store h) (db u) (ItemID object) of
            Inr existing \<Rightarrow> persist_envelope u
          | Inl err \<Rightarrow>
              if \<not> isNotFoundError err then (u, Inl err)
              else (case EnginePersistMessage (store h) (envelopeStore h) (engine h) (db u) (edb u) (Some msg) of
                      (d, ed, Inl err) \<Rightarrow> (u\<lparr>db := d, edb := ed\<rparr>, Inr None)
                    | (d, ed, Inr _) \<Rightarrow> persist_envelope (u\<lparr>db := d, edb := ed\<rparr>)))"

fun import_loop ::
  "ws_env \<Rightarrow> ('d, 'e) WSHandler \<Rightarrow> gotime \<Rightarrow> TransferObject list \<Rightarrow> string list \<Rightarrow> string list \<Rightarrow> ('d, 'e) hub \<Rightarrow>
   ('d, 'e) hub \<times> (serr + string list \<times> string list)" where
  "import_loop w h now [] accepted notify u = (u, Inr (accepted, notify))"
| "import_loop w h now (object # rest) accepted notify u = (case import_object w h now object u of
     (u, Inl err) \<Rightarrow> (u, Inl err)
   | (u, Inr None) \<Rightarrow> import_loop w h now rest accepted notify u
   | (u, Inr (Some recipient)) \<Rightarrow> import_loop w h now rest (accepted @ [ItemID object]) (notify @ [recipient]) u)"

definition handleTransfer ::
  "ws_env \<Rightarrow> ('d, 'e) WSHandler \<Rightarrow> gotime \<Rightarrow> Event \<Rightarrow> ('d, 'e) wst \<Rightarrow> ('d, 'e) wst \<times> (ws_err + unit)" where
  "handleTransfer w h now ev st = (case st of (s, u) \<Rightarrow>
     (case ensureDrainSession h now s of (s, _) \<Rightarrow>
     (case ETransfer ev of
        None \<Rightarrow> ((s, u), Inl (EventMissingPayload ''transfer''))
      | Some transfer \<Rightarrow>
     (case import_loop w h now (map Object (Objects transfer)) [] [] u of
        (u, Inl err) \<Rightarrow> ((s, u), Inl (StoreFailed err))
      | (u, Inr (accepted, notify)) \<Rightarrow>
          let accepted = (if length accepted > 1 then SortDigestHexIDs accepted else accepted);
              s = on_drain h now (\<lambda>d. RecordTransferred d (int (length accepted)) now)
                    (s\<lparr>lastRoundTransferred := int (length accepted)\<rparr>);
              u = (if length accepted > 0
                   then pushSummariesToOnlineRecipients w h now (sessionID s) (client s) notify u else u);
              s = on_drain h now (\<lambda>d. CompleteRound d (length accepted > 0) now) s
          in sendEnvelope w h now FrameTypeReceipt (GMapS (receipt_fields \<lparr>Accepted = accepted\<rparr>)) (s, u)))))"

subsection \<open>RECEIPT\<close>

definition handleReceipt ::
  "ws_env \<Rightarrow> ('d, 'e) WSHandler \<Rightarrow> gotime \<Rightarrow> Event \<Rightarrow> ('d, 'e) wst \<Rightarrow> ('d, 'e) wst \<times> (ws_err + unit)" where
  "handleReceipt w h now ev st = (case st of (s, u) \<Rightarrow>
     (case ensureDrainSession h now s of (s, _) \<Rightarrow>
     (case EReceipt ev of
        None \<Rightarrow> ((s, u), Inl (EventMissingPayload ''receipt''))
      | Some receipt \<Rightarrow>
     (case sMarkAckedBatch (store h) now (db u) (Accepted receipt) (cDeliveryID (clientInfo u (client s))) of
        (d', Inl err) \<Rightarrow> ((s, u\<lparr>db := d'\<rparr>), Inl (stopSession DrainStopReasonStorageError))
      | (d', Inr transitionedIDs) \<Rightarrow>
          let u = u\<lparr>db := d'\<rparr>;
              transitioned = length (filter (\<lambda>acceptedID. acceptedID \<in> transitionedIDs) (Accepted receipt));
              s = on_drain h now (\<lambda>d. CompleteRound (RecordAcknowledged d (int transitioned) now) (transitioned \<noteq> 0) now) s
          in if queueRecipient s = [] then ((s, u), Inr ())
             else if transitioned = 0
             then (case ensureDrainSession h now s of (s, d) \<Rightarrow>
                  (case CanStartAnotherRound d (toUTC now) now of (d, canContinue, why) \<Rightarrow>
                     ((s\<lparr>drain := Some d\<rparr>, u), if canContinue then Inr () else Inl (stopSession why))))
             else sendDrainSummary w h now False (s, u)))))"

subsection \<open>Events and the read pump\<close>

definition gated ::
  "string \<Rightarrow> (('d, 'e) wst \<Rightarrow> ('d, 'e) wst \<times> (ws_err + unit)) \<Rightarrow> ('d, 'e) wst \<Rightarrow> ('d, 'e) wst \<times> (ws_err + unit)" where
  "gated frame handler st = (if \<not> handshakeComplete (fst st) then (st, Inl (BeforeHello frame)) else handler st)"

definition processEvent ::
  "ws_env \<Rightarrow> ('d, 'e) WSHandler \<Rightarrow> gotime \<Rightarrow> Event \<Rightarrow> ('d, 'e) wst \<Rightarrow> ('d, 'e) wst \<times> (ws_err + unit)" where
  "processEvent w h now ev st = (case EType ev of
     EventTypeHelloValidated \<Rightarrow>
       handleHelloValidated w h now ev
         (case EHello ev of None \<Rightarrow> st | Some hello \<Rightarrow> ((fst st)\<lparr>peerMaxWant := MaxWant hello\<rparr>, snd st))
   | EventTypeSummary \<Rightarrow> gated ''summary'' (handleSummary w h now ev) st
   | EventTypeRequest \<Rightarrow> gated ''request'' (handleRequest w h now ev) st
   | EventTypeTransfer \<Rightarrow> gated ''transfer'' (handleTransfer w h now ev) st
   | EventTypeReceipt \<Rightarrow> gated ''receipt'' (handleReceipt w h now ev) st
   | _ \<Rightarrow> (st, Inr ()))"

text \<open>A fatal event returns its error, so the handler ends without one when the event has none.\<close>

fun processEvents ::
  "ws_env \<Rightarrow> ('d, 'e) WSHandler \<Rightarrow> gotime \<Rightarrow> Event list \<Rightarrow> ('d, 'e) wst \<Rightarrow> ('d, 'e) wst \<times> (ws_err + unit)" where
  "processEvents w h now [] st = (st, Inr ())"
| "processEvents w h now (ev # evs) st =
     (if EType ev = EventTypeFatal
      then (st, case Err ev of None \<Rightarrow> Inr () | Some err \<Rightarrow> Inl (ProtocolErr err))
      else bindS (processEvent w h now ev st) (\<lambda>st _. processEvents w h now evs st))"

text \<open>What \<open>ReadMessage\<close> returns: a binary message, another kind of message, or an error.\<close>

datatype ws_read = ReadBinary bytes | ReadOther | ReadTimeout | ReadClosed

definition stop_read :: "('d, 'e) WSHandler \<Rightarrow> gotime \<Rightarrow> DrainStopReason \<Rightarrow> ('d, 'e) wst \<Rightarrow> ('d, 'e) wst \<times> (DrainStopReason + unit)" where
  "stop_read h now why st = ((on_drain h now (\<lambda>d. Stop d why) (fst st), snd st), Inl why)"

text \<open>One turn of the loop of \<open>readPump\<close>; \<open>Inl\<close> is its return with the stop reason.\<close>

fun read_turn ::
  "ws_env \<Rightarrow> ('d, 'e) WSHandler \<Rightarrow> gotime \<Rightarrow> ws_read \<Rightarrow> ('d, 'e) wst \<Rightarrow> ('d, 'e) wst \<times> (DrainStopReason + unit)" where
  "read_turn w h now ReadTimeout st = stop_read h now DrainStopReasonClientSilence st"
| "read_turn w h now ReadClosed st = stop_read h now DrainStopReasonClientDisconnect st"
| "read_turn w h now ReadOther st = stop_read h now DrainStopReasonClientDisconnect st"
| "read_turn w h now (ReadBinary data) (s, u) =
     (case ensureDrainSession h now s of (s, d) \<Rightarrow>
     (case RecordBytesReceived d (int (length data)) now of (d, why) \<Rightarrow>
        if why \<noteq> DrainStopReasonNone then ((s\<lparr>drain := Some d\<rparr>, u), Inl why)
        else
     (case PushInbound (wire w) (adapter s) data of (a, events) \<Rightarrow>
     (case processEvents w h now events (s\<lparr>drain := Some d, adapter := a\<rparr>, u) of
        (st, Inr _) \<Rightarrow> (st, Inr ())
      | (st, Inl err) \<Rightarrow> (st, Inl (case asSessionStop err of Some r \<Rightarrow> r | None \<Rightarrow> DrainStopReasonProtocolFatal))))))"

text \<open>The deferred end of \<open>readPump\<close>; \<open>None\<close> is the panic of closing a channel twice in the registry.\<close>

definition end_read ::
  "('d, 'e) WSHandler \<Rightarrow> gotime \<Rightarrow> DrainStopReason \<Rightarrow> ('d, 'e) wst \<Rightarrow> (('d, 'e) hub \<times> DrainStopReason) option" where
  "end_read h now stopReason st = (case st of (s, u) \<Rightarrow>
     (case finalizeDrainSession h now stopReason s of (s, why) \<Rightarrow>
        if cWayfarerID (clientInfo u (client s)) \<noteq> []
        then map_option (\<lambda>r. (u\<lparr>clients := r\<rparr>, why))
               (unregister_client (clients u) \<lparr>ptr = client s, WayfarerID = cWayfarerID (clientInfo u (client s))\<rparr>)
        else Some (closeClientSend u (client s), why)))"

definition new_session :: "('d, 'e) WSHandler \<Rightarrow> gotime \<Rightarrow> nat \<Rightarrow> string \<Rightarrow> string \<Rightarrow> clientSession" where
  "new_session h now p sid remoteAddr = \<lparr>client = p,
     adapter = NewSessionAdapter (BuildRelayHello (handlerRelayID h)) False,
     drain = Some (NewDrainSession sid (toUTC now) now (drainLimits h)), sessionID = sid, peerLabel = remoteAddr,
     handshakeComplete = False, queueRecipient = [], summaryCursor = [], peerMaxWant = 0,
     lastRoundRequested = 0, lastRoundTransferred = 0\<rparr>"

subsection \<open>The server: sessions, disconnections and push timers interleaved\<close>

record ('d, 'e) server =
  shared :: "('d, 'e) hub"
  sessions :: "nat \<rightharpoonup> clientSession"

datatype server_event =
    HandleWebSocket gotime nat string string string
  | ReadMessage gotime nat ws_read
  | PushTimer gotime nat

text \<open>
  \<open>HandleWebSocket now p origin sid addr\<close>: a connection that gets the client \<open>p\<close>.  A session is put back
  or, when its pump returned, ended.
\<close>

definition settle ::
  "('d, 'e) WSHandler \<Rightarrow> gotime \<Rightarrow> ('d, 'e) server \<Rightarrow> ('d, 'e) wst \<times> (DrainStopReason + unit) \<Rightarrow> ('d, 'e) server option" where
  "settle h now v result = (case result of
     ((s, u), Inr _) \<Rightarrow> Some (v\<lparr>shared := u, sessions := (sessions v)(client s \<mapsto> s)\<rparr>)
   | ((s, u), Inl why) \<Rightarrow>
       map_option (\<lambda>(u, _). v\<lparr>shared := u, sessions := (sessions v)(client s := None)\<rparr>) (end_read h now why (s, u)))"

definition start_read ::
  "ws_env \<Rightarrow> ('d, 'e) WSHandler \<Rightarrow> gotime \<Rightarrow> ('d, 'e) wst \<Rightarrow> ('d, 'e) wst \<times> (DrainStopReason + unit)" where
  "start_read w h now st = (case sendLocalHello w h now st of
     (st, Inr _) \<Rightarrow> (st, Inr ())
   | (st, Inl err) \<Rightarrow> (st, Inl (case asSessionStop err of Some r \<Rightarrow> r | None \<Rightarrow> DrainStopReasonClientDisconnect)))"

definition new_client :: "('d, 'e) hub \<Rightarrow> nat \<Rightarrow> ('d, 'e) hub" where
  "new_client u p = u\<lparr>clientInfo := (clientInfo u)(p := \<lparr>cWayfarerID = [], cDeviceID = [], cDeliveryID = []\<rparr>),
     sent := (sent u)(p := [])\<rparr>"

fun server_step ::
  "ws_env \<Rightarrow> ('d, 'e) WSHandler \<Rightarrow> ('d, 'e) server \<Rightarrow> server_event \<Rightarrow> ('d, 'e) server option" where
  "server_step w h v (HandleWebSocket now p origin sid addr) =
     (if \<not> Check (originChecker h) origin then Some v
      else settle h now v (start_read w h now (new_session h now p sid addr, new_client (shared v) p)))"
| "server_step w h v (ReadMessage now p msg) = (case sessions v p of
     None \<Rightarrow> Some v
   | Some s \<Rightarrow> settle h now v (read_turn w h now msg (s, shared v)))"
| "server_step w h v (PushTimer now t) = Some (v\<lparr>shared := fire_timer w h now t (shared v)\<rparr>)"

end
