(* ===== verification/Float64.thy ===== *)
theory Float64
  imports Complex_Main Relay_Prelude
begin

text \<open>
  Go's \<open>float64\<close>, as far as the relay computes with it: finite values are rational numbers, and every
  operation rounds the exact result to 53 significant bits, to nearest with ties to even, with the least
  exponent that of the subnormal numbers.  Infinities and NaN are left out: no operation of the relay comes
  near \<open>2 ^ 1024\<close> from the values it is given, or divides by zero.  Products and sums are rounded one by one, as on amd64.
\<close>

function bitlen :: "int \<Rightarrow> int" where
  "bitlen n = (if n \<le> 0 then 0 else 1 + bitlen (n div 2))"
  by pat_completeness auto
termination by (relation "measure nat") auto

declare bitlen.simps [simp del]

definition pow2 :: "int \<Rightarrow> rat" where
  "pow2 e = (if e \<ge> 0 then 2 ^ nat e else 1 / 2 ^ nat (- e))"

text \<open>The exponent \<open>e\<close> with \<open>2 ^ e \<le> x < 2 ^ (e + 1)\<close>, from the numerator and the denominator of a positive \<open>x\<close>.\<close>

definition exponent :: "rat \<Rightarrow> int" where
  "exponent x = (case quotient_of x of (p, q) \<Rightarrow>
     let k = bitlen p - bitlen q in if pow2 k \<le> x then k else k - 1)"

definition round_even :: "rat \<Rightarrow> int" where
  "round_even x = (let f = \<lfloor>x\<rfloor>; r = x - of_int f in if r > 1 / 2 \<or> r = 1 / 2 \<and> odd f then f + 1 else f)"

definition ulp :: "rat \<Rightarrow> rat" where
  "ulp x = pow2 (max (exponent x - 52) (- 1074))"

definition f64 :: "rat \<Rightarrow> rat" where
  "f64 x = (if x = 0 then 0
     else if x > 0 then of_int (round_even (x / ulp x)) * ulp x
     else - (of_int (round_even (- x / ulp (- x))) * ulp (- x)))"

definition fadd :: "rat \<Rightarrow> rat \<Rightarrow> rat" where "fadd x y = f64 (x + y)"
definition fsub :: "rat \<Rightarrow> rat \<Rightarrow> rat" where "fsub x y = f64 (x - y)"
definition fmul :: "rat \<Rightarrow> rat \<Rightarrow> rat" where "fmul x y = f64 (x * y)"
definition fdiv :: "rat \<Rightarrow> rat \<Rightarrow> rat" where "fdiv x y = f64 (x / y)"

text \<open>The conversions of an integer and to an integer, which cuts the fraction off.\<close>

definition float64 :: "int \<Rightarrow> rat" where
  "float64 n = f64 (of_int n)"

definition to_int :: "rat \<Rightarrow> int" where
  "to_int x = (if x \<ge> 0 then \<lfloor>x\<rfloor> else \<lceil>x\<rceil>)"

lemmas float_ops = fadd_def fsub_def fmul_def fdiv_def float64_def

subsection \<open>Rounding keeps bounds\<close>

lemma pow2_pos [simp]: "pow2 e > 0"
  by (simp add: pow2_def)

lemma ulp_pos [simp]: "ulp x > 0"
  by (simp add: ulp_def)

lemma round_even_le: "x \<le> of_int n \<Longrightarrow> round_even x \<le> n"
proof -
  assume x: "x \<le> of_int n"
  show "round_even x \<le> n"
  proof (cases "\<lfloor>x\<rfloor> = n")
    case True
    with x have "x = of_int n" by (metis antisym of_int_floor_le)
    then show ?thesis by (simp add: round_even_def)
  next
    case False
    with x have "\<lfloor>x\<rfloor> + 1 \<le> n" using floor_mono [OF x] by simp
    then show ?thesis by (auto simp: round_even_def Let_def)
  qed
qed

lemma round_even_nonneg: "0 \<le> x \<Longrightarrow> 0 \<le> round_even x"
  by (auto simp: round_even_def Let_def)

lemma f64_zero [simp]: "f64 0 = 0"
  by (simp add: f64_def)

lemma f64_nonneg: "0 \<le> x \<Longrightarrow> 0 \<le> f64 x"
  by (auto simp: f64_def ulp_def round_even_nonneg less_imp_le)

lemma f64_one [simp]: "f64 1 = 1"
  by code_simp

lemma bitlen_bounds:
  assumes "0 < n"
  shows "0 < bitlen n" and "2 ^ nat (bitlen n - 1) \<le> n" and "n < 2 ^ nat (bitlen n)"
proof -
  have "0 < bitlen n \<and> 2 ^ nat (bitlen n - 1) \<le> n \<and> n < 2 ^ nat (bitlen n)"
    using assms
  proof (induction n rule: bitlen.induct)
    case (1 n)
    show ?case
    proof (cases "n = 1")
      case True
      then show ?thesis by (simp add: bitlen.simps)
    next
      case False
      with 1 have IH: "0 < bitlen (n div 2)" "2 ^ nat (bitlen (n div 2) - 1) \<le> n div 2" "n div 2 < 2 ^ nat (bitlen (n div 2))" by auto
      obtain m where m: "bitlen (n div 2) = int (Suc m)" using IH(1) by (metis zero_less_imp_eq_int Suc_pred)
      then have b: "bitlen n = int (Suc (Suc m))" using 1(2) by (subst bitlen.simps) simp
      have "2 ^ m \<le> n div 2" "n div 2 < 2 ^ Suc m" using IH(2,3) unfolding m nat_int by simp_all
      then have "2 ^ Suc m \<le> n" "n < 2 ^ Suc (Suc m)" by simp_all
      moreover have "nat (bitlen n - 1) = Suc m" "nat (bitlen n) = Suc (Suc m)" unfolding b by simp_all
      ultimately show ?thesis using b by simp
    qed
  qed
  then show "0 < bitlen n" "2 ^ nat (bitlen n - 1) \<le> n" "n < 2 ^ nat (bitlen n)" by simp_all
qed

lemma pow2_nat: "0 \<le> e \<Longrightarrow> pow2 e = 2 ^ nat e"
  by (simp add: pow2_def)

lemma pow2_diff: "0 \<le> a \<Longrightarrow> 0 \<le> b \<Longrightarrow> pow2 (a - b) = 2 ^ nat a / 2 ^ nat b"
proof (cases "b \<le> a")
  case True
  assume "0 \<le> a" "0 \<le> b"
  with True have "nat a = nat (a - b) + nat b" by simp
  with True show ?thesis by (simp add: pow2_def power_add)
next
  case False
  assume "0 \<le> a" "0 \<le> b"
  with False have "nat b = nat (b - a) + nat a" by simp
  with False show ?thesis by (simp add: pow2_def power_add)
qed

lemma exponent_lower:
  assumes "0 < x"
  shows "pow2 (exponent x) \<le> x"
proof -
  obtain p q where pq: "quotient_of x = (p, q)" by fastforce
  then have q: "0 < q" and x: "x = of_int p / of_int q" by (simp_all add: quotient_of_denom_pos quotient_of_div)
  with assms have p: "0 < p" by (simp add: zero_less_divide_iff)
  have "pow2 (bitlen p - 1 - bitlen q) = 2 ^ nat (bitlen p - 1) / 2 ^ nat (bitlen q)"
    using bitlen_bounds(1) [OF p] bitlen_bounds(1) [OF q] by (intro pow2_diff) simp_all
  also have "\<dots> \<le> of_int p / of_int q"
  proof (rule frac_le)
    show "(2 :: rat) ^ nat (bitlen p - 1) \<le> of_int p" using bitlen_bounds(2) [OF p] by (metis of_int_le_iff of_int_numeral of_int_power)
    show "of_int q \<le> (2 :: rat) ^ nat (bitlen q)" using bitlen_bounds(3) [OF q] by (metis less_imp_le of_int_le_iff of_int_numeral of_int_power)
  qed (use p q in simp_all)
  finally have low: "pow2 (bitlen p - 1 - bitlen q) \<le> x" by (simp only: x)
  have "bitlen p - bitlen q - 1 = bitlen p - 1 - bitlen q" by simp
  then have "exponent x = (if pow2 (bitlen p - bitlen q) \<le> x then bitlen p - bitlen q else bitlen p - 1 - bitlen q)"
    unfolding exponent_def pq Let_def by simp
  with low show ?thesis by (simp split: if_splits)
qed

lemma pow2_mono: "a \<le> b \<Longrightarrow> pow2 a \<le> pow2 b"
proof -
  assume "a \<le> b"
  have "pow2 a = 2 ^ nat (a + (\<bar>a\<bar> + \<bar>b\<bar>)) / 2 ^ nat (\<bar>a\<bar> + \<bar>b\<bar>)" "pow2 b = 2 ^ nat (b + (\<bar>a\<bar> + \<bar>b\<bar>)) / 2 ^ nat (\<bar>a\<bar> + \<bar>b\<bar>)"
    using pow2_diff [of "a + (\<bar>a\<bar> + \<bar>b\<bar>)" "\<bar>a\<bar> + \<bar>b\<bar>"] pow2_diff [of "b + (\<bar>a\<bar> + \<bar>b\<bar>)" "\<bar>a\<bar> + \<bar>b\<bar>"] by simp_all
  moreover have "(2 :: rat) ^ nat (a + (\<bar>a\<bar> + \<bar>b\<bar>)) \<le> 2 ^ nat (b + (\<bar>a\<bar> + \<bar>b\<bar>))"
    using \<open>a \<le> b\<close> by (intro power_increasing nat_mono) simp_all
  ultimately show ?thesis by (simp only: divide_right_mono zero_le_power zero_le_numeral)
qed

lemma pow2_shift: "pow2 (e - 52) = pow2 e / 2 ^ 52"
proof -
  have "pow2 (e - 52) = 2 ^ nat (e + \<bar>e\<bar>) / 2 ^ nat (52 + \<bar>e\<bar>)" "pow2 e = 2 ^ nat (e + \<bar>e\<bar>) / 2 ^ nat \<bar>e\<bar>"
    using pow2_diff [of "e + \<bar>e\<bar>" "52 + \<bar>e\<bar>"] pow2_diff [of "e + \<bar>e\<bar>" "\<bar>e\<bar>"] by simp_all
  moreover have "nat (52 + \<bar>e\<bar>) = 52 + nat \<bar>e\<bar>" by simp
  ultimately show ?thesis by (simp add: power_add)
qed

text \<open>Rounding adds at most half a unit in the last place, of a value or of the subnormal numbers.\<close>

lemma f64_upper:
  assumes "0 < x"
  shows "f64 x \<le> x + x / 2 ^ 53 + 1 / 2 ^ 1075"
proof -
  have "of_int (round_even z) \<le> z + 1 / 2" for z :: rat
    using of_int_floor_le [of z] unfolding round_even_def Let_def by (simp split: if_splits; linarith)
  then have "f64 x \<le> (x / ulp x + 1 / 2) * ulp x"
    using assms by (auto simp: f64_def ulp_def intro: mult_right_mono less_imp_le)
  also have "\<dots> = x + ulp x / 2" using less_imp_neq [OF ulp_pos [of x]] by (simp add: distrib_right)
  also have "ulp x \<le> x / 2 ^ 52 + 1 / 2 ^ 1074"
  proof -
    have "pow2 (exponent x - 52) \<le> x / 2 ^ 52"
      unfolding pow2_shift using exponent_lower [OF assms] by (simp add: divide_right_mono)
    moreover have "pow2 (- 1074) = 1 / 2 ^ 1074" by (simp add: pow2_def)
    moreover have "0 < x / 2 ^ 52" "(0 :: rat) < 1 / 2 ^ 1074" using assms by simp_all
    ultimately show ?thesis unfolding ulp_def max_def by (simp only: split: if_split) linarith
  qed
  then have "x + ulp x / 2 \<le> x + (x / 2 ^ 52 + 1 / 2 ^ 1074) / 2" by simp
  also have "\<dots> = x + x / 2 ^ 53 + 1 / 2 ^ 1075" by (simp add: add_divide_distrib)
  finally show ?thesis .
qed

text \<open>A coarse bound, and what it says of scaling an integer down and cutting the fraction off.\<close>

lemma f64_coarse:
  assumes "0 \<le> x"
  shows "f64 x \<le> x * (101 / 100) + 1 / 1000"
proof (cases "x = 0")
  case False
  with assms have x: "0 < x" by simp
  have "x / 2 ^ 53 \<le> x / 100" using x by (intro divide_left_mono) simp_all
  moreover have "(1 :: rat) / 2 ^ 1075 \<le> 1 / 1000" by (intro divide_left_mono) simp_all
  ultimately show ?thesis using f64_upper [OF x] by linarith
qed simp

lemma scale_down:
  assumes "0 \<le> c" and "c \<le> 23 / 25" and "1 \<le> n"
  shows "0 \<le> to_int (fmul (float64 n) c)" and "to_int (fmul (float64 n) c) < n"
proof -
  have n: "(1 :: rat) \<le> of_int n" using assms(3) by simp
  have f: "0 \<le> float64 n" using assms(3) by (simp add: float64_def f64_nonneg)
  then have pos: "0 \<le> fmul (float64 n) c" using assms(1) by (simp add: fmul_def f64_nonneg)
  then show "0 \<le> to_int (fmul (float64 n) c)" by (simp add: to_int_def)
  have "float64 n \<le> of_int n * (101 / 100) + 1 / 1000" unfolding float64_def using n by (intro f64_coarse) simp
  also have "\<dots> \<le> of_int n * (1011 / 1000)" using n by linarith
  finally have "float64 n * c \<le> of_int n * (1011 / 1000) * (23 / 25)" using assms f n by (intro mult_mono) simp_all
  moreover have "fmul (float64 n) c \<le> float64 n * c * (101 / 100) + 1 / 1000"
    unfolding fmul_def using f assms(1) by (intro f64_coarse) simp
  ultimately have "fmul (float64 n) c < of_int n" using n by linarith
  with pos show "to_int (fmul (float64 n) c) < n" by (simp add: to_int_def floor_less_iff)
qed

text \<open>A value of at most one rounds to at most one: one is a multiple of the unit the value is rounded to.\<close>

lemma f64_le_one:
  assumes "x \<le> 1"
  shows "f64 x \<le> 1"
proof (cases "0 < x")
  case False
  have "0 \<le> of_int (round_even (- x / ulp (- x))) * ulp (- x)"
    using False less_imp_le [OF ulp_pos [of "- x"]] by (intro mult_nonneg_nonneg) (simp_all add: round_even_nonneg divide_nonpos_nonneg)
  with False show ?thesis unfolding f64_def by (simp only: if_False split: if_split) linarith
next
  case True
  have "exponent x \<le> 0"
  proof (rule ccontr)
    assume "\<not> exponent x \<le> 0"
    then have "pow2 1 \<le> pow2 (exponent x)" by (intro pow2_mono) simp
    also have "\<dots> \<le> x" by (rule exponent_lower [OF True])
    finally show False using assms by (simp add: pow2_def)
  qed
  then have "max (exponent x - 52) (- 1074) < 0" by simp
  then obtain k where k: "ulp x = 1 / 2 ^ k" unfolding ulp_def pow2_def by simp
  have "x / ulp x \<le> of_int (2 ^ k)" using assms by (simp add: k mult_left_le_one_le)
  then have "round_even (x / ulp x) \<le> 2 ^ k" by (rule round_even_le)
  then have "of_int (round_even (x / ulp x)) \<le> (2 ^ k :: rat)" by (metis of_int_le_iff of_int_numeral of_int_power)
  then show ?thesis using True by (simp add: f64_def k divide_le_eq_1)
qed

lemma f64_check1: "f64 (1 / 10) = 3602879701896397 / 2 ^ 55"
  by code_simp

lemma f64_check2: "to_int (fmul 5 (fdiv 10 11)) = 4"
  by code_simp

lemma f64_check3: "fmul (f64 (7 / 10)) 50 = 35"
  by code_simp

end
