(* ===== verification/Scoring.thy ===== *)
theory Scoring
  imports Go_Time Float64 "HOL-Library.Multiset"
begin

text \<open>
  Scores: of federation peers (\<^verbatim>\<open>internal/model/peer_scoring.go\<close>) with the strategy that forwards by them
  (\<^verbatim>\<open>internal/federation/tar.go\<close>), of relays (\<^verbatim>\<open>internal/model/relay.go\<close>) with the adaptive publish width
  (\<^verbatim>\<open>internal/model/scoring.go\<close>) and the service that keeps them (\<^verbatim>\<open>internal/scoring/service.go\<close>).
  \<open>math.Pow\<close> with base one half is the argument \<open>pow_half\<close>; the sort of the library, which promises no order
  among equal scores, is the argument \<open>srt\<close>, and so is the first number of a seeded source.
  Every operation reads the clock once, as \<open>now\<close>.
\<close>

subsection \<open>Sorting by score\<close>

text \<open>\<^verbatim>\<open>sort.Sort(sort.Reverse(...))\<close>: a permutation, highest score first.\<close>

locale score_sort =
  fixes srt :: "('a \<Rightarrow> rat) \<Rightarrow> 'a list \<Rightarrow> 'a list"
  assumes srt_mset: "mset (srt f xs) = mset xs"
    and srt_sorted: "sorted_wrt (\<lambda>x y. f y \<le> f x) (srt f xs)"
begin

lemma srt_set [simp]: "set (srt f xs) = set xs" "length (srt f xs) = length xs"
  using srt_mset by (metis set_mset_mset) (metis srt_mset size_mset)

lemma srt_Nil [simp]: "srt f [] = []"
  by (metis length_0_conv list.size(3) srt_set(2))

lemma srt_distinct: "distinct (map g (srt f xs)) = distinct (map g xs)"
  by (metis mset_eq_imp_distinct_iff mset_map srt_mset)

lemma srt_best:
  assumes "x \<in> set (take k (srt f xs))" and "y \<in> set (drop k (srt f xs))"
  shows "f y \<le> f x"
proof -
  have "sorted_wrt (\<lambda>x y. f y \<le> f x) (take k (srt f xs) @ drop k (srt f xs))" using srt_sorted by simp
  then show ?thesis using assms unfolding sorted_wrt_append by blast
qed

end

text \<open>For up to twelve elements the library sorts by insertion, which keeps equal scores in order.\<close>

definition insertion_desc :: "('a \<Rightarrow> rat) \<Rightarrow> 'a list \<Rightarrow> 'a list" where
  "insertion_desc f = sort_key (\<lambda>x. - f x)"

interpretation insertion: score_sort insertion_desc
proof
  fix f :: "'a \<Rightarrow> rat" and xs
  show "mset (insertion_desc f xs) = mset xs" by (simp add: insertion_desc_def)
  have "sorted (map (\<lambda>x. - f x) (insertion_desc f xs))" by (simp add: insertion_desc_def)
  then show "sorted_wrt (\<lambda>x y. f y \<le> f x) (insertion_desc f xs)" by (simp add: sorted_map)
qed

subsection \<open>Peers\<close>

record PeerMetrics =
  PmPeerID :: string
  PmConnected :: bool
  PmLastConnectedAt :: gotime
  PmLastDisconnectedAt :: gotime
  PmForwardsTotal :: int
  PmAcksTotal :: int
  PmAckLatencyEWMA :: rat
  PmTimeoutsTotal :: int
  PmFailuresTotal :: int
  PmConsecutiveFailures :: int
  PmLastForwardAt :: gotime
  PmLastAckAt :: gotime
  PmBackoffUntil :: gotime
  PmScore :: rat
  PmLastScoreUpdate :: gotime
  PmSeed :: int

definition NewPeerMetrics :: "gotime \<Rightarrow> int \<Rightarrow> string \<Rightarrow> PeerMetrics" where
  "NewPeerMetrics now seed peerID = \<lparr>PmPeerID = peerID, PmConnected = True, PmLastConnectedAt = now, PmLastDisconnectedAt = zero_time,
     PmForwardsTotal = 0, PmAcksTotal = 0, PmAckLatencyEWMA = 0, PmTimeoutsTotal = 0, PmFailuresTotal = 0, PmConsecutiveFailures = 0,
     PmLastForwardAt = zero_time, PmLastAckAt = zero_time, PmBackoffUntil = zero_time, PmScore = 1, PmLastScoreUpdate = zero_time,
     PmSeed = seed\<rparr>"

definition RecordConnect :: "gotime \<Rightarrow> PeerMetrics \<Rightarrow> PeerMetrics" where
  "RecordConnect now m = m\<lparr>PmConnected := True, PmLastConnectedAt := now\<rparr>"

definition RecordDisconnect :: "gotime \<Rightarrow> PeerMetrics \<Rightarrow> PeerMetrics" where
  "RecordDisconnect now m = m\<lparr>PmConnected := False, PmLastDisconnectedAt := now\<rparr>"

definition RecordForward :: "gotime \<Rightarrow> PeerMetrics \<Rightarrow> PeerMetrics" where
  "RecordForward now m = m\<lparr>PmForwardsTotal := s64 (PmForwardsTotal m + 1), PmLastForwardAt := now\<rparr>"

definition clamp01 :: "rat \<Rightarrow> rat" where
  "clamp01 score = max 0 (min 1 score)"

text \<open>\<open>Duration.Minutes\<close>: whole minutes plus the rest, which is divided as a \<open>float64\<close>.\<close>

definition Minutes :: "int \<Rightarrow> rat" where
  "Minutes d = (let minute = 60 * second; whole = (if d \<ge> 0 then d div minute else - (- d div minute))
     in fadd (float64 whole) (fdiv (float64 (d - whole * minute)) (float64 minute)))"

text \<open>The constant weights and penalties are exact in the source and rounded where they meet a \<open>float64\<close>.\<close>

definition success_rate :: "PeerMetrics \<Rightarrow> rat" where
  "success_rate m = (let totalAttempts = s64 (s64 (PmAcksTotal m + PmTimeoutsTotal m) + PmFailuresTotal m)
     in if totalAttempts > 0 then fdiv (float64 (PmAcksTotal m)) (float64 totalAttempts) else 1 / 2)"

definition latency_term :: "rat \<Rightarrow> rat \<Rightarrow> rat \<Rightarrow> rat" where
  "latency_term good bad latency =
     (if latency > 0 then fsub 1 (min 1 (fdiv (fsub latency good) (bad - good))) else 1 / 2)"

definition stability_term :: "PeerMetrics \<Rightarrow> rat" where
  "stability_term m = (if PmConsecutiveFailures m = 0 then 1 else fdiv 1 (fadd 1 (float64 (PmConsecutiveFailures m))))"

definition uptime_term :: "gotime \<Rightarrow> PeerMetrics \<Rightarrow> rat" where
  "uptime_term now m = (if IsZero (PmLastConnectedAt m) then 1 / 2
     else let uptime = Sub now (PmLastConnectedAt m) in if uptime > 60 * second then 1 else Minutes uptime)"

definition recomputeScore :: "gotime \<Rightarrow> PeerMetrics \<Rightarrow> PeerMetrics" where
  "recomputeScore now m =
     (let score = fadd (fadd (fadd (fmul (success_rate m) (f64 (35 / 100))) (fmul (latency_term 500 5000 (PmAckLatencyEWMA m)) (f64 (25 / 100))))
                    (fmul (stability_term m) (f64 (20 / 100)))) (fmul (uptime_term now m) (f64 (20 / 100)));
          score = fsub score (fmul (float64 (PmConsecutiveFailures m)) (f64 (5 / 100)));
          score = fsub score (fmul (float64 (PmTimeoutsTotal m)) (f64 (2 / 100)));
          score = fsub score (fmul (float64 (PmFailuresTotal m)) (f64 (3 / 100)))
      in m\<lparr>PmScore := clamp01 score, PmLastScoreUpdate := now\<rparr>)"

definition RecordAck :: "gotime \<Rightarrow> rat \<Rightarrow> PeerMetrics \<Rightarrow> PeerMetrics" where
  "RecordAck now ackLatencyMs m =
     (let m = m\<lparr>PmAcksTotal := s64 (PmAcksTotal m + 1), PmLastAckAt := now, PmConsecutiveFailures := 0\<rparr>;
          m = m\<lparr>PmAckLatencyEWMA := (if PmAckLatencyEWMA m = 0 then ackLatencyMs
                 else fadd (fmul (f64 (3 / 10)) ackLatencyMs) (fmul (f64 (7 / 10)) (PmAckLatencyEWMA m)))\<rparr>
      in recomputeScore now m)"

definition RecordTimeout :: "gotime \<Rightarrow> PeerMetrics \<Rightarrow> PeerMetrics" where
  "RecordTimeout now m = recomputeScore now (m\<lparr>PmTimeoutsTotal := s64 (PmTimeoutsTotal m + 1),
     PmConsecutiveFailures := s64 (PmConsecutiveFailures m + 1)\<rparr>)"

definition RecordFailure_metrics :: "gotime \<Rightarrow> PeerMetrics \<Rightarrow> PeerMetrics" where
  "RecordFailure_metrics now m = recomputeScore now (m\<lparr>PmFailuresTotal := s64 (PmFailuresTotal m + 1),
     PmConsecutiveFailures := s64 (PmConsecutiveFailures m + 1)\<rparr>)"

text \<open>
  \<^verbatim>\<open>time.Duration(math.Pow(2, n))\<close> for \<open>n \<ge> 0\<close>: a power of two is exact; from \<open>2 ^ 63\<close> on it does not fit, and amd64
  gives the least \<open>int64\<close>.
\<close>

definition pow2_duration :: "int \<Rightarrow> int" where
  "pow2_duration n = (if n < 63 then 2 ^ nat n else - (2 ^ 63))"

definition ApplyBackoff :: "gotime \<Rightarrow> int \<Rightarrow> int \<Rightarrow> PeerMetrics \<Rightarrow> PeerMetrics" where
  "ApplyBackoff now baseDelay maxDelay m =
     (let backoff = s64 (baseDelay * pow2_duration (PmConsecutiveFailures m));
          backoff = (if backoff > maxDelay then maxDelay else backoff)
      in m\<lparr>PmBackoffUntil := Add now backoff\<rparr>)"

definition ClearBackoff :: "PeerMetrics \<Rightarrow> PeerMetrics" where
  "ClearBackoff m = m\<lparr>PmBackoffUntil := zero_time\<rparr>"

definition IsBackingOff_metrics :: "gotime \<Rightarrow> PeerMetrics \<Rightarrow> bool" where
  "IsBackingOff_metrics now m \<longleftrightarrow> \<not> IsZero (PmBackoffUntil m) \<and> Before now (PmBackoffUntil m)"

definition IsHealthy_metrics :: "gotime \<Rightarrow> PeerMetrics \<Rightarrow> bool" where
  "IsHealthy_metrics now m \<longleftrightarrow> PmConnected m \<and> PmScore m \<ge> f64 (3 / 10) \<and> \<not> IsBackingOff_metrics now m"

definition decay_factor :: "(rat \<Rightarrow> rat) \<Rightarrow> int \<Rightarrow> int \<Rightarrow> rat" where
  "decay_factor pow_half elapsed halfLife = pow_half (fdiv (float64 elapsed) (float64 halfLife))"

definition ApplyDecay_peer :: "(rat \<Rightarrow> rat) \<Rightarrow> gotime \<Rightarrow> PeerMetrics \<Rightarrow> PeerMetrics" where
  "ApplyDecay_peer pow_half now m =
     (if IsZero (PmLastAckAt m) then m
      else let timeSinceLastAck = Sub now (PmLastAckAt m)
           in if timeSinceLastAck > 300 * second then
                let score = fmul (PmScore m) (decay_factor pow_half timeSinceLastAck (3600 * second))
                in m\<lparr>PmScore := (if score < 0 then 0 else score), PmLastScoreUpdate := now\<rparr>
              else m)"

definition SortByPeerScore :: "((PeerMetrics \<Rightarrow> rat) \<Rightarrow> PeerMetrics list \<Rightarrow> PeerMetrics list) \<Rightarrow> PeerMetrics list \<Rightarrow> PeerMetrics list" where
  "SortByPeerScore srt peers = srt PmScore peers"

subsection \<open>Forwarding\<close>

record ForwardingConfig =
  FcTopK :: int
  FcExploreProb :: rat
  FcMaxHops :: int
  FcTimeout :: int
  FcBackoffBase :: int
  FcBackoffMax :: int

definition DefaultForwardingConfig :: ForwardingConfig where
  "DefaultForwardingConfig = \<lparr>FcTopK = 2, FcExploreProb = f64 (1 / 10), FcMaxHops = 3, FcTimeout = 10 * second,
     FcBackoffBase = second, FcBackoffMax = 60 * second\<rparr>"

definition Validate_forwarding :: "ForwardingConfig \<Rightarrow> ForwardingConfig" where
  "Validate_forwarding c =
     (let c = (if FcTopK c \<le> 0 then c\<lparr>FcTopK := 2\<rparr> else c);
          c = (if FcExploreProb c < 0 \<or> FcExploreProb c > 1 then c\<lparr>FcExploreProb := f64 (1 / 10)\<rparr> else c);
          c = (if FcMaxHops c \<le> 0 then c\<lparr>FcMaxHops := 3\<rparr> else c);
          c = (if FcTimeout c \<le> 0 then c\<lparr>FcTimeout := 10 * second\<rparr> else c);
          c = (if FcBackoffBase c \<le> 0 then c\<lparr>FcBackoffBase := second\<rparr> else c)
      in if FcBackoffMax c < FcBackoffBase c then c\<lparr>FcBackoffMax := 60 * second\<rparr> else c)"

text \<open>
  The metrics are the pairs of the map in the order in which the loop meets them; \<open>seeded s\<close> is the first
  \<open>Float64\<close> of the source with seed \<open>s\<close>.  \<open>None\<close> is an index below zero.
\<close>

definition SelectPeers ::
  "((PeerMetrics \<Rightarrow> rat) \<Rightarrow> PeerMetrics list \<Rightarrow> PeerMetrics list) \<Rightarrow> (int \<Rightarrow> rat) \<Rightarrow> gotime \<Rightarrow> ForwardingConfig \<Rightarrow>
     (string \<times> PeerMetrics) list \<Rightarrow> string \<Rightarrow> string list option" where
  "SelectPeers srt seeded now c peerMetrics originID =
     (let candidates = map snd (filter (\<lambda>(i, m). i \<noteq> originID \<and> IsHealthy_metrics now m) peerMetrics)
      in if candidates = [] then Some []
         else let candidates = SortByPeerScore srt candidates;
                  topK = min (FcTopK c) (int (length candidates));
                  selected = map PmPeerID (take (nat topK) candidates)
              in if FcExploreProb c > 0 \<and> int (length candidates) > topK then
                   if topK < 0 then None
                   else if seeded (PmSeed (candidates ! nat topK)) < FcExploreProb c
                   then Some (selected @ [PmPeerID (candidates ! nat topK)])
                   else Some selected
                 else Some selected)"

subsection \<open>Relays\<close>

record RelayScore =
  RsRelayID :: string
  RsSuccessfulDeliveries :: int
  RsFailedDeliveries :: int
  RsAverageAckLatencyMs :: rat
  RsConnectionUptime :: rat
  RsDisconnectCount :: int
  RsHandshakeFailures :: int
  RsMessagesAccepted :: int
  RsMessagesForwarded :: int
  RsLastUpdated :: gotime
  RsScore :: rat

definition NewRelayScore :: "gotime \<Rightarrow> string \<Rightarrow> RelayScore" where
  "NewRelayScore now relayID = \<lparr>RsRelayID = relayID, RsSuccessfulDeliveries = 0, RsFailedDeliveries = 0, RsAverageAckLatencyMs = 0,
     RsConnectionUptime = 1, RsDisconnectCount = 0, RsHandshakeFailures = 0, RsMessagesAccepted = 0, RsMessagesForwarded = 0,
     RsLastUpdated = now, RsScore = 1\<rparr>"

definition IsBlackhole :: "RelayScore \<Rightarrow> bool" where
  "IsBlackhole s \<longleftrightarrow> RsMessagesAccepted s \<ge> 5 \<and> RsMessagesForwarded s = 0 \<or> RsMessagesForwarded s = 0 \<and> RsMessagesAccepted s \<ge> 5"

definition recomputeScore_relay :: "RelayScore \<Rightarrow> RelayScore" where
  "recomputeScore_relay s =
     (let totalDeliveries = s64 (RsSuccessfulDeliveries s + RsFailedDeliveries s);
          successRatio = (if totalDeliveries > 0 then fdiv (float64 (RsSuccessfulDeliveries s)) (float64 totalDeliveries) else 1 / 2);
          latencyTerm = latency_term 100 2000 (RsAverageAckLatencyMs s);
          forwardSuccess = (if RsMessagesAccepted s > 0 then fdiv (float64 (RsMessagesForwarded s)) (float64 (RsMessagesAccepted s)) else 1 / 2);
          score = fadd (fadd (fadd (fmul successRatio (f64 (4 / 10))) (fmul (RsConnectionUptime s) (f64 (2 / 10))))
                    (fmul latencyTerm (f64 (2 / 10)))) (fmul forwardSuccess (f64 (2 / 10)));
          score = fsub score (fmul (float64 (RsDisconnectCount s)) (f64 (1 / 10)));
          score = fsub score (fmul (float64 (RsHandshakeFailures s)) (f64 (15 / 100)));
          score = (if IsBlackhole s then fsub score (1 / 2) else score)
      in s\<lparr>RsScore := clamp01 score\<rparr>)"

definition RecordSuccess_relay :: "gotime \<Rightarrow> rat \<Rightarrow> RelayScore \<Rightarrow> RelayScore" where
  "RecordSuccess_relay now latencyMs s =
     (let s = s\<lparr>RsSuccessfulDeliveries := s64 (RsSuccessfulDeliveries s + 1), RsLastUpdated := now\<rparr>;
          n = RsSuccessfulDeliveries s;
          s = s\<lparr>RsAverageAckLatencyMs := (if RsAverageAckLatencyMs s = 0 then latencyMs
                 else fdiv (fadd (fmul (RsAverageAckLatencyMs s) (float64 (s64 (n - 1)))) latencyMs) (float64 n))\<rparr>
      in recomputeScore_relay s)"

definition RecordFailure_relay :: "gotime \<Rightarrow> RelayScore \<Rightarrow> RelayScore" where
  "RecordFailure_relay now s = recomputeScore_relay (s\<lparr>RsFailedDeliveries := s64 (RsFailedDeliveries s + 1), RsLastUpdated := now\<rparr>)"

definition RecordDisconnect_relay :: "gotime \<Rightarrow> RelayScore \<Rightarrow> RelayScore" where
  "RecordDisconnect_relay now s = recomputeScore_relay (s\<lparr>RsDisconnectCount := s64 (RsDisconnectCount s + 1), RsLastUpdated := now\<rparr>)"

definition RecordHandshakeFailure_relay :: "gotime \<Rightarrow> RelayScore \<Rightarrow> RelayScore" where
  "RecordHandshakeFailure_relay now s = recomputeScore_relay (s\<lparr>RsHandshakeFailures := s64 (RsHandshakeFailures s + 1), RsLastUpdated := now\<rparr>)"

definition RecordMessageAccepted_relay :: "gotime \<Rightarrow> RelayScore \<Rightarrow> RelayScore" where
  "RecordMessageAccepted_relay now s = s\<lparr>RsMessagesAccepted := s64 (RsMessagesAccepted s + 1), RsLastUpdated := now\<rparr>"

definition RecordMessageForwarded_relay :: "gotime \<Rightarrow> RelayScore \<Rightarrow> RelayScore" where
  "RecordMessageForwarded_relay now s = s\<lparr>RsMessagesForwarded := s64 (RsMessagesForwarded s + 1), RsLastUpdated := now\<rparr>"

definition ApplyDecay_relay :: "(rat \<Rightarrow> rat) \<Rightarrow> gotime \<Rightarrow> RelayScore \<Rightarrow> RelayScore" where
  "ApplyDecay_relay pow_half now s =
     (if IsZero (RsLastUpdated s) then s
      else let elapsed = Sub now (RsLastUpdated s)
           in if elapsed \<le> 0 then s
              else let factor = decay_factor pow_half elapsed (86400 * second);
                       score = fmul (RsScore s) factor;
                       uptime = fmul (RsConnectionUptime s) factor
                   in s\<lparr>RsScore := (if score < 0 then 0 else score),
                        RsConnectionUptime := (if uptime < f64 (1 / 10) then f64 (1 / 10) else uptime), RsLastUpdated := now\<rparr>)"

subsection \<open>The publish width\<close>

record RelaySelector =
  currentWidth :: int
  minWidth :: int
  maxWidth :: int
  recentFailures :: int
  recentSuccesses :: int
  windowSize :: int

definition NewRelaySelector :: RelaySelector where
  "NewRelaySelector = \<lparr>currentWidth = 1, minWidth = 1, maxWidth = 5, recentFailures = 0, recentSuccesses = 0, windowSize = 10\<rparr>"

definition adjustWidth :: "RelaySelector \<Rightarrow> RelaySelector" where
  "adjustWidth s =
     (let total = recentFailures s + recentSuccesses s
      in if total < 3 then s
         else let failureRate = fdiv (float64 (recentFailures s)) (float64 total);
                  w = currentWidth s;
                  w = (if failureRate > 1 / 2 then w + 1
                       else if failureRate > f64 (3 / 10) then (if w < maxWidth s then w + 1 else w) else w);
                  w = (if failureRate < f64 (1 / 10) \<and> w > minWidth s then w - 1 else w);
                  w = (if w < minWidth s then minWidth s else w);
                  w = (if w > maxWidth s then maxWidth s else w)
              in s\<lparr>currentWidth := w\<rparr>)"

definition scale_window :: "RelaySelector \<Rightarrow> RelaySelector" where
  "scale_window s =
     (let total = recentFailures s + recentSuccesses s
      in if total > windowSize s then
           let ratio = fdiv (float64 (windowSize s)) (float64 total)
           in s\<lparr>recentFailures := to_int (fmul (float64 (recentFailures s)) ratio),
                recentSuccesses := to_int (fmul (float64 (recentSuccesses s)) ratio)\<rparr>
         else s)"

definition RecordPublishAttempt :: "bool \<Rightarrow> RelaySelector \<Rightarrow> RelaySelector" where
  "RecordPublishAttempt success s =
     adjustWidth (scale_window (if success then s\<lparr>recentSuccesses := recentSuccesses s + 1\<rparr> else s\<lparr>recentFailures := recentFailures s + 1\<rparr>))"

definition SelectRelays ::
  "((RelayScore \<Rightarrow> rat) \<Rightarrow> RelayScore list \<Rightarrow> RelayScore list) \<Rightarrow> RelayScore list \<Rightarrow> int \<Rightarrow> RelayScore list option" where
  "SelectRelays srt relays width =
     (let relays = srt RsScore relays;
          width = (if int (length relays) < width then int (length relays) else width)
      in if width = 0 then Some [] else if width < 0 then None else Some (take (nat width) relays))"

subsection \<open>The service\<close>

text \<open>
  The scores by relay, the selector and what the optional store holds; a failing \<open>PutScore\<close> is only logged.
  \<open>put\<close> is \<open>PutScore\<close> of the store, which keeps what it kept when it fails.
\<close>

record 'p ScoringService =
  svScores :: "string \<rightharpoonup> RelayScore"
  svSelector :: RelaySelector
  svStore :: "'p option"

definition NewScoringService :: "'p option \<Rightarrow> 'p ScoringService" where
  "NewScoringService st = \<lparr>svScores = Map.empty, svSelector = NewRelaySelector, svStore = st\<rparr>"

definition loadScores :: "RelayScore list \<Rightarrow> 'p ScoringService \<Rightarrow> 'p ScoringService" where
  "loadScores scores sv = sv\<lparr>svScores := foldl (\<lambda>m score. m(RsRelayID score \<mapsto> score)) (svScores sv) scores\<rparr>"

definition GetOrCreateScore :: "gotime \<Rightarrow> string \<Rightarrow> 'p ScoringService \<Rightarrow> 'p ScoringService \<times> RelayScore" where
  "GetOrCreateScore now relayID sv = (case svScores sv relayID of
     Some score \<Rightarrow> (sv, score)
   | None \<Rightarrow> (let score = NewRelayScore now relayID in (sv\<lparr>svScores := (svScores sv)(relayID \<mapsto> score)\<rparr>, score)))"

definition persistScore :: "('p \<Rightarrow> RelayScore \<Rightarrow> 'p) \<Rightarrow> RelayScore \<Rightarrow> 'p ScoringService \<Rightarrow> 'p ScoringService" where
  "persistScore put score sv = (case svStore sv of None \<Rightarrow> sv | Some st \<Rightarrow> sv\<lparr>svStore := Some (put st score)\<rparr>)"

text \<open>Each recording gets or makes the score, changes it in place and persists it.\<close>

definition record_on :: "('p \<Rightarrow> RelayScore \<Rightarrow> 'p) \<Rightarrow> gotime \<Rightarrow> string \<Rightarrow> (RelayScore \<Rightarrow> RelayScore) \<Rightarrow> 'p ScoringService \<Rightarrow> 'p ScoringService" where
  "record_on put now relayID change sv = (case GetOrCreateScore now relayID sv of
     (sv, score) \<Rightarrow> let score = change score in persistScore put score (sv\<lparr>svScores := (svScores sv)(relayID \<mapsto> score)\<rparr>))"

definition RecordPublishSuccess :: "('p \<Rightarrow> RelayScore \<Rightarrow> 'p) \<Rightarrow> gotime \<Rightarrow> string \<Rightarrow> rat \<Rightarrow> 'p ScoringService \<Rightarrow> 'p ScoringService" where
  "RecordPublishSuccess put now relayID latencyMs sv =
     record_on put now relayID (RecordSuccess_relay now latencyMs) (sv\<lparr>svSelector := RecordPublishAttempt True (svSelector sv)\<rparr>)"

definition RecordPublishFailure :: "('p \<Rightarrow> RelayScore \<Rightarrow> 'p) \<Rightarrow> gotime \<Rightarrow> string \<Rightarrow> 'p ScoringService \<Rightarrow> 'p ScoringService" where
  "RecordPublishFailure put now relayID sv =
     record_on put now relayID (RecordFailure_relay now) (sv\<lparr>svSelector := RecordPublishAttempt False (svSelector sv)\<rparr>)"

definition RecordDisconnect_service :: "('p \<Rightarrow> RelayScore \<Rightarrow> 'p) \<Rightarrow> gotime \<Rightarrow> string \<Rightarrow> 'p ScoringService \<Rightarrow> 'p ScoringService" where
  "RecordDisconnect_service put now relayID = record_on put now relayID (RecordDisconnect_relay now)"

definition RecordHandshakeFailure_service :: "('p \<Rightarrow> RelayScore \<Rightarrow> 'p) \<Rightarrow> gotime \<Rightarrow> string \<Rightarrow> 'p ScoringService \<Rightarrow> 'p ScoringService" where
  "RecordHandshakeFailure_service put now relayID = record_on put now relayID (RecordHandshakeFailure_relay now)"

definition RecordMessageAccepted_service :: "('p \<Rightarrow> RelayScore \<Rightarrow> 'p) \<Rightarrow> gotime \<Rightarrow> string \<Rightarrow> 'p ScoringService \<Rightarrow> 'p ScoringService" where
  "RecordMessageAccepted_service put now relayID = record_on put now relayID (RecordMessageAccepted_relay now)"

definition RecordMessageForwarded_service :: "('p \<Rightarrow> RelayScore \<Rightarrow> 'p) \<Rightarrow> gotime \<Rightarrow> string \<Rightarrow> 'p ScoringService \<Rightarrow> 'p ScoringService" where
  "RecordMessageForwarded_service put now relayID = record_on put now relayID (RecordMessageForwarded_relay now)"

text \<open>\<open>applyDecay\<close> meets the relays in the order \<open>ids\<close> of the map's iteration.\<close>

fun applyDecay :: "(rat \<Rightarrow> rat) \<Rightarrow> ('p \<Rightarrow> RelayScore \<Rightarrow> 'p) \<Rightarrow> gotime \<Rightarrow> string list \<Rightarrow> 'p ScoringService \<Rightarrow> 'p ScoringService" where
  "applyDecay pow_half put now [] sv = sv"
| "applyDecay pow_half put now (relayID # ids) sv = (case svScores sv relayID of
     None \<Rightarrow> applyDecay pow_half put now ids sv
   | Some score \<Rightarrow> let score = ApplyDecay_relay pow_half now score
       in applyDecay pow_half put now ids (persistScore put score (sv\<lparr>svScores := (svScores sv)(relayID \<mapsto> score)\<rparr>)))"

definition RemoveRelay :: "('p \<Rightarrow> string \<Rightarrow> 'p) \<Rightarrow> string \<Rightarrow> 'p ScoringService \<Rightarrow> 'p ScoringService" where
  "RemoveRelay rem relayID sv = sv\<lparr>svScores := (svScores sv)(relayID := None), svStore := map_option (\<lambda>st. rem st relayID) (svStore sv)\<rparr>"

definition GetScore :: "string \<Rightarrow> 'p ScoringService \<Rightarrow> RelayScore option" where
  "GetScore relayID sv = svScores sv relayID"

definition GetCurrentWidth :: "'p ScoringService \<Rightarrow> int" where
  "GetCurrentWidth sv = currentWidth (svSelector sv)"

text \<open>\<open>ids\<close> is again an order in which the loop meets the relays.\<close>

definition GetTopRelays ::
  "((RelayScore \<Rightarrow> rat) \<Rightarrow> RelayScore list \<Rightarrow> RelayScore list) \<Rightarrow> string list \<Rightarrow> int \<Rightarrow> 'p ScoringService \<Rightarrow> RelayScore list option" where
  "GetTopRelays srt ids n sv =
     (let scores = srt RsScore (List.map_filter (svScores sv) ids);
          n = (if int (length scores) < n then int (length scores) else n)
      in if n < 0 then None else Some (take (nat n) scores))"

definition GetRelaysForPublish ::
  "((RelayScore \<Rightarrow> rat) \<Rightarrow> RelayScore list \<Rightarrow> RelayScore list) \<Rightarrow> string list \<Rightarrow> 'p ScoringService \<Rightarrow> RelayScore list option" where
  "GetRelaysForPublish srt ids sv =
     (let width = currentWidth (svSelector sv)
      in case GetTopRelays srt ids (width * 2) sv of
           None \<Rightarrow> None
         | Some allScores \<Rightarrow> SelectRelays srt allScores width)"

subsection \<open>Scores stay between zero and one\<close>

definition unit_range :: "rat \<Rightarrow> bool" where
  "unit_range x \<longleftrightarrow> 0 \<le> x \<and> x \<le> 1"

text \<open>What the decay relies on: a power of one half with an exponent that is not negative is between zero and one.\<close>

definition pow_half_ok :: "(rat \<Rightarrow> rat) \<Rightarrow> bool" where
  "pow_half_ok pow_half \<longleftrightarrow> (\<forall>x \<ge> 0. unit_range (pow_half x))"

lemma clamp01_range [simp]: "unit_range (clamp01 x)"
  by (simp add: unit_range_def clamp01_def)

lemma fmul_range: "unit_range x \<Longrightarrow> unit_range y \<Longrightarrow> unit_range (fmul x y)"
  by (simp add: unit_range_def fmul_def f64_nonneg f64_le_one mult_le_one)

lemma decay_factor_range:
  assumes "pow_half_ok pow_half" and "0 \<le> elapsed" and "0 < halfLife"
  shows "unit_range (decay_factor pow_half elapsed halfLife)"
proof -
  have "0 \<le> float64 elapsed" "0 \<le> float64 halfLife" using assms(2,3) by (simp_all add: float64_def f64_nonneg)
  then have "0 \<le> fdiv (float64 elapsed) (float64 halfLife)" by (simp add: fdiv_def f64_nonneg)
  with assms(1) show ?thesis by (simp add: decay_factor_def pow_half_ok_def)
qed

lemma recomputeScore_range [simp]: "unit_range (PmScore (recomputeScore now m))" "unit_range (RsScore (recomputeScore_relay s))"
  by (simp_all add: recomputeScore_def recomputeScore_relay_def Let_def)

lemma peer_scores_range:
  "unit_range (PmScore (NewPeerMetrics now seed p))" "unit_range (PmScore (RecordAck now lat m))" "unit_range (PmScore (RecordTimeout now m))"
  "unit_range (PmScore (RecordFailure_metrics now m))"
  by (simp_all add: NewPeerMetrics_def RecordAck_def RecordTimeout_def RecordFailure_metrics_def Let_def) (simp add: unit_range_def)

lemma ApplyDecay_peer_range:
  assumes "pow_half_ok pow_half" and "unit_range (PmScore m)"
  shows "unit_range (PmScore (ApplyDecay_peer pow_half now m))" and "PmScore (ApplyDecay_peer pow_half now m) \<le> 1"
proof -
  have "unit_range (fmul (PmScore m) (decay_factor pow_half e (3600 * second)))" if "300 * second < e" for e
    using assms that by (intro fmul_range decay_factor_range) simp_all
  with assms(2) show "unit_range (PmScore (ApplyDecay_peer pow_half now m))"
    unfolding ApplyDecay_peer_def Let_def by (auto simp: unit_range_def)
  then show "PmScore (ApplyDecay_peer pow_half now m) \<le> 1" by (simp add: unit_range_def)
qed

lemma relay_fields:
  "RsRelayID (recomputeScore_relay s) = RsRelayID s" "RsRelayID (ApplyDecay_relay pow_half now s) = RsRelayID s"
  by (simp_all add: recomputeScore_relay_def ApplyDecay_relay_def Let_def)

lemma ApplyDecay_relay_range:
  assumes "pow_half_ok pow_half" and "unit_range (RsScore s)"
  shows "unit_range (RsScore (ApplyDecay_relay pow_half now s))"
proof -
  have "unit_range (fmul (RsScore s) (decay_factor pow_half e (86400 * second)))" if "0 < e" for e
    using assms that by (intro fmul_range decay_factor_range) simp_all
  with assms(2) show ?thesis
    unfolding ApplyDecay_relay_def Let_def by (auto simp: unit_range_def)
qed

subsection \<open>The width stays in its bounds\<close>

definition selector_ok :: "RelaySelector \<Rightarrow> bool" where
  "selector_ok s \<longleftrightarrow> minWidth s = 1 \<and> maxWidth s = 5 \<and> windowSize s = 10 \<and> 1 \<le> currentWidth s \<and> currentWidth s \<le> 5 \<and>
     0 \<le> recentFailures s \<and> 0 \<le> recentSuccesses s \<and> recentFailures s + recentSuccesses s \<le> 10"

text \<open>Scaling takes something off every count that is not zero, so that the window shrinks back to its size.\<close>

definition scaled :: "int \<Rightarrow> int" where
  "scaled n = to_int (fmul (float64 n) (fdiv (float64 10) (float64 11)))"

lemma scaled_bounds:
  assumes "0 \<le> n"
  shows "0 \<le> scaled n" and "scaled n \<le> n" and "n \<noteq> 0 \<Longrightarrow> scaled n < n"
proof -
  have "fdiv (float64 10) (float64 11) = 8188362958855447 / 2 ^ 53" by code_simp
  then have "0 \<le> fdiv (float64 10) (float64 11)" "fdiv (float64 10) (float64 11) \<le> 23 / 25" by simp_all
  from scale_down [OF this, of n] assms show "0 \<le> scaled n" "scaled n \<le> n" "n \<noteq> 0 \<Longrightarrow> scaled n < n"
    by (cases "n = 0"; simp add: scaled_def to_int_def fmul_def float64_def)+
qed

lemma adjustWidth_ok: "selector_ok s \<Longrightarrow> selector_ok (adjustWidth s)"
  by (auto simp: selector_ok_def adjustWidth_def Let_def)

lemma scale_window_ok:
  assumes "selector_ok s"
  shows "selector_ok (scale_window (s\<lparr>recentFailures := recentFailures s + 1\<rparr>))" and "selector_ok (scale_window (s\<lparr>recentSuccesses := recentSuccesses s + 1\<rparr>))"
proof -
  have b: "0 \<le> recentFailures s" "0 \<le> recentSuccesses s" "recentFailures s + recentSuccesses s \<le> 10" "windowSize s = 10"
    using assms by (simp_all add: selector_ok_def)
  have F: "scale_window (s\<lparr>recentFailures := recentFailures s + 1\<rparr>) = (if recentFailures s + recentSuccesses s = 10
      then s\<lparr>recentFailures := scaled (recentFailures s + 1), recentSuccesses := scaled (recentSuccesses s)\<rparr>
      else s\<lparr>recentFailures := recentFailures s + 1\<rparr>)"
  proof (cases "recentFailures s + recentSuccesses s = 10")
    case True
    then have eq: "recentFailures s + 1 + recentSuccesses s = 11" by simp
    show ?thesis using True b(4) by (simp add: scale_window_def scaled_def eq Let_def)
  qed (use b in \<open>simp add: scale_window_def\<close>)
  have S: "scale_window (s\<lparr>recentSuccesses := recentSuccesses s + 1\<rparr>) = (if recentFailures s + recentSuccesses s = 10
      then s\<lparr>recentFailures := scaled (recentFailures s), recentSuccesses := scaled (recentSuccesses s + 1)\<rparr>
      else s\<lparr>recentSuccesses := recentSuccesses s + 1\<rparr>)"
  proof (cases "recentFailures s + recentSuccesses s = 10")
    case True
    then have eq: "recentFailures s + (recentSuccesses s + 1) = 11" by simp
    show ?thesis using True b(4) by (simp add: scale_window_def scaled_def eq Let_def)
  qed (use b in \<open>simp add: scale_window_def\<close>)
  show "selector_ok (scale_window (s\<lparr>recentFailures := recentFailures s + 1\<rparr>))"
    unfolding F using assms b scaled_bounds [of "recentFailures s + 1"] scaled_bounds [of "recentSuccesses s"]
    by (auto simp: selector_ok_def)
  show "selector_ok (scale_window (s\<lparr>recentSuccesses := recentSuccesses s + 1\<rparr>))"
    unfolding S using assms b scaled_bounds [of "recentFailures s"] scaled_bounds [of "recentSuccesses s + 1"]
    by (auto simp: selector_ok_def)
qed

lemma RecordPublishAttempt_ok: "selector_ok s \<Longrightarrow> selector_ok (RecordPublishAttempt success s)"
  by (simp add: RecordPublishAttempt_def scale_window_ok adjustWidth_ok)

subsection \<open>Runs of the service\<close>

text \<open>The operations in the order in which they happen; \<open>RelayDecay\<close> has the order in which it meets the relays.\<close>

datatype service_event = PublishOk gotime string rat | PublishFailed gotime string | RelayDisconnected gotime string | RelayHandshakeFailed gotime string
  | RelayAccepted gotime string | RelayForwarded gotime string | RelayDecay gotime "string list" | RelayRemoved string | RelayLoaded "RelayScore list"

fun service_step ::
  "(rat \<Rightarrow> rat) \<Rightarrow> ('p \<Rightarrow> RelayScore \<Rightarrow> 'p) \<Rightarrow> ('p \<Rightarrow> string \<Rightarrow> 'p) \<Rightarrow> 'p ScoringService \<Rightarrow> service_event \<Rightarrow> 'p ScoringService" where
  "service_step pw put rem sv (PublishOk now r lat) = RecordPublishSuccess put now r lat sv"
| "service_step pw put rem sv (PublishFailed now r) = RecordPublishFailure put now r sv"
| "service_step pw put rem sv (RelayDisconnected now r) = RecordDisconnect_service put now r sv"
| "service_step pw put rem sv (RelayHandshakeFailed now r) = RecordHandshakeFailure_service put now r sv"
| "service_step pw put rem sv (RelayAccepted now r) = RecordMessageAccepted_service put now r sv"
| "service_step pw put rem sv (RelayForwarded now r) = RecordMessageForwarded_service put now r sv"
| "service_step pw put rem sv (RelayDecay now ids) = applyDecay pw put now ids sv"
| "service_step pw put rem sv (RelayRemoved r) = RemoveRelay rem r sv"
| "service_step pw put rem sv (RelayLoaded scores) = loadScores scores sv"

definition service_run ::
  "(rat \<Rightarrow> rat) \<Rightarrow> ('p \<Rightarrow> RelayScore \<Rightarrow> 'p) \<Rightarrow> ('p \<Rightarrow> string \<Rightarrow> 'p) \<Rightarrow> 'p option \<Rightarrow> service_event list \<Rightarrow> 'p ScoringService" where
  "service_run pw put rem st evs = foldl (service_step pw put rem) (NewScoringService st) evs"

definition score_ok :: "string \<Rightarrow> RelayScore \<Rightarrow> bool" where
  "score_ok relayID score \<longleftrightarrow> RsRelayID score = relayID \<and> unit_range (RsScore score)"

definition service_ok :: "'p ScoringService \<Rightarrow> bool" where
  "service_ok sv \<longleftrightarrow> (\<forall>relayID score. svScores sv relayID = Some score \<longrightarrow> score_ok relayID score) \<and> selector_ok (svSelector sv)"

lemma service_okD: "service_ok sv \<Longrightarrow> svScores sv relayID = Some score \<Longrightarrow> score_ok relayID score"
  by (simp add: service_ok_def)

lemma service_ok_store [simp]:
  "service_ok (sv\<lparr>svStore := st\<rparr>) = service_ok sv" "service_ok (persistScore put score sv) = service_ok sv"
  by (simp_all add: service_ok_def persistScore_def split: option.splits)

lemma service_ok_upd: "service_ok sv \<Longrightarrow> score_ok relayID score \<Longrightarrow> service_ok (sv\<lparr>svScores := (svScores sv)(relayID \<mapsto> score)\<rparr>)"
  by (simp add: service_ok_def)

lemma service_ok_selector: "service_ok sv \<Longrightarrow> service_ok (sv\<lparr>svSelector := RecordPublishAttempt success (svSelector sv)\<rparr>)"
  by (simp add: service_ok_def RecordPublishAttempt_ok)

lemma service_ok_record_on:
  assumes "service_ok sv" and "\<And>score. score_ok relayID score \<Longrightarrow> score_ok relayID (change score)"
  shows "service_ok (record_on put now relayID change sv)"
proof -
  have new: "score_ok relayID (NewRelayScore now relayID)" by (simp add: score_ok_def NewRelayScore_def unit_range_def)
  show ?thesis
    using assms(1) service_okD [OF assms(1), of relayID] assms(2) new
    by (auto simp: record_on_def GetOrCreateScore_def Let_def service_ok_upd split: option.splits)
qed

lemma score_ok_recompute: "RsRelayID s = r \<Longrightarrow> score_ok r (recomputeScore_relay s)"
  by (simp only: score_ok_def relay_fields recomputeScore_range simp_thms)

lemma relay_changes_ok:
  assumes "score_ok r score"
  shows "score_ok r (RecordSuccess_relay now lat score)" "score_ok r (RecordFailure_relay now score)"
    "score_ok r (RecordDisconnect_relay now score)" "score_ok r (RecordHandshakeFailure_relay now score)"
    "score_ok r (RecordMessageAccepted_relay now score)" "score_ok r (RecordMessageForwarded_relay now score)"
proof -
  have r: "RsRelayID score = r" using assms by (simp add: score_ok_def)
  show "score_ok r (RecordSuccess_relay now lat score)"
    unfolding RecordSuccess_relay_def Let_def by (rule score_ok_recompute) (simp add: r)
  show "score_ok r (RecordFailure_relay now score)" unfolding RecordFailure_relay_def by (rule score_ok_recompute) (simp add: r)
  show "score_ok r (RecordDisconnect_relay now score)" unfolding RecordDisconnect_relay_def by (rule score_ok_recompute) (simp add: r)
  show "score_ok r (RecordHandshakeFailure_relay now score)"
    unfolding RecordHandshakeFailure_relay_def by (rule score_ok_recompute) (simp add: r)
  show "score_ok r (RecordMessageAccepted_relay now score)" "score_ok r (RecordMessageForwarded_relay now score)"
    using assms by (simp_all add: score_ok_def RecordMessageAccepted_relay_def RecordMessageForwarded_relay_def)
qed

lemma applyDecay_ok: "pow_half_ok pw \<Longrightarrow> service_ok sv \<Longrightarrow> service_ok (applyDecay pw put now ids sv)"
proof (induction ids arbitrary: sv)
  case (Cons r ids)
  show ?case
  proof (cases "svScores sv r")
    case (Some score)
    have "score_ok r score" using Cons.prems(2) Some by (rule service_okD)
    then have "score_ok r (ApplyDecay_relay pw now score)"
      using ApplyDecay_relay_range [OF Cons.prems(1)] unfolding score_ok_def relay_fields by blast
    then have "service_ok (sv\<lparr>svScores := (svScores sv)(r \<mapsto> ApplyDecay_relay pw now score)\<rparr>)"
      by (rule service_ok_upd [OF Cons.prems(2)])
    then show ?thesis
      using Cons.IH [OF Cons.prems(1)] by (simp only: applyDecay.simps Some option.case Let_def service_ok_store)
  qed (use Cons in simp)
qed simp

lemma loadScores_Cons: "loadScores (score # scores) sv = loadScores scores (sv\<lparr>svScores := (svScores sv)(RsRelayID score \<mapsto> score)\<rparr>)"
  by (simp add: loadScores_def)

lemma loadScores_ok: "service_ok sv \<Longrightarrow> \<forall>score \<in> set scores. unit_range (RsScore score) \<Longrightarrow> service_ok (loadScores scores sv)"
proof (induction scores arbitrary: sv)
  case (Cons score scores)
  then have "score_ok (RsRelayID score) score" by (simp add: score_ok_def)
  with Cons show ?case by (simp add: loadScores_Cons service_ok_upd)
qed (simp add: loadScores_def service_ok_def)

definition loaded_ok :: "service_event \<Rightarrow> bool" where
  "loaded_ok ev = (case ev of RelayLoaded scores \<Rightarrow> \<forall>score \<in> set scores. unit_range (RsScore score) | _ \<Rightarrow> True)"

lemma service_step_ok:
  assumes "pow_half_ok pw" and "service_ok sv" and "loaded_ok ev"
  shows "service_ok (service_step pw put rem sv ev)"
proof (cases ev)
  case (RelayRemoved r)
  then show ?thesis using assms(2) by (simp add: RemoveRelay_def service_ok_def)
next
  case (RelayLoaded scores)
  then show ?thesis using assms by (simp add: loadScores_ok loaded_ok_def)
qed (use assms in \<open>simp_all add: applyDecay_ok RecordPublishSuccess_def RecordPublishFailure_def RecordDisconnect_service_def
      RecordHandshakeFailure_service_def RecordMessageAccepted_service_def RecordMessageForwarded_service_def
      service_ok_record_on service_ok_selector relay_changes_ok\<close>)

lemma service_ok_new: "service_ok (NewScoringService st)"
  by (simp add: service_ok_def NewScoringService_def selector_ok_def NewRelaySelector_def)

lemma service_run_ok:
  assumes "pow_half_ok pw" and "\<forall>ev \<in> set evs. loaded_ok ev"
  shows "service_ok (service_run pw put rem st evs)"
proof -
  have "service_ok (foldl (service_step pw put rem) sv evs)" if "service_ok sv" for sv
    using that assms(2) by (induction evs arbitrary: sv) (simp_all add: service_step_ok assms(1))
  then show ?thesis by (simp add: service_run_def service_ok_new)
qed

subsection \<open>Selection\<close>

text \<open>The best of the best: choosing twice, as publishing does, leaves out no better relay.\<close>

context score_sort
begin

lemma take_best_again:
  assumes "k \<le> j"
  shows "length (take k (srt f (take j (srt f xs)))) = min k (length xs)"
    and "x \<in> set (take k (srt f (take j (srt f xs)))) \<Longrightarrow> y \<in># mset xs - mset (take k (srt f (take j (srt f xs)))) \<Longrightarrow> f y \<le> f x"
proof -
  let ?t = "take j (srt f xs)"
  show "length (take k (srt f ?t)) = min k (length xs)" using assms by simp
  assume x: "x \<in> set (take k (srt f ?t))" and y: "y \<in># mset xs - mset (take k (srt f ?t))"
  have "mset xs = mset ?t + mset (drop j (srt f xs))" by (metis append_take_drop_id mset_append srt_mset)
  moreover have "mset ?t = mset (take k (srt f ?t)) + mset (drop k (srt f ?t))" by (metis append_take_drop_id mset_append srt_mset)
  ultimately have "mset xs = mset (take k (srt f ?t)) + (mset (drop k (srt f ?t)) + mset (drop j (srt f xs)))" by simp
  with y have "y \<in> set (drop k (srt f ?t)) \<or> y \<in> set (drop j (srt f xs))" by auto
  then show "f y \<le> f x"
  proof
    assume "y \<in> set (drop k (srt f ?t))"
    with x show ?thesis by (rule srt_best)
  next
    assume "y \<in> set (drop j (srt f xs))"
    moreover have "x \<in> set ?t" using x by (metis in_set_takeD srt_set(1))
    ultimately show ?thesis by (rule srt_best [rotated])
  qed
qed

end

locale relay_sort = score_sort srt for srt :: "(RelayScore \<Rightarrow> rat) \<Rightarrow> RelayScore list \<Rightarrow> RelayScore list"
begin

lemma SelectRelays_take:
  assumes "0 \<le> width"
  shows "SelectRelays srt relays width = Some (take (nat width) (srt RsScore relays))"
  using assms by (auto simp: SelectRelays_def Let_def)

lemma GetRelaysForPublish_best:
  assumes "service_ok sv"
  shows "\<exists>chosen. GetRelaysForPublish srt ids sv = Some chosen \<and>
    length chosen = min (nat (GetCurrentWidth sv)) (length (List.map_filter (svScores sv) ids)) \<and>
    (\<forall>x \<in> set chosen. \<forall>y \<in># mset (List.map_filter (svScores sv) ids) - mset chosen. RsScore y \<le> RsScore x)"
proof -
  let ?w = "currentWidth (svSelector sv)" and ?xs = "List.map_filter (svScores sv) ids"
  have w: "0 \<le> ?w" using assms by (simp add: service_ok_def selector_ok_def)
  have "GetTopRelays srt ids (?w * 2) sv = Some (take (nat (?w * 2)) (srt RsScore ?xs))"
    using w by (auto simp: GetTopRelays_def Let_def)
  then have "GetRelaysForPublish srt ids sv = Some (take (nat ?w) (srt RsScore (take (nat (?w * 2)) (srt RsScore ?xs))))"
    using w by (simp add: GetRelaysForPublish_def Let_def SelectRelays_take)
  moreover have "nat ?w \<le> nat (?w * 2)" using w by simp
  ultimately show ?thesis using take_best_again [where k = "nat ?w" and j = "nat (?w * 2)" and f = RsScore and xs = ?xs] by (simp add: GetCurrentWidth_def)
qed

end

interpretation insertion_relays: relay_sort insertion_desc
  by unfold_locales

text \<open>The peers chosen for forwarding are a prefix of the healthy ones by score, one longer when the draw says so.\<close>

locale peer_sort = score_sort srt for srt :: "(PeerMetrics \<Rightarrow> rat) \<Rightarrow> PeerMetrics list \<Rightarrow> PeerMetrics list"
begin

lemma SelectPeers_best:
  assumes "0 \<le> FcTopK c" and "candidates = map snd (filter (\<lambda>(i, m). i \<noteq> originID \<and> IsHealthy_metrics now m) peerMetrics)"
  shows "\<exists>n. (n = min (nat (FcTopK c)) (length candidates) \<or> n = Suc (nat (FcTopK c)) \<and> n \<le> length candidates) \<and>
    SelectPeers srt seeded now c peerMetrics originID = Some (map PmPeerID (take n (srt PmScore candidates)))"
proof (cases "candidates = []")
  case True
  then show ?thesis by (simp add: SelectPeers_def assms(2) [symmetric] exI [of _ 0])
next
  case False
  let ?k = "nat (FcTopK c)" and ?s = "srt PmScore candidates"
  have short: "nat (min (FcTopK c) (int (length candidates))) = min ?k (length candidates)" by (simp add: min_def nat_le_iff)
  show ?thesis
  proof (cases "FcExploreProb c > 0 \<and> ?k < length candidates \<and> seeded (PmSeed (?s ! ?k)) < FcExploreProb c")
    case True
    then have "take (Suc ?k) ?s = take ?k ?s @ [?s ! ?k]" by (simp add: take_Suc_conv_app_nth)
    moreover have "FcTopK c < int (length candidates)" using True by linarith
    ultimately show ?thesis
      using True False assms(1) by (intro exI [of _ "Suc ?k"]) (simp add: SelectPeers_def assms(2) [symmetric] SortByPeerScore_def Let_def min_def)
  next
    case no: False
    have "SelectPeers srt seeded now c peerMetrics originID = Some (map PmPeerID (take (min ?k (length candidates)) ?s))"
      using no False assms(1) by (auto simp: SelectPeers_def assms(2) [symmetric] SortByPeerScore_def Let_def short min_def not_less)
    then show ?thesis by blast
  qed
qed

end

interpretation insertion_peers: peer_sort insertion_desc
  by unfold_locales

subsection \<open>Properties\<close>

text \<open>
  Claim C27. The scoring service keeps its bounds: through any sequence of publishes, disconnects, handshake
  failures, accepted and forwarded messages, decays, removals and loads of stored scores that are themselves between
  zero and one, every score is filed under its relay and lies between zero and one, the publish width
  stays between one and five, and the window it is computed from never holds more than ten attempts.
\<close>

theorem scores_and_width_bounded:
  assumes "pow_half_ok pow_half" and "\<forall>ev \<in> set evs. loaded_ok ev"
  shows "(\<forall>relayID score. GetScore relayID (service_run pow_half put rem st evs) = Some score \<longrightarrow>
      RsRelayID score = relayID \<and> 0 \<le> RsScore score \<and> RsScore score \<le> 1) \<and>
    1 \<le> GetCurrentWidth (service_run pow_half put rem st evs) \<and> GetCurrentWidth (service_run pow_half put rem st evs) \<le> 5 \<and>
    recentFailures (svSelector (service_run pow_half put rem st evs)) + recentSuccesses (svSelector (service_run pow_half put rem st evs)) \<le> 10"
  using service_run_ok [OF assms, of put rem st]
  by (simp add: service_ok_def score_ok_def unit_range_def selector_ok_def GetScore_def GetCurrentWidth_def)

lemma constant_half_ok: "pow_half_ok (\<lambda>_. 1 / 2)"
  by (simp add: pow_half_ok_def unit_range_def)

theorem scores_and_width_bounded_witness:
  "1 \<le> GetCurrentWidth (service_run (\<lambda>_. 1 / 2) (\<lambda>st _. st) (\<lambda>st _. st) (Some ()) [PublishOk zero_time ''r'' 120, PublishFailed zero_time ''r''])"
  using scores_and_width_bounded [OF constant_half_ok, where evs = "[PublishOk zero_time ''r'' 120, PublishFailed zero_time ''r'']"
      and put = "\<lambda>st _. st" and rem = "\<lambda>st _. st" and st = "Some ()"]
  by (simp add: loaded_ok_def)

text \<open>
  Claim C28. Forwarding picks the best healthy peers and never the origin: with a validated configuration the selection
  returns the identifiers of chosen entries of the metrics, all of them healthy and none filed under the origin; there are
  as many as \<open>TopK\<close> allows and at most one more; and no healthy entry that is left out has a better
  score than one that is chosen, whatever order the library's sort gives to equal scores and whatever the draw is.
\<close>

theorem forwarding_selects_best:
  assumes "peer_sort srt" and "c = Validate_forwarding cfg"
    and "candidates = map snd (filter (\<lambda>(i, m). i \<noteq> originID \<and> IsHealthy_metrics now m) peerMetrics)"
  shows "\<exists>chosen. SelectPeers srt seeded now c peerMetrics originID = Some (map PmPeerID chosen) \<and> mset chosen \<subseteq># mset candidates \<and>
    min (nat (FcTopK c)) (length candidates) \<le> length chosen \<and> int (length chosen) \<le> FcTopK c + 1 \<and>
    (\<forall>m \<in> set chosen. \<forall>m' \<in># mset candidates - mset chosen. PmScore m' \<le> PmScore m)"
proof -
  have top: "0 < FcTopK c" unfolding assms(2) Validate_forwarding_def by (simp add: Let_def)
  note ss = peer_sort.axioms [OF assms(1)]
  let ?s = "srt PmScore candidates"
  obtain n where n: "n = min (nat (FcTopK c)) (length candidates) \<or> n = Suc (nat (FcTopK c)) \<and> n \<le> length candidates"
    and sel: "SelectPeers srt seeded now c peerMetrics originID = Some (map PmPeerID (take n ?s))"
    using peer_sort.SelectPeers_best [OF assms(1) less_imp_le [OF top] assms(3)] by blast
  have split: "mset candidates = mset (take n ?s) + mset (drop n ?s)"
    by (metis append_take_drop_id mset_append score_sort.srt_mset [OF ss])
  have len: "length (take n ?s) = n" using n score_sort.srt_set(2) [OF ss, of PmScore candidates] by auto
  have "min (nat (FcTopK c)) (length candidates) \<le> length (take n ?s)" "int (length (take n ?s)) \<le> FcTopK c + 1"
    unfolding len using n top by auto
  moreover have "mset candidates - mset (take n ?s) = mset (drop n ?s)" "mset (take n ?s) \<subseteq># mset candidates" using split by simp_all
  ultimately show ?thesis using sel score_sort.srt_best [OF ss] by (metis set_mset_mset)
qed

theorem forwarding_selects_best_witness:
  "\<exists>chosen :: PeerMetrics list. SelectPeers insertion_desc (\<lambda>_. 1 / 20) zero_time (Validate_forwarding DefaultForwardingConfig)
      (map (\<lambda>p. (p, NewPeerMetrics zero_time 7 p)) [''a'', ''b'', ''c'', ''d'']) ''b'' = Some (map PmPeerID chosen) \<and> int (length chosen) \<le> 3"
proof -
  have "FcTopK (Validate_forwarding DefaultForwardingConfig) = 2" by (simp add: Validate_forwarding_def DefaultForwardingConfig_def Let_def)
  then have k: "FcTopK (Validate_forwarding DefaultForwardingConfig) + 1 = 3" by simp
  show ?thesis
    using forwarding_selects_best [OF insertion_peers.peer_sort_axioms refl refl,
      where peerMetrics = "map (\<lambda>p. (p, NewPeerMetrics zero_time 7 p)) [''a'', ''b'', ''c'', ''d'']" and cfg = DefaultForwardingConfig
      and seeded = "\<lambda>_. 1 / 20" and now = zero_time and originID = "''b''"]
    unfolding k by blast
qed

text \<open>
  The back-off doubles until the cap as long as the product fits; with the default base of a second and from 55 failures
  in a row on, the product wraps to zero and the peer is not backed off at all; so it is at 34.
\<close>

lemma ApplyBackoff_doubles:
  assumes "0 \<le> PmConsecutiveFailures m" and "PmConsecutiveFailures m < 63" and "0 \<le> baseDelay"
    and "baseDelay * 2 ^ nat (PmConsecutiveFailures m) < 2 ^ 63"
  shows "PmBackoffUntil (ApplyBackoff now baseDelay maxDelay m) = Add now (min (baseDelay * 2 ^ nat (PmConsecutiveFailures m)) maxDelay)"
proof -
  have "s64 (baseDelay * 2 ^ nat (PmConsecutiveFailures m)) = baseDelay * 2 ^ nat (PmConsecutiveFailures m)"
    using assms(3,4) by (intro s64_id) (auto simp: fits64_def intro: order_trans [of _ 0])
  with assms(2) show ?thesis by (simp add: ApplyBackoff_def pow2_duration_def Let_def min_def)
qed

lemma s64_multiple: "s64 (2 ^ 64 * k) = 0"
  by (simp add: s64_def)

lemma backoff_lost:
  assumes "55 \<le> PmConsecutiveFailures m \<or> PmConsecutiveFailures m = 34" and "0 \<le> maxDelay"
  shows "\<not> IsBackingOff_metrics now (ApplyBackoff now second maxDelay m)"
proof -
  have "s64 (second * pow2_duration (PmConsecutiveFailures m)) \<le> 0"
    using assms(1)
  proof
    assume n: "55 \<le> PmConsecutiveFailures m"
    show ?thesis
    proof (cases "PmConsecutiveFailures m < 63")
      case True
      with n obtain k where k: "nat (PmConsecutiveFailures m) = 55 + k" using that [of "nat (PmConsecutiveFailures m) - 55"] by simp
      have "second * 2 ^ (55 + k) = 2 ^ 64 * (1953125 * 2 ^ k)" by (simp add: power_add)
      then show ?thesis using True s64_multiple [of "1953125 * 2 ^ k"] by (simp only: pow2_duration_def k if_True)
    next
      case False
      have "second * - (2 ^ 63) = 2 ^ 64 * (- 500000000)" by simp
      then show ?thesis using False s64_multiple [of "- 500000000"] by (simp only: pow2_duration_def if_False)
    qed
  next
    assume "PmConsecutiveFailures m = 34"
    then show ?thesis by (simp add: pow2_duration_def s64_def)
  qed
  with assms(2) show ?thesis by (simp add: IsBackingOff_metrics_def ApplyBackoff_def Let_def time_defs)
qed

end
