(* ===== verification/Peering.thy ===== *)
theory Peering
  imports WS_Handler Scoring
begin

text \<open>
  The links to other relays, \<^verbatim>\<open>internal/federation/peering.go\<close>: the encounters that open a link, the
  handlers of its frames, the summaries that announce new items to the other peers, and the manager
  that dials, registers and removes peers.
\<close>

subsection \<open>State\<close>

record PeerHealth =
  Uptime :: int
  LastSeen :: gotime
  MessagesForwarded :: int
  MessagesReceived :: int
  FailureCount :: int
  BackoffUntil :: gotime
  HealthIsHealthy :: bool

definition RecordFailure :: "gotime \<Rightarrow> PeerHealth \<Rightarrow> PeerHealth" where
  "RecordFailure now hp =
     (let failures = s64 (FailureCount hp + 1);
          backoff = s64 (min (s64 (failures * failures)) 300 * second)
      in hp\<lparr>FailureCount := failures, BackoffUntil := Add now backoff, HealthIsHealthy := False\<rparr>)"

definition RecordSuccess :: "PeerHealth \<Rightarrow> PeerHealth" where
  "RecordSuccess hp = hp\<lparr>FailureCount := 0, BackoffUntil := zero_time, HealthIsHealthy := True\<rparr>"

definition IsBackingOff :: "gotime \<Rightarrow> PeerHealth \<Rightarrow> bool" where
  "IsBackingOff now hp = Before now (BackoffUntil hp)"

text \<open>
  \<open>peerAdapter\<close> is the session adapter of the link, \<open>adapterAttached\<close> that the field \<open>adapter\<close> of the
  peer points to it, and \<open>Done\<close> that its channel was closed.
\<close>

record Peer =
  PeerID :: string
  PeerSessionID :: string
  PeerURL :: string
  RemoteNodeID :: string
  RemoteMaxWant :: u64
  Outbound :: bool
  localHelloSent :: bool
  summarySent :: bool
  ConnectedAt :: gotime
  LastHelloAt :: gotime
  Health :: PeerHealth
  Done :: bool
  peerAdapter :: SessionAdapter
  adapterAttached :: bool
  Metrics :: PeerMetrics

text \<open>
  The configuration of the manager.  Its engine exists exactly when it has a store; the envelope store
  of the engine is always the one of the manager.
\<close>

record ('d, 'e) PeerManager =
  managerRelayID :: string
  managerStore :: "'d Store option"
  managerEnvelopeStore :: "'e EnvelopeStore option"
  managerEngine :: engine_cfg
  eventObserver :: "(Peer \<Rightarrow> Event \<Rightarrow> gerr option) option"

definition NewPeerManagerWithConfig :: "string \<Rightarrow> 'd Store option \<Rightarrow> int \<Rightarrow> ('d, 'e) PeerManager" where
  "NewPeerManagerWithConfig relay st ttl = \<lparr>managerRelayID = relay, managerStore = st, managerEnvelopeStore = None,
     managerEngine = \<lparr>relayID = relay, maxTTL = ttl, ackDrivenSuppression = False\<rparr>, eventObserver = None\<rparr>"

definition SetPeerEnvelopeStore :: "('d, 'e) PeerManager \<Rightarrow> 'e EnvelopeStore option \<Rightarrow> ('d, 'e) PeerManager" where
  "SetPeerEnvelopeStore m es = m\<lparr>managerEnvelopeStore := es, managerEngine := (managerEngine m)\<lparr>relayID := managerRelayID m\<rparr>\<rparr>"

definition SetPeerAckDrivenSuppression :: "('d, 'e) PeerManager \<Rightarrow> bool \<Rightarrow> ('d, 'e) PeerManager" where
  "SetPeerAckDrivenSuppression m enabled =
     (if managerStore m = None then m
      else m\<lparr>managerEngine := SetAckDrivenSuppression (managerEngine m) enabled\<rparr>)"

definition SetEventObserver ::
  "('d, 'e) PeerManager \<Rightarrow> (Peer \<Rightarrow> Event \<Rightarrow> gerr option) option \<Rightarrow> ('d, 'e) PeerManager" where
  "SetEventObserver m obs = m\<lparr>eventObserver := obs\<rparr>"

text \<open>
  A dial in progress, and the shared state: the stores, the peer objects by their id, the ids of the
  registered peers (\<open>pm.peers\<close>) and of the links whose read loop runs, the frames written to each
  link, the two channels of \<open>Run\<close>, the dials, whether \<open>ctxStop\<close> was closed and \<open>Run\<close> returned, and the
  metrics by peer.  The map holds pointers to the metrics of the peers; nothing changes them after a peer is made.
\<close>

record dial_job =
  dialURL :: string
  dialSession :: string
  dialAttempt :: nat
  dialDelay :: int

record ('d, 'e) federation =
  fdb :: 'd
  fedb :: 'e
  peer :: "string \<Rightarrow> Peer"
  peers :: "string set"
  reading :: "string set"
  wrote :: "string \<Rightarrow> bytes list"
  inbound :: "string list"
  outbound :: "string list"
  dials :: "dial_job list"
  ctxStop :: bool
  runDone :: bool
  peerMetrics :: "string \<rightharpoonup> PeerMetrics"

text \<open>
  What the relay cannot decide itself: the codec, whether a write to a link succeeds, given what was
  written to it before, and the number drawn for the metrics of a new peer.
\<close>

record fed_env =
  fwire :: wire_env
  writable :: "string \<Rightarrow> bytes list \<Rightarrow> bytes \<Rightarrow> bool"
  metricsSeed :: "string \<Rightarrow> int"

datatype fed_err =
    FedGossipErr gerr
  | FedStoreErr serr
  | FedWriteFailed
  | FedReadFailed
  | FedNotBinary
  | FedMissingPayload string
  | FedBeforeHello string
  | NodeIDChanged string string
  | EngineNotConfigured
  | EnvelopeStoreRequired
  | SessionUnhealthy

abbreviation on_peer :: "string \<Rightarrow> (Peer \<Rightarrow> Peer) \<Rightarrow> ('d, 'e) federation \<Rightarrow> ('d, 'e) federation" where
  "on_peer p f u \<equiv> u\<lparr>peer := (peer u)(p := f (peer u p))\<rparr>"

subsection \<open>Sending\<close>

definition writePeerMessage ::
  "fed_env \<Rightarrow> string \<Rightarrow> bytes \<Rightarrow> ('d, 'e) federation \<Rightarrow> ('d, 'e) federation \<times> (fed_err + unit)" where
  "writePeerMessage w p data u =
     (if writable w p (wrote u p) data then (u\<lparr>wrote := (wrote u)(p := wrote u p @ [data])\<rparr>, Inr ())
      else (u, Inl FedWriteFailed))"

definition sendEnvelope_fed ::
  "fed_env \<Rightarrow> string \<Rightarrow> string \<Rightarrow> goval \<Rightarrow> ('d, 'e) federation \<Rightarrow> ('d, 'e) federation \<times> (fed_err + unit)" where
  "sendEnvelope_fed w p frameType payload u = (case encode_frame (fwire w) frameType payload of
     Inl err \<Rightarrow> (u, Inl (FedGossipErr err))
   | Inr prefixed \<Rightarrow> writePeerMessage w p prefixed u)"

definition listSummaryEligibleIDs ::
  "('d, 'e) PeerManager \<Rightarrow> gotime \<Rightarrow> ('d, 'e) federation \<Rightarrow> fed_err + string list" where
  "listSummaryEligibleIDs m now u = (case managerEnvelopeStore m of
     None \<Rightarrow> Inl EnvelopeStoreRequired
   | Some ops \<Rightarrow> mapErr FedStoreErr (eGetAllEnvelopeIDs ops now (fedb u)))"

definition full_summary :: "string list \<Rightarrow> SummaryPayload" where
  "full_summary eligibleIDs =
     (let preview = (if length eligibleIDs > MaxSummaryPreviewItems then take MaxSummaryPreviewItems eligibleIDs else eligibleIDs)
      in (BuildSummaryPreviewPayload eligibleIDs preview [])\<lparr>ItemCount := of_nat (length eligibleIDs)\<rparr>)"

definition sendSummary ::
  "fed_env \<Rightarrow> ('d, 'e) PeerManager \<Rightarrow> gotime \<Rightarrow> string \<Rightarrow> ('d, 'e) federation \<Rightarrow> ('d, 'e) federation \<times> (fed_err + unit)" where
  "sendSummary w m now p u =
     (if \<not> localHelloSent (peer u p) then (u, Inr ())
      else if summarySent (peer u p) then (u, Inr ())
      else case listSummaryEligibleIDs m now u of
             Inl err \<Rightarrow> (u, Inl err)
           | Inr eligibleIDs \<Rightarrow>
               bindS (sendEnvelope_fed w p FrameTypeSummary (GMapS (summary_fields (full_summary eligibleIDs))) u) (\<lambda>u _.
               (on_peer p (\<lambda>x. x\<lparr>summarySent := True\<rparr>) u, Inr ())))"

subsection \<open>SUMMARY\<close>

definition isNotFoundError_fed :: "serr \<Rightarrow> bool" where
  "isNotFoundError_fed err = (case err of NotFound _ \<Rightarrow> True | _ \<Rightarrow> False)"

definition hasObjectID_fed :: "('d, 'e) PeerManager \<Rightarrow> ('d, 'e) federation \<Rightarrow> string \<Rightarrow> serr + bool" where
  "hasObjectID_fed m u i =
     (let in_messages = (case managerStore m of
            None \<Rightarrow> Inr False
          | Some st \<Rightarrow> (case sGetMessageByID st (fdb u) i of
              Inl err \<Rightarrow> if isNotFoundError_fed err then Inr False else Inl err
            | Inr _ \<Rightarrow> Inr True))
      in case managerEnvelopeStore m of
           None \<Rightarrow> in_messages
         | Some ops \<Rightarrow> (case eGetEnvelopeByID ops (fedb u) i of
             Inl err \<Rightarrow> if \<not> isNotFoundError_fed err then Inl err else in_messages
           | Inr _ \<Rightarrow> Inr True))"

definition validateSummaryPreviewCursor_fed :: "string list \<Rightarrow> string \<Rightarrow> gerr + unit" where
  "validateSummaryPreviewCursor_fed previewIDs previewCursor =
     (if length previewIDs = 0
      then (if previewCursor \<noteq> [] then Inl (SummaryErr CursorMustBeAbsent) else Inr ())
      else if previewCursor = [] then Inl (SummaryErr CursorRequired)
      else if previewCursor \<noteq> last previewIDs then Inl (SummaryErr CursorMismatch)
      else Inr ())"

text \<open>The two loops of \<open>computeMissingWant\<close>; the flag of the first is that it returned at the limit.\<close>

fun preview_wants_fed ::
  "(string \<Rightarrow> bool) \<Rightarrow> (string \<Rightarrow> serr + bool) \<Rightarrow> nat \<Rightarrow> string list \<Rightarrow> string list \<Rightarrow> string set \<Rightarrow>
   serr + string list \<times> string set \<times> bool" where
  "preview_wants_fed offered known limit [] want seenWant = Inr (want, seenWant, False)"
| "preview_wants_fed offered known limit (i # rest) want seenWant =
     (if i \<in> seenWant then preview_wants_fed offered known limit rest want seenWant
      else if \<not> offered i then preview_wants_fed offered known limit rest want seenWant
      else case known i of
             Inl knownErr \<Rightarrow> Inl knownErr
           | Inr isKnown \<Rightarrow>
               if isKnown then preview_wants_fed offered known limit rest want seenWant
               else let seenWant = insert i seenWant; want = want @ [i]
               in if length want \<ge> limit then Inr (want, seenWant, True)
                  else preview_wants_fed offered known limit rest want seenWant)"

fun candidate_wants_fed ::
  "(string \<Rightarrow> bool) \<Rightarrow> (string \<Rightarrow> serr + bool) \<Rightarrow> nat \<Rightarrow> string list \<Rightarrow> string list \<Rightarrow> string set \<Rightarrow> serr + string list" where
  "candidate_wants_fed offered known limit [] want seenWant = Inr want"
| "candidate_wants_fed offered known limit (i # rest) want seenWant =
     (if i \<in> seenWant then candidate_wants_fed offered known limit rest want seenWant
      else if \<not> offered i then candidate_wants_fed offered known limit rest want seenWant
      else case known i of
             Inl knownErr \<Rightarrow> Inl knownErr
           | Inr isKnown \<Rightarrow>
               if isKnown then candidate_wants_fed offered known limit rest want seenWant
               else let seenWant = insert i seenWant; want = want @ [i]
               in if length want \<ge> limit then Inr want
                  else candidate_wants_fed offered known limit rest want seenWant)"

definition computeMissingWant_fed ::
  "('d, 'e) PeerManager \<Rightarrow> ('d, 'e) federation \<Rightarrow> SummaryPayload option \<Rightarrow> string list \<Rightarrow> u64 \<Rightarrow> fed_err + string list" where
  "computeMissingWant_fed m u summary_opt candidateIDs peerMax = (case summary_opt of
     None \<Rightarrow> Inr []
   | Some summary \<Rightarrow>
       bindE (mapErr FedGossipErr (NormalizeDigestHexIDs (PreviewItemIDs summary))) (\<lambda>previewIDs.
       let bloom = BloomFilter summary;
           limit = MaxWantItems;
           limit = (if peerMax > 0 \<and> peerMax < of_nat limit then unat peerMax else limit)
       in if limit \<le> 0 then Inr []
          else bindE (mapErr FedStoreErr
                 (preview_wants_fed (BloomFilterMightContain bloom) (hasObjectID_fed m u) limit previewIDs [] {}))
               (\<lambda>(want, seenWant, full).
               if full then Inr (SortDigestHexIDs want)
               else bindE (mapErr FedGossipErr (NormalizeDigestHexIDs candidateIDs)) (\<lambda>normalizedCandidates.
                    bindE (mapErr FedStoreErr
                      (candidate_wants_fed (BloomFilterMightContain bloom) (hasObjectID_fed m u) limit normalizedCandidates want seenWant))
                    (\<lambda>want. Inr (SortDigestHexIDs want))))))"

definition handleSummary_fed ::
  "fed_env \<Rightarrow> ('d, 'e) PeerManager \<Rightarrow> string \<Rightarrow> Event \<Rightarrow> ('d, 'e) federation \<Rightarrow> ('d, 'e) federation \<times> (fed_err + unit)" where
  "handleSummary_fed w m p ev u = (case ESummary ev of
     None \<Rightarrow> (u, Inl (FedMissingPayload ''summary''))
   | Some summary \<Rightarrow>
       (case validateSummaryPreviewCursor_fed (PreviewItemIDs summary) (PreviewCursor summary) of
          Inl err \<Rightarrow> (u, Inl (FedGossipErr err))
        | Inr _ \<Rightarrow>
            (case computeMissingWant_fed m u (Some summary) [] (RemoteMaxWant (peer u p)) of
               Inl err \<Rightarrow> (u, Inl err)
             | Inr want \<Rightarrow>
                 if length want = 0 then (u, Inr ())
                 else sendEnvelope_fed w p FrameTypeRequest (GMapS (request_fields \<lparr>Want = want\<rparr>)) u)))"

subsection \<open>REQUEST\<close>

text \<open>
  \<open>canonicalTransferObjectFromMessage\<close> always answers \<open>false\<close>, so a stored message alone is never served.
\<close>

definition loadTransferObjectByItemID_fed ::
  "wire_env \<Rightarrow> 'd Store \<Rightarrow> ('d, 'e) PeerManager \<Rightarrow> ('d, 'e) federation \<Rightarrow> string \<Rightarrow> serr + TransferObject option" where
  "loadTransferObjectByItemID_fed env st m u itemID =
     (if \<not> IsDigestHexID itemID then Inr None
      else let from_messages = (case sGetMessageByID st (fdb u) itemID of
                 Inl err \<Rightarrow> if isNotFoundError_fed err then Inr None else Inl err
               | Inr msg \<Rightarrow> Inr None)
      in case managerEnvelopeStore m of
           None \<Rightarrow> from_messages
         | Some ops \<Rightarrow> (case eGetEnvelopeByID ops (fedb u) itemID of
             Inl err \<Rightarrow> if \<not> isNotFoundError_fed err then Inl err else from_messages
           | Inr stored \<Rightarrow>
               if length (EOpaquePayload stored) > 0
               then let b64 = b64_encode (EOpaquePayload stored);
                        object = \<lparr>ItemID = itemID, EnvelopeB64 = b64,
                          ExpiryUnixMS = of_int (UnixMilli (toUTC (EExpiresAt stored))),
                          HopCount = of_int (ECurrentHopCount stored),
                          Envelope = \<lparr>From = [], To = [], PayloadB64 = [], CreatedAt = 0, ExpiresAt = 0,
                             ManifestID = [], AuthorSig = []\<rparr>\<rparr>
                    in if ItemID object \<noteq> ComputeTransferObjectItemID object then Inr None
                       else (case DecodeItemEnvelopeB64 env b64 of
                               Inl _ \<Rightarrow> Inr None
                             | Inr parsed \<Rightarrow> Inr (Some (object\<lparr>Envelope := parsed\<rparr>)))
               else from_messages))"

fun transfer_objects_loop ::
  "(string \<Rightarrow> serr + TransferObject option) \<Rightarrow> u64 \<Rightarrow> string list \<Rightarrow> TransferObject list \<Rightarrow> serr + TransferObject list" where
  "transfer_objects_loop load nowMS [] objects = Inr objects"
| "transfer_objects_loop load nowMS (i # rest) objects =
     (if length objects \<ge> MaxTransferItems then Inr objects
      else case load i of
             Inl err \<Rightarrow> Inl err
           | Inr None \<Rightarrow> transfer_objects_loop load nowMS rest objects
           | Inr (Some object) \<Rightarrow>
               if ExpiryUnixMS object \<le> nowMS then transfer_objects_loop load nowMS rest objects
               else transfer_objects_loop load nowMS rest (objects @ [object]))"

definition buildTransferObjects ::
  "fed_env \<Rightarrow> ('d, 'e) PeerManager \<Rightarrow> gotime \<Rightarrow> string list \<Rightarrow> ('d, 'e) federation \<Rightarrow> fed_err + TransferObject list" where
  "buildTransferObjects w m now want u = (case managerStore m of
     None \<Rightarrow> Inr []
   | Some st \<Rightarrow> mapErr FedStoreErr
       (transfer_objects_loop (loadTransferObjectByItemID_fed (fwire w) st m u) (of_int (UnixMilli (toUTC now))) want []))"

definition handleRequest_fed ::
  "fed_env \<Rightarrow> ('d, 'e) PeerManager \<Rightarrow> gotime \<Rightarrow> string \<Rightarrow> Event \<Rightarrow> ('d, 'e) federation \<Rightarrow> ('d, 'e) federation \<times> (fed_err + unit)" where
  "handleRequest_fed w m now p ev u = (case ERequest ev of
     None \<Rightarrow> (u, Inl (FedMissingPayload ''request''))
   | Some request \<Rightarrow>
       if length (Want request) = 0 then (u, Inr ())
       else (case buildTransferObjects w m now (Want request) u of
               Inl err \<Rightarrow> (u, Inl err)
             | Inr objects \<Rightarrow>
                 let u = (if adapterAttached (peer u p)
                          then on_peer p (\<lambda>x. x\<lparr>peerAdapter := SetExpectedReceipt (peerAdapter x) (map ItemID objects)\<rparr>) u
                          else u)
                 in sendEnvelope_fed w p FrameTypeTransfer (GMapS (transfer_fields objects)) u))"

subsection \<open>Announcing items\<close>

text \<open>
  The registered peers come in the order of their ids; in Go they come in no fixed order, but each
  frame goes to one link only.
\<close>

definition announce_one ::
  "fed_env \<Rightarrow> goval \<Rightarrow> string \<Rightarrow> ('d, 'e) federation \<Rightarrow> ('d, 'e) federation" where
  "announce_one w payload p u = fst (sendEnvelope_fed w p FrameTypeSummary payload u)"

definition announced_ids :: "string list \<Rightarrow> string list" where
  "announced_ids ids =
     (let have = remdups (filter (\<lambda>i. i \<noteq> [] \<and> IsDigestHexID i) ids);
          have = (case NormalizeDigestHexIDs have of Inl _ \<Rightarrow> [] | Inr normalized \<Rightarrow> normalized)
      in if length have > MaxSummaryPreviewItems then take MaxSummaryPreviewItems have else have)"

definition forwardSummaryToPeers ::
  "fed_env \<Rightarrow> string list \<Rightarrow> string \<Rightarrow> ('d, 'e) federation \<Rightarrow> ('d, 'e) federation" where
  "forwardSummaryToPeers w ids originNodeID u =
     (if filter (\<lambda>i. i \<noteq> [] \<and> IsDigestHexID i) ids = [] then u
      else let have = announced_ids ids;
               summary = BuildSummaryPreviewPayload have have [];
               targets = filter (\<lambda>p. \<not> (originNodeID \<noteq> [] \<and> RemoteNodeID (peer u p) = originNodeID)) (sorted_list_of_set (peers u))
           in fold (announce_one w (GMapS (summary_fields summary))) targets u)"

definition observe_ingest :: "fed_env \<Rightarrow> RelayIngestSignal \<Rightarrow> ('d, 'e) federation \<Rightarrow> ('d, 'e) federation" where
  "observe_ingest w signal u =
     (if SignalItemID signal = [] then u else forwardSummaryToPeers w [SignalItemID signal] (SourceRelay signal) u)"

definition AnnounceMessage :: "fed_env \<Rightarrow> Message \<Rightarrow> ('d, 'e) federation \<Rightarrow> ('d, 'e) federation" where
  "AnnounceMessage w msg u = forwardSummaryToPeers w [MID msg] [] u"

definition ForwardToPeers :: "fed_env \<Rightarrow> Message \<Rightarrow> string \<Rightarrow> ('d, 'e) federation \<Rightarrow> ('d, 'e) federation" where
  "ForwardToPeers w msg originNodeID u = forwardSummaryToPeers w [MID msg] originNodeID u"

subsection \<open>TRANSFER and RECEIPT\<close>

datatype fed_import_issue = FedIdRequired | FedIdFormat | FedHopCountTooLarge | FedEnvelopeUndecodable gerr
  | FedDestinationRequired | FedSourceRequired | FedPayloadInvalid | FedLifetimeInvalid | FedExpiryMismatch
  | FedIdMismatch | FedAlreadyExpired

definition transferObjectToMessage_fed :: "wire_env \<Rightarrow> gotime \<Rightarrow> TransferObject \<Rightarrow> fed_import_issue + Message" where
  "transferObjectToMessage_fed env now object =
     bindE (guardE (ItemID object \<noteq> []) FedIdRequired) (\<lambda>_.
     bindE (guardE (IsDigestHexID (ItemID object)) FedIdFormat) (\<lambda>_.
     bindE (guardE (\<not> HopCount object > 65535) FedHopCountTooLarge) (\<lambda>_.
     bindE (mapErr FedEnvelopeUndecodable (DecodeItemEnvelopeB64 env (EnvelopeB64 object))) (\<lambda>envelope.
     bindE (guardE (To envelope \<noteq> []) FedDestinationRequired) (\<lambda>_.
     bindE (guardE (From envelope \<noteq> []) FedSourceRequired) (\<lambda>_.
     bindE (guardE (DecodePayloadB64 (PayloadB64 envelope) \<noteq> None) FedPayloadInvalid) (\<lambda>_.
     bindE (guardE (\<not> (ExpiresAt envelope \<le> CreatedAt envelope \<and> ExpiresAt envelope > 0)) FedLifetimeInvalid) (\<lambda>_.
     bindE (guardE (\<not> (ExpiresAt envelope > 0 \<and> ExpiryUnixMS object \<noteq> of_int (ExpiresAt envelope) * 1000)) FedExpiryMismatch) (\<lambda>_.
     bindE (guardE (ItemID object = ComputeTransferObjectItemID object) FedIdMismatch) (\<lambda>_.
     let now = toUTC now;
         createdAt = now;
         createdAt = (if CreatedAt envelope > 0 then toUTC (time_Unix (CreatedAt envelope) 0) else createdAt);
         expiresAt = toUTC (time_UnixMilli (sint (ExpiryUnixMS object)));
         expiresAt = (if ExpiresAt envelope > 0 then toUTC (time_Unix (ExpiresAt envelope) 0) else expiresAt)
     in if \<not> After expiresAt createdAt \<and> \<not> After expiresAt now then Inl FedAlreadyExpired
        else let createdAt = (if \<not> After expiresAt createdAt then Add expiresAt (- second) else createdAt)
        in Inr \<lparr>MID = ItemID object, MFrom = From envelope, MTo = To envelope, MPayload = PayloadB64 envelope,
             MCreatedAt = createdAt, MExpiresAt = expiresAt, MDelivered = False, MDeliveredAt = None\<rparr>))))))))))"

definition persistTransferEnvelope_fed ::
  "('d, 'e) PeerManager \<Rightarrow> 'e \<Rightarrow> TransferObject \<Rightarrow> Message \<Rightarrow> int \<Rightarrow> string \<Rightarrow> 'e \<times> (persist_issue + unit)" where
  "persistTransferEnvelope_fed m ed object msg hopCount originRelayID = (case managerEnvelopeStore m of
     None \<Rightarrow> (ed, Inr ())
   | Some ops \<Rightarrow> (case b64_decode True (EnvelopeB64 object) of
       None \<Rightarrow> (ed, Inl EnvelopeNotBase64)
     | Some envelopeBytes \<Rightarrow>
         (case ePersistEnvelope ops ed
             \<lparr>EID = MID msg, EDestinationID = MTo msg, EOpaquePayload = envelopeBytes, EOriginRelayID = originRelayID,
              ECurrentHopCount = hopCount, ECreatedAt = MCreatedAt msg, EExpiresAt = MExpiresAt msg\<rparr> of
            (ed', r) \<Rightarrow> (ed', mapErr EnvelopeStoreFailed r))))"

text \<open>
  One object of a TRANSFER frame: whether it was accepted.  The observer of the engine runs inside
  \<open>AcceptRelayForward\<close>, after its last write to the stores.
\<close>

definition forward_object ::
  "fed_env \<Rightarrow> ('d, 'e) PeerManager \<Rightarrow> 'd Store \<Rightarrow> gotime \<Rightarrow> string \<Rightarrow> TransferObject \<Rightarrow> ('d, 'e) federation \<Rightarrow> ('d, 'e) federation \<times> bool" where
  "forward_object w m st now p object u = (case transferObjectToMessage_fed (fwire w) now object of
     Inl issue \<Rightarrow> (u, False)
   | Inr msg \<Rightarrow>
       (case AcceptRelayForward st (managerEnvelopeStore m) (managerEngine m) now (fdb u) (fedb u) (RemoteNodeID (peer u p)) (Some msg) 65536 of
          (d, ed, signals, result) \<Rightarrow>
            let u = fold (observe_ingest w) signals (u\<lparr>fdb := d, fedb := ed\<rparr>)
            in case result of
                 Inl err \<Rightarrow> (u, False)
               | Inr r \<Rightarrow>
                   if Status r \<in> {RelayForwardAccepted, RelayForwardDuplicate, RelayForwardSeenLoop}
                   then (case persistTransferEnvelope_fed m (fedb u) object msg (sint (HopCount object)) (RemoteNodeID (peer u p)) of
                           (ed, Inl issue) \<Rightarrow> (u\<lparr>fedb := ed\<rparr>, False)
                         | (ed, Inr _) \<Rightarrow> (u\<lparr>fedb := ed\<rparr>, True))
                   else (u, False)))"

fun forward_loop ::
  "fed_env \<Rightarrow> ('d, 'e) PeerManager \<Rightarrow> 'd Store \<Rightarrow> gotime \<Rightarrow> string \<Rightarrow> TransferObject list \<Rightarrow> string list \<Rightarrow>
   ('d, 'e) federation \<Rightarrow> ('d, 'e) federation \<times> string list" where
  "forward_loop w m st now p [] accepted u = (u, accepted)"
| "forward_loop w m st now p (object # rest) accepted u = (case forward_object w m st now p object u of
     (u, ok) \<Rightarrow> forward_loop w m st now p rest (if ok then accepted @ [ItemID object] else accepted) u)"

definition handleTransfer_fed ::
  "fed_env \<Rightarrow> ('d, 'e) PeerManager \<Rightarrow> gotime \<Rightarrow> string \<Rightarrow> Event \<Rightarrow> ('d, 'e) federation \<Rightarrow> ('d, 'e) federation \<times> (fed_err + unit)" where
  "handleTransfer_fed w m now p ev u = (case ETransfer ev of
     None \<Rightarrow> (u, Inl (FedMissingPayload ''transfer''))
   | Some transfer \<Rightarrow>
       (case managerStore m of
          None \<Rightarrow> (u, Inl EngineNotConfigured)
        | Some st \<Rightarrow>
            (case forward_loop w m st now p (map Object (Objects transfer)) [] u of
               (u, accepted) \<Rightarrow>
                 let accepted = (if length accepted > 1 then SortDigestHexIDs accepted else accepted)
                 in sendEnvelope_fed w p FrameTypeReceipt (GMapS (receipt_fields \<lparr>Accepted = accepted\<rparr>)) u)))"

definition handleReceipt_fed :: "Event \<Rightarrow> ('d, 'e) federation \<Rightarrow> ('d, 'e) federation \<times> (fed_err + unit)" where
  "handleReceipt_fed ev u = (case EReceipt ev of
     None \<Rightarrow> (u, Inl (FedMissingPayload ''receipt''))
   | Some receipt \<Rightarrow> (u, Inr ()))"

subsection \<open>Events\<close>

definition bind_remote :: "gotime \<Rightarrow> HelloPayload \<Rightarrow> Peer \<Rightarrow> Peer" where
  "bind_remote now hello x = x\<lparr>RemoteNodeID := NodeID hello, LastHelloAt := now,
     Health := (Health x)\<lparr>LastSeen := now, HealthIsHealthy := True\<rparr>\<rparr>"

definition hello_fed ::
  "fed_env \<Rightarrow> ('d, 'e) PeerManager \<Rightarrow> gotime \<Rightarrow> string \<Rightarrow> Event \<Rightarrow> ('d, 'e) federation \<Rightarrow> ('d, 'e) federation \<times> (fed_err + unit)" where
  "hello_fed w m now p ev u = (case EHello ev of
     None \<Rightarrow> (u, Inl (FedMissingPayload ''hello''))
   | Some hello \<Rightarrow>
       let u = on_peer p (\<lambda>x. x\<lparr>RemoteMaxWant := MaxWant hello\<rparr>) u;
           remote = RemoteNodeID (peer u p)
       in if remote \<noteq> [] \<and> remote \<noteq> NodeID hello then (u, Inl (NodeIDChanged remote (NodeID hello)))
          else sendSummary w m now p (on_peer p (bind_remote now hello) u))"

definition healthy_only ::
  "string \<Rightarrow> string \<Rightarrow> (('d, 'e) federation \<Rightarrow> ('d, 'e) federation \<times> (fed_err + unit)) \<Rightarrow> ('d, 'e) federation \<Rightarrow>
   ('d, 'e) federation \<times> (fed_err + unit)" where
  "healthy_only frame p handler u =
     (if \<not> IsHealthy (peerAdapter (peer u p)) then (u, Inl (FedBeforeHello frame)) else handler u)"

definition processEvent_fed ::
  "fed_env \<Rightarrow> ('d, 'e) PeerManager \<Rightarrow> gotime \<Rightarrow> string \<Rightarrow> Event \<Rightarrow> ('d, 'e) federation \<Rightarrow> ('d, 'e) federation \<times> (fed_err + unit)" where
  "processEvent_fed w m now p ev u = (case EType ev of
     EventTypeHelloValidated \<Rightarrow> hello_fed w m now p ev u
   | EventTypeSummary \<Rightarrow> healthy_only ''summary'' p (handleSummary_fed w m p ev) u
   | EventTypeRequest \<Rightarrow> healthy_only ''request'' p (handleRequest_fed w m now p ev) u
   | EventTypeTransfer \<Rightarrow> healthy_only ''transfer'' p (handleTransfer_fed w m now p ev) u
   | EventTypeReceipt \<Rightarrow> healthy_only ''receipt'' p (handleReceipt_fed ev) u
   | _ \<Rightarrow> (u, Inr ()))"

definition observe_event ::
  "('d, 'e) PeerManager \<Rightarrow> string \<Rightarrow> Event \<Rightarrow> ('d, 'e) federation \<Rightarrow> ('d, 'e) federation" where
  "observe_event m p ev u = (case eventObserver m of
     None \<Rightarrow> u
   | Some observer \<Rightarrow>
       on_peer p (\<lambda>x. x\<lparr>peerAdapter := ObserveNonFatal (peerAdapter x) (observer (peer u p) ev)\<rparr>) u)"

fun processEvents_fed ::
  "fed_env \<Rightarrow> ('d, 'e) PeerManager \<Rightarrow> gotime \<Rightarrow> string \<Rightarrow> Event list \<Rightarrow> ('d, 'e) federation \<Rightarrow> ('d, 'e) federation \<times> (fed_err + unit)" where
  "processEvents_fed w m now p [] u = (u, Inr ())"
| "processEvents_fed w m now p (ev # evs) u =
     (if EType ev = EventTypeFatal
      then (u, case Err ev of None \<Rightarrow> Inr () | Some err \<Rightarrow> Inl (FedGossipErr err))
      else bindS (processEvent_fed w m now p ev u) (\<lambda>u _. processEvents_fed w m now p evs (observe_event m p ev u)))"

fun firstFatal :: "Event list \<Rightarrow> gerr option" where
  "firstFatal [] = None"
| "firstFatal (ev # evs) = (if EType ev = EventTypeFatal then Err ev else firstFatal evs)"

definition push_peer :: "fed_env \<Rightarrow> string \<Rightarrow> bytes \<Rightarrow> ('d, 'e) federation \<Rightarrow> ('d, 'e) federation \<times> Event list" where
  "push_peer w p data u = (case PushInbound (fwire w) (peerAdapter (peer u p)) data of
     (a, events) \<Rightarrow> (on_peer p (\<lambda>x. x\<lparr>peerAdapter := a\<rparr>) u, events))"

subsection \<open>Encounters\<close>

definition new_peer :: "string \<Rightarrow> gotime \<Rightarrow> int \<Rightarrow> string \<Rightarrow> string \<Rightarrow> string \<Rightarrow> bool \<Rightarrow> Peer" where
  "new_peer relay now seed p sid url out = \<lparr>PeerID = p, PeerSessionID = sid, PeerURL = url, RemoteNodeID = [], RemoteMaxWant = 0,
     Outbound = out, localHelloSent = False, summarySent = False, ConnectedAt = now, LastHelloAt = zero_time,
     Health = \<lparr>Uptime = 0, LastSeen = now, MessagesForwarded = 0, MessagesReceived = 0, FailureCount = 0,
       BackoffUntil = zero_time, HealthIsHealthy = False\<rparr>,
     Done = False, peerAdapter = NewSessionAdapter (BuildRelayHello relay) True, adapterAttached = False,
     Metrics = NewPeerMetrics now seed url\<rparr>"

definition send_hello :: "fed_env \<Rightarrow> string \<Rightarrow> ('d, 'e) federation \<Rightarrow> ('d, 'e) federation \<times> (fed_err + unit)" where
  "send_hello w p u = (case InitialHelloBytes (fwire w) (peerAdapter (peer u p)) of
     Inl err \<Rightarrow> (u, Inl (FedGossipErr err))
   | Inr helloBytes \<Rightarrow>
       bindS (writePeerMessage w p helloBytes u) (\<lambda>u _. (on_peer p (\<lambda>x. x\<lparr>localHelloSent := True\<rparr>) u, Inr ())))"

definition require_healthy :: "string \<Rightarrow> ('d, 'e) federation \<Rightarrow> ('d, 'e) federation \<times> (fed_err + unit)" where
  "require_healthy p u = (u, if IsHealthy (peerAdapter (peer u p)) then Inr () else Inl SessionUnhealthy)"

text \<open>
  The first read of a link: the relay that dialled writes its HELLO before it, the other one after it.
  Nothing else touches the link or its peer object while the relay waits, so the wait is not a step.
\<close>

definition runEncounter ::
  "fed_env \<Rightarrow> ('d, 'e) PeerManager \<Rightarrow> gotime \<Rightarrow> string \<Rightarrow> ws_read \<Rightarrow> ('d, 'e) federation \<Rightarrow> ('d, 'e) federation \<times> (fed_err + unit)" where
  "runEncounter w m now p msg u =
     bindS (send_hello w p (on_peer p (\<lambda>x. x\<lparr>adapterAttached := True\<rparr>) u)) (\<lambda>u _.
     case msg of
       ReadBinary data \<Rightarrow>
         (case push_peer w p data u of (u, events) \<Rightarrow>
            bindS (processEvents_fed w m now p events u) (\<lambda>u _.
            bindS (require_healthy p u) (\<lambda>u _. (u\<lparr>reading := insert p (reading u)\<rparr>, Inr ()))))
     | ReadOther \<Rightarrow> (u, Inl FedNotBinary)
     | _ \<Rightarrow> (u, Inl FedReadFailed))"

definition acceptInboundEncounter ::
  "fed_env \<Rightarrow> ('d, 'e) PeerManager \<Rightarrow> gotime \<Rightarrow> string \<Rightarrow> ws_read \<Rightarrow> ('d, 'e) federation \<Rightarrow> ('d, 'e) federation \<times> (fed_err + unit)" where
  "acceptInboundEncounter w m now p msg u = (case msg of
     ReadBinary data \<Rightarrow>
       (case push_peer w p data u of (u, events) \<Rightarrow>
       (case firstFatal events of
          Some err \<Rightarrow> (u, Inl (FedGossipErr err))
        | None \<Rightarrow>
            bindS (send_hello w p u) (\<lambda>u _.
            bindS (processEvents_fed w m now p events u) (\<lambda>u _.
            bindS (require_healthy p u) (\<lambda>u _.
            ((on_peer p (\<lambda>x. x\<lparr>adapterAttached := True\<rparr>) u)\<lparr>reading := insert p (reading u)\<rparr>, Inr ()))))))
   | ReadOther \<Rightarrow> (u, Inl FedNotBinary)
   | _ \<Rightarrow> (u, Inl FedReadFailed))"

subsection \<open>The manager\<close>

definition addPeer :: "string \<Rightarrow> ('d, 'e) federation \<Rightarrow> ('d, 'e) federation" where
  "addPeer p u = u\<lparr>peers := insert p (peers u), peerMetrics := (peerMetrics u)(p \<mapsto> Metrics (peer u p))\<rparr>"

text \<open>
  Once \<open>ctxStop\<close> is closed nothing is taken from \<open>outbound\<close> any more, so it makes no difference
  whether the url of a lost link is still put there.
\<close>

definition removePeer :: "string \<Rightarrow> ('d, 'e) federation \<Rightarrow> ('d, 'e) federation" where
  "removePeer p u =
     (let u = (on_peer p (\<lambda>x. x\<lparr>Done := True\<rparr>) u)\<lparr>peers := peers u - {p}, peerMetrics := (peerMetrics u)(p := None)\<rparr>
      in if Outbound (peer u p) \<and> \<not> ctxStop u then u\<lparr>outbound := outbound u @ [PeerURL (peer u p)]\<rparr> else u)"

definition end_read_loop :: "string \<Rightarrow> ('d, 'e) federation \<Rightarrow> ('d, 'e) federation" where
  "end_read_loop p u = removePeer p (u\<lparr>reading := reading u - {p}\<rparr>)"

definition readLoop ::
  "fed_env \<Rightarrow> ('d, 'e) PeerManager \<Rightarrow> gotime \<Rightarrow> string \<Rightarrow> ws_read \<Rightarrow> ('d, 'e) federation \<Rightarrow> ('d, 'e) federation" where
  "readLoop w m now p msg u = (case msg of
     ReadBinary data \<Rightarrow>
       if \<not> adapterAttached (peer u p) then end_read_loop p u
       else (case push_peer w p data u of (u, events) \<Rightarrow>
            (case processEvents_fed w m now p events u of
               (u, Inl err) \<Rightarrow> end_read_loop p u
             | (u, Inr _) \<Rightarrow> u))
   | _ \<Rightarrow> end_read_loop p u)"

definition cleanup :: "('d, 'e) federation \<Rightarrow> ('d, 'e) federation" where
  "cleanup u = u\<lparr>peer := (\<lambda>p. if p \<in> peers u then (peer u p)\<lparr>Done := True\<rparr> else peer u p), runDone := True\<rparr>"

abbreviation (input) ReconnectBaseDelay :: int where "ReconnectBaseDelay \<equiv> 1 * second"
abbreviation (input) ReconnectMaxDelay :: int where "ReconnectMaxDelay \<equiv> 60 * second"

definition new_dial :: "string \<Rightarrow> string \<Rightarrow> dial_job" where
  "new_dial url sid = \<lparr>dialURL = url, dialSession = sid, dialAttempt = 0, dialDelay = ReconnectBaseDelay\<rparr>"

definition retry :: "dial_job \<Rightarrow> dial_job" where
  "retry job = job\<lparr>dialAttempt := dialAttempt job + 1, dialDelay := min (dialDelay job * 2) ReconnectMaxDelay\<rparr>"

text \<open>What a dial attempt meets: no connection, or a link with a fresh peer id and its first message.\<close>

datatype dial_outcome = DialRefused | DialConnected string ws_read

text \<open>One turn of the loop of \<open>dialPeer\<close>; the dial goes on with the job it returns.\<close>

definition dial_turn ::
  "fed_env \<Rightarrow> ('d, 'e) PeerManager \<Rightarrow> gotime \<Rightarrow> dial_outcome \<Rightarrow> dial_job \<Rightarrow> ('d, 'e) federation \<Rightarrow> ('d, 'e) federation \<times> dial_job option" where
  "dial_turn w m now outcome job u =
     (if \<not> dialAttempt job < 10 then (u, None)
      else if ctxStop u then (u, None)
      else case outcome of
             DialRefused \<Rightarrow> (u, Some (retry job))
           | DialConnected p msg \<Rightarrow>
               let u = u\<lparr>peer := (peer u)(p := new_peer (managerRelayID m) now (metricsSeed w p) p (dialSession job) (dialURL job) True)\<rparr>
               in (case runEncounter w m now p msg u of
                     (u, Inl err) \<Rightarrow> (u, Some (retry job))
                   | (u, Inr _) \<Rightarrow> (u\<lparr>inbound := inbound u @ [p]\<rparr>, None)))"

definition HandleInboundPeer ::
  "fed_env \<Rightarrow> ('d, 'e) PeerManager \<Rightarrow> gotime \<Rightarrow> string \<Rightarrow> string \<Rightarrow> string \<Rightarrow> ws_read \<Rightarrow> ('d, 'e) federation \<Rightarrow> ('d, 'e) federation" where
  "HandleInboundPeer w m now p sid remoteAddr msg u =
     (let u = u\<lparr>peer := (peer u)(p := new_peer (managerRelayID m) now (metricsSeed w p) p sid remoteAddr False)\<rparr>
      in case acceptInboundEncounter w m now p msg u of
           (u, Inl err) \<Rightarrow> u
         | (u, Inr _) \<Rightarrow> u\<lparr>inbound := inbound u @ [p]\<rparr>)"

datatype fed_event =
    AddPeerURL string
  | RunOutbound string
  | RunInbound
  | Dial gotime nat dial_outcome
  | InboundPeer gotime string string string ws_read
  | PeerRead gotime string ws_read
  | Announce Message
  | Forward Message string
  | StopManager
  | RunStopped

fun fed_step ::
  "fed_env \<Rightarrow> ('d, 'e) PeerManager \<Rightarrow> ('d, 'e) federation \<Rightarrow> fed_event \<Rightarrow> ('d, 'e) federation" where
  "fed_step w m u (AddPeerURL url) = (if ctxStop u then u else u\<lparr>outbound := outbound u @ [url]\<rparr>)"
| "fed_step w m u (RunOutbound sid) =
     (if runDone u then u
      else case outbound u of
             [] \<Rightarrow> u
           | url # rest \<Rightarrow> u\<lparr>outbound := rest, dials := dials u @ [new_dial url sid]\<rparr>)"
| "fed_step w m u RunInbound =
     (if runDone u then u
      else case inbound u of [] \<Rightarrow> u | p # rest \<Rightarrow> addPeer p (u\<lparr>inbound := rest\<rparr>))"
| "fed_step w m u (Dial now i outcome) =
     (if i < length (dials u)
      then (case dial_turn w m now outcome (dials u ! i) u of
              (u, None) \<Rightarrow> u\<lparr>dials := take i (dials u) @ drop (i + 1) (dials u)\<rparr>
            | (u, Some job) \<Rightarrow> u\<lparr>dials := (dials u)[i := job]\<rparr>)
      else u)"
| "fed_step w m u (InboundPeer now p sid addr msg) = HandleInboundPeer w m now p sid addr msg u"
| "fed_step w m u (PeerRead now p msg) = (if p \<in> reading u then readLoop w m now p msg u else u)"
| "fed_step w m u (Announce msg) = AnnounceMessage w msg u"
| "fed_step w m u (Forward msg origin) = ForwardToPeers w msg origin u"
| "fed_step w m u StopManager = u\<lparr>ctxStop := True\<rparr>"
| "fed_step w m u RunStopped = (if ctxStop u \<and> \<not> runDone u then cleanup u else u)"

subsection \<open>Views of the peers\<close>

definition GetPeers :: "gotime \<Rightarrow> ('d, 'e) federation \<Rightarrow> ('d, 'e) federation \<times> (string \<rightharpoonup> PeerHealth)" where
  "GetPeers now u =
     (let u = u\<lparr>peer := (\<lambda>p. if p \<in> peers u
            then (peer u p)\<lparr>Health := (Health (peer u p))\<lparr>Uptime := Sub now (ConnectedAt (peer u p))\<rparr>\<rparr> else peer u p)\<rparr>
      in (u, \<lambda>p. if p \<in> peers u then Some (Health (peer u p)) else None))"

definition IsPeerHealthy :: "gotime \<Rightarrow> ('d, 'e) federation \<Rightarrow> string \<Rightarrow> bool" where
  "IsPeerHealthy now u p \<longleftrightarrow> p \<in> peers u \<and> HealthIsHealthy (Health (peer u p)) \<and> \<not> IsBackingOff now (Health (peer u p))"

definition GetHealthyPeers :: "gotime \<Rightarrow> ('d, 'e) federation \<Rightarrow> string set" where
  "GetHealthyPeers now u = Set.filter (\<lambda>p. HealthIsHealthy (Health (peer u p)) \<and> \<not> IsBackingOff now (Health (peer u p))) (peers u)"

definition GetPeerCount :: "('d, 'e) federation \<Rightarrow> nat" where
  "GetPeerCount u = card (peers u)"

definition PeerLastObserverError :: "('d, 'e) federation \<Rightarrow> string \<Rightarrow> gerr option" where
  "PeerLastObserverError u p =
     (if p \<notin> peers u then None
      else if \<not> adapterAttached (peer u p) then None
      else lastObserverError (peerAdapter (peer u p)))"

end
