(* ===== verification/WS_Serving.thy ===== *)
theory WS_Serving
  imports WS_Handler
begin

text \<open>
  What the WebSocket handlers compute: which items are wanted from a peer, which are served to it, and
  which are offered in a summary.
\<close>

subsection \<open>Wanted items\<close>

lemma want_loop_exact:
  assumes "\<forall>i \<in> set ids. is_ok (known i)" and "distinct (want @ ids)" and "length want < limit"
  shows "want_loop offered known limit ids want =
    (let found = want @ filter (\<lambda>i. offered i \<and> known i = Inr False) ids
     in Inr (take limit found, length found \<ge> limit))"
  using assms
proof (induction ids arbitrary: want)
  case Nil
  then show ?case by simp
next
  case (Cons i rest)
  then obtain k where k: "known i = Inr k" by (auto simp: is_ok_iff)
  show ?case
  proof (cases "offered i \<and> \<not> k")
    case True
    show ?thesis
    proof (cases "length (want @ [i]) \<ge> limit")
      case full: True
      with Cons.prems have "limit = Suc (length want)" by simp
      with Cons.prems True k show ?thesis by (auto simp: Let_def)
    next
      case False
      with Cons.IH [of "want @ [i]"] Cons.prems True k show ?thesis by (simp add: Let_def)
    qed
  next
    case False
    with Cons.IH [of want] Cons.prems k show ?thesis by (auto simp: Let_def split: bool.splits)
  qed
qed

lemma want_limit_bounds: "0 < want_limit peer" "want_limit peer \<le> 256"
proof -
  have "peer > 0 \<Longrightarrow> unat peer > 0" by (simp add: unat_gt_0)
  moreover have "peer < 256 \<Longrightarrow> unat peer < 256" using word_less_nat_alt [of peer 256] by simp
  ultimately show "0 < want_limit peer" "want_limit peer \<le> 256" by (auto simp: want_limit_def)
qed

lemma sorted_filter_take:
  "sorted_wrt (<) xs \<Longrightarrow> sorted_wrt (<) (take n (filter P xs))"
  by (simp add: sorted_wrt_filter sorted_wrt_take)

lemma computeMissingWant_eq:
  assumes "\<forall>i \<in> set (PreviewItemIDs summary). isDigestHex i \<and> is_ok (hasObjectID h u i)"
  shows "computeMissingWant h u (Some summary) [] peer =
    Inr (take (want_limit peer) (filter (\<lambda>i. BloomFilterMightContain (BloomFilter summary) i \<and> hasObjectID h u i = Inr False)
      (normalizeDigestHexIDsDropInvalid (PreviewItemIDs summary))))"
proof -
  let ?ids = "normalizeDigestHexIDsDropInvalid (PreviewItemIDs summary)"
  let ?found = "filter (\<lambda>i. BloomFilterMightContain (BloomFilter summary) i \<and> hasObjectID h u i = Inr False) ?ids"
  have norm: "NormalizeDigestHexIDs (PreviewItemIDs summary) = Inr ?ids"
    using assms by (simp add: NormalizeDigestHexIDs_def normalizeDigestHexIDs_eq)
  have nil: "NormalizeDigestHexIDs [] = Inr []"
    by (simp add: NormalizeDigestHexIDs_def normalizeDigestHexIDs_eq normalize_sorted_id)
  have sorted: "sorted_wrt (<) ?ids" by (rule drop_invalid_sorted)
  have "want_loop (BloomFilterMightContain (BloomFilter summary)) (hasObjectID h u) (want_limit peer) ?ids [] =
      Inr (take (want_limit peer) ?found, length ?found \<ge> want_limit peer)"
    using want_loop_exact [of ?ids "hasObjectID h u" "[]"] assms want_limit_bounds(1) [of peer]
      sorted_wrt_less_imp_distinct [OF sorted] by (simp add: drop_invalid_set Let_def)
  moreover have "SortDigestHexIDs (take n ?found) = take n ?found" for n
    using sortDigestHexIDs_sorted [OF sorted_filter_take [OF sorted]] by (simp add: SortDigestHexIDs_def)
  moreover from this [of "length ?found"] have "SortDigestHexIDs ?found = ?found" by simp
  ultimately show ?thesis
    using want_limit_bounds(1) [of peer] by (simp add: computeMissingWant_def norm nil Let_def)
qed

subsection \<open>Served items\<close>

definition servable :: "(string \<Rightarrow> serr + TransferObject option) \<Rightarrow> string \<Rightarrow> u64 \<Rightarrow> string \<Rightarrow> TransferObject option" where
  "servable load recipient nowMS i = (case load i of
     Inr (Some object) \<Rightarrow>
       if To (Envelope object) = recipient \<and> nowMS < ExpiryUnixMS object then Some object else None
   | _ \<Rightarrow> None)"

lemma serve_loop_exact:
  assumes "\<forall>i \<in> set ids. is_ok (load i)" and "length objects \<le> MaxTransferItems"
  shows "serve_loop load recipient nowMS ids objects =
    Inr (take MaxTransferItems (objects @ List.map_filter (servable load recipient nowMS) ids))"
  using assms
proof (induction ids arbitrary: objects)
  case Nil
  then show ?case by (simp add: map_filter_simps)
next
  case (Cons i rest)
  show ?case
  proof (cases "length objects \<ge> MaxTransferItems")
    case True
    with Cons.prems show ?thesis by simp
  next
    case False
    from Cons.prems obtain r where r: "load i = Inr r" by (auto simp: is_ok_iff)
    show ?thesis
    proof (cases r)
      case None
      then have "servable load recipient nowMS i = None" by (simp add: servable_def r)
      with None False Cons r show ?thesis by (simp add: map_filter_simps)
    next
      case (Some object)
      let ?ok = "To (Envelope object) = recipient \<and> nowMS < ExpiryUnixMS object"
      have v: "servable load recipient nowMS i = (if ?ok then Some object else None)"
        by (simp add: servable_def r Some)
      show ?thesis
      proof (cases ?ok)
        case True
        have n: "MaxTransferItems - length objects = Suc (MaxTransferItems - length (objects @ [object]))"
          using False by simp
        from True v Some False Cons r n show ?thesis by (simp add: map_filter_simps flip: not_less)
      next
        case nok: False
        then have "servable load recipient nowMS i = None" using v by simp
        with nok Some False Cons r show ?thesis by (auto simp: map_filter_simps)
      qed
    qed
  qed
qed

lemma serve_loop_ok:
  assumes "serve_loop load recipient nowMS ids acc = Inr objects"
    and "\<forall>object \<in> set acc. P object"
    and "\<And>i object. i \<in> set ids \<Longrightarrow> load i = Inr (Some object) \<Longrightarrow> To (Envelope object) = recipient \<Longrightarrow>
           nowMS < ExpiryUnixMS object \<Longrightarrow> P object"
  shows "\<forall>object \<in> set objects. P object"
  using assms
proof (induction ids arbitrary: acc)
  case (Cons i rest)
  from Cons.prems(1) consider (full) "objects = acc" | (skip) "serve_loop load recipient nowMS rest acc = Inr objects"
    | (add) object where "load i = Inr (Some object)" "To (Envelope object) = recipient" "nowMS < ExpiryUnixMS object"
        "serve_loop load recipient nowMS rest (acc @ [object]) = Inr objects"
  proof (cases "servable load recipient nowMS i")
    case None
    then have "load i = Inr None \<or> (\<exists>object. load i = Inr (Some object) \<and>
        (To (Envelope object) \<noteq> recipient \<or> ExpiryUnixMS object \<le> nowMS)) \<or> (\<exists>err. load i = Inl err)"
      by (simp add: servable_def not_less split: if_splits option.splits sum.splits)
    then have "objects = acc \<or> serve_loop load recipient nowMS rest acc = Inr objects"
      using Cons.prems(1) by (elim disjE exE conjE) (simp_all split: if_splits)
    with that(1,2) show ?thesis by blast
  next
    case (Some object)
    then have o: "load i = Inr (Some object)" "To (Envelope object) = recipient" "nowMS < ExpiryUnixMS object"
      by (auto simp: servable_def split: if_splits option.splits sum.splits)
    with Cons.prems(1) have "objects = acc \<or> serve_loop load recipient nowMS rest (acc @ [object]) = Inr objects"
      by (simp add: leD split: if_splits)
    with o that(1,3) show ?thesis by blast
  qed
  then show ?case
  proof cases
    case full
    with Cons.prems(2) show ?thesis by simp
  next
    case skip
    show ?thesis by (rule Cons.IH [OF skip Cons.prems(2)]) (rule Cons.prems(3), simp_all)
  next
    case (add object)
    with Cons.prems(2) have acc: "\<forall>object \<in> set (acc @ [object]). P object"
      using Cons.prems(3) [of i object] by simp
    show ?thesis by (rule Cons.IH [OF add(4) acc]) (rule Cons.prems(3), simp_all)
  qed
qed simp

lemma serve_loop_length:
  "serve_loop load recipient nowMS ids acc = Inr objects \<Longrightarrow> length acc \<le> MaxTransferItems \<Longrightarrow>
   length objects \<le> MaxTransferItems"
  by (induction ids arbitrary: acc) (auto split: if_splits sum.splits option.splits)

end
