(* ===== verification/WS_Sessions.thy ===== *)
theory WS_Sessions
  imports WS_Serving
begin

text \<open>
  Invariants of the running server: what a step may send and to whom, who is registered, and that
  nothing panics.
\<close>

subsection \<open>Frames a client may be sent\<close>

text \<open>An item that may be served to a recipient: its id is the hash of its bytes, and its verified envelope
  is addressed to the recipient.\<close>

definition item_for :: "wire_env \<Rightarrow> string \<Rightarrow> TransferObject \<Rightarrow> bool" where
  "item_for env recipient object \<longleftrightarrow>
     (\<exists>bs. decodeBase64URLRaw (EnvelopeB64 object) = Inr bs \<and> ItemID object = hex_encode (sha256 bs) \<and>
        parseCanonicalItemEnvelope env bs = Inr (Envelope object)) \<and>
     verified_envelope env (Envelope object) \<and> To (Envelope object) = recipient"

definition allowed_frame :: "wire_env \<Rightarrow> string \<Rightarrow> bytes \<Rightarrow> bool" where
  "allowed_frame env recipient frame \<longleftrightarrow> (\<exists>frameType payload. encode_frame env frameType payload = Inr frame \<and>
     (frameType \<in> {FrameTypeHello, FrameTypeSummary, FrameTypeRequest, FrameTypeReceipt} \<or>
      frameType = FrameTypeTransfer \<and> (\<exists>objects. payload = GMapS (transfer_fields objects) \<and>
        length objects \<le> MaxTransferItems \<and> (\<forall>object \<in> set objects. item_for env recipient object))))"

lemma allowed_other:
  "encode_frame env frameType payload = Inr frame \<Longrightarrow>
   frameType \<in> {FrameTypeHello, FrameTypeSummary, FrameTypeRequest, FrameTypeReceipt} \<Longrightarrow> allowed_frame env recipient frame"
  unfolding allowed_frame_def by blast

lemma allowed_transfer:
  "encode_frame env FrameTypeTransfer (GMapS (transfer_fields objects)) = Inr frame \<Longrightarrow> length objects \<le> MaxTransferItems \<Longrightarrow>
   \<forall>object \<in> set objects. item_for env recipient object \<Longrightarrow> allowed_frame env recipient frame"
  unfolding allowed_frame_def
  by (intro exI [of _ FrameTypeTransfer] exI [of _ "GMapS (transfer_fields objects)"] conjI disjI2 exI [of _ objects])
     (assumption | rule refl)+

lemma load_item:
  assumes "loadTransferObjectByItemID env h u i = Inr (Some object)"
  shows "ItemID object = i" and "item_for env (To (Envelope object)) object"
proof -
  from assms obtain bs e where o: "ItemID object = i" "EnvelopeB64 object = b64_encode bs" "Envelope object = e"
    and id: "i = ComputeTransferObjectItemID object" and d: "DecodeItemEnvelopeB64 env (b64_encode bs) = Inr e"
    by (auto simp: loadTransferObjectByItemID_def Let_def ComputeTransferObjectItemID_def
        split: if_splits option.splits sum.splits)
  from d obtain bs' where b: "decodeBase64URLRaw (b64_encode bs) = Inr bs'"
    and p: "parseCanonicalItemEnvelope env bs' = Inr e" by (auto simp: DecodeItemEnvelopeB64_def)
  from id o b have "i = hex_encode (sha256 bs')" by (simp add: ComputeTransferObjectItemID_def)
  with o b p parseCanonicalItemEnvelope_verified [OF p] show "ItemID object = i"
    and "item_for env (To (Envelope object)) object" by (simp_all add: item_for_def)
qed

subsection \<open>What a handler may change\<close>

text \<open>The map of push timers has exactly the timers that will fire, each under its own recipient.\<close>

definition timers_inv :: "('d, 'e) hub \<Rightarrow> bool" where
  "timers_inv u \<longleftrightarrow> (\<forall>recipient t. pushTimers u recipient = Some t \<longleftrightarrow> armedTimers u t = Some recipient) \<and>
     (\<forall>t. armedTimers u t \<noteq> None \<longrightarrow> t < nextTimer u)"

lemma timers_inv_fields [simp]:
  "timers_inv (u\<lparr>db := d\<rparr>) = timers_inv u" "timers_inv (u\<lparr>edb := ed\<rparr>) = timers_inv u"
  "timers_inv (u\<lparr>clients := c\<rparr>) = timers_inv u" "timers_inv (u\<lparr>clientInfo := i\<rparr>) = timers_inv u"
  "timers_inv (u\<lparr>sent := f\<rparr>) = timers_inv u" "timers_inv (u\<lparr>pushExcluded := x\<rparr>) = timers_inv u"
  "timers_inv (u\<lparr>pushSessionID := y\<rparr>) = timers_inv u"
  by (simp_all add: timers_inv_def)

lemma timers_inv_arm:
  assumes "timers_inv u" and "pushTimers u recipient = None" and "AfterFunc recipient u = (u', t)"
  shows "timers_inv (u'\<lparr>pushTimers := (pushTimers u')(recipient \<mapsto> t)\<rparr>)"
proof -
  have "armedTimers u (nextTimer u) = None" using assms(1) unfolding timers_inv_def by blast
  moreover have "armedTimers u s \<noteq> Some recipient" for s
    using assms(1,2) unfolding timers_inv_def by (metis option.distinct(1))
  moreover have "pushTimers u r \<noteq> Some (nextTimer u)" for r
    using assms(1) calculation(1) unfolding timers_inv_def by (metis option.distinct(1))
  ultimately show ?thesis using assms
    by (auto simp: AfterFunc_def timers_inv_def less_Suc_eq split: if_splits)
qed

lemma timers_inv_disarm:
  assumes "timers_inv u" and "armedTimers u t = Some recipient"
  shows "timers_inv (u\<lparr>armedTimers := (armedTimers u)(t := None), pushTimers := (pushTimers u)(recipient := None)\<rparr>)"
proof -
  have "pushTimers u recipient = Some t" using assms unfolding timers_inv_def by blast
  with assms show ?thesis unfolding timers_inv_def by (simp split: if_splits) (metis option.inject)
qed

text \<open>
  A step extends the shared state: the registry and the identities stay, every channel only grows,
  by frames its client may be sent, and the timers stay consistent.
\<close>

abbreviation recipient_of :: "('d, 'e) hub \<Rightarrow> nat \<Rightarrow> string" where
  "recipient_of u p \<equiv> QueueRecipient (cDeliveryID (clientInfo u p))"

definition extends :: "ws_env \<Rightarrow> ('d, 'e) hub \<Rightarrow> ('d, 'e) hub \<Rightarrow> bool" where
  "extends w u u' \<longleftrightarrow> clients u' = clients u \<and> clientInfo u' = clientInfo u \<and>
     (timers_inv u \<longrightarrow> timers_inv u') \<and>
     (\<forall>p. \<exists>fs. sent u' p = sent u p @ fs \<and> (\<forall>f \<in> set fs. allowed_frame (wire w) (recipient_of u p) f))"

definition keeps :: "clientSession \<Rightarrow> clientSession \<Rightarrow> bool" where
  "keeps s s' \<longleftrightarrow> client s' = client s \<and> handshakeComplete s' = handshakeComplete s \<and>
     queueRecipient s' = queueRecipient s \<and> sessionID s' = sessionID s"

lemma extends_refl [simp]: "extends w u u"
  by (simp add: extends_def)

lemma extends_fields [simp]:
  "extends w u (u'\<lparr>db := d\<rparr>) = extends w u u'" "extends w u (u'\<lparr>edb := ed\<rparr>) = extends w u u'"
  "extends w (u\<lparr>db := d\<rparr>) u' = extends w u u'" "extends w (u\<lparr>edb := ed\<rparr>) u' = extends w u u'"
  "extends w u (u'\<lparr>pushExcluded := x\<rparr>) = extends w u u'"
  "extends w u (u'\<lparr>pushSessionID := y\<rparr>) = extends w u u'"
  by (simp_all add: extends_def)

lemma extends_trans:
  assumes "extends w u1 u2" and "extends w u2 u3"
  shows "extends w u1 u3"
  unfolding extends_def
proof (intro conjI allI)
  fix p
  from assms(1) obtain fs where "sent u2 p = sent u1 p @ fs" "\<forall>f \<in> set fs. allowed_frame (wire w) (recipient_of u1 p) f"
    unfolding extends_def by blast
  moreover from assms(2) obtain gs where "sent u3 p = sent u2 p @ gs"
    "\<forall>f \<in> set gs. allowed_frame (wire w) (recipient_of u2 p) f" unfolding extends_def by blast
  moreover have "clientInfo u2 = clientInfo u1" using assms(1) by (simp add: extends_def)
  ultimately show "\<exists>fs. sent u3 p = sent u1 p @ fs \<and> (\<forall>f \<in> set fs. allowed_frame (wire w) (recipient_of u1 p) f)"
    by (intro exI [of _ "fs @ gs"]) auto
qed (use assms in \<open>simp_all add: extends_def\<close>)

lemma extends_fold:
  assumes "\<And>x u. x \<in> set xs \<Longrightarrow> extends w u (f x u)"
  shows "extends w u (fold f xs u)"
  using assms by (induction xs arbitrary: u) (auto intro: extends_trans)

lemma keeps_simps [simp]:
  "keeps s s" "keeps s (s'\<lparr>drain := d\<rparr>) = keeps s s'" "keeps s (s'\<lparr>adapter := a\<rparr>) = keeps s s'"
  "keeps s (s'\<lparr>lastRoundRequested := n\<rparr>) = keeps s s'" "keeps s (s'\<lparr>lastRoundTransferred := n\<rparr>) = keeps s s'"
  "keeps s (s'\<lparr>summaryCursor := c\<rparr>) = keeps s s'" "keeps s (s'\<lparr>peerMaxWant := m\<rparr>) = keeps s s'"
  "keeps s (s'\<lparr>peerLabel := l\<rparr>) = keeps s s'"
  by (simp_all add: keeps_def)

lemma keeps_trans: "keeps s1 s2 \<Longrightarrow> keeps s2 s3 \<Longrightarrow> keeps s1 s3"
  by (simp add: keeps_def)

lemma keeps_ensure [simp]: "keeps s (fst (ensureDrainSession h now s'))= keeps s s'"
  by (simp add: ensureDrainSession_def Let_def split: option.splits)

lemma keeps_on_drain [simp]: "keeps s (on_drain h now f s') = keeps s s'"
  by (simp add: on_drain_def ensureDrainSession_def Let_def split: option.splits)

lemma ensure_cases:
  assumes "ensureDrainSession h now s = (s', d)"
  shows "keeps s s'" and "adapter s' = adapter s" and "drain s' = Some d"
  using assms by (auto simp: ensureDrainSession_def Let_def split: option.splits)

subsection \<open>Every handler keeps to it\<close>

lemma sendBinary_extends:
  assumes "allowed_frame (wire w) (recipient_of u p) data"
  shows "extends w u (fst (sendBinary w u p data))"
  using assms by (simp add: sendBinary_def extends_def)

definition progress :: "ws_env \<Rightarrow> ('d, 'e) wst \<Rightarrow> ('d, 'e) wst \<times> 'r \<Rightarrow> bool" where
  "progress w st res \<longleftrightarrow> keeps (fst st) (fst (fst res)) \<and> extends w (snd st) (snd (fst res))"

lemma progress_simp [simp]: "progress w (s, u) ((s', u'), r) \<longleftrightarrow> keeps s s' \<and> extends w u u'"
  by (simp add: progress_def)

lemma progress_trans:
  assumes "keeps s s'" and "extends w u u'" and "progress w (s', u') res"
  shows "progress w (s, u) res"
  using assms keeps_trans extends_trans by (auto simp: progress_def)

lemma sendEnvelope_progress:
  assumes "\<And>frame. encode_frame (wire w) frameType payload = Inr frame \<Longrightarrow> allowed_frame (wire w) (recipient_of u (client s)) frame"
  shows "progress w (s, u) (sendEnvelope w h now frameType payload (s, u))"
proof (cases "encode_frame (wire w) frameType payload")
  case (Inl err)
  then show ?thesis by (simp add: sendEnvelope_def)
next
  case (Inr frame)
  obtain s' d where e: "ensureDrainSession h now s = (s', d)" by fastforce
  note k = ensure_cases [OF e]
  then have "client s' = client s" by (simp add: keeps_def)
  moreover obtain u' q where b: "sendBinary w u (client s) frame = (u', q)" by fastforce
  moreover have "extends w u u'" using sendBinary_extends [OF assms [OF Inr]] b by simp
  ultimately show ?thesis using Inr e k by (simp add: sendEnvelope_def split: prod.splits)
qed

lemma sendOther_progress:
  "frameType \<in> {FrameTypeHello, FrameTypeSummary, FrameTypeRequest, FrameTypeReceipt} \<Longrightarrow>
   progress w (s, u) (sendEnvelope w h now frameType payload (s, u))"
  by (intro sendEnvelope_progress allowed_other)

lemma sendLocalHello_progress: "progress w st (sendLocalHello w h now st)"
proof (cases st)
  case (Pair s u)
  obtain s' d where e: "ensureDrainSession h now s = (s', d)" by fastforce
  note k = ensure_cases [OF e]
  show ?thesis
  proof (cases "InitialHelloBytes (wire w) (adapter s')")
    case (Inl err)
    with Pair e k show ?thesis by (simp add: sendLocalHello_def)
  next
    case (Inr data)
    then have "allowed_frame (wire w) (recipient_of u (client s')) data"
      by (auto simp: InitialHelloBytes_def EncodeHelloFrame_def encode_frame_def allowed_frame_def split: if_splits)
    from sendBinary_extends [OF this] obtain u' q where "sendBinary w u (client s') data = (u', q)"
      and "extends w u u'" by (metis prod.collapse)
    with Pair e k Inr show ?thesis by (simp add: sendLocalHello_def split: prod.splits)
  qed
qed

lemma sendDrainSummary_progress: "progress w st (sendDrainSummary w h now b st)"
proof (cases st)
  case (Pair s u)
  obtain s' d where e: "ensureDrainSession h now s = (s', d)" by fastforce
  note k = ensure_cases [OF e]
  show ?thesis unfolding Pair
    by (simp add: sendDrainSummary_def e Let_def k split: prod.splits sum.splits)
       (use k in \<open>auto intro!: progress_trans [OF _ extends_refl sendOther_progress]\<close>)
qed

lemma handleSummary_progress: "progress w st (handleSummary w h now ev st)"
proof (cases st)
  case (Pair s u)
  obtain s' d where e: "ensureDrainSession h now s = (s', d)" by fastforce
  note k = ensure_cases [OF e]
  show ?thesis unfolding Pair
    by (simp add: handleSummary_def e Let_def k split: option.splits sum.splits)
       (use k in \<open>auto intro!: progress_trans [OF _ extends_refl sendOther_progress]\<close>)
qed

lemma handleRequest_progress:
  assumes "queueRecipient (fst st) = recipient_of (snd st) (client (fst st))"
  shows "progress w st (handleRequest w h now ev st)"
proof (cases st)
  case (Pair s u)
  obtain s' d where e: "ensureDrainSession h now s = (s', d)" by fastforce
  note k = ensure_cases [OF e]
  show ?thesis
  proof (cases "ERequest ev")
    case None
    with Pair e k show ?thesis by (simp add: handleRequest_def)
  next
    case (Some request)
    define s1 where "s1 = on_drain h now (\<lambda>d. RecordRequested d (int (length (Want request))) now)
        (s'\<lparr>lastRoundRequested := int (length (Want request))\<rparr>)"
    obtain s2 d2 where e2: "ensureDrainSession h now s1 = (s2, d2)" by fastforce
    obtain d3 canContinue why where c: "CanStartAnotherRound d2 (toUTC now) now = (d3, canContinue, why)"
      by (metis prod_cases3)
    have k2: "keeps s s2" using k(1) ensure_cases(1) [OF e2] keeps_trans [of s s1 s2] by (simp add: s1_def)
    let ?serve = "serve_loop (loadTransferObjectByItemID (wire w) h u) (queueRecipient s2)
        (of_int (UnixMilli (toUTC now))) (Want request) []"
    have send: "progress w (s, u) (sendEnvelope w h now FrameTypeTransfer (GMapS (transfer_fields objects)) (s3, u))"
      if serve: "?serve = Inr objects" and s3: "keeps s s3" for s3 objects
    proof (rule progress_trans [OF s3 extends_refl sendEnvelope_progress])
      fix frame assume f: "encode_frame (wire w) FrameTypeTransfer (GMapS (transfer_fields objects)) = Inr frame"
      have "queueRecipient s2 = recipient_of u (client s3)"
        using assms Pair k2 s3 by (simp add: keeps_def)
      moreover from serve_loop_ok [OF serve, of "item_for (wire w) (queueRecipient s2)"] load_item(2)
      have "\<forall>object \<in> set objects. item_for (wire w) (queueRecipient s2) object" by fastforce
      ultimately show "allowed_frame (wire w) (recipient_of u (client s3)) frame"
        using allowed_transfer [OF f] serve_loop_length [OF serve] by simp
    qed
    note eqs = handleRequest_def Pair Some e e2 [unfolded s1_def] c Let_def
    show ?thesis
    proof (cases ?serve)
      case (Inl err)
      then show ?thesis using k(1) k2 by (simp add: eqs)
    next
      case (Inr objects)
      then show ?thesis using k(1) k2 by (simp add: eqs send)
    qed
  qed
qed

lemma push_one_extends: "extends w u (push_one w h now recipient src excluded p u)"
proof -
  have "extends w u (fst (sendBinary w u p frame))" if "encode_frame (wire w) FrameTypeSummary x = Inr frame" for frame x
    by (rule sendBinary_extends, rule allowed_other [OF that]) simp
  then show ?thesis by (simp add: push_one_def Let_def split: sum.splits prod.splits)
qed

lemma pushSummaryToOnlineRecipient_extends: "extends w u (pushSummaryToOnlineRecipient w h now src recipient excluded u)"
  by (simp add: pushSummaryToOnlineRecipient_def extends_fold push_one_extends)

lemma enqueue_extends: "extends w u (enqueueRecipientSummaryPush sid src recipient u)"
proof -
  have arm: "extends w u (let (u', t) = AfterFunc recipient v in u'\<lparr>pushTimers := (pushTimers u')(recipient \<mapsto> t)\<rparr>)"
    if "extends w u v" and "pushTimers v recipient = None" for v
    using that timers_inv_arm [OF _ that(2)] by (auto simp: extends_def AfterFunc_def)
  show ?thesis by (auto simp: enqueueRecipientSummaryPush_def Let_def arm [unfolded Let_def] split: option.splits)
qed

lemma fire_extends: "extends w u (fire_timer w h now t u)"
proof (cases "armedTimers u t")
  case (Some recipient)
  let ?v = "u\<lparr>armedTimers := (armedTimers u)(t := None)\<rparr>"
  let ?v' = "timer_Stop (pushTimers ?v recipient) (?v\<lparr>pushTimers := (pushTimers ?v)(recipient := None),
     pushSessionID := (pushSessionID ?v)(recipient := None), pushExcluded := (pushExcluded ?v)(recipient := None)\<rparr>)"
  have "timers_inv ?v'" if "timers_inv u"
  proof -
    have "pushTimers u recipient = Some t" using that Some unfolding timers_inv_def by blast
    with timers_inv_disarm [OF that Some] show ?thesis by (simp add: timer_Stop_def timers_inv_def)
  qed
  then have "extends w u ?v'" by (auto simp: extends_def timer_Stop_def split: option.splits)
  from extends_trans [OF this pushSummaryToOnlineRecipient_extends] Some show ?thesis
    by (simp add: fire_timer_def flushRecipientSummaryPush_def Let_def)
qed (simp add: fire_timer_def)

lemma pushSummaries_extends: "extends w u (pushSummariesToOnlineRecipients w h now sid src recipients u)"
  by (simp add: pushSummariesToOnlineRecipients_def push_recipient_def extends_fold enqueue_extends
      pushSummaryToOnlineRecipient_extends)

lemma import_object_extends:
  "import_object w h now object u = (u', r) \<Longrightarrow> extends w u u'"
  by (auto simp: import_object_def Let_def split: sum.splits prod.splits if_splits)

lemma import_loop_extends:
  "import_loop w h now objects accepted notify u = (u', r) \<Longrightarrow> extends w u u'"
proof (induction objects arbitrary: accepted notify u)
  case (Cons object rest)
  obtain u1 r1 where i: "import_object w h now object u = (u1, r1)" by fastforce
  with Cons.prems Cons.IH [of _ _ u1] have "extends w u1 u'"
    by (auto split: sum.splits option.splits)
  with import_object_extends [OF i] show ?case by (rule extends_trans)
qed simp

lemma handleTransfer_progress: "progress w st (handleTransfer w h now ev st)"
proof (cases st)
  case (Pair s u)
  obtain s' d where e: "ensureDrainSession h now s = (s', d)" by fastforce
  note k = ensure_cases [OF e]
  show ?thesis
  proof (cases "ETransfer ev")
    case None
    with Pair e k show ?thesis by (simp add: handleTransfer_def)
  next
    case (Some transfer)
    obtain u' r where i: "import_loop w h now (map Object (Objects transfer)) [] [] u = (u', r)" by fastforce
    note x = import_loop_extends [OF i]
    show ?thesis
    proof (cases r)
      case (Inl err)
      with Pair Some e i k x show ?thesis by (simp add: handleTransfer_def)
    next
      case (Inr an)
      have "extends w u (if 0 < length acc then pushSummariesToOnlineRecipients w h now sid p notify u' else u')"
        for acc :: "string list" and sid p notify
        using extends_trans [OF x pushSummaries_extends] x by simp
      with Pair Some e i Inr k show ?thesis
        by (simp add: handleTransfer_def Let_def progress_trans [OF _ _ sendOther_progress] split: prod.splits)
    qed
  qed
qed

lemma handleReceipt_progress: "progress w st (handleReceipt w h now ev st)"
proof (cases st)
  case (Pair s u)
  obtain s' d where e: "ensureDrainSession h now s = (s', d)" by fastforce
  note k = ensure_cases [OF e]
  show ?thesis
  proof (cases "EReceipt ev")
    case None
    with Pair e k show ?thesis by (simp add: handleReceipt_def)
  next
    case (Some receipt)
    obtain d' r where m: "sMarkAckedBatch (store h) now (db u) (Accepted receipt) (cDeliveryID (clientInfo u (client s'))) = (d', r)"
      by fastforce
    have x: "extends w u (u\<lparr>db := d'\<rparr>)" by simp
    from Pair Some e m k show ?thesis
      by (simp add: handleReceipt_def Let_def ensure_cases progress_trans [OF _ x sendDrainSummary_progress] split: prod.splits sum.splits)
         (meson ensure_cases(1) keeps_on_drain keeps_trans)
  qed
qed

subsection \<open>Events\<close>

text \<open>The hello of an event was validated: its node id is the hash of its key.\<close>

definition hello_ok :: "Event \<Rightarrow> bool" where
  "hello_ok ev \<longleftrightarrow> (\<forall>hello. EHello ev = Some hello \<longrightarrow> ValidateHello hello = Inr ())"

lemma handlers_hello_ok:
  "hello_ok (snd (on_hello a p))" "hello_ok (snd (on_relay_ingest a p))" "hello_ok (snd (on_summary a p))"
  "hello_ok (snd (on_request a p))" "hello_ok (snd (on_transfer env a p))" "hello_ok (snd (on_receipt a p))"
  "hello_ok (snd (fatal a t e))"
  by (simp_all add: hello_ok_def handler_defs ParseHelloPayload_ok(1) split: sum.splits)

lemma handle_frame_hello_ok: "hello_ok (snd (handle_frame env a frame))"
  by (simp add: handle_frame_def dispatch_frame_def handlers_hello_ok split: sum.splits)

lemma push_loop_hello_ok: "push_loop env a = (a', evs) \<Longrightarrow> \<forall>ev \<in> set evs. hello_ok ev"
proof (induction a arbitrary: evs rule: push_induct [where env = env])
  case (Step a frame rest a1 ev)
  obtain evs1 where r: "push_loop env a1 = (a', evs1)" "evs = ev # evs1"
    using Step by (auto simp: push_loop_framing [of env a] split: prod.splits)
  with Step.IH handle_frame_hello_ok [of env "a\<lparr>buffer := rest\<rparr>" frame] Step.hyps(2) show ?case by auto
next
  case (Fatal a frame rest a1 ev)
  then show ?case
    using handle_frame_hello_ok [of env "a\<lparr>buffer := rest\<rparr>" frame] by (auto simp: push_loop_framing [of env a])
qed (auto simp: push_loop_framing hello_ok_def)

lemma PushInbound_hello_ok: "PushInbound env a data = (a', evs) \<Longrightarrow> \<forall>ev \<in> set evs. hello_ok ev"
  by (auto simp: PushInbound_def dest: push_loop_hello_ok split: if_splits)

subsection \<open>The invariant of the server\<close>

abbreviation no_info :: client_info where
  "no_info \<equiv> \<lparr>cWayfarerID = [], cDeviceID = [], cDeliveryID = []\<rparr>"

definition authenticated :: "(nat \<rightharpoonup> clientSession) \<Rightarrow> nat \<Rightarrow> bool" where
  "authenticated S p \<longleftrightarrow> (\<exists>s. S p = Some s \<and> handshakeComplete s)"

text \<open>An identity taken from a validated HELLO: the id is the hash of the device's key.\<close>

definition identity_ok :: "client_info \<Rightarrow> bool" where
  "identity_ok info \<longleftrightarrow> (\<exists>pubKey. b64_decode False (cDeviceID info) = Some pubKey \<and> cWayfarerID info = hex_encode (sha256 pubKey)) \<and>
     cDeliveryID info = DeliveryIdentity (cWayfarerID info) (cDeviceID info)"

definition conn_inv :: "('d, 'e) hub \<Rightarrow> nat \<Rightarrow> clientSession \<Rightarrow> bool" where
  "conn_inv u p s \<longleftrightarrow> client s = p \<and> p \<notin> closedSend (clients u) \<and>
     (if handshakeComplete s then queueRecipient s = recipient_of u p \<and> identity_ok (clientInfo u p)
      else clientInfo u p = no_info)"

definition frames_inv :: "ws_env \<Rightarrow> ('d, 'e) hub \<Rightarrow> bool" where
  "frames_inv w u \<longleftrightarrow> (\<forall>p. recipient_of u p = cWayfarerID (clientInfo u p) \<and>
     (\<forall>f \<in> set (sent u p). allowed_frame (wire w) (cWayfarerID (clientInfo u p)) f))"

definition online :: "(nat \<rightharpoonup> clientSession) \<Rightarrow> ('d, 'e) hub \<Rightarrow> (nat \<times> string) set" where
  "online S u = {(p, cWayfarerID (clientInfo u p)) | p. authenticated S p}"

definition server_inv :: "ws_env \<Rightarrow> nat set \<Rightarrow> (nat \<rightharpoonup> clientSession) \<Rightarrow> ('d, 'e) hub \<Rightarrow> bool" where
  "server_inv w used S u \<longleftrightarrow> (\<forall>p s. S p = Some s \<longrightarrow> conn_inv u p s) \<and> frames_inv w u \<and>
     represents (clients u) (online S u) \<and> dom S \<subseteq> used \<and> closedSend (clients u) \<subseteq> used \<and> timers_inv u"

lemma recipient_neq_nil: "length toID = 32 \<Longrightarrow> hex_encode toID \<noteq> []"
  by (cases toID) simp_all

lemma identity_neq_nil: "identity_ok info \<Longrightarrow> cWayfarerID info \<noteq> []"
  unfolding identity_ok_def by (elim conjE exE) (simp add: recipient_neq_nil length_sha256)

lemma allowed_before_hello:
  assumes "allowed_frame env [] f"
  shows "allowed_frame env r f"
proof -
  have "\<not> item_for env [] object" for object
    unfolding item_for_def verified_envelope_def using recipient_neq_nil by metis
  then have "objects = []" if "\<forall>object \<in> set objects. item_for env [] object" for objects
    using that by (cases objects) auto
  with assms show ?thesis unfolding allowed_frame_def
    by (elim exE conjE disjE) (intro exI conjI, assumption, simp, metis empty_iff list.set(1) list.size(3) zero_le)
qed

lemma QueueRecipient_digest: "isDigestHex i \<Longrightarrow> QueueRecipient (DeliveryIdentity i dev) = i"
  using cut_byte_append [OF isDigestHex_no_NUL, of i dev] isDigestHex_no_NUL [of i]
  by (cases "dev = []") (simp add: QueueRecipient_def DeliveryIdentity_def cut_byte_def,
      simp add: QueueRecipient_def DeliveryIdentity_def)

lemma QueueRecipient_nil [simp]: "QueueRecipient [] = []"
  by (simp add: QueueRecipient_def cut_byte_def)

lemma extends_inv:
  assumes "extends w u u'" and "frames_inv w u"
  shows "frames_inv w u'"
  unfolding frames_inv_def
proof (intro allI conjI)
  fix p
  from assms(1) obtain fs where fs: "sent u' p = sent u p @ fs" "\<forall>f \<in> set fs. allowed_frame (wire w) (recipient_of u p) f"
    and c: "clientInfo u' = clientInfo u" unfolding extends_def by blast
  have old: "recipient_of u p = cWayfarerID (clientInfo u p)"
    "\<forall>f \<in> set (sent u p). allowed_frame (wire w) (cWayfarerID (clientInfo u p)) f"
    using assms(2) by (auto simp: frames_inv_def)
  with fs c show "\<forall>f \<in> set (sent u' p). allowed_frame (wire w) (cWayfarerID (clientInfo u' p)) f"
    and "recipient_of u' p = cWayfarerID (clientInfo u' p)" by auto
qed

lemma online_iff: "x \<in> online S u \<longleftrightarrow> authenticated S (fst x) \<and> snd x = cWayfarerID (clientInfo u (fst x))"
  by (cases x) (auto simp: online_def)

lemma extends_server_inv:
  assumes "server_inv w used S u" and "extends w u u'"
  shows "server_inv w used S u'"
proof -
  have same: "clients u' = clients u" "clientInfo u' = clientInfo u" "timers_inv u \<longrightarrow> timers_inv u'"
    using assms(2) by (simp_all add: extends_def)
  with assms extends_inv [OF assms(2)] show ?thesis by (simp add: server_inv_def conn_inv_def online_def)
qed

lemma online_upd: "keeps s s' \<Longrightarrow> clientInfo u' = clientInfo u \<Longrightarrow> online (S(p \<mapsto> s')) u' = online (S(p \<mapsto> s)) u"
  by (auto simp: online_def authenticated_def keeps_def)

lemma progress_inv:
  assumes "server_inv w used (S(p \<mapsto> s)) u" and "progress w (s, u) ((s', u'), r)"
  shows "server_inv w used (S(p \<mapsto> s')) u'"
proof -
  from assms(2) have k: "keeps s s'" and x: "extends w u u'" by simp_all
  then have same: "clients u' = clients u" "clientInfo u' = clientInfo u" "timers_inv u \<longrightarrow> timers_inv u'"
    by (simp_all add: extends_def)
  have "conn_inv u' q t" if "(S(p \<mapsto> s')) q = Some t" for q t
  proof (cases "q = p")
    case True
    have "conn_inv u p s" using assms(1) by (simp add: server_inv_def)
    with True that k same show ?thesis by (auto simp: conn_inv_def keeps_def)
  next
    case False
    with that assms(1) have "conn_inv u q t" by (simp add: server_inv_def)
    then show ?thesis by (simp add: conn_inv_def same)
  qed
  moreover have "frames_inv w u'" using extends_inv [OF x] assms(1) by (simp add: server_inv_def)
  moreover note online_upd [OF k same(2), of S p]
  ultimately show ?thesis using assms(1) by (simp add: server_inv_def same)
qed

lemma bind_identity_inv:
  assumes inv: "server_inv w used (S(p \<mapsto> s)) u" and new: "\<not> handshakeComplete s" and ok: "ValidateHello hello = Inr ()"
    and s': "client s' = p" "handshakeComplete s'" "queueRecipient s' = QueueRecipient (DeliveryIdentity (NodeID hello) (NodePubKey hello))"
  shows "server_inv w used (S(p \<mapsto> s')) (bind_identity u p hello)"
proof -
  let ?u = "bind_identity u p hello"
  have digest: "isDigestHex (NodeID hello)" using ok by (auto simp: ValidateHello_ok length_sha256)
  note q = QueueRecipient_digest [OF digest, of "NodePubKey hello"]
  have old: "conn_inv u p s" and fi: "frames_inv w u" and rep: "represents (clients u) (online (S(p \<mapsto> s)) u)"
    using inv by (simp_all add: server_inv_def)
  with new have way: "cWayfarerID (clientInfo u p) = []" and op: "p \<notin> closedSend (clients u)"
    by (simp_all add: conn_inv_def)
  have info: "clientInfo ?u x = (if x = p then \<lparr>cWayfarerID = NodeID hello, cDeviceID = NodePubKey hello,
      cDeliveryID = DeliveryIdentity (NodeID hello) (NodePubKey hello)\<rparr> else clientInfo u x)" for x
    by (simp add: bind_identity_def)
  have on: "online (S(p \<mapsto> s')) ?u = insert (p, NodeID hello) (online (S(p \<mapsto> s)) u)"
    using new s'(2) by (auto simp: online_def authenticated_def info)
  have fresh: "p \<notin> fst ` online (S(p \<mapsto> s)) u" using new by (auto simp: online_def authenticated_def)
  have cl: "clients ?u = register_client (clients u) \<lparr>ptr = p, WayfarerID = NodeID hello\<rparr>" "sent ?u = sent u"
    by (simp_all add: bind_identity_def)
  have closed: "closedSend (clients ?u) = closedSend (clients u)" by (simp add: cl register_client_def Let_def)
  have "represents (clients ?u) (online (S(p \<mapsto> s')) ?u)"
    unfolding on cl using represents_register [OF rep, of "\<lparr>ptr = p, WayfarerID = NodeID hello\<rparr>"] fresh op by simp
  moreover have "frames_inv w ?u"
    unfolding frames_inv_def
  proof (intro allI)
    fix x
    have x: "recipient_of u x = cWayfarerID (clientInfo u x)"
      "\<forall>f \<in> set (sent u x). allowed_frame (wire w) (cWayfarerID (clientInfo u x)) f"
      using fi by (auto simp: frames_inv_def)
    show "recipient_of ?u x = cWayfarerID (clientInfo ?u x) \<and>
        (\<forall>f \<in> set (sent ?u x). allowed_frame (wire w) (cWayfarerID (clientInfo ?u x)) f)"
    proof (cases "x = p")
      case True
      with x(2) way have "\<forall>f \<in> set (sent u p). allowed_frame (wire w) [] f" by simp
      with True q show ?thesis by (auto simp: info cl intro: allowed_before_hello)
    qed (use x in \<open>simp add: info cl\<close>)
  qed
  moreover have "conn_inv ?u x t" if "(S(p \<mapsto> s')) x = Some t" for x t
  proof (cases "x = p")
    case True
    with that s' op ok q show ?thesis by (auto simp: conn_inv_def closed info identity_ok_def ValidateHello_ok)
  next
    case False
    with that inv have "conn_inv u x t" by (simp add: server_inv_def)
    with False show ?thesis by (simp add: conn_inv_def closed info)
  qed
  moreover have "timers_inv ?u = timers_inv u" by (simp add: bind_identity_def)
  ultimately show ?thesis using inv by (simp add: server_inv_def closed)
qed

lemma hello_inv:
  assumes inv: "server_inv w used (S(p \<mapsto> s)) u" and ok: "hello_ok ev"
    and r: "handleHelloValidated w h now ev (s, u) = ((s', u'), r)"
  shows "server_inv w used (S(p \<mapsto> s')) u'"
proof (cases "handshakeComplete s \<or> EHello ev = None")
  case True
  with r inv show ?thesis by (auto simp: handleHelloValidated_def split: option.splits if_splits)
next
  case False
  then obtain hello where hello: "EHello ev = Some hello" and new: "\<not> handshakeComplete s" by auto
  let ?u = "bind_identity u p hello"
  let ?s = "(on_drain h now (\<lambda>d. BindAuthenticatedWayfarerID d (NodeID hello)) s)\<lparr>peerLabel := NodeID hello,
     queueRecipient := QueueRecipient (cDeliveryID (clientInfo ?u p)), handshakeComplete := True\<rparr>"
  have p: "client s = p" using inv by (simp add: server_inv_def conn_inv_def)
  moreover have "keeps s (on_drain h now f s)" for f by simp
  ultimately have c: "client (on_drain h now f s) = p" for f by (simp add: keeps_def)
  have "server_inv w used (S(p \<mapsto> ?s)) ?u"
    by (rule bind_identity_inv [OF inv new]) (use ok hello c in \<open>simp_all add: hello_ok_def bind_identity_def\<close>)
  moreover have "sendDrainSummary w h now False (?s, ?u) = ((s', u'), r)"
    using r hello new p c by (simp add: handleHelloValidated_def Let_def)
  ultimately show ?thesis using sendDrainSummary_progress [of w "(?s, ?u)" h now False] progress_inv by metis
qed

lemma processEvent_inv:
  assumes inv: "server_inv w used (S(p \<mapsto> s)) u" and ok: "hello_ok ev"
    and r: "processEvent w h now ev (s, u) = ((s', u'), r)"
  shows "server_inv w used (S(p \<mapsto> s')) u'"
proof -
  have si: "conn_inv u p s" using inv by (simp add: server_inv_def)
  have gate: "server_inv w used (S(p \<mapsto> s')) u'"
    if "gated f hd (s, u) = ((s', u'), r)" and "handshakeComplete s \<Longrightarrow> progress w (s, u) (hd (s, u))" for f hd
    using that inv progress_inv [OF inv, of s' u' r] by (auto simp: gated_def split: if_splits)
  show ?thesis
  proof (cases "EType ev")
    case EventTypeHelloValidated
    let ?s = "case EHello ev of None \<Rightarrow> s | Some hello \<Rightarrow> s\<lparr>peerMaxWant := MaxWant hello\<rparr>"
    have "progress w (s, u) ((?s, u), ())" by (simp split: option.splits)
    from progress_inv [OF inv this] have "server_inv w used (S(p \<mapsto> ?s)) u" .
    moreover have "handleHelloValidated w h now ev (?s, u) = ((s', u'), r)"
      using r EventTypeHelloValidated by (auto simp: processEvent_def split: option.splits)
    ultimately show ?thesis using hello_inv ok by blast
  next
    case EventTypeRequest
    have "handshakeComplete s \<Longrightarrow> progress w (s, u) (handleRequest w h now ev (s, u))"
      using si by (intro handleRequest_progress) (simp add: conn_inv_def)
    with r EventTypeRequest gate show ?thesis by (simp add: processEvent_def)
  next
    case EventTypeSummary
    with r show ?thesis by (intro gate [of "''summary''" "handleSummary w h now ev"] handleSummary_progress) (simp add: processEvent_def)
  next
    case EventTypeTransfer
    with r show ?thesis by (intro gate [of "''transfer''" "handleTransfer w h now ev"] handleTransfer_progress) (simp add: processEvent_def)
  next
    case EventTypeReceipt
    with r show ?thesis by (intro gate [of "''receipt''" "handleReceipt w h now ev"] handleReceipt_progress) (simp add: processEvent_def)
  qed (use r inv in \<open>simp_all add: processEvent_def\<close>)
qed

lemma processEvents_inv:
  assumes "server_inv w used (S(p \<mapsto> s)) u" and "\<forall>ev \<in> set evs. hello_ok ev"
    and "processEvents w h now evs (s, u) = ((s', u'), r)"
  shows "server_inv w used (S(p \<mapsto> s')) u'"
  using assms
proof (induction evs arbitrary: s u)
  case (Cons ev evs)
  obtain s1 u1 r1 where e: "processEvent w h now ev (s, u) = ((s1, u1), r1)" by (metis prod.collapse)
  note step = processEvent_inv [OF Cons.prems(1) _ e]
  show ?case
  proof (cases "EType ev = EventTypeFatal")
    case True
    with Cons.prems show ?thesis by (auto simp del: fun_upd_apply)
  next
    case False
    with Cons.prems e step have inv1: "server_inv w used (S(p \<mapsto> s1)) u1" by simp
    from False Cons.prems e have "(s1, u1) = (s', u') \<or> processEvents w h now evs (s1, u1) = ((s', u'), r)"
      by (cases r1) auto
    with inv1 Cons.IH [OF inv1] Cons.prems(2) show ?thesis by (auto simp del: fun_upd_apply)
  qed
qed simp

lemma read_turn_inv:
  assumes inv: "server_inv w used (S(p \<mapsto> s)) u" and r: "read_turn w h now msg (s, u) = ((s', u'), r)"
  shows "server_inv w used (S(p \<mapsto> s')) u'"
proof (cases msg)
  case (ReadBinary data)
  obtain s1 d1 where e: "ensureDrainSession h now s = (s1, d1)" by fastforce
  note k = ensure_cases [OF e]
  obtain d2 why where b: "RecordBytesReceived d1 (int (length data)) now = (d2, why)" by fastforce
  show ?thesis
  proof (cases "why = DrainStopReasonNone")
    case False
    with ReadBinary r e b k progress_inv [OF inv, of s' u' r] show ?thesis by auto
  next
    case True
    obtain a evs where a: "PushInbound (wire w) (adapter s1) data = (a, evs)" by fastforce
    let ?s = "s1\<lparr>drain := Some d2, adapter := a\<rparr>"
    obtain st r2 where pe: "processEvents w h now evs (?s, u) = (st, r2)" by fastforce
    have "st = (s', u')" using True ReadBinary r e b a pe by (simp split: sum.splits)
    moreover have "server_inv w used (S(p \<mapsto> ?s)) u" using progress_inv [OF inv, of ?s u r] k by simp
    ultimately show ?thesis using processEvents_inv PushInbound_hello_ok [OF a] pe by blast
  qed
qed (use r progress_inv [OF inv, of s' u' r] in \<open>auto simp: stop_read_def\<close>)

text \<open>Ending a session closes its channel and takes it out of the registry, without a panic.\<close>

lemma unregister_closed:
  "unregister_client r c = Some r' \<Longrightarrow> closedSend r' \<subseteq> insert (ptr c) (closedSend r)"
  by (auto simp: unregister_client_def Let_def split: option.splits if_splits)

lemma end_read_inv:
  assumes inv: "server_inv w used (S(p \<mapsto> s)) u"
  shows "\<exists>u' why'. end_read h now why (s, u) = Some (u', why') \<and> server_inv w used (S(p := None)) u'"
proof -
  have si: "conn_inv u p s" and rep: "represents (clients u) (online (S(p \<mapsto> s)) u)" and fi: "frames_inv w u"
    and used: "p \<in> used" "closedSend (clients u) \<subseteq> used" "dom S - {p} \<subseteq> used" "timers_inv u"
    using inv by (auto simp: server_inv_def)
  obtain s' why' where f: "finalizeDrainSession h now why s = (s', why')" by fastforce
  moreover have "keeps s (fst (finalizeDrainSession h now why s))" by (simp add: finalizeDrainSession_def Let_def)
  ultimately have c: "client s' = p" using si by (simp add: keeps_def conn_inv_def)
  have off: "online (S(p := None)) u = {(q, x) \<in> online (S(p \<mapsto> s)) u. q \<noteq> p}"
    by (auto simp: online_def authenticated_def)
  have rest: "server_inv w used (S(p := None)) (u\<lparr>clients := r\<rparr>)"
    if "represents r (online (S(p := None)) u)" and "closedSend r \<subseteq> insert p (closedSend (clients u))" for r
  proof -
    have "conn_inv (u\<lparr>clients := r\<rparr>) q t" if "(S(p := None)) q = Some t" for q t
    proof -
      from that have "q \<noteq> p" by (auto split: if_splits)
      moreover from this that inv have "conn_inv u q t" by (simp add: server_inv_def)
      ultimately show ?thesis using \<open>closedSend r \<subseteq> insert p (closedSend (clients u))\<close>
        by (auto simp: conn_inv_def)
    qed
    moreover have "frames_inv w (u\<lparr>clients := r\<rparr>)" using fi by (simp add: frames_inv_def)
    moreover have "online (S(p := None)) (u\<lparr>clients := r\<rparr>) = online (S(p := None)) u" by (simp add: online_def)
    ultimately show ?thesis using that used by (auto simp: server_inv_def)
  qed
  show ?thesis
  proof (cases "cWayfarerID (clientInfo u p) = []")
    case True
    then have "\<not> handshakeComplete s"
      using si identity_neq_nil [of "clientInfo u p"] by (auto simp: conn_inv_def)
    then have "online (S(p \<mapsto> s)) u = online (S(p := None)) u" by (auto simp: online_def authenticated_def split: if_splits)
    with rep have "represents (clients u) (online (S(p := None)) u)" by simp
    then have "represents ((clients u)\<lparr>closedSend := insert p (closedSend (clients u))\<rparr>) (online (S(p := None)) u)"
      by (auto simp: represents_def online_def authenticated_def)
    from rest [OF this] f c True show ?thesis by (auto simp: end_read_def closeClientSend_def)
  next
    case False
    obtain r where r: "unregister_client (clients u) \<lparr>ptr = p, WayfarerID = cWayfarerID (clientInfo u p)\<rparr> = Some r"
      and "represents r (online (S(p := None)) u)"
      using represents_unregister [OF rep, of "\<lparr>ptr = p, WayfarerID = cWayfarerID (clientInfo u p)\<rparr>"]
      unfolding off by auto
    with rest [of r] unregister_closed [OF r] f c False show ?thesis by (simp add: end_read_def)
  qed
qed

lemma settle_inv:
  assumes "server_inv w used ((sessions v)(p \<mapsto> s)) u" and "res = ((s, u), r)"
  shows "\<exists>v'. settle h now v res = Some v' \<and> server_inv w used (sessions v') (shared v')"
proof -
  have p: "client s = p" using assms(1) by (simp add: server_inv_def conn_inv_def)
  show ?thesis
  proof (cases r)
    case (Inl why)
    from end_read_inv [OF assms(1), of h now why] obtain u' why' where
      "end_read h now why (s, u) = Some (u', why')" "server_inv w used ((sessions v)(p := None)) u'" by blast
    with Inl assms(2) p show ?thesis by (simp add: settle_def)
  next
    case (Inr x)
    with assms p show ?thesis by (simp add: settle_def)
  qed
qed

lemma new_session_inv:
  assumes inv: "server_inv w used S u" and new: "p \<notin> used"
  shows "server_inv w (insert p used) (S(p \<mapsto> new_session h now p sid addr)) (new_client u p)"
proof -
  let ?S = "S(p \<mapsto> new_session h now p sid addr)"
  have np: "S p = None" "p \<notin> closedSend (clients u)" using inv new by (auto simp: server_inv_def)
  have same: "clients (new_client u p) = clients u" by (simp add: new_client_def)
  have info: "clientInfo (new_client u p) x = (if x = p then no_info else clientInfo u x)"
    "sent (new_client u p) x = (if x = p then [] else sent u x)" for x by (simp_all add: new_client_def)
  have ns: "client (new_session h now p sid addr) = p" "\<not> handshakeComplete (new_session h now p sid addr)"
    by (simp_all add: new_session_def)
  have "conn_inv (new_client u p) x t" if "?S x = Some t" for x t
  proof (cases "x = p")
    case True
    with that np ns show ?thesis by (auto simp: conn_inv_def same info)
  next
    case False
    with that inv have "conn_inv u x t" by (simp add: server_inv_def)
    with False show ?thesis by (simp add: conn_inv_def same info)
  qed
  moreover have "online ?S (new_client u p) = online S u"
    using np ns by (intro set_eqI) (auto simp: online_iff authenticated_def info)
  moreover have "timers_inv (new_client u p) = timers_inv u" by (simp add: new_client_def)
  moreover have "frames_inv w (new_client u p)" using inv by (simp add: frames_inv_def info server_inv_def)
  ultimately show ?thesis using inv by (auto simp: server_inv_def same)
qed

fun used_by :: "server_event \<Rightarrow> nat set" where
  "used_by (HandleWebSocket now p origin sid addr) = {p}"
| "used_by _ = {}"

lemma server_step_inv:
  assumes inv: "server_inv w used (sessions v) (shared v)" and new: "used_by ev \<inter> used = {}"
  shows "\<exists>v'. server_step w h v ev = Some v' \<and> server_inv w (used \<union> used_by ev) (sessions v') (shared v')"
proof (cases ev)
  case (HandleWebSocket now p origin sid addr)
  show ?thesis
  proof (cases "Check (originChecker h) origin")
    case False
    with HandleWebSocket inv show ?thesis by (auto simp: server_inv_def)
  next
    case True
    let ?st = "(new_session h now p sid addr, new_client (shared v) p)"
    have "server_inv w (insert p used) ((sessions v)(p \<mapsto> fst ?st)) (snd ?st)"
      using new_session_inv [OF inv] new HandleWebSocket by simp
    moreover obtain s1 u1 r1 where r: "start_read w h now ?st = ((s1, u1), r1)" by (metis prod.collapse)
    moreover have "progress w ?st ((s1, u1), r1)"
      using sendLocalHello_progress [of w ?st h now] r by (auto simp: start_read_def split: sum.splits prod.splits)
    ultimately have "server_inv w (insert p used) ((sessions v)(p \<mapsto> s1)) u1" using progress_inv by fastforce
    from settle_inv [OF this r, of h now] True HandleWebSocket show ?thesis by simp
  qed
next
  case (ReadMessage now p msg)
  show ?thesis
  proof (cases "sessions v p")
    case None
    with ReadMessage inv show ?thesis by simp
  next
    case (Some s)
    then have inv': "server_inv w used ((sessions v)(p \<mapsto> s)) (shared v)" using inv by (simp add: fun_upd_idem)
    obtain s1 u1 r1 where r: "read_turn w h now msg (s, shared v) = ((s1, u1), r1)" by (metis prod.collapse)
    from settle_inv [OF read_turn_inv [OF inv' r] r, of h now] Some ReadMessage show ?thesis by simp
  qed
next
  case (PushTimer now t)
  with extends_server_inv [OF inv fire_extends] show ?thesis by simp
qed

fun server_run ::
  "ws_env \<Rightarrow> ('d, 'e) WSHandler \<Rightarrow> ('d, 'e) server \<Rightarrow> server_event list \<Rightarrow> ('d, 'e) server option" where
  "server_run w h v [] = Some v"
| "server_run w h v (ev # evs) = (case server_step w h v ev of None \<Rightarrow> None | Some v' \<Rightarrow> server_run w h v' evs)"

fun connected :: "server_event list \<Rightarrow> nat list" where
  "connected [] = []"
| "connected (HandleWebSocket now p origin sid addr # evs) = p # connected evs"
| "connected (_ # evs) = connected evs"

lemma server_run_inv:
  assumes "server_inv w used (sessions v) (shared v)" and "distinct (connected evs)" and "set (connected evs) \<inter> used = {}"
  shows "\<exists>v'. server_run w h v evs = Some v' \<and> server_inv w (used \<union> set (connected evs)) (sessions v') (shared v')"
  using assms
proof (induction evs arbitrary: v used)
  case (Cons ev evs)
  have split: "set (connected (ev # evs)) = used_by ev \<union> set (connected evs)" "used_by ev \<inter> set (connected evs) = {}"
    "distinct (connected evs)" using Cons.prems(2) by (cases ev; simp)+
  with Cons.prems obtain v1 where v1: "server_step w h v ev = Some v1"
    "server_inv w (used \<union> used_by ev) (sessions v1) (shared v1)" using server_step_inv by (metis Int_Un_distrib2 Un_empty)
  from Cons.IH [OF v1(2) split(3)] Cons.prems(3) split v1(1) show ?case by (auto simp: Un_assoc)
qed simp

subsection \<open>Properties\<close>

definition new_server :: "'d \<Rightarrow> 'e \<Rightarrow> ('d, 'e) server" where
  "new_server d ed = \<lparr>shared = \<lparr>db = d, edb = ed, clients = NewClientRegistry, clientInfo = (\<lambda>_. no_info), sent = (\<lambda>_. []),
     pushTimers = Map.empty, armedTimers = Map.empty, nextTimer = 0, pushExcluded = Map.empty, pushSessionID = Map.empty\<rparr>, sessions = Map.empty\<rparr>"

lemma new_server_inv: "server_inv w {} (sessions (new_server d ed)) (shared (new_server d ed))"
  by (simp add: server_inv_def new_server_def frames_inv_def online_def authenticated_def represents_def NewClientRegistry_def
      timers_inv_def)

lemma run_from_new:
  assumes "distinct (connected evs)"
  shows "\<exists>v used. server_run w h (new_server d ed) evs = Some v \<and> server_inv w used (sessions v) (shared v)"
  using server_run_inv [OF new_server_inv assms, of w h d ed] by auto

text \<open>
  Claim C2. In every interleaving of connections, messages, disconnections and push timers, whatever the
  clients send, no client is ever sent an item that is not for it: each frame on the channel of a client is
  a HELLO, SUMMARY, REQUEST or RECEIPT, or a TRANSFER of at most 32 objects whose ids are the hashes of their
  bytes and whose envelopes carry a valid signature and are addressed to the identity the client
  proved in its HELLO.
\<close>

theorem transfers_reach_only_the_addressee:
  assumes "distinct (connected evs)"
  shows "\<exists>v. server_run w h (new_server d ed) evs = Some v \<and>
    (\<forall>p. \<forall>f \<in> set (sent (shared v) p). allowed_frame (wire w) (cWayfarerID (clientInfo (shared v) p)) f)"
  using run_from_new [OF assms, of w h d ed] by (auto simp: server_inv_def frames_inv_def)

text \<open>
  Claim C14. The server never panics, and the registry is exact at every moment: the clients it lists under an
  identity are the open sessions that completed the handshake with that identity, where the identity is the
  hash of the key in the HELLO, and the channels of open sessions are open.
\<close>

theorem registry_is_authenticated_sessions:
  assumes "distinct (connected evs)"
  shows "\<exists>v. server_run w h (new_server d ed) evs = Some v \<and>
    (\<forall>x. GetClients (clients (shared v)) x =
       {p. authenticated (sessions v) p \<and> cWayfarerID (clientInfo (shared v) p) = x}) \<and>
    (\<forall>p. authenticated (sessions v) p \<longrightarrow> identity_ok (clientInfo (shared v) p)) \<and>
    (\<forall>p. sessions v p \<noteq> None \<longrightarrow> p \<notin> closedSend (clients (shared v)))"
proof -
  from run_from_new [OF assms, of w h d ed] obtain v used where v: "server_run w h (new_server d ed) evs = Some v"
    and inv: "server_inv w used (sessions v) (shared v)" by blast
  have "represents (clients (shared v)) (online (sessions v) (shared v))" using inv by (simp add: server_inv_def)
  note views = represents_views(1) [OF this]
  have "GetClients (clients (shared v)) x =
      {p. authenticated (sessions v) p \<and> cWayfarerID (clientInfo (shared v) p) = x}" for x
    unfolding views by (auto simp: online_iff)
  moreover have "conn_inv (shared v) p s" if "sessions v p = Some s" for p s using inv that by (simp add: server_inv_def)
  ultimately show ?thesis using v by (auto simp: conn_inv_def authenticated_def split: if_splits)
qed

text \<open>Two connections, one of which leaves and one of which sends garbage.\<close>

definition two_connections :: "server_event list" where
  "two_connections = [HandleWebSocket zero_time 1 [] ''ws-1'' ''10.0.0.1'', HandleWebSocket zero_time 2 [] ''ws-2'' ''10.0.0.2'',
     ReadMessage zero_time 1 ReadClosed, ReadMessage zero_time 2 (ReadBinary ''abcdefgh'')]"

definition sample_ws :: ws_env where
  "sample_ws = \<lparr>wire = sample_env, accepts = (\<lambda>p queued frame. length queued < 256)\<rparr>"

definition sample_handler :: "(mem_bucket msg_db, mem_bucket env_db) WSHandler" where
  "sample_handler = SetEnvelopeStore (NewWSHandler (bbolt_store mem_bolt (\<lambda>_. 0)) (3600 * second) [] True ''relay-a'')
     (Some (bbolt_envelope_store mem_bolt (\<lambda>_. 0)))"

lemma two_connections_distinct: "distinct (connected two_connections)"
  by (simp add: two_connections_def)

theorem transfers_reach_only_the_addressee_witness:
  "\<exists>v. server_run sample_ws sample_handler (new_server (open_msg_db mem_bolt) (new_env_db mem_bolt)) two_connections = Some v \<and>
    (\<forall>f \<in> set (sent (shared v) 2). allowed_frame sample_env (cWayfarerID (clientInfo (shared v) 2)) f)"
  using transfers_reach_only_the_addressee [OF two_connections_distinct, of sample_ws sample_handler
      "open_msg_db mem_bolt" "new_env_db mem_bolt"]
  by (auto simp: sample_ws_def)

theorem registry_is_authenticated_sessions_witness:
  "\<exists>v. server_run sample_ws sample_handler (new_server (open_msg_db mem_bolt) (new_env_db mem_bolt)) two_connections = Some v \<and>
    GetClients (clients (shared v)) ''x'' = {p. authenticated (sessions v) p \<and> cWayfarerID (clientInfo (shared v) p) = ''x''}"
  using registry_is_authenticated_sessions [OF two_connections_distinct, of sample_ws sample_handler
      "open_msg_db mem_bolt" "new_env_db mem_bolt"] by (elim exE conjE) (intro exI conjI, assumption, simp)

end
