(* ===== verification/Peering_Links.thy ===== *)
theory Peering_Links
  imports Peering WS_Sessions
begin

text \<open>
  What can happen on the links to other relays: which frames are written, who is registered, and what
  becomes of a url that was added.
\<close>

subsection \<open>What one turn of a link may change\<close>

text \<open>A frame for another relay: the objects of a TRANSFER are authentic.\<close>

definition peer_frame :: "wire_env \<Rightarrow> bytes \<Rightarrow> bool" where
  "peer_frame env frame \<longleftrightarrow> (\<exists>frameType payload. encode_frame env frameType payload = Inr frame \<and>
     (frameType \<in> {FrameTypeHello, FrameTypeSummary, FrameTypeRequest, FrameTypeReceipt} \<or>
      frameType = FrameTypeTransfer \<and> (\<exists>objects. payload = GMapS (transfer_fields objects) \<and>
        length objects \<le> MaxTransferItems \<and> (\<forall>object \<in> set objects. item_for env (To (Envelope object)) object))))"

lemma peer_frame_other:
  "encode_frame env frameType payload = Inr frame \<Longrightarrow>
   frameType \<in> {FrameTypeHello, FrameTypeSummary, FrameTypeRequest, FrameTypeReceipt} \<Longrightarrow> peer_frame env frame"
  unfolding peer_frame_def by blast

lemma peer_frame_transfer:
  "encode_frame env FrameTypeTransfer (GMapS (transfer_fields objects)) = Inr frame \<Longrightarrow> length objects \<le> MaxTransferItems \<Longrightarrow>
   \<forall>object \<in> set objects. item_for env (To (Envelope object)) object \<Longrightarrow> peer_frame env frame"
  unfolding peer_frame_def
  by (intro exI [of _ FrameTypeTransfer] exI [of _ "GMapS (transfer_fields objects)"] conjI disjI2 exI [of _ objects])
     (assumption | rule refl)+

definition relay_id :: "string \<Rightarrow> bool" where
  "relay_id i \<longleftrightarrow> (\<exists>pubKey. i = hex_encode (sha256 pubKey))"

lemma relay_id_neq_nil: "relay_id i \<Longrightarrow> i \<noteq> []"
  using recipient_neq_nil [OF length_sha256] by (auto simp: relay_id_def)

definition same_link :: "Peer \<Rightarrow> Peer \<Rightarrow> bool" where
  "same_link x x' \<longleftrightarrow> PeerID x' = PeerID x \<and> PeerURL x' = PeerURL x \<and> Outbound x' = Outbound x \<and>
     localHelloSent x' = localHelloSent x \<and> adapterAttached x' = adapterAttached x \<and> Done x' = Done x \<and> Metrics x' = Metrics x \<and>
     helloValidated (peerAdapter x') = helloValidated (peerAdapter x) \<and> terminated (peerAdapter x') = terminated (peerAdapter x) \<and>
     (RemoteNodeID x' = RemoteNodeID x \<or> RemoteNodeID x = [] \<and> relay_id (RemoteNodeID x'))"

lemma same_link_simps [simp]:
  "same_link x x" "same_link x (x'\<lparr>RemoteMaxWant := n\<rparr>) = same_link x x'"
  "same_link x (x'\<lparr>peerAdapter := SetExpectedReceipt (peerAdapter x') ids\<rparr>) = same_link x x'"
  "same_link x (x'\<lparr>peerAdapter := ObserveNonFatal (peerAdapter x') e\<rparr>) = same_link x x'"
  "same_link x (x'\<lparr>summarySent := b\<rparr>) = same_link x x'"
  by (simp_all add: same_link_def SetExpectedReceipt_def ObserveNonFatal_def split: prod.splits)

lemma same_link_trans: "same_link x y \<Longrightarrow> same_link y z \<Longrightarrow> same_link x z"
  using relay_id_neq_nil by (auto simp: same_link_def)

definition same_manager :: "('d, 'e) federation \<Rightarrow> ('d, 'e) federation \<Rightarrow> bool" where
  "same_manager u u' \<longleftrightarrow> peers u' = peers u \<and> reading u' = reading u \<and> inbound u' = inbound u \<and> outbound u' = outbound u \<and>
     dials u' = dials u \<and> ctxStop u' = ctxStop u \<and> runDone u' = runDone u \<and> peerMetrics u' = peerMetrics u"

definition turn :: "fed_env \<Rightarrow> string \<Rightarrow> ('d, 'e) federation \<Rightarrow> ('d, 'e) federation \<Rightarrow> bool" where
  "turn w p u u' \<longleftrightarrow> same_manager u u' \<and> (\<forall>q. q \<noteq> p \<longrightarrow> peer u' q = peer u q) \<and> same_link (peer u p) (peer u' p) \<and>
     (\<forall>q. \<exists>fs. wrote u' q = wrote u q @ fs \<and> (\<forall>f \<in> set fs. peer_frame (fwire w) f))"

lemma turn_refl [simp]: "turn w p u u"
  by (simp add: turn_def same_manager_def)

lemma turn_trans:
  assumes "turn w p u1 u2" and "turn w p u2 u3"
  shows "turn w p u1 u3"
  unfolding turn_def
proof (intro conjI allI)
  fix q
  from assms(1) obtain fs where "wrote u2 q = wrote u1 q @ fs" "\<forall>f \<in> set fs. peer_frame (fwire w) f"
    unfolding turn_def by blast
  moreover from assms(2) obtain gs where "wrote u3 q = wrote u2 q @ gs" "\<forall>f \<in> set gs. peer_frame (fwire w) f"
    unfolding turn_def by blast
  ultimately show "\<exists>fs. wrote u3 q = wrote u1 q @ fs \<and> (\<forall>f \<in> set fs. peer_frame (fwire w) f)"
    by (intro exI [of _ "fs @ gs"]) auto
qed (use assms in \<open>auto simp: turn_def same_manager_def intro: same_link_trans\<close>)

lemma turn_fold:
  assumes "\<And>x u. x \<in> set xs \<Longrightarrow> turn w p u (f x u)"
  shows "turn w p u (fold f xs u)"
  using assms by (induction xs arbitrary: u) (auto intro: turn_trans)

lemma turn_stores [simp]:
  "turn w p u (u'\<lparr>fdb := d\<rparr>) = turn w p u u'" "turn w p u (u'\<lparr>fedb := ed\<rparr>) = turn w p u u'"
  by (simp_all add: turn_def same_manager_def)

lemma turn_on_peer: "same_link (peer u p) (f (peer u p)) \<Longrightarrow> turn w p u (on_peer p f u)"
  by (simp add: turn_def same_manager_def)

lemma turn_bindS:
  assumes "turn w p u (fst r)" and "\<And>u' x. r = (u', Inr x) \<Longrightarrow> turn w p u (fst (f u' x))"
  shows "turn w p u (fst (bindS r f))"
  using assms by (cases r; cases "snd r") auto

subsection \<open>Every handler keeps to it\<close>

lemma write_turn: "peer_frame (fwire w) data \<Longrightarrow> turn w p u (fst (writePeerMessage w q data u))"
  by (simp add: writePeerMessage_def turn_def same_manager_def)

lemma send_turn:
  "(\<And>frame. encode_frame (fwire w) frameType payload = Inr frame \<Longrightarrow> peer_frame (fwire w) frame) \<Longrightarrow>
   turn w p u (fst (sendEnvelope_fed w q frameType payload u))"
  by (auto simp: sendEnvelope_fed_def intro: write_turn split: sum.splits)

lemma send_other_turn:
  "frameType \<in> {FrameTypeHello, FrameTypeSummary, FrameTypeRequest, FrameTypeReceipt} \<Longrightarrow>
   turn w p u (fst (sendEnvelope_fed w q frameType payload u))"
  by (intro send_turn peer_frame_other)

lemma sendSummary_turn: "turn w p u (fst (sendSummary w m now p u))"
proof -
  have "turn w p u (fst (bindS (sendEnvelope_fed w p FrameTypeSummary pl u) (\<lambda>u _. (on_peer p (\<lambda>x. x\<lparr>summarySent := True\<rparr>) u, Inr ()))))"
    for pl
  proof (rule turn_bindS)
    show s: "turn w p u (fst (sendEnvelope_fed w p FrameTypeSummary pl u))" by (rule send_other_turn) simp
    fix u' x
    assume "sendEnvelope_fed w p FrameTypeSummary pl u = (u', Inr x)"
    with s have "turn w p u u'" by simp
    from turn_trans [OF this turn_on_peer] show "turn w p u (fst (on_peer p (\<lambda>x. x\<lparr>summarySent := True\<rparr>) u', Inr ()))" by simp
  qed
  then show ?thesis by (simp add: sendSummary_def split: sum.splits)
qed

lemma handleSummary_turn: "turn w p u (fst (handleSummary_fed w m p ev u))"
  by (auto simp: handleSummary_fed_def intro: send_other_turn split: option.splits sum.splits)

lemma load_fed_item:
  assumes "loadTransferObjectByItemID_fed env st m u i = Inr (Some object)"
  shows "ItemID object = i" and "item_for env (To (Envelope object)) object"
proof -
  from assms obtain bs e where o: "ItemID object = i" "EnvelopeB64 object = b64_encode bs" "Envelope object = e"
    and id: "i = ComputeTransferObjectItemID object" and d: "DecodeItemEnvelopeB64 env (b64_encode bs) = Inr e"
    by (auto simp: loadTransferObjectByItemID_fed_def Let_def ComputeTransferObjectItemID_def
        split: if_splits option.splits sum.splits)
  from d obtain bs' where b: "decodeBase64URLRaw (b64_encode bs) = Inr bs'"
    and p: "parseCanonicalItemEnvelope env bs' = Inr e" by (auto simp: DecodeItemEnvelopeB64_def)
  from id o b have "i = hex_encode (sha256 bs')" by (simp add: ComputeTransferObjectItemID_def)
  with o b p parseCanonicalItemEnvelope_verified [OF p] show "ItemID object = i"
    and "item_for env (To (Envelope object)) object" by (simp_all add: item_for_def)
qed

lemma transfer_objects_loop_items:
  assumes "transfer_objects_loop load nowMS ids objects = Inr objects'" and "length objects \<le> MaxTransferItems"
    and "\<forall>object \<in> set objects. P object" and "\<And>i object. load i = Inr (Some object) \<Longrightarrow> P object"
  shows "length objects' \<le> MaxTransferItems \<and> (\<forall>object \<in> set objects'. P object)"
  using assms(1-3)
proof (induction ids arbitrary: objects)
  case (Cons i rest)
  from Cons.prems show ?case
    using Cons.IH [of objects] Cons.IH [of "objects @ [object]" for object] assms(4) [of i]
    by (fastforce split: if_splits sum.splits option.splits)
qed simp

lemma handleRequest_turn: "turn w p u (fst (handleRequest_fed w m now p ev u))"
proof (cases "\<exists>request objects. ERequest ev = Some request \<and> length (Want request) \<noteq> 0 \<and>
    buildTransferObjects w m now (Want request) u = Inr objects")
  case True
  then obtain request objects where r: "ERequest ev = Some request" "length (Want request) \<noteq> 0"
    and b: "buildTransferObjects w m now (Want request) u = Inr objects" by blast
  have items: "length objects \<le> MaxTransferItems \<and> (\<forall>object \<in> set objects. item_for (fwire w) (To (Envelope object)) object)"
  proof (cases "managerStore m")
    case None
    with b show ?thesis by (simp add: buildTransferObjects_def)
  next
    case (Some st)
    with b have "transfer_objects_loop (loadTransferObjectByItemID_fed (fwire w) st m u) (of_int (UnixMilli (toUTC now))) (Want request) [] = Inr objects"
      by (auto simp: buildTransferObjects_def split: sum.splits)
    from transfer_objects_loop_items [OF this, of "\<lambda>object. item_for (fwire w) (To (Envelope object)) object"] load_fed_item(2)
    show ?thesis by fastforce
  qed
  define u1 where "u1 = (if adapterAttached (peer u p)
     then on_peer p (\<lambda>x. x\<lparr>peerAdapter := SetExpectedReceipt (peerAdapter x) (map ItemID objects)\<rparr>) u else u)"
  have "turn w p u u1" by (simp add: u1_def turn_on_peer)
  moreover have "turn w p u1 (fst (sendEnvelope_fed w p FrameTypeTransfer (GMapS (transfer_fields objects)) u1))"
    using items by (intro send_turn peer_frame_transfer) auto
  ultimately show ?thesis using r b by (auto simp: handleRequest_fed_def Let_def u1_def [symmetric] intro: turn_trans)
next
  case False
  then show ?thesis by (auto simp: handleRequest_fed_def split: option.splits sum.splits)
qed

lemma forwardSummary_turn: "turn w p u (forwardSummaryToPeers w ids origin u)"
  by (auto simp: forwardSummaryToPeers_def Let_def announce_one_def intro!: turn_fold send_other_turn)

lemma observe_ingest_turn: "turn w p u (observe_ingest w signal u)"
  by (simp add: observe_ingest_def forwardSummary_turn)

lemma forward_object_turn: "turn w p u (fst (forward_object w m st now p object u))"
proof (cases "transferObjectToMessage_fed (fwire w) now object")
  case (Inl issue)
  then show ?thesis by (simp add: forward_object_def)
next
  case (Inr msg)
  obtain d ed signals result where a: "AcceptRelayForward st (managerEnvelopeStore m) (managerEngine m) now (fdb u) (fedb u)
      (RemoteNodeID (peer u p)) (Some msg) 65536 = (d, ed, signals, result)" by (metis prod_cases4)
  define u1 where "u1 = fold (observe_ingest w) signals (u\<lparr>fdb := d, fedb := ed\<rparr>)"
  have "turn w p u (u\<lparr>fdb := d, fedb := ed\<rparr>)" by simp
  from turn_trans [OF this turn_fold [of signals w p "observe_ingest w"]] have "turn w p u u1" by (simp add: u1_def observe_ingest_turn)
  with Inr a show ?thesis
    by (auto simp: forward_object_def Let_def u1_def [symmetric] split: sum.splits prod.splits)
qed

lemma forward_loop_turn: "forward_loop w m st now p objects accepted u = (u', accepted') \<Longrightarrow> turn w p u u'"
proof (induction objects arbitrary: accepted u)
  case (Cons object rest)
  obtain u1 ok where f: "forward_object w m st now p object u = (u1, ok)" by fastforce
  with forward_object_turn [of w p u m st now object] have "turn w p u u1" by simp
  with Cons f show ?case by (auto intro: turn_trans)
qed simp

lemma handleTransfer_turn: "turn w p u (fst (handleTransfer_fed w m now p ev u))"
proof (cases "ETransfer ev = None \<or> managerStore m = None")
  case True
  then show ?thesis by (auto simp: handleTransfer_fed_def split: option.splits)
next
  case False
  then obtain transfer st where t: "ETransfer ev = Some transfer" "managerStore m = Some st" by auto
  obtain u1 accepted where l: "forward_loop w m st now p (map Object (Objects transfer)) [] u = (u1, accepted)" by fastforce
  have "turn w p u1 (fst (sendEnvelope_fed w p FrameTypeReceipt pl u1))" for pl by (rule send_other_turn) simp
  from turn_trans [OF forward_loop_turn [OF l] this] show ?thesis using t l by (simp add: handleTransfer_fed_def Let_def)
qed

lemma hello_turn:
  assumes "hello_ok ev"
  shows "turn w p u (fst (hello_fed w m now p ev u))"
proof (cases "EHello ev")
  case (Some hello)
  let ?u = "on_peer p (\<lambda>x. x\<lparr>RemoteMaxWant := MaxWant hello\<rparr>) u"
  have t: "turn w p u ?u" by (rule turn_on_peer) simp
  have id: "relay_id (NodeID hello)" using assms Some by (auto simp: hello_ok_def ValidateHello_ok relay_id_def)
  show ?thesis
  proof (cases "RemoteNodeID (peer u p) \<noteq> [] \<and> RemoteNodeID (peer u p) \<noteq> NodeID hello")
    case True
    with Some t show ?thesis by (simp add: hello_fed_def Let_def)
  next
    case False
    with id have "turn w p ?u (on_peer p (bind_remote now hello) ?u)"
      by (intro turn_on_peer) (auto simp: same_link_def bind_remote_def)
    from turn_trans [OF t turn_trans [OF this sendSummary_turn]] False Some show ?thesis
      by (auto simp: hello_fed_def Let_def)
  qed
qed (simp add: hello_fed_def)

lemma processEvent_turn: "hello_ok ev \<Longrightarrow> turn w p u (fst (processEvent_fed w m now p ev u))"
  by (auto simp: processEvent_fed_def healthy_only_def handleReceipt_fed_def hello_turn handleSummary_turn handleRequest_turn
      handleTransfer_turn split: EventType.splits option.splits)

lemma observe_event_turn: "turn w p u (observe_event m p ev u)"
  by (auto simp: observe_event_def intro: turn_on_peer split: option.splits)

lemma processEvents_turn:
  assumes "\<forall>ev \<in> set evs. hello_ok ev"
  shows "turn w p u (fst (processEvents_fed w m now p evs u))"
  using assms
proof (induction evs arbitrary: u)
  case (Cons ev evs)
  have "turn w p u (fst (bindS (processEvent_fed w m now p ev u) (\<lambda>u _. processEvents_fed w m now p evs (observe_event m p ev u))))"
  proof (rule turn_bindS)
    show e: "turn w p u (fst (processEvent_fed w m now p ev u))" using Cons.prems by (intro processEvent_turn) simp
    fix u' x
    assume "processEvent_fed w m now p ev u = (u', Inr x)"
    with e have "turn w p u u'" by simp
    from turn_trans [OF this turn_trans [OF observe_event_turn Cons.IH]] Cons.prems
    show "turn w p u (fst (processEvents_fed w m now p evs (observe_event m p ev u')))" by simp
  qed
  then show ?case by simp
qed simp

end
