(* ===== verification/Peering_Runs.thy ===== *)
theory Peering_Runs
  imports Peering_Links
begin

text \<open>
  The federation as a whole: the invariant of every interleaving of dials, inbound links, frames,
  announcements and shutdown, and what follows from it.
\<close>

subsection \<open>The first message of a link\<close>

lemma handle_frame_hello:
  assumes "handle_frame env a frame = (a', ev)" and "helloValidated a'"
  shows "helloValidated a \<or> EType ev = EventTypeHelloValidated"
  using assms by (auto simp: handle_frame_def dispatch_frame_def handler_defs split: sum.splits if_splits)

lemma push_loop_hello:
  "push_loop env a = (a', evs) \<Longrightarrow> helloValidated a' \<Longrightarrow>
   helloValidated a \<or> (\<exists>ev \<in> set evs. EType ev = EventTypeHelloValidated)"
proof (induction a arbitrary: a' evs rule: push_induct [where env = env])
  case (Incomplete a)
  then show ?case by (simp add: push_loop_framing [of env a])
next
  case (BadLength a issue)
  then show ?case by (auto simp: push_loop_framing [of env a])
next
  case (Fatal a frame rest a1 ev)
  have "helloValidated a1 \<Longrightarrow> helloValidated a \<or> EType ev = EventTypeHelloValidated"
    using handle_frame_hello [OF Fatal(2)] by simp
  with Fatal show ?case by (auto simp: push_loop_framing [of env a])
next
  case (Step a frame rest a1 ev)
  have "helloValidated a1 \<Longrightarrow> helloValidated a \<or> EType ev = EventTypeHelloValidated"
    using handle_frame_hello [OF Step(2)] by simp
  with Step show ?case by (auto simp: push_loop_framing [of env a] split: prod.splits)
qed

lemma healthy_push:
  assumes "PushInbound env a data = (a', evs)" and "\<not> terminated a" and "IsHealthy a'"
  shows "\<forall>ev \<in> set evs. EType ev \<noteq> EventTypeFatal" and "helloValidated a \<or> (\<exists>ev \<in> set evs. EType ev = EventTypeHelloValidated)"
proof (atomize (full), cases "length data = 0")
  case True
  with assms show "(\<forall>ev \<in> set evs. EType ev \<noteq> EventTypeFatal) \<and> (helloValidated a \<or> (\<exists>ev \<in> set evs. EType ev = EventTypeHelloValidated))"
    by (simp add: PushInbound_def IsHealthy_def)
next
  case False
  with assms(1,2) have l: "push_loop env (a\<lparr>buffer := buffer a @ data\<rparr>) = (a', evs)" by (simp add: PushInbound_def)
  have h: "helloValidated a'" "\<not> terminated a'" using assms(3) by (simp_all add: IsHealthy_def)
  from push_loop_fatal [OF _ l] assms(2) h have f: "\<forall>ev \<in> set (butlast evs). EType ev \<noteq> EventTypeFatal"
    "evs \<noteq> [] \<Longrightarrow> EType (last evs) \<noteq> EventTypeFatal" by (simp_all add: list_all_iff)
  have "\<forall>ev \<in> set evs. EType ev \<noteq> EventTypeFatal" using f by (cases evs rule: rev_cases) auto
  with push_loop_hello [OF l h(1)]
  show "(\<forall>ev \<in> set evs. EType ev \<noteq> EventTypeFatal) \<and> (helloValidated a \<or> (\<exists>ev \<in> set evs. EType ev = EventTypeHelloValidated))"
    by simp
qed

lemma hello_binds:
  assumes "hello_ok ev" and "hello_fed w m now p ev u = (u', Inr ())"
  shows "relay_id (RemoteNodeID (peer u' p))"
proof -
  from assms(2) obtain hello where h: "EHello ev = Some hello" by (auto simp: hello_fed_def split: option.splits)
  with assms(1) have id: "relay_id (NodeID hello)" by (auto simp: hello_ok_def ValidateHello_ok relay_id_def)
  let ?u = "on_peer p (bind_remote now hello) (on_peer p (\<lambda>x. x\<lparr>RemoteMaxWant := MaxWant hello\<rparr>) u)"
  from h assms(2) have "sendSummary w m now p ?u = (u', Inr ())" by (auto simp: hello_fed_def Let_def split: if_splits)
  with sendSummary_turn [of w p ?u m now] have "same_link (peer ?u p) (peer u' p)" by (simp add: turn_def)
  with id show ?thesis by (auto simp: same_link_def bind_remote_def)
qed

lemma processEvents_binds:
  assumes "\<forall>ev \<in> set evs. hello_ok ev \<and> EType ev \<noteq> EventTypeFatal"
    and "relay_id (RemoteNodeID (peer u p)) \<or> (\<exists>ev \<in> set evs. EType ev = EventTypeHelloValidated)"
    and "processEvents_fed w m now p evs u = (u', Inr ())"
  shows "relay_id (RemoteNodeID (peer u' p))"
  using assms
proof (induction evs arbitrary: u)
  case (Cons ev evs)
  then obtain u1 where e: "processEvent_fed w m now p ev u = (u1, Inr ())"
    and r: "processEvents_fed w m now p evs (observe_event m p ev u1) = (u', Inr ())"
    by (cases "processEvent_fed w m now p ev u"; cases "snd (processEvent_fed w m now p ev u)") auto
  from processEvent_turn [of ev w p u m now] e Cons.prems(1) have "turn w p u u1" by simp
  then have "relay_id (RemoteNodeID (peer u p)) \<Longrightarrow> relay_id (RemoteNodeID (peer u1 p))"
    using relay_id_neq_nil by (auto simp: turn_def same_link_def)
  moreover have "EType ev = EventTypeHelloValidated \<Longrightarrow> relay_id (RemoteNodeID (peer u1 p))"
    using e hello_binds [of ev w m now p u u1] Cons.prems(1) by (simp add: processEvent_fed_def)
  moreover have "RemoteNodeID (peer (observe_event m p ev u1) p) = RemoteNodeID (peer u1 p)"
    by (simp add: observe_event_def split: option.splits)
  ultimately have "relay_id (RemoteNodeID (peer (observe_event m p ev u1) p)) \<or> (\<exists>ev \<in> set evs. EType ev = EventTypeHelloValidated)"
    using Cons.prems(2) by auto
  from Cons.IH [OF _ this r] Cons.prems(1) show ?case by simp
qed simp

text \<open>A chunk is pushed and its events are handled.\<close>

lemma push_process:
  assumes "push_peer w p data u = (u1, evs)" and "processEvents_fed w m now p evs u1 = (u2, r)"
  obtains a where "PushInbound (fwire w) (peerAdapter (peer u p)) data = (a, evs)" and "u1 = on_peer p (\<lambda>x. x\<lparr>peerAdapter := a\<rparr>) u"
    and "\<forall>ev \<in> set evs. hello_ok ev" and "turn w p u1 u2"
proof -
  obtain a where a: "PushInbound (fwire w) (peerAdapter (peer u p)) data = (a, evs)" "u1 = on_peer p (\<lambda>x. x\<lparr>peerAdapter := a\<rparr>) u"
    using assms(1) by (auto simp: push_peer_def split: prod.splits)
  note ok = PushInbound_hello_ok [OF a(1)]
  from processEvents_turn [OF ok, of w p u1 m now] assms(2) have "turn w p u1 u2" by simp
  with a ok that show ?thesis by blast
qed

definition linked :: "Peer \<Rightarrow> bool" where
  "linked x \<longleftrightarrow> localHelloSent x \<and> adapterAttached x \<and> relay_id (RemoteNodeID x)"

lemma turn_linked:
  assumes "turn w p u u'" and "linked (peer u q)"
  shows "linked (peer u' q)"
proof (cases "q = p")
  case True
  with assms relay_id_neq_nil show ?thesis by (auto simp: turn_def same_link_def linked_def)
next
  case False
  with assms show ?thesis by (simp add: turn_def)
qed

text \<open>After a healthy first message the remote relay is known.\<close>

lemma first_message_binds:
  assumes "push_peer w p data u = (u1, evs)" and "processEvents_fed w m now p evs u2 = (u3, Inr ())"
    and "peer u2 p = (peer u1 p)\<lparr>localHelloSent := b\<rparr>" and "\<not> terminated (peerAdapter (peer u p))" and "\<not> helloValidated (peerAdapter (peer u p))"
    and "IsHealthy (peerAdapter (peer u3 p))"
  shows "relay_id (RemoteNodeID (peer u3 p))"
proof -
  from assms(1) obtain a where a: "PushInbound (fwire w) (peerAdapter (peer u p)) data = (a, evs)" "peerAdapter (peer u1 p) = a"
    by (auto simp: push_peer_def split: prod.splits)
  note ok = PushInbound_hello_ok [OF a(1)]
  from processEvents_turn [OF ok, of w p u2 m now] assms(2) have "turn w p u2 u3" by simp
  with assms(3,6) a have "IsHealthy a" by (auto simp: turn_def same_link_def IsHealthy_def)
  with healthy_push [OF a(1)] assms(4,5) have "\<forall>ev \<in> set evs. EType ev \<noteq> EventTypeFatal"
    "\<exists>ev \<in> set evs. EType ev = EventTypeHelloValidated" by auto
  with processEvents_binds [OF _ _ assms(2)] ok show ?thesis by auto
qed

text \<open>What an encounter may change besides the read loops.\<close>

definition grown :: "fed_env \<Rightarrow> string \<Rightarrow> ('d, 'e) federation \<Rightarrow> ('d, 'e) federation \<Rightarrow> bool" where
  "grown w p u u' \<longleftrightarrow> peers u' = peers u \<and> inbound u' = inbound u \<and> outbound u' = outbound u \<and> dials u' = dials u \<and>
     ctxStop u' = ctxStop u \<and> runDone u' = runDone u \<and> peerMetrics u' = peerMetrics u \<and> (\<forall>q. q \<noteq> p \<longrightarrow> peer u' q = peer u q) \<and>
     PeerURL (peer u' p) = PeerURL (peer u p) \<and> Outbound (peer u' p) = Outbound (peer u p) \<and> Metrics (peer u' p) = Metrics (peer u p) \<and>
     (\<forall>q. \<exists>fs. wrote u' q = wrote u q @ fs \<and> (\<forall>f \<in> set fs. peer_frame (fwire w) f))"

lemma grown_refl [simp]: "grown w p u u"
  by (simp add: grown_def)

lemma turn_grown: "turn w p u u' \<Longrightarrow> grown w p u u' \<and> reading u' = reading u"
  by (simp add: grown_def turn_def same_manager_def same_link_def)

lemma grown_trans:
  assumes "grown w p u1 u2" and "grown w p u2 u3"
  shows "grown w p u1 u3"
  unfolding grown_def
proof (intro conjI allI)
  fix q
  from assms(1) obtain fs where "wrote u2 q = wrote u1 q @ fs" "\<forall>f \<in> set fs. peer_frame (fwire w) f"
    unfolding grown_def by blast
  moreover from assms(2) obtain gs where "wrote u3 q = wrote u2 q @ gs" "\<forall>f \<in> set gs. peer_frame (fwire w) f"
    unfolding grown_def by blast
  ultimately show "\<exists>fs. wrote u3 q = wrote u1 q @ fs \<and> (\<forall>f \<in> set fs. peer_frame (fwire w) f)"
    by (intro exI [of _ "fs @ gs"]) auto
qed (use assms in \<open>auto simp: grown_def\<close>)

lemma grown_on_peer:
  "PeerURL (f (peer u p)) = PeerURL (peer u p) \<Longrightarrow> Outbound (f (peer u p)) = Outbound (peer u p) \<Longrightarrow> Metrics (f (peer u p)) = Metrics (peer u p) \<Longrightarrow>
   grown w p u (on_peer p f u)"
  by (simp add: grown_def)

lemma grown_reading [simp]: "grown w p u (u'\<lparr>reading := r\<rparr>) = grown w p u u'"
  by (simp add: grown_def)

lemma send_hello_grown:
  assumes "send_hello w p u = (u', r)"
  shows "grown w p u u'" and "reading u' = reading u" and "r = Inr () \<Longrightarrow> peer u' p = (peer u p)\<lparr>localHelloSent := True\<rparr>"
proof -
  have "grown w p u u' \<and> reading u' = reading u \<and> (r = Inr () \<longrightarrow> peer u' p = (peer u p)\<lparr>localHelloSent := True\<rparr>)"
  proof (cases "InitialHelloBytes (fwire w) (peerAdapter (peer u p))")
    case (Inl err)
    with assms show ?thesis by (auto simp: send_hello_def)
  next
    case (Inr data)
    then have "peer_frame (fwire w) data"
      by (auto simp: InitialHelloBytes_def EncodeHelloFrame_def encode_frame_def peer_frame_def split: if_splits)
    from write_turn [OF this, of p u p] Inr assms show ?thesis
      by (auto simp: send_hello_def writePeerMessage_def grown_def turn_def split: if_splits)
  qed
  then show "grown w p u u'" "reading u' = reading u" "r = Inr () \<Longrightarrow> peer u' p = (peer u p)\<lparr>localHelloSent := True\<rparr>" by auto
qed

definition unused :: "Peer \<Rightarrow> bool" where
  "unused x \<longleftrightarrow> \<not> terminated (peerAdapter x) \<and> \<not> helloValidated (peerAdapter x)"

text \<open>The result of an encounter: \<open>p\<close> is read and linked if it succeeded, and not read otherwise.\<close>

definition encountered :: "fed_env \<Rightarrow> string \<Rightarrow> ('d, 'e) federation \<Rightarrow> ('d, 'e) federation \<times> (fed_err + unit) \<Rightarrow> bool" where
  "encountered w p u result \<longleftrightarrow> grown w p u (fst result) \<and> (case snd result of
     Inl _ \<Rightarrow> reading (fst result) = reading u
   | Inr _ \<Rightarrow> reading (fst result) = insert p (reading u) \<and> linked (peer (fst result) p))"

lemma push_grown: "push_peer w p data u = (u1, evs) \<Longrightarrow> grown w p u u1 \<and> reading u1 = reading u"
  by (auto simp: push_peer_def grown_def split: prod.splits)

lemma runEncounter_encountered:
  assumes "unused (peer u p)"
  shows "encountered w p u (runEncounter w m now p msg u)"
proof -
  let ?u = "on_peer p (\<lambda>x. x\<lparr>adapterAttached := True\<rparr>) u"
  obtain u1 r1 where h: "send_hello w p ?u = (u1, r1)" by fastforce
  have "grown w p u ?u" by (rule grown_on_peer) simp_all
  from grown_trans [OF this send_hello_grown(1) [OF h]] send_hello_grown(2) [OF h]
  have g1: "grown w p u u1" "reading u1 = reading u" by simp_all
  show ?thesis
  proof (cases "r1 = Inr () \<and> (\<exists>data. msg = ReadBinary data)")
    case False
    with h g1 show ?thesis
      by (cases r1; cases msg) (auto simp: runEncounter_def encountered_def)
  next
    case True
    then obtain data where d: "r1 = Inr ()" "msg = ReadBinary data" by blast
    from send_hello_grown(3) [OF h d(1)] have p1: "peer u1 p = (peer u p)\<lparr>adapterAttached := True, localHelloSent := True\<rparr>" by simp
    obtain u2 evs where push: "push_peer w p data u1 = (u2, evs)" by fastforce
    obtain u3 r3 where proc: "processEvents_fed w m now p evs u2 = (u3, r3)" by fastforce
    obtain a where u2: "u2 = on_peer p (\<lambda>x. x\<lparr>peerAdapter := a\<rparr>) u1" and t: "turn w p u2 u3"
      using push_process [OF push proc] by metis
    from grown_trans [OF g1(1) grown_trans [OF _ conjunct1 [OF turn_grown [OF t]]]] push_grown [OF push]
    have g3: "grown w p u u3" by blast
    have r3: "reading u3 = reading u" using turn_grown [OF t] push_grown [OF push] g1(2) by simp
    have l: "linked (peer u3 p)" if "r3 = Inr ()" "IsHealthy (peerAdapter (peer u3 p))"
    proof -
      have "relay_id (RemoteNodeID (peer u3 p))"
        by (rule first_message_binds [OF push proc [unfolded that(1)], of True]) (use that(2) assms p1 u2 in \<open>simp_all add: unused_def\<close>)
      with t u2 p1 show ?thesis by (simp add: linked_def turn_def same_link_def)
    qed
    have eq: "runEncounter w m now p msg u = bindS (u3, r3) (\<lambda>u _. bindS (require_healthy p u) (\<lambda>u _. (u\<lparr>reading := insert p (reading u)\<rparr>, Inr ())))"
      by (simp add: runEncounter_def h d push proc)
    show ?thesis
    proof (cases r3)
      case (Inl e)
      with eq g3 r3 show ?thesis by (simp add: encountered_def)
    next
      case (Inr x)
      with eq g3 r3 l show ?thesis by (simp add: encountered_def require_healthy_def)
    qed
  qed
qed

lemma acceptInbound_encountered:
  assumes "unused (peer u p)"
  shows "encountered w p u (acceptInboundEncounter w m now p msg u)"
proof (cases "\<exists>data. msg = ReadBinary data")
  case False
  then show ?thesis by (cases msg) (auto simp: acceptInboundEncounter_def encountered_def)
next
  case True
  then obtain data where d: "msg = ReadBinary data" by blast
  obtain u1 evs where push: "push_peer w p data u = (u1, evs)" by fastforce
  note g1 = push_grown [OF push]
  obtain a where a: "PushInbound (fwire w) (peerAdapter (peer u p)) data = (a, evs)" and u1: "u1 = on_peer p (\<lambda>x. x\<lparr>peerAdapter := a\<rparr>) u"
    using push by (auto simp: push_peer_def split: prod.splits)
  obtain u2 r2 where h: "send_hello w p u1 = (u2, r2)" by fastforce
  from grown_trans [OF conjunct1 [OF g1] send_hello_grown(1) [OF h]] send_hello_grown(2) [OF h] g1
  have g2: "grown w p u u2" "reading u2 = reading u" by simp_all
  obtain u3 r3 where proc: "processEvents_fed w m now p evs u2 = (u3, r3)" by fastforce
  from processEvents_turn [OF PushInbound_hello_ok [OF a], of w p u2 m now] proc have t: "turn w p u2 u3" by simp
  from grown_trans [OF g2(1)] turn_grown [OF t] g2(2) have g3: "grown w p u u3" "reading u3 = reading u" by simp_all
  have l: "linked ((peer u3 p)\<lparr>adapterAttached := True\<rparr>)" if "r2 = Inr ()" "r3 = Inr ()" "IsHealthy (peerAdapter (peer u3 p))"
  proof -
    note p2 = send_hello_grown(3) [OF h that(1)]
    have "relay_id (RemoteNodeID (peer u3 p))"
      by (rule first_message_binds [OF push proc [unfolded that(2)] p2]) (use that(3) assms in \<open>simp_all add: unused_def\<close>)
    with t p2 show ?thesis by (simp add: linked_def turn_def same_link_def)
  qed
  have eq: "acceptInboundEncounter w m now p msg u = (case firstFatal evs of Some err \<Rightarrow> (u1, Inl (FedGossipErr err))
     | None \<Rightarrow> bindS (u2, r2) (\<lambda>u _. bindS (processEvents_fed w m now p evs u) (\<lambda>u _. bindS (require_healthy p u) (\<lambda>u _.
        ((on_peer p (\<lambda>x. x\<lparr>adapterAttached := True\<rparr>) u)\<lparr>reading := insert p (reading u)\<rparr>, Inr ())))))"
    by (cases "firstFatal evs") (simp_all add: acceptInboundEncounter_def d push h)
  have g4: "grown w p u (on_peer p (\<lambda>x. x\<lparr>adapterAttached := True\<rparr>) u3)"
    by (rule grown_trans [OF g3(1)], rule grown_on_peer) simp_all
  show ?thesis
    using g1 g2 g3 g4 l proc by (cases "firstFatal evs"; cases r2; cases r3) (simp_all add: eq encountered_def require_healthy_def)
qed

subsection \<open>The invariant\<close>

definition fed_inv :: "fed_env \<Rightarrow> string set \<Rightarrow> ('d, 'e) federation \<Rightarrow> bool" where
  "fed_inv w used u \<longleftrightarrow> finite (peers u) \<and> peers u \<union> reading u \<union> set (inbound u) \<subseteq> used \<and>
     (\<forall>p \<in> peers u \<union> reading u \<union> set (inbound u). linked (peer u p)) \<and>
     (\<forall>p. \<forall>f \<in> set (wrote u p). peer_frame (fwire w) f)"

lemma grown_frames:
  "grown w p u u' \<Longrightarrow> \<forall>p. \<forall>f \<in> set (wrote u p). peer_frame (fwire w) f \<Longrightarrow> \<forall>f \<in> set (wrote u' q). peer_frame (fwire w) f"
  unfolding grown_def by (metis Un_iff set_append)

lemma turn_fed_inv:
  assumes "fed_inv w used u" and "turn w p u u'"
  shows "fed_inv w used u'"
  using assms grown_frames [OF conjunct1 [OF turn_grown [OF assms(2)]]] turn_linked [OF assms(2)]
  by (simp add: fed_inv_def turn_def same_manager_def)

lemma push_fed_inv: "fed_inv w used u \<Longrightarrow> fed_inv w used (on_peer p (\<lambda>x. x\<lparr>peerAdapter := a\<rparr>) u)"
  by (auto simp: fed_inv_def linked_def)

lemma removePeer_fed_inv: "fed_inv w used u \<Longrightarrow> fed_inv w used (end_read_loop p u)"
  by (auto simp: fed_inv_def end_read_loop_def removePeer_def Let_def linked_def)

text \<open>One turn of the read loop: a pushed chunk whose events are handled, and then perhaps the end.\<close>

lemma readLoop_cases:
  obtains a u2 where "turn w p (on_peer p (\<lambda>x. x\<lparr>peerAdapter := a\<rparr>) u) u2"
    and "readLoop w m now p msg u = u2 \<or> readLoop w m now p msg u = end_read_loop p u2"
proof (cases "\<exists>data. msg = ReadBinary data \<and> adapterAttached (peer u p)")
  case True
  then obtain data where d: "msg = ReadBinary data" "adapterAttached (peer u p)" by blast
  obtain u1 evs where push: "push_peer w p data u = (u1, evs)" by fastforce
  obtain u2 r2 where proc: "processEvents_fed w m now p evs u1 = (u2, r2)" by fastforce
  obtain a where "u1 = on_peer p (\<lambda>x. x\<lparr>peerAdapter := a\<rparr>) u" and "turn w p u1 u2"
    using push_process [OF push proc] by metis
  with that [of a u2] d push proc show ?thesis by (auto simp: readLoop_def split: sum.splits)
next
  case False
  then have "readLoop w m now p msg u = end_read_loop p u" by (auto simp: readLoop_def split: ws_read.splits)
  with that [of "peerAdapter (peer u p)" u] show ?thesis by simp
qed

lemma readLoop_fed_inv:
  assumes "fed_inv w used u"
  shows "fed_inv w used (readLoop w m now p msg u)"
proof (rule readLoop_cases [of w p u m now msg])
  fix a u2
  assume t: "turn w p (on_peer p (\<lambda>x. x\<lparr>peerAdapter := a\<rparr>) u) u2"
    and r: "readLoop w m now p msg u = u2 \<or> readLoop w m now p msg u = end_read_loop p u2"
  from turn_fed_inv [OF push_fed_inv [OF assms] t] r removePeer_fed_inv show ?thesis by metis
qed

text \<open>A new peer object with a fresh id, its encounter, and its way to \<open>Run\<close>.\<close>

lemma encounter_fed_inv:
  assumes inv: "fed_inv w used u" and new: "p \<notin> used" and e: "encountered w p (u\<lparr>peer := (peer u)(p := x)\<rparr>) (u', r)"
  shows "fed_inv w (insert p used) (case r of Inl _ \<Rightarrow> u' | Inr _ \<Rightarrow> u'\<lparr>inbound := inbound u' @ [p]\<rparr>)"
proof -
  let ?u = "u\<lparr>peer := (peer u)(p := x)\<rparr>"
  have fi: "fed_inv w used ?u" using inv new by (auto simp: fed_inv_def)
  have g: "grown w p ?u u'" using e by (simp add: encountered_def)
  note frames = grown_frames [OF g]
  have q: "linked (peer u' q)" if "q \<in> peers u \<union> reading u \<union> set (inbound u)" for q
    using that fi inv new g by (auto simp: fed_inv_def grown_def)
  show ?thesis
    using e g frames fi q by (cases r) (auto simp: fed_inv_def encountered_def grown_def)
qed

fun new_ids :: "fed_event \<Rightarrow> string list" where
  "new_ids (InboundPeer now p sid addr msg) = [p]"
| "new_ids (Dial now i (DialConnected p msg)) = [p]"
| "new_ids _ = []"

lemma new_peer_unused: "unused (new_peer relay now seed p sid url out)"
  by (simp add: unused_def new_peer_def NewSessionAdapter_def)

text \<open>The two ways a link comes up, each an encounter with a new peer object.\<close>

lemma inbound_cases:
  obtains u1 r where "encountered w p (u\<lparr>peer := (peer u)(p := new_peer (managerRelayID m) now (metricsSeed w p) p sid addr False)\<rparr>) (u1, r)"
    and "HandleInboundPeer w m now p sid addr msg u = (case r of Inl _ \<Rightarrow> u1 | Inr _ \<Rightarrow> u1\<lparr>inbound := inbound u1 @ [p]\<rparr>)"
proof -
  let ?u = "u\<lparr>peer := (peer u)(p := new_peer (managerRelayID m) now (metricsSeed w p) p sid addr False)\<rparr>"
  obtain u1 r where e: "acceptInboundEncounter w m now p msg ?u = (u1, r)" by fastforce
  with acceptInbound_encountered [of ?u p w m now msg] have "encountered w p ?u (u1, r)" by (simp add: new_peer_unused)
  with that [of u1 r] e show ?thesis by (cases r) (simp_all add: HandleInboundPeer_def)
qed

lemma dial_cases:
  assumes "dial_turn w m now outcome job u = (u', job')"
  obtains (Idle) "u' = u" and "dialAttempt job < 10 \<and> \<not> ctxStop u \<longrightarrow> job' = Some (retry job)"
  | (Link) p msg u1 r where "outcome = DialConnected p msg"
      and "encountered w p (u\<lparr>peer := (peer u)(p := new_peer (managerRelayID m) now (metricsSeed w p) p (dialSession job) (dialURL job) True)\<rparr>) (u1, r)"
      and "(u', job') = (case r of Inl _ \<Rightarrow> (u1, Some (retry job)) | Inr _ \<Rightarrow> (u1\<lparr>inbound := inbound u1 @ [p]\<rparr>, None))"
proof (cases "dialAttempt job < 10 \<and> \<not> ctxStop u \<and> (\<exists>p msg. outcome = DialConnected p msg)")
  case False
  with assms Idle show ?thesis by (cases outcome) (auto simp: dial_turn_def split: if_splits)
next
  case True
  then obtain p msg where o: "outcome = DialConnected p msg" by blast
  let ?u = "u\<lparr>peer := (peer u)(p := new_peer (managerRelayID m) now (metricsSeed w p) p (dialSession job) (dialURL job) True)\<rparr>"
  obtain u1 r where e: "runEncounter w m now p msg ?u = (u1, r)" by fastforce
  with runEncounter_encountered [of ?u p w m now msg] have "encountered w p ?u (u1, r)" by (simp add: new_peer_unused)
  from Link [OF o this] True o e assms show ?thesis by (cases r) (auto simp: dial_turn_def Let_def)
qed

lemma fed_inv_mono: "fed_inv w used u \<Longrightarrow> used \<subseteq> used' \<Longrightarrow> fed_inv w used' u"
  by (auto simp: fed_inv_def)

lemma fed_inv_fields [simp]:
  "fed_inv w used (u\<lparr>dials := ds\<rparr>) = fed_inv w used u" "fed_inv w used (u\<lparr>outbound := os\<rparr>) = fed_inv w used u"
  "fed_inv w used (u\<lparr>ctxStop := b\<rparr>) = fed_inv w used u"
  by (simp_all add: fed_inv_def)

lemma dial_turn_inv:
  assumes inv: "fed_inv w used u" and new: "\<And>p msg. outcome = DialConnected p msg \<Longrightarrow> p \<notin> used"
    and d: "dial_turn w m now outcome job u = (u', job')"
  shows "fed_inv w (used \<union> set (new_ids (Dial now i outcome))) u'"
  using d
proof (cases rule: dial_cases)
  case Idle
  with fed_inv_mono [OF inv, of "used \<union> set (new_ids (Dial now i outcome))"] show ?thesis by simp
next
  case (Link p msg u1 r)
  from encounter_fed_inv [OF inv new [OF Link(1)] Link(2)] Link(1,3) show ?thesis by (cases r) auto
qed

lemma fed_step_inv:
  assumes inv: "fed_inv w used u" and new: "set (new_ids ev) \<inter> used = {}"
  shows "fed_inv w (used \<union> set (new_ids ev)) (fed_step w m u ev)"
proof (cases ev)
  case (RunInbound)
  with inv show ?thesis by (auto simp: addPeer_def fed_inv_def split: list.splits)
next
  case (RunOutbound sid)
  with inv show ?thesis by (auto split: list.splits)
next
  case (Dial now i outcome)
  obtain u1 job where d: "dial_turn w m now outcome (dials u ! i) u = (u1, job)" by fastforce
  have "outcome = DialConnected p msg \<Longrightarrow> p \<notin> used" for p msg using new Dial by auto
  from dial_turn_inv [OF inv this d] Dial d inv fed_inv_mono [OF inv] show ?thesis
    by (cases job) auto
next
  case (InboundPeer now p sid addr msg)
  show ?thesis
    by (rule inbound_cases [of w p u m now sid addr msg]) (use encounter_fed_inv [OF inv] new InboundPeer in auto)
next
  case (PeerRead now p msg)
  with inv readLoop_fed_inv [OF inv] show ?thesis by simp
next
  case (Announce msg)
  with turn_fed_inv [OF inv forwardSummary_turn] show ?thesis by (simp add: AnnounceMessage_def)
next
  case (Forward msg origin)
  with turn_fed_inv [OF inv forwardSummary_turn] show ?thesis by (simp add: ForwardToPeers_def)
next
  case RunStopped
  with inv show ?thesis by (auto simp: cleanup_def fed_inv_def linked_def)
qed (use inv in \<open>simp_all\<close>)

abbreviation fed_run :: "fed_env \<Rightarrow> ('d, 'e) PeerManager \<Rightarrow> ('d, 'e) federation \<Rightarrow> fed_event list \<Rightarrow> ('d, 'e) federation" where
  "fed_run w m u evs \<equiv> foldl (fed_step w m) u evs"

lemma fed_run_inv:
  assumes "fed_inv w used u" and "distinct (concat (map new_ids evs))" and "set (concat (map new_ids evs)) \<inter> used = {}"
  shows "fed_inv w (used \<union> set (concat (map new_ids evs))) (fed_run w m u evs)"
  using assms
proof (induction evs arbitrary: used u)
  case (Cons ev evs)
  have "fed_inv w (used \<union> set (new_ids ev)) (fed_step w m u ev)"
    using Cons.prems by (intro fed_step_inv) auto
  from Cons.IH [OF this] Cons.prems show ?case by (auto simp: Un_assoc Int_Un_distrib)
qed simp

definition new_federation :: "'d \<Rightarrow> 'e \<Rightarrow> ('d, 'e) federation" where
  "new_federation d ed = \<lparr>fdb = d, fedb = ed, peer = (\<lambda>p. new_peer [] zero_time 0 p [] [] False), peers = {}, reading = {},
     wrote = (\<lambda>_. []), inbound = [], outbound = [], dials = [], ctxStop = False, runDone = False, peerMetrics = Map.empty\<rparr>"

lemma new_federation_inv: "fed_inv w {} (new_federation d ed)"
  by (simp add: fed_inv_def new_federation_def)

subsection \<open>What a step leaves alone\<close>

definition kept :: "Peer \<Rightarrow> Peer \<Rightarrow> bool" where
  "kept x x' \<longleftrightarrow> PeerURL x' = PeerURL x \<and> Outbound x' = Outbound x \<and> Metrics x' = Metrics x \<and> (RemoteNodeID x \<noteq> [] \<longrightarrow> RemoteNodeID x' = RemoteNodeID x)"

lemma kept_refl [simp]: "kept x x"
  by (simp add: kept_def)

lemma kept_trans: "kept x y \<Longrightarrow> kept y z \<Longrightarrow> kept x z"
  by (auto simp: kept_def)

lemma turn_kept: "turn w p u u' \<Longrightarrow> kept (peer u q) (peer u' q)"
  by (cases "q = p") (auto simp: turn_def same_link_def kept_def)

text \<open>
  The links other than the new ones: their peers are kept, a link stops being read only by leaving the
  registry and, if it was dialled, by going back to the urls to dial, and the registry loses no other
  link.
\<close>

definition leaves :: "string \<Rightarrow> ('d, 'e) federation \<Rightarrow> ('d, 'e) federation \<Rightarrow> bool" where
  "leaves q u u' \<longleftrightarrow> kept (peer u q) (peer u' q) \<and> (q \<in> reading u' \<longrightarrow> q \<in> reading u) \<and>
     (q \<in> reading u \<and> q \<notin> reading u' \<and> Outbound (peer u q) \<and> \<not> ctxStop u \<longrightarrow> PeerURL (peer u q) \<in> set (outbound u')) \<and>
     (q \<in> peers u \<and> q \<notin> reading u \<longrightarrow> q \<in> peers u')"

lemma leaves_refl [simp]: "leaves q u u"
  by (auto simp: leaves_def)

lemma turn_leaves: "turn w p u u' \<Longrightarrow> leaves q u u'"
  using turn_kept [of w p u u' q] by (auto simp: leaves_def turn_def same_manager_def)

lemma end_read_loop_effect:
  "peer (end_read_loop p u) q = (if q = p then (peer u p)\<lparr>Done := True\<rparr> else peer u q)"
  "reading (end_read_loop p u) = reading u - {p}" "peers (end_read_loop p u) = peers u - {p}"
  "outbound (end_read_loop p u) = (if Outbound (peer u p) \<and> \<not> ctxStop u then outbound u @ [PeerURL (peer u p)] else outbound u)"
  "dials (end_read_loop p u) = dials u" "ctxStop (end_read_loop p u) = ctxStop u" "inbound (end_read_loop p u) = inbound u"
  "runDone (end_read_loop p u) = runDone u"
  by (simp_all add: end_read_loop_def removePeer_def Let_def)

lemma end_read_leaves:
  assumes "kept (peer u q) (peer u2 q)" and "peers u2 = peers u" and "reading u2 = reading u" and "ctxStop u2 = ctxStop u"
    and "p \<in> reading u"
  shows "leaves q u (end_read_loop p u2)"
  using assms by (cases "q = p") (auto simp: leaves_def end_read_loop_effect kept_def)

lemma grown_leaves:
  assumes "grown w p u u'" and "q \<noteq> p" and "reading u' \<subseteq> insert p (reading u)" and "reading u \<subseteq> reading u'"
  shows "leaves q u u'"
  using assms by (auto simp: leaves_def grown_def)

lemma readLoop_leaves:
  assumes "p \<in> reading u"
  shows "leaves q u (readLoop w m now p msg u)"
proof (rule readLoop_cases [of w p u m now msg])
  fix a u2
  assume t: "turn w p (on_peer p (\<lambda>x. x\<lparr>peerAdapter := a\<rparr>) u) u2"
    and r: "readLoop w m now p msg u = u2 \<or> readLoop w m now p msg u = end_read_loop p u2"
  have k: "kept (peer u q) (peer u2 q)" by (rule kept_trans [OF _ turn_kept [OF t]]) (simp add: kept_def)
  have u2: "peers u2 = peers u" "reading u2 = reading u" "ctxStop u2 = ctxStop u"
    using t by (simp_all add: turn_def same_manager_def)
  from r end_read_leaves [OF k u2 assms] k u2 show ?thesis by (auto simp: leaves_def)
qed

lemma encounter_leaves:
  assumes "encountered w p (u\<lparr>peer := (peer u)(p := x)\<rparr>) (u', r)" and "q \<noteq> p"
  shows "leaves q u u'"
proof -
  have "leaves q (u\<lparr>peer := (peer u)(p := x)\<rparr>) u'"
    using assms by (intro grown_leaves [of w p]) (auto simp: encountered_def split: sum.splits)
  with assms(2) show ?thesis by (simp add: leaves_def)
qed

lemma leaves_fields [simp]:
  "leaves q u (u'\<lparr>dials := ds\<rparr>) = leaves q u u'" "leaves q u (u'\<lparr>inbound := is\<rparr>) = leaves q u u'"
  by (simp_all add: leaves_def)

lemma dial_turn_leaves:
  assumes "\<And>p msg. outcome = DialConnected p msg \<Longrightarrow> q \<noteq> p" and d: "dial_turn w m now outcome job u = (u', job')"
  shows "leaves q u u'"
  using d
proof (cases rule: dial_cases)
  case (Link p msg u1 r)
  from encounter_leaves [OF Link(2) assms(1) [OF Link(1)]] Link(3) show ?thesis by (cases r) auto
qed simp

lemma fed_step_leaves:
  assumes "q \<notin> set (new_ids ev)"
  shows "leaves q u (fed_step w m u ev)"
proof (cases ev)
  case (Dial now i outcome)
  obtain u1 job where d: "dial_turn w m now outcome (dials u ! i) u = (u1, job)" by fastforce
  have "outcome = DialConnected p msg \<Longrightarrow> q \<noteq> p" for p msg using assms Dial by auto
  from dial_turn_leaves [OF this d] Dial d show ?thesis by (cases job) auto
next
  case (InboundPeer now p sid addr msg)
  show ?thesis
    by (rule inbound_cases [of w p u m now sid addr msg])
       (use encounter_leaves [of w p u _ _ _ q] assms InboundPeer in \<open>auto split: sum.splits\<close>)
next
  case (PeerRead now p msg)
  then show ?thesis using readLoop_leaves [of p u q w m now msg] by simp
next
  case (Announce msg)
  with turn_leaves [OF forwardSummary_turn] show ?thesis by (simp add: AnnounceMessage_def)
next
  case (Forward msg origin)
  with turn_leaves [OF forwardSummary_turn] show ?thesis by (simp add: ForwardToPeers_def)
qed (auto simp: leaves_def kept_def addPeer_def cleanup_def split: list.splits)

subsection \<open>Urls to dial\<close>

text \<open>A url that was added: waiting, being dialled, or a link that is read.\<close>

definition tracked :: "string \<Rightarrow> ('d, 'e) federation \<Rightarrow> bool" where
  "tracked url u \<longleftrightarrow> url \<in> set (outbound u) \<or> url \<in> dialURL ` set (dials u) \<or>
     (\<exists>p \<in> reading u. Outbound (peer u p) \<and> PeerURL (peer u p) = url)"

text \<open>The dial that ends without a link: ten attempts were made.\<close>

definition gives_up :: "string \<Rightarrow> ('d, 'e) federation \<Rightarrow> fed_event \<Rightarrow> bool" where
  "gives_up url u ev \<longleftrightarrow> (\<exists>now i outcome. ev = Dial now i outcome \<and> i < length (dials u) \<and> dialURL (dials u ! i) = url \<and>
     dialAttempt (dials u ! i) \<ge> 10)"

lemma dial_turn_tracked:
  assumes d: "dial_turn w m now outcome job u = (u', job')" and "\<not> ctxStop u" and "dialAttempt job < 10"
  shows "outbound u' = outbound u \<and> dials u' = dials u \<and> (case job' of Some j \<Rightarrow> dialURL j = dialURL job
     | None \<Rightarrow> \<exists>p \<in> reading u'. Outbound (peer u' p) \<and> PeerURL (peer u' p) = dialURL job)"
  using d
proof (cases rule: dial_cases)
  case Idle
  with assms show ?thesis by (simp add: retry_def)
next
  case (Link p msg u1 r)
  with assms show ?thesis by (cases r) (auto simp: encountered_def grown_def new_peer_def retry_def)
qed

lemma image_removed:
  assumes "i < length xs" and "y \<in> f ` set xs"
  shows "y = f (xs ! i) \<or> y \<in> f ` set (take i xs @ drop (i + 1) xs)"
proof -
  have "set xs = insert (xs ! i) (set (take i xs @ drop (i + 1) xs))"
    using arg_cong [OF id_take_nth_drop [OF assms(1)], of set] by simp
  with assms(2) show ?thesis by auto
qed

lemma dial_step_tracked:
  assumes ob: "url \<in> set (outbound u) \<or> url \<in> dialURL ` set (dials u)" and stop: "\<not> ctxStop u"
    and up: "\<not> gives_up url u (Dial now i outcome)"
  shows "tracked url (fed_step w m u (Dial now i outcome))"
proof (cases "i < length (dials u)")
  case i: True
  obtain u1 job where d: "dial_turn w m now outcome (dials u ! i) u = (u1, job)" by fastforce
  note removed = image_removed [OF i, of url dialURL]
  show ?thesis
  proof (cases "dialAttempt (dials u ! i) < 10")
    case a: True
    note dt = dial_turn_tracked [OF d stop a]
    show ?thesis
    proof (cases job)
      case None
      with dt removed ob d i show ?thesis by (auto simp: tracked_def)
    next
      case (Some j)
      with dt have j: "dialURL j = dialURL (dials u ! i)" "outbound u1 = outbound u" "dials u1 = dials u" by simp_all
      have "map dialURL ((dials u)[i := j]) = map dialURL (dials u)"
        using j(1) i by (simp add: map_update list_update_same_conv)
      then have "dialURL ` set ((dials u)[i := j]) = dialURL ` set (dials u)" by (metis set_map)
      with Some ob d i j show ?thesis by (simp add: tracked_def) blast
    qed
  next
    case a: False
    with up i have "url \<noteq> dialURL (dials u ! i)" by (auto simp: gives_up_def)
    moreover have "u1 = u" "job = None" using d a by (auto simp: dial_turn_def)
    ultimately show ?thesis using d i ob removed by (auto simp: tracked_def)
  qed
qed (use ob in \<open>auto simp: tracked_def\<close>)

definition queues :: "('d, 'e) federation \<Rightarrow> ('d, 'e) federation \<Rightarrow> bool" where
  "queues u u' \<longleftrightarrow> set (outbound u) \<subseteq> set (outbound u') \<and> dials u' = dials u"

lemma turn_queues: "turn w p u u' \<Longrightarrow> queues u u'"
  by (simp add: queues_def turn_def same_manager_def)

lemma readLoop_queues: "queues u (readLoop w m now p msg u) \<and> ctxStop (readLoop w m now p msg u) = ctxStop u"
proof (rule readLoop_cases [of w p u m now msg])
  fix a u2
  assume "turn w p (on_peer p (\<lambda>x. x\<lparr>peerAdapter := a\<rparr>) u) u2"
    and r: "readLoop w m now p msg u = u2 \<or> readLoop w m now p msg u = end_read_loop p u2"
  then have "outbound u2 = outbound u" "dials u2 = dials u" "ctxStop u2 = ctxStop u" by (simp_all add: turn_def same_manager_def)
  with r show ?thesis by (auto simp: queues_def end_read_loop_effect)
qed

lemma fed_step_queues:
  assumes "\<And>sid. ev \<noteq> RunOutbound sid" and "\<And>now i outcome. ev \<noteq> Dial now i outcome"
  shows "queues u (fed_step w m u ev)"
proof (cases ev)
  case (InboundPeer now p sid addr msg)
  show ?thesis
    by (rule inbound_cases [of w p u m now sid addr msg])
       (use InboundPeer in \<open>auto simp: encountered_def queues_def grown_def split: sum.splits\<close>)
next
  case (PeerRead now p msg)
  with readLoop_queues [of u w m now p msg] show ?thesis by (auto simp: queues_def)
next
  case (Announce msg)
  with turn_queues [OF forwardSummary_turn] show ?thesis by (simp add: AnnounceMessage_def)
next
  case (Forward msg origin)
  with turn_queues [OF forwardSummary_turn] show ?thesis by (simp add: ForwardToPeers_def)
qed (use assms in \<open>auto simp: queues_def addPeer_def cleanup_def split: list.splits\<close>)

lemma fed_step_tracked:
  assumes inv: "fed_inv w used u" and new: "set (new_ids ev) \<inter> used = {}" and t: "tracked url u"
    and stop: "\<not> ctxStop u" and up: "\<not> gives_up url u ev"
  shows "tracked url (fed_step w m u ev)"
proof (cases "\<exists>q \<in> reading u. Outbound (peer u q) \<and> PeerURL (peer u q) = url")
  case True
  then obtain q where q: "q \<in> reading u" "Outbound (peer u q)" "PeerURL (peer u q) = url" by blast
  with inv new have "q \<notin> set (new_ids ev)" by (auto simp: fed_inv_def)
  from fed_step_leaves [OF this, of u w m] q stop show ?thesis by (auto simp: leaves_def tracked_def kept_def)
next
  case False
  with t have ob: "url \<in> set (outbound u) \<or> url \<in> dialURL ` set (dials u)" by (simp add: tracked_def)
  consider (Out) sid where "ev = RunOutbound sid" | (D) now i outcome where "ev = Dial now i outcome"
    | (Other) "\<And>sid. ev \<noteq> RunOutbound sid" "\<And>now i outcome. ev \<noteq> Dial now i outcome" by blast
  then show ?thesis
  proof cases
    case Out
    with ob show ?thesis by (auto simp: tracked_def new_dial_def split: list.splits)
  next
    case D
    with dial_step_tracked [OF ob stop] up show ?thesis by blast
  next
    case Other
    from fed_step_queues [OF this, of u w m] ob show ?thesis by (auto simp: queues_def tracked_def)
  qed
qed

lemma fed_run_kept:
  "q \<notin> set (concat (map new_ids evs)) \<Longrightarrow> kept (peer u q) (peer (fed_run w m u evs) q)"
proof (induction evs arbitrary: u)
  case (Cons ev evs)
  then have "leaves q u (fed_step w m u ev)" by (intro fed_step_leaves) simp
  with Cons kept_trans show ?case by (fastforce simp: leaves_def)
qed simp

lemma fed_run_dead:
  "q \<notin> set (concat (map new_ids evs)) \<Longrightarrow> q \<in> peers u \<Longrightarrow> q \<notin> reading u \<Longrightarrow>
   q \<in> peers (fed_run w m u evs) \<and> q \<notin> reading (fed_run w m u evs)"
proof (induction evs arbitrary: u)
  case (Cons ev evs)
  then have "leaves q u (fed_step w m u ev)" by (intro fed_step_leaves) simp
  with Cons show ?case by (auto simp: leaves_def)
qed simp

fun gave_up :: "fed_env \<Rightarrow> ('d, 'e) PeerManager \<Rightarrow> string \<Rightarrow> ('d, 'e) federation \<Rightarrow> fed_event list \<Rightarrow> bool" where
  "gave_up w m url u [] = False"
| "gave_up w m url u (ev # evs) = (ev = StopManager \<or> gives_up url u ev \<or> gave_up w m url (fed_step w m u ev) evs)"

lemma dial_turn_ctxStop:
  assumes "dial_turn w m now outcome job u = (u', job')"
  shows "ctxStop u' = ctxStop u"
  using assms
proof (cases rule: dial_cases)
  case (Link p msg u1 r)
  then show ?thesis by (cases r) (auto simp: encountered_def grown_def)
qed simp

lemma fed_step_ctxStop:
  assumes "ev \<noteq> StopManager"
  shows "ctxStop (fed_step w m u ev) = ctxStop u"
proof (cases ev)
  case (Dial now i outcome)
  then show ?thesis using dial_turn_ctxStop [of w m now outcome "dials u ! i" u] by (auto split: prod.splits option.splits)
next
  case (InboundPeer now p sid addr msg)
  show ?thesis
    by (rule inbound_cases [of w p u m now sid addr msg])
       (use InboundPeer in \<open>auto simp: encountered_def grown_def split: sum.splits\<close>)
next
  case (PeerRead now p msg)
  with readLoop_queues [of u w m now p msg] show ?thesis by simp
next
  case (Announce msg)
  with forwardSummary_turn [of w "[]" u] show ?thesis by (simp add: AnnounceMessage_def turn_def same_manager_def)
next
  case (Forward msg origin)
  with forwardSummary_turn [of w "[]" u] show ?thesis by (simp add: ForwardToPeers_def turn_def same_manager_def)
qed (use assms in \<open>auto simp: addPeer_def cleanup_def split: list.splits\<close>)

lemma fed_run_tracked:
  assumes "fed_inv w used u" and "distinct (concat (map new_ids evs))" and "set (concat (map new_ids evs)) \<inter> used = {}"
    and "tracked url u" and "\<not> ctxStop u" and "\<not> gave_up w m url u evs"
  shows "tracked url (fed_run w m u evs)"
  using assms
proof (induction evs arbitrary: used u)
  case (Cons ev evs)
  have inv: "fed_inv w (used \<union> set (new_ids ev)) (fed_step w m u ev)"
    using Cons.prems by (intro fed_step_inv) auto
  have "tracked url (fed_step w m u ev)"
    using Cons.prems by (intro fed_step_tracked [OF Cons.prems(1)]) auto
  from Cons.IH [OF inv _ _ this] Cons.prems fed_step_ctxStop [of ev w m u] show ?case by auto
qed simp

subsection \<open>Properties\<close>

text \<open>
  Claim C3. Whatever other relays send, and however dials, inbound links, frames, announcements and shutdown
  interleave, every frame this relay writes to a link is a HELLO, SUMMARY, REQUEST or RECEIPT, or a
  TRANSFER of at most 32 objects, each with its id the hash of its bytes and a verified envelope.
\<close>

theorem peer_frames_authentic:
  assumes "distinct (concat (map new_ids evs))"
  shows "\<forall>p. \<forall>f \<in> set (wrote (fed_run w m (new_federation d ed) evs) p). peer_frame (fwire w) f"
  using fed_run_inv [OF new_federation_inv assms, of w m d ed] by (simp add: fed_inv_def)

text \<open>
  Claim C15. A registered relay is an identified one, for good: in every run, each link that is registered,
  read or on its way to \<open>Run\<close> has sent this relay's HELLO and carries the node id of a validated HELLO,
  which is the hash of the remote key, and no later event changes that id.
\<close>

theorem registered_relays_identified:
  assumes "distinct (concat (map new_ids (evs @ evs')))"
    and "p \<in> peers (fed_run w m (new_federation d ed) evs) \<union> reading (fed_run w m (new_federation d ed) evs) \<union>
           set (inbound (fed_run w m (new_federation d ed) evs))"
  shows "linked (peer (fed_run w m (new_federation d ed) evs) p) \<and>
    RemoteNodeID (peer (fed_run w m (new_federation d ed) (evs @ evs')) p) = RemoteNodeID (peer (fed_run w m (new_federation d ed) evs) p)"
proof -
  let ?u = "fed_run w m (new_federation d ed) evs"
  have "fed_inv w (set (concat (map new_ids evs))) ?u"
    using fed_run_inv [OF new_federation_inv, of evs w m d ed] assms(1) by simp
  with assms(2) have l: "linked (peer ?u p)" and p: "p \<in> set (concat (map new_ids evs))" by (auto simp: fed_inv_def)
  have "p \<notin> set (concat (map new_ids evs'))" using assms(1) p by auto
  from fed_run_kept [OF this, of ?u w m] l relay_id_neq_nil show ?thesis by (auto simp: kept_def linked_def)
qed

text \<open>
  Claim C16. A relay that was added is not forgotten: as long as the manager is not stopped, its url stays
  queued, dialled or linked through every run, failed attempts, broken encounters and lost links
  included, unless a dial gave up on it after ten attempts.
\<close>

theorem added_relays_not_forgotten:
  assumes "distinct (concat (map new_ids (evs @ AddPeerURL url # evs')))"
    and "\<not> ctxStop (fed_run w m (new_federation d ed) evs)"
    and "\<not> gave_up w m url (fed_run w m (new_federation d ed) (evs @ [AddPeerURL url])) evs'"
  shows "tracked url (fed_run w m (new_federation d ed) (evs @ AddPeerURL url # evs'))"
proof -
  let ?u = "fed_run w m (new_federation d ed) (evs @ [AddPeerURL url])"
  have inv: "fed_inv w (set (concat (map new_ids evs))) ?u"
    using fed_run_inv [OF new_federation_inv, of "evs @ [AddPeerURL url]" w m d ed] assms(1) by simp
  have t: "tracked url ?u" "\<not> ctxStop ?u" using assms(2) by (simp_all add: tracked_def)
  have "distinct (concat (map new_ids evs'))" "set (concat (map new_ids evs')) \<inter> set (concat (map new_ids evs)) = {}"
    using assms(1) by auto
  from fed_run_tracked [OF inv this t assms(3)] show ?thesis by simp
qed

text \<open>
  Claim C33. A link that breaks between its encounter and its registration leaks: \<open>removePeer\<close> finds nothing
  to remove, \<open>Run\<close> registers the peer afterwards, and from then on no event of any run removes it, though
  it is never read again.
\<close>

theorem broken_link_stays_registered:
  assumes "p \<in> reading u" and "inbound u = [p]" and "\<not> runDone u" and "p \<notin> set (concat (map new_ids evs))"
    and "msg \<in> {ReadOther, ReadTimeout, ReadClosed}"
  shows "p \<in> peers (fed_run w m u (PeerRead now p msg # RunInbound # evs)) \<and>
    p \<notin> reading (fed_run w m u (PeerRead now p msg # RunInbound # evs))"
proof -
  let ?u = "fed_run w m u [PeerRead now p msg, RunInbound]"
  have "readLoop w m now p msg u = end_read_loop p u" using assms(5) by (auto simp: readLoop_def)
  moreover have "inbound (end_read_loop p u) = [p]" "\<not> runDone (end_read_loop p u)"
    using assms(2,3) by (simp_all add: end_read_loop_effect)
  ultimately have "p \<in> peers ?u" "p \<notin> reading ?u" using assms(1)
    by (simp_all add: addPeer_def end_read_loop_effect)
  from fed_run_dead [OF assms(4) this, of w m] show ?thesis by simp
qed

subsection \<open>Witnesses\<close>

text \<open>A link that is dialled, greeted with a HELLO and registered.\<close>

definition link_wire :: wire_env where
  "link_wire = sample_env\<lparr>cbor_envelope := (\<lambda>f. if f = ''H'' then Some (FrameTypeHello, Some (hello_fields (BuildRelayHello ''r''))) else None),
     cbor_marshal := (\<lambda>v. case v of GBytes bs \<Rightarrow> Some bs | _ \<Rightarrow> Some ''x'')\<rparr>"

definition link_env :: fed_env where
  "link_env = \<lparr>fwire = link_wire, writable = (\<lambda>_ _ _. True), metricsSeed = (\<lambda>_. 0)\<rparr>"

definition link_manager :: "(mem_bucket msg_db, mem_bucket env_db) PeerManager" where
  "link_manager = SetPeerEnvelopeStore (NewPeerManagerWithConfig ''relay-a'' (Some (bbolt_store mem_bolt (\<lambda>_. 0))) (3600 * second))
     (Some (bbolt_envelope_store mem_bolt (\<lambda>_. 0)))"

definition hello_chunk :: bytes where
  "hello_chunk = [NUL, NUL, NUL, CHR 0x01, CHR ''H'']"

lemma link_encode: "frameType \<noteq> [] \<Longrightarrow> \<exists>frame. encode_frame link_wire frameType (GMapS fs) = Inr frame"
  by (simp add: encode_frame_def EncodeEnvelope_def link_wire_def EncodeLengthPrefixed_def)

lemma hello_push:
  "PushInbound link_wire (NewSessionAdapter h True) hello_chunk =
     ((NewSessionAdapter h True)\<lparr>lastFrameType := FrameTypeHello, helloValidated := True\<rparr>,
      [(event EventTypeHelloValidated FrameTypeHello)\<lparr>EHello := Some (BuildRelayHello ''r'')\<rparr>])"
  using relay_hello_parses [of "''r''"]
  by (simp add: PushInbound_def push_loop.simps hello_chunk_def NewSessionAdapter_def handle_frame_def DecodeEnvelope_def link_wire_def
      dispatch_frame_def on_hello_def)

lemma link_summary: "listSummaryEligibleIDs link_manager now u = Inr []" if "fedb u = new_env_db mem_bolt"
  using that by (simp add: listSummaryEligibleIDs_def link_manager_def SetPeerEnvelopeStore_def bbolt_envelope_store_def
      GetAllEnvelopeIDs_def new_env_db_def mem_bolt_def mem_seek_def mem_keys_def SortDigestHexIDs_def sortDigestHexIDs_def)

lemma link_encounter:
  assumes "peer u p = new_peer ''relay-a'' now seed p sid url True" and "fedb u = new_env_db mem_bolt"
  shows "\<exists>u'. runEncounter link_env link_manager now p (ReadBinary hello_chunk) u = (u', Inr ())"
proof -
  obtain frame where f: "encode_frame link_wire FrameTypeHello (GMapS (hello_fields (BuildRelayHello ''relay-a''))) = Inr frame"
    using link_encode by fastforce
  obtain frame' where f': "encode_frame link_wire FrameTypeSummary (GMapS (summary_fields (full_summary []))) = Inr frame'"
    using link_encode by fastforce
  have w: "fwire link_env = link_wire" "writable link_env q ws data" for q ws data by (simp_all add: link_env_def)
  have h: "InitialHelloBytes link_wire (NewSessionAdapter (BuildRelayHello ''relay-a'') True) = Inr frame"
    using f by (simp add: InitialHelloBytes_def NewSessionAdapter_def EncodeHelloFrame_def encode_frame_def)
  define x where "x = new_peer ''relay-a'' now seed p sid url True"
  have x: "peer u p = x" "peerAdapter x = NewSessionAdapter (BuildRelayHello ''relay-a'') True" "RemoteNodeID x = []" "summarySent x = False"
    using assms(1) by (simp_all add: x_def new_peer_def)
  have t: "terminated (NewSessionAdapter (BuildRelayHello ''relay-a'') True) = False" by (simp add: NewSessionAdapter_def)
  have m: "eventObserver link_manager = None" by (simp add: link_manager_def SetPeerEnvelopeStore_def NewPeerManagerWithConfig_def)
  show ?thesis
    by (simp add: runEncounter_def send_hello_def x w h writePeerMessage_def push_peer_def hello_push processEvent_fed_def hello_fed_def
        Let_def sendSummary_def bind_remote_def sendEnvelope_fed_def link_summary assms(2) f' observe_event_def m t
        require_healthy_def IsHealthy_def)
qed

definition link_trace :: "fed_event list" where
  "link_trace = [AddPeerURL ''u'', RunOutbound ''s'', Dial zero_time 0 (DialConnected ''p'' (ReadBinary hello_chunk))]"

abbreviation no_links :: "(mem_bucket msg_db, mem_bucket env_db) federation" where
  "no_links \<equiv> new_federation (open_msg_db mem_bolt) (new_env_db mem_bolt)"

lemma link_trace_run:
  "\<exists>u. fed_run link_env link_manager no_links link_trace = u \<and> reading u = {''p''} \<and> inbound u = [''p''] \<and> \<not> runDone u \<and>
     peers u = {} \<and> \<not> ctxStop u"
proof -
  let ?u = "no_links\<lparr>outbound := [], dials := [new_dial ''u'' ''s''], peer := (peer no_links)(''p'' := new_peer ''relay-a'' zero_time 0 ''p'' ''s'' ''u'' True)\<rparr>"
  obtain u' where r: "runEncounter link_env link_manager zero_time ''p'' (ReadBinary hello_chunk) ?u = (u', Inr ())"
    using link_encounter [of ?u "''p''" zero_time 0 "''s''" "''u''"] by (auto simp: new_federation_def)
  with runEncounter_encountered [of ?u "''p''" link_env link_manager zero_time "ReadBinary hello_chunk"]
  have e: "grown link_env ''p'' ?u u'" "reading u' = {''p''}" by (simp_all add: new_peer_unused encountered_def new_federation_def)
  have m: "managerRelayID link_manager = ''relay-a''" "metricsSeed link_env ''p'' = 0"
    by (simp_all add: link_manager_def SetPeerEnvelopeStore_def NewPeerManagerWithConfig_def link_env_def)
  show ?thesis using r e
    by (simp add: link_trace_def new_federation_def dial_turn_def new_dial_def m grown_def Let_def)
qed

theorem peer_frames_authentic_witness:
  "list_all (peer_frame link_wire) (wrote (fed_run link_env link_manager no_links link_trace) ''p'')"
  using peer_frames_authentic [of link_trace link_env link_manager "open_msg_db mem_bolt" "new_env_db mem_bolt"]
  by (simp add: link_trace_def link_env_def list_all_iff)

theorem registered_relays_identified_witness:
  "linked (peer (fed_run link_env link_manager no_links (link_trace @ [RunInbound])) ''p'') \<and>
   RemoteNodeID (peer (fed_run link_env link_manager no_links ((link_trace @ [RunInbound]) @ [StopManager])) ''p'') =
     RemoteNodeID (peer (fed_run link_env link_manager no_links (link_trace @ [RunInbound])) ''p'')"
proof (rule registered_relays_identified)
  show "distinct (concat (map new_ids ((link_trace @ [RunInbound]) @ [StopManager])))" by (simp add: link_trace_def)
  show "''p'' \<in> peers (fed_run link_env link_manager no_links (link_trace @ [RunInbound])) \<union>
      reading (fed_run link_env link_manager no_links (link_trace @ [RunInbound])) \<union>
      set (inbound (fed_run link_env link_manager no_links (link_trace @ [RunInbound])))"
    using link_trace_run by (auto simp: addPeer_def)
qed

theorem added_relays_not_forgotten_witness:
  "tracked ''u'' (fed_run link_env link_manager no_links (link_trace @ [RunInbound, PeerRead zero_time ''p'' ReadClosed]))"
  using added_relays_not_forgotten [of "[]" "''u''" "tl link_trace @ [RunInbound, PeerRead zero_time ''p'' ReadClosed]" link_env link_manager
      "open_msg_db mem_bolt" "new_env_db mem_bolt"]
  by (simp add: link_trace_def gives_up_def new_federation_def new_dial_def)

theorem broken_link_stays_registered_witness:
  "''p'' \<in> peers (fed_run link_env link_manager (fed_run link_env link_manager no_links link_trace)
     [PeerRead zero_time ''p'' ReadClosed, RunInbound, RunOutbound ''s2''])"
proof -
  let ?u = "fed_run link_env link_manager no_links link_trace"
  have u: "''p'' \<in> reading ?u" "inbound ?u = [''p'']" "\<not> runDone ?u" using link_trace_run by auto
  from broken_link_stays_registered [OF u, of "[RunOutbound ''s2'']" ReadClosed link_env link_manager zero_time] show ?thesis by simp
qed

end
