(* ===== verification/WS_Delivery.thy ===== *)
theory WS_Delivery
  imports WS_Sessions
begin

text \<open>
  The WebSocket handlers over the bbolt stores: what a summary offers, that an accepted transfer can be
  served, what a receipt acknowledges, and how pushes are debounced.
\<close>

subsection \<open>Summaries\<close>

lemma unacked_ids_eq:
  "\<forall>i \<in> set ids. is_ok (acked i) \<Longrightarrow> unacked_ids acked ids = Inr (filter (\<lambda>i. acked i = Inr False) ids)"
proof (induction ids)
  case (Cons i rest)
  then obtain a where "acked i = Inr a" by (auto simp: is_ok_iff)
  with Cons show ?case by (cases a) simp_all
qed simp

lemma preview_after_eq:
  "n < MaxSummaryPreviewItems \<Longrightarrow>
   preview_after c n ids = take (MaxSummaryPreviewItems - n) (filter (\<lambda>i. c = [] \<or> c < i) ids)"
proof (induction ids arbitrary: n)
  case (Cons i rest)
  have skip: "CompareDigestHexIDs i c \<le> 0 \<longleftrightarrow> \<not> c < i"
    by (auto simp: CompareDigestHexIDs_def compare_string)
  obtain m where m: "MaxSummaryPreviewItems - n = Suc m" using Cons.prems by (metis Suc_diff_Suc)
  show ?case
  proof (cases "n + 1 \<ge> MaxSummaryPreviewItems")
    case True
    then have "m = 0" using m Cons.prems by simp
    with Cons True m skip show ?thesis by auto
  next
    case False
    then have "MaxSummaryPreviewItems - (n + 1) = m" using m by simp
    with Cons False m skip show ?thesis by auto
  qed
qed simp

definition next_page :: "string \<Rightarrow> string list \<Rightarrow> string list" where
  "next_page cursor U = (let page = take MaxSummaryPreviewItems (filter (\<lambda>i. cursor < i) U)
     in if page = [] then take MaxSummaryPreviewItems U else page)"

lemma next_page_props:
  "sorted_wrt (<) U \<Longrightarrow> sorted_wrt (<) (next_page c U)" "set (next_page c U) \<subseteq> set U"
  "length (next_page c U) \<le> MaxSummaryPreviewItems"
  by (auto simp: next_page_def Let_def sorted_filter_take sorted_wrt_take dest: in_set_takeD)

lemma preview_page_eq:
  assumes "[] \<notin> set U"
  shows "preview_page c U = (next_page c U, if next_page c U = [] then [] else last (next_page c U))"
proof -
  have less: "filter (\<lambda>i. [] < i) U = U" using assms by (auto simp: filter_id_conv Nil_less_iff)
  show ?thesis
  proof (cases "c = []")
    case True
    with less show ?thesis by (simp add: preview_page_def preview_after_eq next_page_def Let_def)
  next
    case False
    then show ?thesis by (auto simp: preview_page_def preview_after_eq next_page_def Let_def)
  qed
qed

text \<open>A handler on the two bbolt stores.\<close>

definition bbolt_handler :: "'b bolt_api \<Rightarrow> (int \<Rightarrow> int) \<Rightarrow> ('b msg_db, 'b env_db) WSHandler \<Rightarrow> bool" where
  "bbolt_handler api lo h \<longleftrightarrow> store h = bbolt_store api lo \<and> envelopeStore h = Some (bbolt_envelope_store api lo)"

text \<open>The items that wait for a recipient and were not acknowledged by the identity.\<close>

definition waiting :: "'b bolt_api \<Rightarrow> gotime \<Rightarrow> ('b msg_db, 'b env_db) hub \<Rightarrow> string \<Rightarrow> string \<Rightarrow> string set" where
  "waiting api now u recipient identity =
     {i. live_for api now (edb u) recipient i \<and> IsAckedBy api (db u) i identity = Inr False}"

lemma bloom_holds:
  assumes "i \<in> set ids" and "isDigestHex i"
  shows "BloomFilterMightContain (BloomFilter (BuildSummaryPreviewPayload ids prev c)) i"
  using assms might_contain_bloom_build [of i "normalizeDigestHexIDsDropInvalid ids"]
  by (auto simp: BuildSummaryPreviewPayload_def Let_def drop_invalid_set)

text \<open>The eligible ids of a recipient without those the identity acknowledged.\<close>

definition unacked :: "'b bolt_api \<Rightarrow> gotime \<Rightarrow> ('b msg_db, 'b env_db) hub \<Rightarrow> string \<Rightarrow> string \<Rightarrow> string list" where
  "unacked api now u recipient identity =
     filter (\<lambda>i. IsAckedBy api (db u) i identity = Inr False) (eligible_ids api now (edb u) recipient)"

lemma unacked_digest: "bolt api \<Longrightarrow> \<forall>i \<in> set (unacked api now u recipient identity). isDigestHex i"
  by (auto simp: unacked_def bolt.eligible_ids_set eligible_def isEligibleDestinationItem_def IsDigestHexID_def split: if_splits)

lemma summary_eq:
  fixes u :: "('b msg_db, 'b env_db) hub"
  assumes "bolt api" and "bbolt_handler api lo h" and "recipient \<noteq> []" and "identity \<noteq> []" and "cursor = [] \<or> isDigestHex cursor"
    and "U = unacked api now u recipient identity"
  shows "sorted_wrt (<) U"
    and "\<exists>summary. buildRecipientSummary h now u recipient identity cursor =
        Inr (summary, if next_page cursor U = [] then [] else last (next_page cursor U)) \<and>
      ItemCount summary = of_nat (length U) \<and> PreviewItemIDs summary = next_page cursor U \<and>
      BloomFilter summary = BloomFilter (BuildSummaryPreviewPayload U [] [])"
proof -
  let ?E = "eligible_ids api now (edb u) recipient"
  show sorted: "sorted_wrt (<) U"
    unfolding assms(6) unacked_def using bolt.eligible_ids_sorted [OF assms(1)] by (rule sorted_wrt_filter)
  have digest: "\<forall>i \<in> set U. isDigestHex i" unfolding assms(6) by (rule unacked_digest [OF assms(1)])
  then have nil: "[] \<notin> set U" using isDigestHex_length [of "[]"] by auto
  have page: "GetEnvelopeIDsByDestinationPage api now (edb u) recipient c 64 =
      (let page = take 64 (filter (\<lambda>i. c < i) ?E)
       in Inr (page, if page = [] then [] else last page, int (length ?E), ?E))" if "c = [] \<or> isDigestHex c" for c
    using bolt.page_eq [OF assms(1), of 64 c now "edb u" recipient] that by (simp add: IsDigestHexID_def Let_def)
  have ack: "unacked_ids (\<lambda>i. IsAckedBy api (db u) i identity) ?E = Inr U"
    unfolding assms(6) unacked_def by (rule unacked_ids_eq) (simp add: IsAckedBy_def)
  have np: "sorted_wrt (<) (next_page cursor U)" "\<forall>i \<in> set (next_page cursor U). isDigestHex i"
    "length (next_page cursor U) \<le> 64"
    using next_page_props(1) [OF sorted] next_page_props(2,3) [of cursor U] digest by blast+
  let ?summary = "(BuildSummaryPreviewPayload U (next_page cursor U) [])\<lparr>ItemCount := of_int (int (length U))\<rparr>"
  have "buildRecipientSummary h now u recipient identity cursor =
      Inr (?summary, if next_page cursor U = [] then [] else last (next_page cursor U))"
    using assms(2-5) np ack page
    by (auto simp: buildRecipientSummary_def bbolt_handler_def Let_def preview_page_eq [OF nil]
        NormalizeDigestHexIDs_def normalizeDigestHexIDs_eq normalize_sorted_id)
  moreover have "PreviewItemIDs ?summary = next_page cursor U"
    using np preview_props(4) [of U "next_page cursor U" "[]"] by (simp add: normalize_sorted_id)
  moreover have "BloomFilter ?summary = BloomFilter (BuildSummaryPreviewPayload U [] [])"
    by (simp add: BuildSummaryPreviewPayload_def Let_def)
  ultimately show "\<exists>summary. buildRecipientSummary h now u recipient identity cursor =
        Inr (summary, if next_page cursor U = [] then [] else last (next_page cursor U)) \<and>
      ItemCount summary = of_nat (length U) \<and> PreviewItemIDs summary = next_page cursor U \<and>
      BloomFilter summary = BloomFilter (BuildSummaryPreviewPayload U [] [])"
    by (intro exI [of _ ?summary]) simp
qed

lemma summary_exact:
  fixes u :: "('b msg_db, 'b env_db) hub"
  assumes "bolt api" and "env_reachable api lo (edb u)" and "fits64 (instant now)" and "NUL \<notin> set recipient"
    and "bbolt_handler api lo h" and "recipient \<noteq> []" and "identity \<noteq> []" and "cursor = [] \<or> isDigestHex cursor"
  shows "\<exists>U summary. sorted_wrt (<) U \<and> set U = waiting api now u recipient identity \<and>
    buildRecipientSummary h now u recipient identity cursor =
      Inr (summary, if next_page cursor U = [] then [] else last (next_page cursor U)) \<and>
    ItemCount summary = of_nat (length U) \<and> PreviewItemIDs summary = next_page cursor U \<and>
    (\<forall>i \<in> set U. BloomFilterMightContain (BloomFilter summary) i)"
proof -
  let ?U = "unacked api now u recipient identity"
  have "set ?U = waiting api now u recipient identity"
    using eligible_ids_live [OF assms(1-4)] by (auto simp: unacked_def waiting_def)
  moreover have "\<forall>i \<in> set ?U. BloomFilterMightContain (BloomFilter (BuildSummaryPreviewPayload ?U [] [])) i"
    using bloom_holds [of _ ?U] unacked_digest [OF assms(1)] by blast
  ultimately show ?thesis using summary_eq [OF assms(1,5-8) refl, of now u] by metis
qed

subsection \<open>Imported items\<close>

lemma toMessage_ok:
  assumes "transferObjectToMessage env now object = Inr msg"
  obtains e where "DecodeItemEnvelopeB64 env (EnvelopeB64 object) = Inr e" and "MID msg = ItemID object"
    and "MTo msg = To e" and "MPayload msg = PayloadB64 e" and "MCreatedAt msg = toUTC now"
    and "MExpiresAt msg = toUTC (time_UnixMilli (sint (ExpiryUnixMS object)))"
    and "HopCount object \<le> 65535" and "ItemID object = ComputeTransferObjectItemID object" and "isDigestHex (ItemID object)"
proof -
  from assms obtain e createdAt expiresAt where e: "DecodeItemEnvelopeB64 env (EnvelopeB64 object) = Inr e"
    and t: "message_times now object e = Inr (createdAt, expiresAt)"
    and m: "msg = \<lparr>MID = ItemID object, MFrom = From e, MTo = To e, MPayload = PayloadB64 e,
          MCreatedAt = createdAt, MExpiresAt = expiresAt, MDelivered = False, MDeliveredAt = None\<rparr>"
    and o: "HopCount object \<le> 65535" "ItemID object = ComputeTransferObjectItemID object" "isDigestHex (ItemID object)"
    by (auto simp: transferObjectToMessage_def not_less IsDigestHexID_def)
  from e have z: "CreatedAt e = 0" "ExpiresAt e = 0"
    by (auto simp: DecodeItemEnvelopeB64_def parseCanonicalItemEnvelope_def split: option.splits if_splits)
  from t z have "createdAt = toUTC now" "expiresAt = toUTC (time_UnixMilli (sint (ExpiryUnixMS object)))"
    by (auto simp: message_times_def Let_def split: if_splits)
  with e m o show ?thesis by (intro that) simp_all
qed

lemma persist_step:
  assumes "bolt api" and "env_reachable api lo ed" and "good_env e" and "PersistEnvelope api lo ed e = (ed', r)"
  shows "env_reachable api lo ed'"
    and "i \<noteq> EID e \<Longrightarrow> GetEnvelopeByID api ed' i = GetEnvelopeByID api ed i"
    and "r = Inr () \<Longrightarrow> GetEnvelopeByID api ed' (EID e) = Inr (stored_envelope e)"
proof -
  show "env_reachable api lo ed'" using env_reachable.Persist [OF assms(2,3)] assms(4) by simp
  have ok: "r = Inr () \<Longrightarrow> bget api (BucketEnvelopes ed') = (bget api (BucketEnvelopes ed))(EID e \<mapsto> EncodeEnvelopeRecord e)"
    using bolt.persist_env_buckets(1) [OF assms(1)] assms(4) by blast
  have err: "r \<noteq> Inr () \<Longrightarrow> ed' = ed"
    using assms(4) by (cases r) (auto simp: PersistEnvelope_def db_update_Inl)
  show "i \<noteq> EID e \<Longrightarrow> GetEnvelopeByID api ed' i = GetEnvelopeByID api ed i"
    using ok err by (cases "r = Inr ()") (simp_all add: GetEnvelopeByID_def)
  show "r = Inr () \<Longrightarrow> GetEnvelopeByID api ed' (EID e) = Inr (stored_envelope e)"
    using ok assms(3) by (simp add: GetEnvelopeByID_def good_env_def DecodeEnvelopeRecord_Encode)
qed

lemma stored_good:
  assumes "bolt api" and "env_reachable api lo ed" and "GetEnvelopeByID api ed i = Inr e"
  shows "good_env e" and "EID e = i"
proof -
  from assms(3) obtain bs where "bget api (BucketEnvelopes ed) i = Some bs"
    by (auto simp: GetEnvelopeByID_def split: option.splits)
  with env_reachable_inv [OF assms(1,2)] obtain e0 where "env_record api ed i e0" unfolding env_inv_def by blast
  then have "e = stored_envelope e0" "good_env e0" "EID e0 = i"
    using assms(3) by (auto simp: env_record_def GetEnvelopeByID_def good_env_def DecodeEnvelopeRecord_Encode)
  then show "good_env e" and "EID e = i"
    by (simp_all add: good_env_def envelope_fits_def stored_envelope_def local_time_def)
qed

lemma persistEnvelopeState_step:
  assumes "bolt api" and "env_reachable api lo ed" and "good_env (envelopeFromMessage msg origin)" and "length origin < 65536"
    and "persistEnvelopeState (Some (bbolt_envelope_store api lo)) ed msg origin = (ed', r)"
  shows "env_reachable api lo ed'"
    and "i \<noteq> MID msg \<Longrightarrow> GetEnvelopeByID api ed' i = GetEnvelopeByID api ed i"
proof -
  have fill: "good_env (fill_origin e origin) \<and> EID (fill_origin e origin) = EID e" if "good_env e" for e
    using that assms(4) by (simp add: fill_origin_def good_env_def envelope_fits_def)
  have "ed' = ed \<or> (\<exists>e r'. good_env e \<and> EID e = MID msg \<and> PersistEnvelope api lo ed e = (ed', r'))"
  proof (cases "GetEnvelopeByID api ed (MID msg)")
    case (Inl err)
    from fill [OF assms(3)] have "EID (fill_origin (envelopeFromMessage msg origin) origin) = MID msg"
      by (simp add: envelopeFromMessage_def)
    with Inl assms(5) fill [OF assms(3)] show ?thesis
      by (auto simp: persistEnvelopeState_def Let_def split: prod.splits sum.splits if_splits)
  next
    case (Inr e)
    with assms(5) fill [of e] stored_good [OF assms(1,2) Inr] show ?thesis
      by (auto simp: persistEnvelopeState_def Let_def split: prod.splits sum.splits)
  qed
  then show "env_reachable api lo ed'"
    and "i \<noteq> MID msg \<Longrightarrow> GetEnvelopeByID api ed' i = GetEnvelopeByID api ed i"
    using persist_step [OF assms(1,2)] assms(2) by metis+
qed

text \<open>What fits the record format: lengths, and times that are nanoseconds in an \<open>int64\<close>.\<close>

definition import_fits :: "wire_env \<Rightarrow> string \<Rightarrow> gotime \<Rightarrow> TransferObject \<Rightarrow> bool" where
  "import_fits env origin now object \<longleftrightarrow> length origin < 65536 \<and> fits64 (instant now) \<and>
     fits64 (sint (ExpiryUnixMS object) * millisecond) \<and>
     (\<forall>bs. b64_decode True (EnvelopeB64 object) = Some bs \<longrightarrow> length bs < 2 ^ 32) \<and>
     (\<forall>e. DecodeItemEnvelopeB64 env (EnvelopeB64 object) = Inr e \<longrightarrow> length (PayloadB64 e) < 2 ^ 32)"

lemma decoded_to:
  assumes "DecodeItemEnvelopeB64 env b64 = Inr e"
  shows "length (To e) = 64" and "NUL \<notin> set (To e)"
proof -
  from assms obtain bs where "parseCanonicalItemEnvelope env bs = Inr e" by (auto simp: DecodeItemEnvelopeB64_def)
  from parseCanonicalItemEnvelope_verified [OF this] obtain toID where "To e = hex_encode toID" "length toID = 32"
    unfolding verified_envelope_def by blast
  then show "length (To e) = 64" and "NUL \<notin> set (To e)" by simp_all
qed

lemma sint_small:
  assumes "x \<le> (65535 :: u64)"
  shows "0 \<le> sint x" and "sint x < 65536"
proof -
  have u: "uint x \<le> 65535" using assms word_le_def [of x 65535] by simp
  have "sint x = uint x" unfolding sint_uint using u
    by (intro signed_take_bit_int_eq_self) (simp_all add: order.trans [OF _ uint_ge_0] le_less_trans)
  with u show "0 \<le> sint x" and "sint x < 65536" by simp_all
qed

lemma imported_good:
  assumes "import_fits env origin now object" and "transferObjectToMessage env now object = Inr msg"
    and "b64_decode True (EnvelopeB64 object) = Some bs"
  shows "length sender < 65536 \<Longrightarrow> good_env (transfer_envelope object bs msg (sint (HopCount object)) sender)"
    and "good_env (envelopeFromMessage msg origin)"
proof -
  from toMessage_ok [OF assms(2)] obtain e where e: "DecodeItemEnvelopeB64 env (EnvelopeB64 object) = Inr e"
    and m: "MID msg = ItemID object" "MTo msg = To e" "MPayload msg = PayloadB64 e" "MCreatedAt msg = toUTC now"
      "MExpiresAt msg = toUTC (time_UnixMilli (sint (ExpiryUnixMS object)))"
    and o: "HopCount object \<le> 65535" "isDigestHex (ItemID object)" by blast
  have "length (ItemID object) = 64" using o(2) by (rule isDigestHex_length)
  with assms(1,3) e m decoded_to [OF e] sint_small [OF o(1)] show
    "length sender < 65536 \<Longrightarrow> good_env (transfer_envelope object bs msg (sint (HopCount object)) sender)"
    "good_env (envelopeFromMessage msg origin)"
    by (simp_all add: good_env_def envelope_fits_def transfer_envelope_def envelopeFromMessage_def import_fits_def
        toUTC_def time_UnixMilli_def)
qed

text \<open>An import touches the record of its item only, and an accepted item is stored with its bytes.\<close>

definition stored_item :: "'b bolt_api \<Rightarrow> wire_env \<Rightarrow> gotime \<Rightarrow> string \<Rightarrow> TransferObject \<Rightarrow> 'b env_db \<Rightarrow> bool" where
  "stored_item api env now sender object ed \<longleftrightarrow> (\<exists>msg bs. transferObjectToMessage env now object = Inr msg \<and>
     b64_decode True (EnvelopeB64 object) = Some bs \<and> GetEnvelopeByID api ed (ItemID object) =
       Inr (stored_envelope (transfer_envelope object bs msg (sint (HopCount object)) sender)))"

definition only_item :: "'b bolt_api \<Rightarrow> (int \<Rightarrow> int) \<Rightarrow> string \<Rightarrow> 'b env_db \<Rightarrow> 'b env_db \<Rightarrow> bool" where
  "only_item api lo i ed ed' \<longleftrightarrow> env_reachable api lo ed' \<and>
     (\<forall>j. j \<noteq> i \<longrightarrow> GetEnvelopeByID api ed' j = GetEnvelopeByID api ed j)"

lemma persist_transfer_step:
  fixes h :: "('b msg_db, 'b env_db) WSHandler"
  assumes "bolt api" and "env_reachable api lo ed" and "bbolt_handler api lo h" and "import_fits env origin now object"
    and sender: "length sender < 65536"
    and m: "transferObjectToMessage env now object = Inr msg"
    and r: "persistTransferEnvelope h ed object msg (sint (HopCount object)) sender = (ed', r)"
  shows "only_item api lo (ItemID object) ed ed'" and "r = Inr () \<Longrightarrow> stored_item api env now sender object ed'"
proof -
  from toMessage_ok [OF m] obtain e where e: "DecodeItemEnvelopeB64 env (EnvelopeB64 object) = Inr e"
    and id: "MID msg = ItemID object" by blast
  from e obtain bs where bs: "b64_decode True (EnvelopeB64 object) = Some bs"
    by (auto simp: DecodeItemEnvelopeB64_def decodeBase64URLRaw_def split: if_splits option.splits)
  let ?e = "transfer_envelope object bs msg (sint (HopCount object)) sender"
  have eid: "EID ?e = ItemID object" by (simp add: transfer_envelope_def id)
  from r assms(3) bs obtain pr where p: "PersistEnvelope api lo ed ?e = (ed', pr)" "r = mapErr EnvelopeStoreFailed pr"
    by (auto simp: persistTransferEnvelope_def bbolt_handler_def split: prod.splits)
  note step = persist_step [OF assms(1,2) imported_good(1) [OF assms(4) m bs sender] p(1), unfolded eid]
  show "only_item api lo (ItemID object) ed ed'" using step(1,2) by (simp add: only_item_def)
  show "r = Inr () \<Longrightarrow> stored_item api env now sender object ed'" using step(3) p(2) m bs by (auto simp: stored_item_def)
qed

lemma engine_persist_step:
  fixes h :: "('b msg_db, 'b env_db) WSHandler"
  assumes "bolt api" and "env_reachable api lo ed" and "bbolt_handler api lo h" and "import_fits (wire w) (relayID (engine h)) now object"
    and m: "transferObjectToMessage (wire w) now object = Inr msg"
    and p: "EnginePersistMessage (store h) (envelopeStore h) (engine h) d ed (Some msg) = (d1, ed1, r1)"
  shows "only_item api lo (ItemID object) ed ed1"
proof -
  from toMessage_ok [OF m] obtain e where e: "DecodeItemEnvelopeB64 (wire w) (EnvelopeB64 object) = Inr e"
    and id: "MID msg = ItemID object" by blast
  from e obtain bs where bs: "b64_decode True (EnvelopeB64 object) = Some bs"
    by (auto simp: DecodeItemEnvelopeB64_def decodeBase64URLRaw_def split: if_splits option.splits)
  have len: "length (relayID (engine h)) < 65536" using assms(4) by (simp add: import_fits_def)
  from p assms(3) have "ed1 = ed \<or> (\<exists>q. persistEnvelopeState (Some (bbolt_envelope_store api lo)) ed msg (relayID (engine h)) = (ed1, q))"
    by (auto simp: EnginePersistMessage_def bbolt_handler_def split: prod.splits sum.splits)
  then show ?thesis
    using persistEnvelopeState_step [OF assms(1,2) imported_good(2) [OF assms(4) m bs] len] assms(2) id
    by (auto simp: only_item_def)
qed

lemma import_object_step:
  fixes u :: "('b msg_db, 'b env_db) hub"
  assumes a: "bolt api" "env_reachable api lo (edb u)" "bbolt_handler api lo h" "import_fits (wire w) (relayID (engine h)) now object"
    and r: "import_object w h now object u = (u', r)"
  shows "only_item api lo (ItemID object) (edb u) (edb u')"
    and "r = Inr (Some recipient) \<Longrightarrow> stored_item api (wire w) now [] object (edb u')"
proof -
  have same: "only_item api lo (ItemID object) (edb u) (edb u)" using a(2) by (simp add: only_item_def)
  have "only_item api lo (ItemID object) (edb u) (edb u') \<and>
    (r = Inr (Some recipient) \<longrightarrow> stored_item api (wire w) now [] object (edb u'))"
  proof (cases "transferObjectToMessage (wire w) now object")
    case (Inl issue)
    with r same show ?thesis by (auto simp: import_object_def)
  next
    case (Inr msg)
    define fin :: "('b msg_db, 'b env_db) hub \<Rightarrow> ('b msg_db, 'b env_db) hub \<times> (serr + string option)" where
      "fin = (\<lambda>u. case persistTransferEnvelope h (edb u) object msg (sint (HopCount object)) [] of
        (ed, Inl issue) \<Rightarrow> (u\<lparr>edb := ed\<rparr>, Inr None) | (ed, Inr _) \<Rightarrow> (u\<lparr>edb := ed\<rparr>, Inr (Some (MTo msg))))"
    have finish: ?thesis if f: "fin u1 = (u', r)" and u1: "only_item api lo (ItemID object) (edb u) (edb u1)" for u1
    proof -
      obtain ed pr where p: "persistTransferEnvelope h (edb u1) object msg (sint (HopCount object)) [] = (ed, pr)" by fastforce
      note step = persist_transfer_step [OF a(1) _ a(3,4) _ Inr p, simplified]
      from p f have "edb u' = ed" "r = Inr (Some recipient) \<Longrightarrow> pr = Inr ()" by (auto simp: fin_def split: sum.splits)
      with step u1 show ?thesis by (auto simp: only_item_def)
    qed
    obtain d1 ed1 r1 where p: "EnginePersistMessage (store h) (envelopeStore h) (engine h) (db u) (edb u) (Some msg) = (d1, ed1, r1)"
      by (metis prod_cases3)
    note eng = engine_persist_step [OF a Inr p]
    have eq: "import_object w h now object u = (case sGetMessageByID (store h) (db u) (ItemID object) of
        Inr existing \<Rightarrow> fin u
      | Inl err \<Rightarrow> if \<not> isNotFoundError err then (u, Inl err)
          else case r1 of Inl err \<Rightarrow> (u\<lparr>db := d1, edb := ed1\<rparr>, Inr None) | Inr _ \<Rightarrow> fin (u\<lparr>db := d1, edb := ed1\<rparr>))"
      by (cases "sGetMessageByID (store h) (db u) (ItemID object)"; cases r1) (simp_all add: import_object_def Let_def Inr p fin_def)
    show ?thesis
    proof (cases "sGetMessageByID (store h) (db u) (ItemID object)")
      case found: (Inr existing)
      with r eq have "fin u = (u', r)" by simp
      then show ?thesis by (rule finish [OF _ same])
    next
      case (Inl err)
      show ?thesis
      proof (cases "isNotFoundError err \<and> r1 = Inr ()")
        case True
        with r eq Inl have "fin (u\<lparr>db := d1, edb := ed1\<rparr>) = (u', r)" by simp
        then show ?thesis by (rule finish) (simp add: eng)
      next
        case False
        with r eq Inl have "edb u' \<in> {edb u, ed1} \<and> r \<noteq> Inr (Some recipient)"
          by (cases r1) (auto split: if_splits)
        with same eng show ?thesis by auto
      qed
    qed
  qed
  then show "only_item api lo (ItemID object) (edb u) (edb u')"
    and "r = Inr (Some recipient) \<Longrightarrow> stored_item api (wire w) now [] object (edb u')" by blast+
qed

lemma import_loop_step:
  fixes u :: "('b msg_db, 'b env_db) hub"
  assumes "bolt api" and "env_reachable api lo (edb u)" and "bbolt_handler api lo h"
    and "\<forall>object \<in> set objects. import_fits (wire w) (relayID (engine h)) now object" and "distinct (map ItemID objects)"
    and "import_loop w h now objects accepted notify u = (u', Inr (accepted', notify'))"
  shows "env_reachable api lo (edb u') \<and>
    (\<forall>i. i \<notin> ItemID ` set objects \<longrightarrow> GetEnvelopeByID api (edb u') i = GetEnvelopeByID api (edb u) i) \<and>
    (\<forall>i \<in> set accepted'. i \<in> set accepted \<or> (\<exists>object \<in> set objects. ItemID object = i \<and> stored_item api (wire w) now [] object (edb u')))"
  using assms
proof (induction objects arbitrary: accepted notify u)
  case (Cons object rest)
  obtain u1 r1 where i1: "import_object w h now object u = (u1, r1)" by fastforce
  have fits: "import_fits (wire w) (relayID (engine h)) now object" using Cons.prems(4) by simp
  note step = import_object_step [OF Cons.prems(1-3) fits i1]
  from Cons.prems(6) i1 obtain acc not where l: "import_loop w h now rest acc not u1 = (u', Inr (accepted', notify'))"
    and acc: "set acc \<subseteq> set accepted \<or> (\<exists>recipient. r1 = Inr (Some recipient)) \<and> set acc = insert (ItemID object) (set accepted)"
    by (auto split: sum.splits option.splits)
  have reach: "env_reachable api lo (edb u1)" using step(1) by (simp add: only_item_def)
  from Cons.IH [OF Cons.prems(1) reach Cons.prems(3) _ _ l] Cons.prems(4,5)
  have rest: "env_reachable api lo (edb u')"
    "\<And>i. i \<notin> ItemID ` set rest \<Longrightarrow> GetEnvelopeByID api (edb u') i = GetEnvelopeByID api (edb u1) i"
    "\<And>i. i \<in> set accepted' \<Longrightarrow> i \<in> set acc \<or> (\<exists>object \<in> set rest. ItemID object = i \<and> stored_item api (wire w) now [] object (edb u'))"
    by auto
  have new: "stored_item api (wire w) now [] object (edb u')" if "r1 = Inr (Some recipient)" for recipient
    using step(2) [OF that] rest(2) [of "ItemID object"] Cons.prems(5) by (simp add: stored_item_def)
  have "GetEnvelopeByID api (edb u') i = GetEnvelopeByID api (edb u) i" if "i \<notin> ItemID ` set (object # rest)" for i
    using that rest(2) [of i] step(1) by (simp add: only_item_def)
  moreover have "i \<in> set accepted \<or> (\<exists>object \<in> set (object # rest). ItemID object = i \<and> stored_item api (wire w) now [] object (edb u'))"
    if "i \<in> set accepted'" for i
    using rest(3) [OF that] acc new by auto
  ultimately show ?case using rest(1) by blast
qed simp

text \<open>A stored item is served as it came: the same bytes, expiry and hop count.\<close>

lemma stored_item_served:
  fixes u :: "('b msg_db, 'b env_db) hub"
  assumes h: "bbolt_handler api lo h" and fits: "import_fits env origin now object" and st: "stored_item api env now sender object (edb u)"
  shows "\<exists>e. DecodeItemEnvelopeB64 env (EnvelopeB64 object) = Inr e \<and>
    loadTransferObjectByItemID env h u (ItemID object) =
      Inr (Some (object\<lparr>EnvelopeB64 := filter (\<lambda>c. \<not> is_newline c) (EnvelopeB64 object), Envelope := e\<rparr>))"
proof -
  from st obtain msg bs where m: "transferObjectToMessage env now object = Inr msg"
    and bs: "b64_decode True (EnvelopeB64 object) = Some bs"
    and g: "GetEnvelopeByID api (edb u) (ItemID object) =
      Inr (stored_envelope (transfer_envelope object bs msg (sint (HopCount object)) sender))"
    by (auto simp: stored_item_def)
  from toMessage_ok [OF m] obtain e where e: "DecodeItemEnvelopeB64 env (EnvelopeB64 object) = Inr e"
    and x: "MExpiresAt msg = toUTC (time_UnixMilli (sint (ExpiryUnixMS object)))"
    and id: "ItemID object = ComputeTransferObjectItemID object" "isDigestHex (ItemID object)" by blast
  from e bs have raw: "decodeBase64URLRaw (EnvelopeB64 object) = Inr bs" "bs \<noteq> []"
    by (auto simp: DecodeItemEnvelopeB64_def decodeBase64URLRaw_def split: if_splits)
  have enc: "b64_encode bs = filter (\<lambda>c. \<not> is_newline c) (EnvelopeB64 object)"
    by (rule b64_decode_strict_canonical [OF bs])
  have "CHR ''='' \<notin> set (b64_encode bs)" using b64_encode_not_space by blast
  moreover have "b64_encode bs \<noteq> []"
  proof
    assume nil: "b64_encode bs = []"
    have "b64_encode [] = []" by (simp add: b64_encode_def)
    with nil b64_decode_encode [of True bs] b64_decode_encode [of True "[]"] raw(2) show False by simp
  qed
  ultimately have again: "decodeBase64URLRaw (b64_encode bs) = Inr bs" using raw(2) by (simp add: decodeBase64URLRaw_def)
  have "fits64 (sint (ExpiryUnixMS object) * millisecond)" using fits by (simp add: import_fits_def)
  then have "fits64 (sint (ExpiryUnixMS object))" unfolding fits64_def by linarith
  then have t: "UnixMilli (toUTC (local_time (MExpiresAt msg))) = sint (ExpiryUnixMS object)"
    by (simp add: UnixMilli_def x toUTC_def local_time_def time_UnixMilli_def s64_id)
  from e raw again have "DecodeItemEnvelopeB64 env (b64_encode bs) = Inr e" by (simp add: DecodeItemEnvelopeB64_def)
  moreover from id(1) raw have "ItemID object = hex_encode (sha256 bs)" by (simp add: ComputeTransferObjectItemID_def)
  ultimately show ?thesis
    using h g e id(2) raw(2) t again enc
    by (simp add: loadTransferObjectByItemID_def bbolt_handler_def IsDigestHexID_def stored_envelope_def
        transfer_envelope_def ComputeTransferObjectItemID_def)
qed

subsection \<open>Sending leaves the stores alone\<close>

definition same_stores :: "('d, 'e) hub \<Rightarrow> ('d, 'e) hub \<Rightarrow> bool" where
  "same_stores u u' \<longleftrightarrow> db u' = db u \<and> edb u' = edb u"

lemma same_stores_refl [simp]: "same_stores u u"
  by (simp add: same_stores_def)

lemma same_stores_fold: "(\<And>x u. same_stores u (f x u)) \<Longrightarrow> same_stores u (fold f xs u)"
  by (induction xs arbitrary: u) (auto simp: same_stores_def)

lemma sendBinary_stores: "same_stores u (fst (sendBinary w u p data))"
  by (simp add: sendBinary_def same_stores_def)

lemma push_stores:
  "same_stores u (push_one w h now recipient src excluded p u)"
  "same_stores u (pushSummaryToOnlineRecipient w h now src recipient excluded u)"
  "same_stores u (pushSummariesToOnlineRecipients w h now sid p' recipients u)"
proof -
  show one: "same_stores u (push_one w h now recipient src excluded p u)" for u p recipient src excluded
    using sendBinary_stores by (auto simp: push_one_def Let_def split: sum.splits prod.splits)
  then show all: "same_stores u (pushSummaryToOnlineRecipient w h now src recipient excluded u)" for u recipient src excluded
    by (simp add: pushSummaryToOnlineRecipient_def same_stores_fold)
  have "same_stores u (enqueueRecipientSummaryPush sid src recipient u)" for u :: "('a, 'b) hub" and src recipient
    by (simp add: enqueueRecipientSummaryPush_def AfterFunc_def Let_def same_stores_def split: option.splits)
  with all show "same_stores u (pushSummariesToOnlineRecipients w h now sid p' recipients u)"
    by (auto simp: pushSummariesToOnlineRecipients_def push_recipient_def intro!: same_stores_fold)
qed

lemma sendEnvelope_stores:
  assumes "sendEnvelope w h now frameType payload (s, u) = ((s', u'), r)"
  shows "same_stores u u'"
    and "r = Inr () \<Longrightarrow> \<exists>frame. encode_frame (wire w) frameType payload = Inr frame \<and>
      sent u' (client s) = sent u (client s) @ [frame]"
proof -
  obtain s1 d1 where e: "ensureDrainSession h now s = (s1, d1)" by fastforce
  then have c: "client s1 = client s" using ensure_cases(1) [OF e] by (simp add: keeps_def)
  have "same_stores u u' \<and> (r = Inr () \<longrightarrow> (\<exists>frame. encode_frame (wire w) frameType payload = Inr frame \<and>
      sent u' (client s) = sent u (client s) @ [frame]))"
  proof (cases "encode_frame (wire w) frameType payload")
    case (Inl err)
    with assms show ?thesis by (auto simp: sendEnvelope_def)
  next
    case (Inr frame)
    obtain u1 q where b: "sendBinary w u (client s) frame = (u1, q)" by fastforce
    then have "same_stores u u1" "q \<Longrightarrow> sent u1 (client s) = sent u (client s) @ [frame]"
      by (auto simp: sendBinary_def same_stores_def split: if_splits)
    with assms Inr e b c show ?thesis by (auto simp: sendEnvelope_def split: prod.splits if_splits)
  qed
  then show "same_stores u u'" and "r = Inr () \<Longrightarrow> \<exists>frame. encode_frame (wire w) frameType payload = Inr frame \<and>
      sent u' (client s) = sent u (client s) @ [frame]" by blast+
qed

lemma same_stores_load:
  "same_stores u u' \<Longrightarrow> loadTransferObjectByItemID env h u' i = loadTransferObjectByItemID env h u i"
  by (cases "envelopeStore h") (simp_all add: loadTransferObjectByItemID_def same_stores_def)

lemma handleTransfer_ok:
  assumes "handleTransfer w h now ev (s, u) = ((s', u'), Inr ())" and "ETransfer ev = Some transfer"
  shows "\<exists>u1 accepted0 accepted notify frame. import_loop w h now (map Object (Objects transfer)) [] [] u = (u1, Inr (accepted0, notify)) \<and>
    set accepted = set accepted0 \<and> same_stores u1 u' \<and>
    encode_frame (wire w) FrameTypeReceipt (GMapS (receipt_fields \<lparr>Accepted = accepted\<rparr>)) = Inr frame \<and>
    last (sent u' (client s)) = frame"
proof -
  obtain s1 d1 where e: "ensureDrainSession h now s = (s1, d1)" by fastforce
  obtain u1 r where i: "import_loop w h now (map Object (Objects transfer)) [] [] u = (u1, r)" by fastforce
  with assms e obtain accepted0 notify where r: "r = Inr (accepted0, notify)"
    by (cases r) (auto simp: handleTransfer_def)
  define accepted where "accepted = (if length accepted0 > 1 then SortDigestHexIDs accepted0 else accepted0)"
  define s2 where "s2 = on_drain h now (\<lambda>d. RecordTransferred d (int (length accepted)) now)
      (s1\<lparr>lastRoundTransferred := int (length accepted)\<rparr>)"
  define u2 where "u2 = (if length accepted > 0 then pushSummariesToOnlineRecipients w h now (sessionID s2) (client s2) notify u1 else u1)"
  define s3 where "s3 = on_drain h now (\<lambda>d. CompleteRound d (length accepted > 0) now) s2"
  have send: "sendEnvelope w h now FrameTypeReceipt (GMapS (receipt_fields \<lparr>Accepted = accepted\<rparr>)) (s3, u2) = ((s', u'), Inr ())"
    using assms(1) by (simp only: handleTransfer_def prod.case e assms(2) option.case i r sum.case Let_def
        accepted_def s2_def u2_def s3_def)
  have "keeps s s3" using ensure_cases(1) [OF e] by (simp add: s3_def s2_def)
  then have c: "client s3 = client s" by (simp add: keeps_def)
  have "same_stores u1 u2" by (simp add: u2_def push_stores(3))
  with sendEnvelope_stores(1) [OF send] have "same_stores u1 u'" by (simp add: same_stores_def)
  moreover from sendEnvelope_stores(2) [OF send] obtain frame where
    "encode_frame (wire w) FrameTypeReceipt (GMapS (receipt_fields \<lparr>Accepted = accepted\<rparr>)) = Inr frame"
    "last (sent u' (client s)) = frame" unfolding c by auto
  moreover have "set accepted = set accepted0" by (simp add: accepted_def SortDigestHexIDs_def)
  ultimately show ?thesis using i r by blast
qed

subsection \<open>Acknowledged items\<close>

lemma sendDrainSummary_stores:
  assumes "sendDrainSummary w h now b (s, u) = ((s', u'), r)"
  shows "same_stores u u'"
proof -
  obtain s1 d1 where e: "ensureDrainSession h now s = (s1, d1)" by fastforce
  have "same_stores u (snd (fst (sendEnvelope w h now ft pl (s2, u))))" for ft pl s2
    using sendEnvelope_stores(1) [of w h now ft pl s2 u] by (metis prod.collapse)
  with e have "same_stores u (snd (fst (sendDrainSummary w h now b (s, u))))"
    by (simp add: sendDrainSummary_def Let_def split: prod.splits sum.splits)
  with assms show ?thesis by simp
qed

lemma handleReceipt_acks:
  fixes u :: "('b msg_db, 'b env_db) hub"
  assumes "bolt api" and "bbolt_handler api lo h" and "EReceipt ev = Some receipt" and "i \<in> set (Accepted receipt)"
    and "\<forall>j \<in> set (Accepted receipt). isDigestHex j"
    and "handleReceipt w h now ev (s, u) = ((s', u'), r)" and "r \<noteq> Inl (stopSession DrainStopReasonStorageError)"
  shows "IsAckedBy api (db u') i (cDeliveryID (clientInfo u (client s))) = Inr True" and "edb u' = edb u"
proof -
  let ?id = "cDeliveryID (clientInfo u (client s))"
  obtain s1 d1 where e: "ensureDrainSession h now s = (s1, d1)" by fastforce
  then have c: "client s1 = client s" using ensure_cases(1) [OF e] by (simp add: keeps_def)
  obtain d' res where m: "MarkAckedBatch api lo now (db u) (Accepted receipt) ?id = (d', res)" by fastforce
  have nul: "list_all (\<lambda>i. NUL \<notin> set i) (Accepted receipt)" "NUL \<notin> set i" "i \<noteq> []"
    using assms(4,5) isDigestHex_no_NUL isDigestHex_length [of i] by (auto simp: list_all_iff)
  have st: "store h = bbolt_store api lo" using assms(2) by (simp add: bbolt_handler_def)
  from assms(6,7) e m st c assms(3) obtain tr where tr: "res = Inr tr" by (cases res) (auto simp: handleReceipt_def)
  from ack_batch_effect [OF assms(1) nul(1,2), where lo = lo and now = now and db = "db u" and r = ?id] m tr nul(3) assms(4)
  have acked: "IsAckedBy api d' i ?id = Inr True" by simp
  have "same_stores (u\<lparr>db := d'\<rparr>) (snd (fst (sendDrainSummary w h now False (s2, u\<lparr>db := d'\<rparr>))))" for s2
    using sendDrainSummary_stores by (metis prod.collapse)
  then have "same_stores (u\<lparr>db := d'\<rparr>) (snd (fst (handleReceipt w h now ev (s, u))))"
    using e m st c assms(3) tr by (simp add: handleReceipt_def Let_def split: prod.splits)
  with assms(6) acked show "IsAckedBy api (db u') i ?id = Inr True" and "edb u' = edb u" by (simp_all add: same_stores_def)
qed

subsection \<open>Debounced pushes\<close>

lemma push_one_frames:
  "sent (push_one w h now recipient src excluded p u) q =
     (if q = p then sent (push_one w h now recipient src excluded p u) p else sent u q)"
  "src = Some p \<or> p \<in> excluded \<Longrightarrow> push_one w h now recipient src excluded p u = u"
  "length (sent (push_one w h now recipient src excluded p u) p) \<le> Suc (length (sent u p))"
  by (auto simp: push_one_def Let_def sendBinary_def split: sum.splits prod.splits)

lemma push_fold_frames:
  assumes "distinct ps"
  shows "(q \<notin> set ps \<or> q \<in> excluded \<longrightarrow> sent (fold (push_one w h now recipient src excluded) ps u) q = sent u q) \<and>
    length (sent (fold (push_one w h now recipient src excluded) ps u) q) \<le> Suc (length (sent u q))"
  using assms
proof (induction ps arbitrary: u)
  case (Cons p ps)
  let ?u = "push_one w h now recipient src excluded p u"
  note IH = Cons.IH [of ?u]
  show ?case
  proof (cases "q = p")
    case True
    with Cons.prems IH push_one_frames(2) [of src p excluded w h now recipient u]
      push_one_frames(3) [of w h now recipient src excluded p u] show ?thesis by auto
  next
    case False
    with Cons.prems IH push_one_frames(1) [of w h now recipient src excluded p u q] show ?thesis by auto
  qed
qed simp

text \<open>What one push does to the channel of its client depends on the stores and on that client only.\<close>

lemma buildRecipientSummary_cong:
  assumes "db u = db v" and "edb u = edb v"
  shows "buildRecipientSummary h now u r i c = buildRecipientSummary h now v r i c"
  unfolding buildRecipientSummary_def assms ..

lemma push_one_cong:
  assumes "db u = db v" and "edb u = edb v" and "clients u = clients v" and "clientInfo u = clientInfo v" and "sent u p = sent v p"
  shows "sent (push_one w h now recipient src excluded p u) p = sent (push_one w h now recipient src excluded p v) p"
  using buildRecipientSummary_cong [OF assms(1,2)] assms(3-5)
  by (simp add: push_one_def sendBinary_def Let_def split: sum.splits prod.splits)

lemma push_one_frame:
  assumes "src \<noteq> Some p" and "p \<notin> excluded" and "cDeliveryID (clientInfo u p) \<noteq> []"
    and "buildRecipientSummary h now u recipient (cDeliveryID (clientInfo u p)) [] = Inr (summary, next)" and "ItemCount summary \<noteq> 0"
    and "encode_frame (wire w) FrameTypeSummary (GMapS (summary_fields summary)) = Inr frame"
    and "p \<notin> closedSend (clients u)" and "accepts w p (sent u p) frame"
  shows "sent (push_one w h now recipient src excluded p u) p = sent u p @ [frame]"
  using assms by (simp add: push_one_def sendBinary_def)

lemma push_one_same:
  "db (push_one w h now recipient src excluded p u) = db u" "edb (push_one w h now recipient src excluded p u) = edb u"
  "clients (push_one w h now recipient src excluded p u) = clients u"
  "clientInfo (push_one w h now recipient src excluded p u) = clientInfo u"
  "pushTimers (push_one w h now recipient src excluded p u) = pushTimers u"
  "armedTimers (push_one w h now recipient src excluded p u) = armedTimers u"
  "pushExcluded (push_one w h now recipient src excluded p u) = pushExcluded u"
  by (simp_all add: push_one_def Let_def sendBinary_def split: sum.splits prod.splits)

lemma push_fold_exact:
  assumes "distinct ps" and "q \<in> set ps"
  shows "sent (fold (push_one w h now recipient src excluded) ps u) q = sent (push_one w h now recipient src excluded q u) q"
  using assms
proof (induction ps arbitrary: u)
  case (Cons p ps)
  let ?u = "push_one w h now recipient src excluded p u"
  show ?case
  proof (cases "q = p")
    case True
    with Cons.prems push_fold_frames [of ps q excluded w h now recipient src ?u] show ?thesis by simp
  next
    case False
    with Cons.prems Cons.IH [of ?u] have "sent (fold (push_one w h now recipient src excluded) (p # ps) u) q =
        sent (push_one w h now recipient src excluded q ?u) q" by simp
    also have "\<dots> = sent (push_one w h now recipient src excluded q u) q"
      by (rule push_one_cong) (use False push_one_frames(1) [of w h now recipient src excluded p u q] in \<open>simp_all add: push_one_same\<close>)
    finally show ?thesis .
  qed
qed simp

lemma push_fold_fields:
  "pushTimers (fold (push_one w h now recipient src excluded) ps u) = pushTimers u \<and>
   armedTimers (fold (push_one w h now recipient src excluded) ps u) = armedTimers u \<and>
   pushExcluded (fold (push_one w h now recipient src excluded) ps u) = pushExcluded u"
  by (induction ps arbitrary: u) (simp_all add: push_one_same)

abbreviation excluded_of :: "('d, 'e) hub \<Rightarrow> string \<Rightarrow> nat set" where
  "excluded_of u recipient \<equiv> case pushExcluded u recipient of None \<Rightarrow> {} | Some x \<Rightarrow> x"

lemma enqueue_fields:
  "sent (enqueueRecipientSummaryPush sid src recipient u) = sent u"
  "db (enqueueRecipientSummaryPush sid src recipient u) = db u" "edb (enqueueRecipientSummaryPush sid src recipient u) = edb u"
  "clients (enqueueRecipientSummaryPush sid src recipient u) = clients u"
  "clientInfo (enqueueRecipientSummaryPush sid src recipient u) = clientInfo u"
  "excluded_of (enqueueRecipientSummaryPush sid src recipient u) recipient =
     excluded_of u recipient \<union> (case src of None \<Rightarrow> {} | Some p \<Rightarrow> {p})"
  "pushTimers (enqueueRecipientSummaryPush sid src recipient u) recipient \<noteq> None"
  by (auto simp: enqueueRecipientSummaryPush_def AfterFunc_def Let_def split: option.splits)

abbreviation enqueue_from :: "string \<Rightarrow> (string \<times> nat) list \<Rightarrow> ('d, 'e) hub \<Rightarrow> ('d, 'e) hub" where
  "enqueue_from recipient sources \<equiv> fold (\<lambda>(sid, p). enqueueRecipientSummaryPush sid (Some p) recipient) sources"

lemma enqueue_all:
  "sent (enqueue_from recipient sources u) = sent u" "db (enqueue_from recipient sources u) = db u"
  "edb (enqueue_from recipient sources u) = edb u" "clients (enqueue_from recipient sources u) = clients u"
  "clientInfo (enqueue_from recipient sources u) = clientInfo u"
  "excluded_of (enqueue_from recipient sources u) recipient = excluded_of u recipient \<union> snd ` set sources"
  by (induction sources arbitrary: u) (auto simp: enqueue_fields)

lemma enqueue_all_timers:
  assumes "timers_inv u"
  shows "timers_inv (enqueue_from recipient sources u)"
    and "sources \<noteq> [] \<Longrightarrow> pushTimers (enqueue_from recipient sources u) recipient \<noteq> None"
proof -
  have step: "timers_inv (enqueueRecipientSummaryPush sid (Some p) recipient u)" if "timers_inv u"
    for sid p and u :: "('d, 'e) hub"
    using enqueue_extends [of undefined u sid "Some p" recipient] that by (simp add: extends_def)
  then show "timers_inv (enqueue_from recipient sources u)" using assms by (induction sources arbitrary: u) auto
  show "sources \<noteq> [] \<Longrightarrow> pushTimers (enqueue_from recipient sources u) recipient \<noteq> None"
  proof (induction sources arbitrary: u rule: rev_induct)
    case (snoc x xs)
    then show ?case using enqueue_fields(7) by (cases x) simp
  qed simp
qed

text \<open>The timer of a recipient fires: the recipient has no timer any more, and one frame at most is on each channel.\<close>

lemma fire_effect:
  assumes inv: "timers_inv u" and t: "armedTimers u t = Some recipient" and u': "u' = fire_timer w h now t u"
  shows "pushTimers u' recipient = None" and "pushExcluded u' recipient = None" and "armedTimers u' = (armedTimers u)(t := None)"
    and "length (sent u' q) \<le> Suc (length (sent u q))" and "q \<in> excluded_of u recipient \<Longrightarrow> sent u' q = sent u q"
    and "recipient \<noteq> [] \<Longrightarrow> finite (GetClients (clients u) recipient) \<Longrightarrow> q \<in> GetClients (clients u) recipient \<Longrightarrow>
      sent u' q = sent (push_one w h now recipient None (excluded_of u recipient) q u) q"
proof -
  have m: "pushTimers u recipient = Some t" using inv t unfolding timers_inv_def by blast
  let ?x = "excluded_of u recipient" and ?ps = "sorted_list_of_set (GetClients (clients u) recipient)"
  let ?u = "u\<lparr>pushTimers := (pushTimers u)(recipient := None), pushSessionID := (pushSessionID u)(recipient := None),
      pushExcluded := (pushExcluded u)(recipient := None), armedTimers := (armedTimers u)(t := None)\<rparr>"
  have eq: "u' = pushSummaryToOnlineRecipient w h now None recipient ?x ?u"
    using m t by (simp add: u' fire_timer_def flushRecipientSummaryPush_def timer_Stop_def Let_def)
  then have two: "u' = ?u \<or> u' = fold (push_one w h now recipient None ?x) ?ps ?u"
    by (simp add: pushSummaryToOnlineRecipient_def)
  from two show "pushTimers u' recipient = None" and "pushExcluded u' recipient = None" and "armedTimers u' = (armedTimers u)(t := None)"
    using push_fold_fields [of w h now recipient None ?x ?ps ?u] by (elim disjE; simp)+
  from two show "length (sent u' q) \<le> Suc (length (sent u q))" and "q \<in> ?x \<Longrightarrow> sent u' q = sent u q"
    using push_fold_frames [of ?ps q ?x w h now recipient None ?u] by (elim disjE; simp)+
  show "sent u' q = sent (push_one w h now recipient None ?x q u) q"
    if "recipient \<noteq> []" "finite (GetClients (clients u) recipient)" "q \<in> GetClients (clients u) recipient"
  proof -
    have "sent u' q = sent (push_one w h now recipient None ?x q ?u) q"
      using that push_fold_exact [of ?ps q w h now recipient None ?x ?u] by (simp add: eq pushSummaryToOnlineRecipient_def)
    also have "\<dots> = sent (push_one w h now recipient None ?x q u) q" by (rule push_one_cong) simp_all
    finally show ?thesis .
  qed
qed

lemma fire_nothing: "armedTimers u t = None \<Longrightarrow> fire_timer w h now t u = u"
  by (simp add: fire_timer_def)

abbreviation fire_all :: "ws_env \<Rightarrow> ('d, 'e) WSHandler \<Rightarrow> (gotime \<times> nat) list \<Rightarrow> ('d, 'e) hub \<Rightarrow> ('d, 'e) hub" where
  "fire_all w h \<equiv> fold (\<lambda>(now, t). fire_timer w h now t)"

lemma fire_all_nothing: "\<forall>x \<in> set firings. armedTimers u (snd x) = None \<Longrightarrow> fire_all w h firings u = u"
  by (induction firings) (auto simp: fire_nothing)

text \<open>Of the timers of one recipient only the first firing of the armed one has an effect.\<close>

lemma fire_all_once:
  assumes "timers_inv u" and "armedTimers u t = Some recipient"
    and "\<forall>x \<in> set firings. armedTimers u (snd x) \<in> {None, Some recipient}"
  shows "if t \<in> snd ` set firings then \<exists>now. fire_all w h firings u = fire_timer w h now t u else fire_all w h firings u = u"
  using assms(3)
proof (induction firings)
  case (Cons x rest)
  obtain now t' where x: "x = (now, t')" by (cases x)
  have only: "s = t" if "armedTimers u s = Some recipient" for s
    using assms(1,2) that unfolding timers_inv_def by (metis option.inject)
  show ?case
  proof (cases "t' = t")
    case True
    let ?u = "fire_timer w h now t u"
    have "armedTimers ?u = (armedTimers u)(t := None)" by (rule fire_effect(3) [OF assms(1,2) refl])
    with Cons.prems only have "\<forall>y \<in> set rest. armedTimers ?u (snd y) = None" by fastforce
    from fire_all_nothing [OF this] True x show ?thesis by auto
  next
    case False
    with Cons.prems only x have "armedTimers u t' = None" by fastforce
    with False x Cons show ?thesis by (auto simp: fire_nothing)
  qed
qed simp

subsection \<open>Properties\<close>

text \<open>
  Claim C11. A summary offers exactly what waits: over the bbolt stores, the summary built for an identity counts
  the digest ids whose stored envelope is addressed to the recipient, has not expired and was not acknowledged
  by the identity; its preview is the next page of at most 64 of them after the cursor, in order, starting
  over when nothing follows the cursor; the next cursor is the last id of the page; and its Bloom filter
  reports every one of them.
\<close>

theorem summary_offers_exactly_waiting:
  fixes u :: "('b msg_db, 'b env_db) hub"
  assumes "bolt api" and "env_reachable api lo (edb u)" and "fits64 (instant now)" and "NUL \<notin> set recipient"
    and "bbolt_handler api lo h" and "recipient \<noteq> []" and "identity \<noteq> []" and "cursor = [] \<or> isDigestHex cursor"
  shows "\<exists>U summary. sorted_wrt (<) U \<and> set U = waiting api now u recipient identity \<and>
    buildRecipientSummary h now u recipient identity cursor =
      Inr (summary, if next_page cursor U = [] then [] else last (next_page cursor U)) \<and>
    ItemCount summary = of_nat (length U) \<and> PreviewItemIDs summary = next_page cursor U \<and>
    (\<forall>i \<in> set U. BloomFilterMightContain (BloomFilter summary) i)"
  using assms by (rule summary_exact)

text \<open>
  Claim C4. What the relay acknowledges it can serve, for frames that fit the record format: this relay's id is
  shorter than 65536 bytes, the clock and the expiry of every object of the frame are within the 64-bit
  nanosecond range (before the year 2262), and every envelope and payload is below 4 GiB. When such a parsed
  TRANSFER frame is handled and its RECEIPT queued, every item id in the receipt is the id of an object of
  the frame, and looking it up for a REQUEST in the state the handler leaves gives that object back with the
  same envelope bytes, expiry and hop count, however many other objects the frame had; the envelope store
  stays well-formed.
\<close>

theorem accepted_transfers_are_served:
  fixes u :: "('b msg_db, 'b env_db) hub"
  assumes "bolt api" and "env_reachable api lo (edb u)" and "bbolt_handler api lo h"
    and "ParseTransferPayloadMixed (wire w) payload = Inr transfer" and "ETransfer ev = Some transfer"
    and "\<forall>object \<in> set (map Object (Objects transfer)). import_fits (wire w) (relayID (engine h)) now object"
    and "handleTransfer w h now ev (s, u) = ((s', u'), Inr ())"
  shows "\<exists>accepted frame. encode_frame (wire w) FrameTypeReceipt (GMapS (receipt_fields \<lparr>Accepted = accepted\<rparr>)) = Inr frame \<and>
    last (sent u' (client s)) = frame \<and> env_reachable api lo (edb u') \<and>
    (\<forall>i \<in> set accepted. \<exists>object \<in> set (map Object (Objects transfer)). \<exists>e. ItemID object = i \<and>
       loadTransferObjectByItemID (wire w) h u' i =
         Inr (Some (object\<lparr>EnvelopeB64 := filter (\<lambda>c. \<not> is_newline c) (EnvelopeB64 object), Envelope := e\<rparr>)))"
proof -
  from handleTransfer_ok [OF assms(7,5)] obtain u1 accepted0 accepted notify frame where
    i: "import_loop w h now (map Object (Objects transfer)) [] [] u = (u1, Inr (accepted0, notify))"
    and a: "set accepted = set accepted0" and st: "same_stores u1 u'"
    and f: "encode_frame (wire w) FrameTypeReceipt (GMapS (receipt_fields \<lparr>Accepted = accepted\<rparr>)) = Inr frame"
      "last (sent u' (client s)) = frame" by blast
  have d: "distinct (map ItemID (map Object (Objects transfer)))"
    using parsed_ids_distinct [OF assms(4)] by (simp add: comp_def)
  note step = import_loop_step [OF assms(1-3,6) d i]
  have "\<exists>object \<in> set (map Object (Objects transfer)). \<exists>e. ItemID object = i \<and> loadTransferObjectByItemID (wire w) h u' i =
      Inr (Some (object\<lparr>EnvelopeB64 := filter (\<lambda>c. \<not> is_newline c) (EnvelopeB64 object), Envelope := e\<rparr>))"
    if "i \<in> set accepted" for i
  proof -
    from step that a obtain object where o: "object \<in> set (map Object (Objects transfer))" "ItemID object = i"
      and s: "stored_item api (wire w) now [] object (edb u1)" by (auto simp del: set_map)
    with stored_item_served [OF assms(3) _ s] assms(6) same_stores_load [OF st] show ?thesis by metis
  qed
  moreover have "env_reachable api lo (edb u')" using step st by (simp add: same_stores_def)
  ultimately show ?thesis using f by blast
qed

lemma reached_clients:
  assumes "server_run w h (new_server d ed) evs = Some v" and "distinct (connected evs)"
  shows "timers_inv (shared v)" and "finite (GetClients (clients (shared v)) recipient)"
    and "q \<in> GetClients (clients (shared v)) recipient \<Longrightarrow>
      cDeliveryID (clientInfo (shared v) q) \<noteq> [] \<and> q \<notin> closedSend (clients (shared v)) \<and> recipient \<noteq> []"
proof -
  from server_run_inv [OF new_server_inv assms(2), of w h d ed] assms(1)
  have inv: "server_inv w (set (connected evs)) (sessions v) (shared v)" by auto
  then show "timers_inv (shared v)" by (simp add: server_inv_def)
  have "represents (clients (shared v)) (online (sessions v) (shared v))" using inv by (simp add: server_inv_def)
  note views = represents_views(1) [OF this]
  have on: "sessions v q \<noteq> None \<and> identity_ok (clientInfo (shared v) q) \<and> q \<notin> closedSend (clients (shared v)) \<and>
      cWayfarerID (clientInfo (shared v) q) = recipient" if "q \<in> GetClients (clients (shared v)) recipient" for q
    using that inv by (auto simp: views online_iff authenticated_def server_inv_def conn_inv_def split: if_splits)
  then have "GetClients (clients (shared v)) recipient \<subseteq> dom (sessions v)" by auto
  with inv show "finite (GetClients (clients (shared v)) recipient)"
    by (meson List.finite_set finite_subset server_inv_def)
  show "q \<in> GetClients (clients (shared v)) recipient \<Longrightarrow>
      cDeliveryID (clientInfo (shared v) q) \<noteq> [] \<and> q \<notin> closedSend (clients (shared v)) \<and> recipient \<noteq> []"
    using on [of q] identity_neq_nil [of "clientInfo (shared v) q"] by (auto simp: identity_ok_def DeliveryIdentity_def)
qed

text \<open>
  Claim C25. Pushes are debounced. Take a server reached by any run, and any number of transfers for a recipient
  that arrive before its timer fires: exactly one timer is armed for the recipient. However the timers armed
  for the recipient, or already spent, then fire, in whatever number and order, every channel gets at most
  one frame and the channels of the clients the transfers came from get none; once the timer has fired, the
  recipient has no timer and no exclusions left; and an online client of the recipient that is not excluded
  gets the summary of what waits for it, when there is something and its channel has room.
\<close>

theorem pushes_are_debounced:
  assumes "server_run w h (new_server d ed) evs = Some v" and "distinct (connected evs)" and "sources \<noteq> []"
    and "u = shared v" and "u1 = fold (\<lambda>(sid, p). enqueueRecipientSummaryPush sid (Some p) recipient) sources u"
  shows "\<exists>t. (\<forall>t'. armedTimers u1 t' = Some recipient \<longleftrightarrow> t' = t) \<and>
    (\<forall>firings u2. (\<forall>x \<in> set firings. armedTimers u1 (snd x) \<in> {None, Some recipient}) \<and>
        u2 = fold (\<lambda>(now, t). fire_timer w h now t) firings u1 \<longrightarrow>
       (\<forall>q. length (sent u2 q) \<le> Suc (length (sent u q))) \<and> (\<forall>q \<in> snd ` set sources. sent u2 q = sent u q) \<and>
       (t \<in> snd ` set firings \<longrightarrow> pushTimers u2 recipient = None \<and> pushExcluded u2 recipient = None \<and>
          (\<forall>t'. armedTimers u2 t' \<noteq> Some recipient))) \<and>
    (\<forall>now q summary next frame. q \<in> GetClients (clients u) recipient \<and>
       q \<notin> (case pushExcluded u recipient of None \<Rightarrow> {} | Some x \<Rightarrow> x) \<union> snd ` set sources \<and>
       buildRecipientSummary h now u recipient (cDeliveryID (clientInfo u q)) [] = Inr (summary, next) \<and> ItemCount summary \<noteq> 0 \<and>
       encode_frame (wire w) FrameTypeSummary (GMapS (summary_fields summary)) = Inr frame \<and> accepts w q (sent u q) frame \<longrightarrow>
       sent (fire_timer w h now t u1) q = sent u q @ [frame])"
proof -
  note reached = reached_clients [OF assms(1,2), folded assms(4)]
  note same = enqueue_all [of recipient sources u, folded assms(5)]
  note timers = enqueue_all_timers [OF reached(1), where recipient = recipient and sources = sources, folded assms(5)]
  from timers(2) [OF assms(3)] obtain t where m: "pushTimers u1 recipient = Some t" by blast
  with timers(1) have t: "armedTimers u1 t' = Some recipient \<longleftrightarrow> t' = t" for t' unfolding timers_inv_def by (metis option.inject)
  then have armed: "armedTimers u1 t = Some recipient" by simp
  note fired = fire_effect [OF timers(1) armed refl, where w = w and h = h]
  have once: "(\<forall>q. length (sent u2 q) \<le> Suc (length (sent u q))) \<and> (\<forall>q \<in> snd ` set sources. sent u2 q = sent u q) \<and>
       (t \<in> snd ` set firings \<longrightarrow> pushTimers u2 recipient = None \<and> pushExcluded u2 recipient = None \<and>
          (\<forall>t'. armedTimers u2 t' \<noteq> Some recipient))"
    if "\<forall>x \<in> set firings. armedTimers u1 (snd x) \<in> {None, Some recipient}" "u2 = fire_all w h firings u1" for firings u2
  proof -
    from fire_all_once [OF timers(1) armed that(1), of w h] that(2)
    consider "t \<notin> snd ` set firings" "u2 = u1" | now where "u2 = fire_timer w h now t u1" by (auto split: if_splits)
    then show ?thesis
    proof cases
      case 1
      with same show ?thesis by simp
    next
      case (2 now)
      have "q \<in> excluded_of u1 recipient" if "q \<in> snd ` set sources" for q using that same(6) by simp
      with 2 fired [where now = now] t same(1) show ?thesis by auto
    qed
  qed
  have sends: "sent (fire_timer w h now t u1) q = sent u q @ [frame]"
    if q: "q \<in> GetClients (clients u) recipient" "q \<notin> excluded_of u recipient \<union> snd ` set sources"
      and b: "buildRecipientSummary h now u recipient (cDeliveryID (clientInfo u q)) [] = Inr (summary, next)" "ItemCount summary \<noteq> 0"
        "encode_frame (wire w) FrameTypeSummary (GMapS (summary_fields summary)) = Inr frame" "accepts w q (sent u q) frame"
    for now q summary "next" frame
  proof -
    note buildRecipientSummary_cong [OF same(2,3)]
    then have "sent (push_one w h now recipient None (excluded_of u1 recipient) q u1) q = sent u1 q @ [frame]"
      using push_one_frame [of None q "excluded_of u1 recipient" u1 h now recipient summary "next" w frame] q b reached(3) [OF q(1)]
      by (simp add: same)
    with fired(6) [where q = q and now = now] q(1) reached(2) [of recipient] reached(3) [OF q(1)] show ?thesis by (simp add: same)
  qed
  show ?thesis
    by (rule exI [of _ t], intro conjI, rule allI, rule t, intro allI impI, elim conjE, rule once, assumption+,
        intro allI impI, elim conjE, rule sends, assumption+)
qed

definition sample_hub :: "(mem_bucket msg_db, mem_bucket env_db) hub" where
  "sample_hub = shared (new_server (open_msg_db mem_bolt) one_envelope)"

abbreviation sample_now :: gotime where
  "sample_now \<equiv> \<lparr>instant = 1500000002000000000, loc = UTC\<rparr>"

lemma sample_bbolt: "bbolt_handler mem_bolt (\<lambda>_. 0) sample_handler"
  by (simp add: bbolt_handler_def sample_handler_def SetEnvelopeStore_def NewWSHandler_def Let_def)

lemma sample_hub_fields: "edb sample_hub = one_envelope" "db sample_hub = open_msg_db mem_bolt"
  "clientInfo sample_hub p = no_info" "clients sample_hub = NewClientRegistry" "sent sample_hub p = []"
  by (simp_all add: sample_hub_def new_server_def)

theorem summary_offers_exactly_waiting_witness:
  "\<exists>summary next. buildRecipientSummary sample_handler sample_now sample_hub ''bob'' ''bob'' [] = Inr (summary, next) \<and>
     set (PreviewItemIDs summary) \<subseteq> waiting mem_bolt sample_now sample_hub ''bob'' ''bob''"
proof -
  have "env_reachable mem_bolt (\<lambda>_. 0) (edb sample_hub)" by (simp add: sample_hub_fields one_envelope_reachable)
  from summary_offers_exactly_waiting [OF mem_bolt_laws this _ _ sample_bbolt, of sample_now "''bob''" "''bob''" "[]"]
  show ?thesis using next_page_props(2) by (fastforce simp: fits64_def)
qed

theorem pushes_are_debounced_witness:
  "let u1 = fold (\<lambda>(sid, p). enqueueRecipientSummaryPush sid (Some p) ''bob'') [(''ws-1'', 1), (''ws-2'', 2)] sample_hub;
       u2 = fold (\<lambda>(now, t). fire_timer sample_ws sample_handler now t) [(sample_now, 0), (sample_now, 0), (sample_now, 1)] u1
   in armedTimers u1 = [0 \<mapsto> ''bob''] \<and> pushTimers u2 ''bob'' = None \<and> sent u2 1 = [] \<and> sent u2 2 = []"
proof -
  define u1 where "u1 = fold (\<lambda>(sid, p). enqueueRecipientSummaryPush sid (Some p) ''bob'') [(''ws-1'', 1), (''ws-2'', 2)] sample_hub"
  define u2 where "u2 = fold (\<lambda>(now, t). fire_timer sample_ws sample_handler now t) [(sample_now, 0), (sample_now, 0), (sample_now, 1)] u1"
  have "server_run sample_ws sample_handler (new_server (open_msg_db mem_bolt) one_envelope) [] =
      Some (new_server (open_msg_db mem_bolt) one_envelope)" by simp
  note debounced = pushes_are_debounced [OF this _ _ sample_hub_def u1_def]
  have a: "armedTimers u1 = [0 \<mapsto> ''bob'']"
    by (simp add: u1_def enqueueRecipientSummaryPush_def AfterFunc_def sample_hub_def new_server_def)
  have c: "distinct (connected [])" "[(''ws-1'', 1 :: nat), (''ws-2'', 2)] \<noteq> []" by simp_all
  from debounced [OF c] obtain t where t: "\<And>t'. armedTimers u1 t' = Some ''bob'' \<longleftrightarrow> t' = t"
    and f: "\<And>firings u2. (\<forall>x \<in> set firings. armedTimers u1 (snd x) \<in> {None, Some ''bob''}) \<and>
        u2 = fold (\<lambda>(now, t). fire_timer sample_ws sample_handler now t) firings u1 \<Longrightarrow>
       (\<forall>q \<in> snd ` set [(''ws-1'', 1), (''ws-2'', 2)]. sent u2 q = sent sample_hub q) \<and>
       (t \<in> snd ` set firings \<longrightarrow> pushTimers u2 ''bob'' = None)"
    by (elim exE conjE) (metis (no_types, lifting))
  have "t = 0" using t [of 0] a by simp
  with f [of "[(sample_now, 0), (sample_now, 0), (sample_now, 1)]" u2] a
  have "pushTimers u2 ''bob'' = None" "sent u2 1 = []" "sent u2 2 = []" by (simp_all add: u2_def sample_hub_fields)
  with a show ?thesis by (simp add: Let_def u1_def u2_def del: fold_simps)
qed

lemma digest_id_ok: "isDigestHex digest_id"
proof -
  have "hex_digit 10 = CHR ''a''" by code_simp
  then have "hex_encode (replicate n (CHR 0xAA)) = replicate (2 * n) (CHR ''a'')" for n
    by (induction n) simp_all
  from this [of 32] show ?thesis unfolding isDigestHex_iff digest_id_def
    by (intro exI [of _ "replicate 32 (CHR 0xAA)"]) simp
qed

text \<open>A transfer of one object, under a codec that can encode every frame.\<close>

definition demo_env :: wire_env where
  "demo_env = sample_env\<lparr>cbor_marshal := (\<lambda>v. case v of GBytes bs \<Rightarrow> Some bs | _ \<Rightarrow> Some ''x'')\<rparr>"

definition demo_payload :: gomap where
  "demo_payload = [(''objects'', GArr [GMapS [(''item_id'', GStr (hex_encode (sha256 ''hi''))), (''envelope_b64'', GStr (b64_encode ''hi'')),
     (''expiry_unix_ms'', GUint K64 1500003600000), (''hop_count'', GUint K64 2)]])]"

definition demo_item :: TransferObject where
  "demo_item = sample_accepted\<lparr>ExpiryUnixMS := 1500003600000\<rparr>"

lemma parse_demo:
  "ParseTransferPayloadMixed demo_env (Some demo_payload) = Inr \<lparr>Objects = [\<lparr>Index = 0, Object = demo_item\<rparr>], Rejected = []\<rparr>"
proof -
  have "hex_encode (sha256 ''hi'') \<noteq> []" "b64_encode ''hi'' \<noteq> []"
    by (simp_all add: b64_encode_def flip: length_0_conv)
  then show ?thesis
    by (simp add: ParseTransferPayloadMixed_def demo_payload_def only_fields_def coerceAnySlice_def
        judge_candidate_def coerceStringMap_def mapKeys_def parseTransferObject_def parseString_def parseUint_def
        decode_sample check_envelope_bytes_def sample_env_def demo_env_def parseCanonicalItemEnvelope_def
        transfer_envelope_fields_def parseBytes_def signing_payload_fields_def sample_accepted_def demo_item_def)
qed

definition demo_message :: Message where
  "demo_message = \<lparr>MID = hex_encode (sha256 ''hi''), MFrom = hex_encode (sha256 (replicate 32 NUL)), MTo = hex_encode (replicate 32 NUL),
     MPayload = ''aGk'', MCreatedAt = sample_now, MExpiresAt = \<lparr>instant = 1500003600000000000, loc = UTC\<rparr>,
     MDelivered = False, MDeliveredAt = None\<rparr>"

lemma aGk: "b64_encode ''hi'' = ''aGk''" "DecodePayloadB64 ''aGk'' = Some ''hi''"
  by code_simp+

lemma demo_to_message: "transferObjectToMessage demo_env sample_now demo_item = Inr demo_message"
proof -
  have "sint (1500003600000 :: u64) = 1500003600000" by simp
  moreover have "decodeBase64URLRaw ''aGk'' = Inr ''hi''" using decode_sample by (simp add: aGk(1))
  moreover have "hex_encode (sha256 x) \<noteq> []" "hex_encode (replicate 32 NUL) \<noteq> []" for x by (simp_all flip: length_0_conv)
  ultimately show ?thesis using isDigestHex_sha [OF length_sha256]
    by (simp add: transferObjectToMessage_def demo_item_def sample_accepted_def IsDigestHexID_def DecodeItemEnvelopeB64_def
      demo_env_def sample_env_def parseCanonicalItemEnvelope_def only_fields_def parseBytes_def transfer_envelope_fields_def
      signing_payload_fields_def aGk message_times_def Let_def After_def toUTC_def time_UnixMilli_def ComputeTransferObjectItemID_def
      demo_message_def length_sha256)
qed

lemma demo_storable: "storable (\<lambda>_. 0) demo_message"
  using recipient_neq_nil [OF length_sha256] by (simp add: storable_def key_ok_def value_ok_def queue_key_def expiry_key_def key_defs demo_message_def
      EncodeMessage_def put_string16_def format_defs dec_digits.simps length_sha256)

lemmas demo_valid = Validate_def demo_message_def IsZero_def zero_time_def Before_def key_ok_def
  value_ok_def EncodeEnvelopeRecord_def put_string16_def key_defs format_defs dec_digits.simps length_sha256

lemma demo_env_storable:
  "\<exists>ed'. PersistEnvelope mem_bolt (\<lambda>_. 0) ed (envelopeFromMessage demo_message ''relay-a'') = (ed', Inr ())"
  "\<exists>ed'. PersistEnvelope mem_bolt (\<lambda>_. 0) ed (transfer_envelope demo_item ''hi'' demo_message 2 []) = (ed', Inr ())"
  using recipient_neq_nil [OF length_sha256, of "''hi''"] recipient_neq_nil [of "replicate 32 NUL"]
  by (intro mem.persist_env_succeeds; simp add: envelopeFromMessage_def transfer_envelope_def demo_valid)+

definition demo_ws :: ws_env where
  "demo_ws = \<lparr>wire = demo_env, accepts = (\<lambda>p queued frame. length queued < 256)\<rparr>"

definition demo_hub :: "(mem_bucket msg_db, mem_bucket env_db) hub" where
  "demo_hub = shared (new_server (open_msg_db mem_bolt) (new_env_db mem_bolt))"

definition demo_event :: Event where
  "demo_event = (event EventTypeTransfer FrameTypeTransfer)\<lparr>ETransfer := Some \<lparr>Objects = [\<lparr>Index = 0, Object = demo_item\<rparr>], Rejected = []\<rparr>\<rparr>"

lemma sample_handler_fields: "store sample_handler = bbolt_store mem_bolt (\<lambda>_. 0)"
  "envelopeStore sample_handler = Some (bbolt_envelope_store mem_bolt (\<lambda>_. 0))" "relayID (engine sample_handler) = ''relay-a''"
  "pushDebounce sample_handler = 250 * millisecond" "pushOnIngest sample_handler"
  by (simp_all add: sample_handler_def SetEnvelopeStore_def NewWSHandler_def Let_def SetAckDrivenSuppression_def)

lemma sample_limits: "drainLimits sample_handler = \<lparr>RoundBudget = 0, ByteBudget = 0, WallClockBudget = 0, NoProgressRoundCap = 0,
     YieldEveryNRounds = 0, SilenceTimeout = 0, FairnessYieldEnable = False\<rparr>"
  by (simp add: sample_handler_def SetEnvelopeStore_def NewWSHandler_def Let_def DefaultDrainSessionLimits_def Normalize_def)

lemma demo_import:
  "\<exists>u1. import_object demo_ws sample_handler sample_now demo_item demo_hub = (u1, Inr (Some (hex_encode (replicate 32 NUL)))) \<and>
     clients u1 = NewClientRegistry \<and> sent u1 = (\<lambda>_. [])"
proof -
  have n: "GetMessageByID mem_bolt (open_msg_db mem_bolt) i = Inl (NotFound i)"
    "GetEnvelopeByID mem_bolt (new_env_db mem_bolt) i = Inl (NotFound i)" for i
    by (simp_all add: GetMessageByID_def GetEnvelopeByID_def open_msg_db_def new_env_db_def mem_bolt_def mem_get_def)
  obtain d' where p: "PersistMessage mem_bolt (\<lambda>_. 0) (open_msg_db mem_bolt) (Some demo_message) = (d', Inr ())"
    using mem.persist_succeeds [OF demo_storable] by blast
  have f: "fill_origin (envelopeFromMessage demo_message ''relay-a'') ''relay-a'' = envelopeFromMessage demo_message ''relay-a''"
    by (simp add: fill_origin_def envelopeFromMessage_def)
  obtain ed1 where e1: "PersistEnvelope mem_bolt (\<lambda>_. 0) (new_env_db mem_bolt) (envelopeFromMessage demo_message ''relay-a'') = (ed1, Inr ())"
    using demo_env_storable(1) by blast
  obtain ed2 where e2: "PersistEnvelope mem_bolt (\<lambda>_. 0) ed1 (transfer_envelope demo_item ''hi'' demo_message 2 []) = (ed2, Inr ())"
    using demo_env_storable(2) by blast
  have i: "HopCount demo_item = 2" "EnvelopeB64 demo_item = b64_encode ''hi''" "MTo demo_message = hex_encode (replicate 32 NUL)"
    by (simp_all add: demo_item_def sample_accepted_def demo_message_def)
  have "sint (2 :: u64) = 2" by simp
  with p f e1 e2 n i demo_to_message show ?thesis
    by (simp add: import_object_def demo_ws_def Let_def sample_handler_fields demo_hub_def new_server_def isNotFoundError_def
        EnginePersistMessage_def persistEnvelopeState_def isNotFoundErr_def persistTransferEnvelope_def)
qed

text \<open>A session without budgets.\<close>

definition unlimited :: "clientSession \<Rightarrow> bool" where
  "unlimited s \<longleftrightarrow> (\<exists>d. drain s = Some d \<and> StopReason (state d) = DrainStopReasonNone \<and> RoundBudget (limits d) = 0 \<and>
     ByteBudget (limits d) = 0 \<and> WallClockBudget (limits d) = 0)"

lemma unlimited_on_drain:
  assumes "unlimited s"
  shows "unlimited (on_drain h now (\<lambda>d. RecordTransferred d n now) s)" "unlimited (on_drain h now (\<lambda>d. CompleteRound d b now) s)"
  using assms by (auto simp: unlimited_def on_drain_def ensureDrainSession_def RecordTransferred_def CompleteRound_def
      recordProgressLocked_def Let_def)

lemma sendEnvelope_unlimited:
  assumes "unlimited s" and "encode_frame (wire w) frameType payload = Inr frame" and "client s \<notin> closedSend (clients u)"
    and "accepts w (client s) (sent u (client s)) frame"
  shows "\<exists>s' u'. sendEnvelope w h now frameType payload (s, u) = ((s', u'), Inr ())"
  using assms by (auto simp: sendEnvelope_def unlimited_def ensureDrainSession_def CanSendBytes_def RecordBytesSent_def
      stopReasonForBudgetExceeded_def sendBinary_def)

lemma demo_transfer:
  "\<exists>s' u'. handleTransfer demo_ws sample_handler sample_now demo_event
     (new_session sample_handler sample_now 7 ''ws-7'' ''addr'', demo_hub) = ((s', u'), Inr ())"
proof -
  let ?s = "new_session sample_handler sample_now 7 ''ws-7'' ''addr''" and ?r = "hex_encode (replicate 32 NUL)"
  obtain u1 where u1: "import_object demo_ws sample_handler sample_now demo_item demo_hub = (u1, Inr (Some ?r))"
    "clients u1 = NewClientRegistry" "sent u1 = (\<lambda>_. [])" using demo_import by blast
  define s2 where "s2 = on_drain sample_handler sample_now (\<lambda>d. RecordTransferred d 1 sample_now) (?s\<lparr>lastRoundTransferred := 1\<rparr>)"
  define s3 where "s3 = on_drain sample_handler sample_now (\<lambda>d. CompleteRound d True sample_now) s2"
  define u2 where "u2 = pushSummariesToOnlineRecipients demo_ws sample_handler sample_now (sessionID s2) (client s2) [?r] u1"
  let ?pl = "GMapS (receipt_fields \<lparr>Accepted = [ItemID demo_item]\<rparr>)"
  have e: "ensureDrainSession sample_handler sample_now ?s = (?s, the (drain ?s))"
    by (simp add: ensureDrainSession_def new_session_def)
  have eq: "handleTransfer demo_ws sample_handler sample_now demo_event (?s, demo_hub) =
      sendEnvelope demo_ws sample_handler sample_now FrameTypeReceipt ?pl (s3, u2)"
    by (simp add: handleTransfer_def e demo_event_def u1(1) Let_def s2_def s3_def u2_def)
  have "unlimited (?s\<lparr>lastRoundTransferred := 1\<rparr>)" by (simp add: unlimited_def new_session_def NewDrainSession_def sample_limits Normalize_def)
  then have "unlimited s3" unfolding s3_def s2_def by (intro unlimited_on_drain)
  moreover have "encode_frame (wire demo_ws) FrameTypeReceipt ?pl = Inr (be_bytes 4 1 @ ''x'')"
    by (simp add: encode_frame_def EncodeEnvelope_def demo_ws_def demo_env_def EncodeLengthPrefixed_def)
  moreover have "recipient_of u2 p = recipient_of u1 p \<and> clients u2 = clients u1 \<and> sent u2 = sent u1" for p
    by (simp add: u2_def pushSummariesToOnlineRecipients_def push_recipient_def sample_handler_fields
        enqueueRecipientSummaryPush_def AfterFunc_def Let_def split: option.splits)
  ultimately show ?thesis unfolding eq using u1(2,3)
    by (intro sendEnvelope_unlimited) (simp_all add: NewClientRegistry_def demo_ws_def)
qed

lemma demo_fits: "import_fits demo_env (relayID (engine sample_handler)) sample_now demo_item"
proof -
  have "sint (1500003600000 :: u64) = 1500003600000" by simp
  moreover have "decodeBase64URLRaw ''aGk'' = Inr ''hi''" using decode_sample by (simp add: aGk(1))
  moreover have "b64_decode True ''aGk'' = Some ''hi''" using b64_decode_encode [of True "''hi''"] by (simp add: aGk(1))
  ultimately show ?thesis
    by (simp add: import_fits_def sample_handler_fields demo_item_def sample_accepted_def aGk fits64_def DecodeItemEnvelopeB64_def
        demo_env_def sample_env_def parseCanonicalItemEnvelope_def only_fields_def parseBytes_def transfer_envelope_fields_def
        signing_payload_fields_def)
qed

theorem accepted_transfers_are_served_witness:
  "\<exists>s' u' accepted. handleTransfer demo_ws sample_handler sample_now demo_event
       (new_session sample_handler sample_now 7 ''ws-7'' ''addr'', demo_hub) = ((s', u'), Inr ()) \<and>
     encode_frame demo_env FrameTypeReceipt (GMapS (receipt_fields \<lparr>Accepted = accepted\<rparr>)) = Inr (last (sent u' 7)) \<and>
     (\<forall>i \<in> set accepted. i = ItemID demo_item \<and> (\<exists>object. loadTransferObjectByItemID demo_env sample_handler u' i = Inr (Some object)))"
proof -
  obtain s' u' where h: "handleTransfer demo_ws sample_handler sample_now demo_event
      (new_session sample_handler sample_now 7 ''ws-7'' ''addr'', demo_hub) = ((s', u'), Inr ())" using demo_transfer by blast
  have w: "wire demo_ws = demo_env" by (simp add: demo_ws_def)
  have ev: "ETransfer demo_event = Some \<lparr>Objects = [\<lparr>Index = 0, Object = demo_item\<rparr>], Rejected = []\<rparr>" by (simp add: demo_event_def)
  have reach: "env_reachable mem_bolt (\<lambda>_. 0) (edb demo_hub)" by (simp add: demo_hub_def new_server_def env_reachable.New)
  have c: "client (new_session sample_handler sample_now 7 ''ws-7'' ''addr'') = 7" by (simp add: new_session_def)
  from accepted_transfers_are_served [OF mem_bolt_laws reach sample_bbolt parse_demo [folded w] ev _ h] demo_fits
  show ?thesis using h unfolding w c by fastforce
qed

end
