(* ===== verification/WS_Exchange.thy ===== *)
theory WS_Exchange
  imports WS_Delivery
begin

text \<open>
  One exchange of the gossip protocol as the WebSocket handlers run it: what the relay asks a client
  for after its SUMMARY, and what it answers to a REQUEST.
\<close>

subsection \<open>Answering a request\<close>

lemma expect_loop_distinct:
  "distinct ids \<Longrightarrow> [] \<notin> set ids \<Longrightarrow> \<forall>i \<in> set ids. idx i = None \<Longrightarrow> fst (expect_loop ids order idx) = order @ ids"
proof (induction ids arbitrary: order idx)
  case (Cons i ids)
  from Cons.prems have "\<forall>j \<in> set ids. (idx(i \<mapsto> of_nat (length order))) j = None" by auto
  from Cons.IH [OF _ _ this, of "order @ [i]"] Cons.prems show ?case by (auto simp del: fun_upd_apply)
qed simp

lemma SetExpectedReceipt_order:
  assumes "distinct ids" and "[] \<notin> set ids"
  shows "expectedReceiptOrder (SetExpectedReceipt a ids) = ids" and "awaitingReceipt (SetExpectedReceipt a ids)"
  using expect_loop_distinct [OF assms, of Map.empty "[]"] by (auto simp: SetExpectedReceipt_def split: prod.splits)

lemma sendEnvelope_adapter:
  assumes "sendEnvelope w h now frameType payload (s, u) = ((s', u'), r)"
  shows "adapter s' = adapter s"
proof (cases "encode_frame (wire w) frameType payload")
  case (Inl err)
  with assms show ?thesis by (simp add: sendEnvelope_def)
next
  case (Inr frame)
  obtain s1 d1 where e: "ensureDrainSession h now s = (s1, d1)" by fastforce
  with assms Inr ensure_cases(2) [OF e] show ?thesis by (auto simp: sendEnvelope_def split: prod.splits if_splits)
qed

definition answer :: "wire_env \<Rightarrow> ('d, 'e) WSHandler \<Rightarrow> gotime \<Rightarrow> ('d, 'e) hub \<Rightarrow> string \<Rightarrow> string list \<Rightarrow> TransferObject list" where
  "answer env h now u recipient want =
     take MaxTransferItems (List.map_filter (servable (loadTransferObjectByItemID env h u) recipient (of_int (UnixMilli (toUTC now)))) want)"

lemma answer_ids:
  assumes "distinct want" and "\<forall>i \<in> set want. isDigestHex i"
  shows "distinct (map ItemID (answer env h now u recipient want))" and "[] \<notin> set (map ItemID (answer env h now u recipient want))"
proof -
  let ?f = "servable (loadTransferObjectByItemID env h u) recipient (of_int (UnixMilli (toUTC now)))"
  have id: "?f i = Some object \<Longrightarrow> ItemID object = i" for i object
    using load_item(1) by (fastforce simp: servable_def split: sum.splits option.splits if_splits)
  have "map ItemID (List.map_filter ?f want) = filter (\<lambda>i. ?f i \<noteq> None) want"
    using id by (induction want) (auto simp: map_filter_simps split: option.splits)
  then have eq: "map ItemID (answer env h now u recipient want) = take MaxTransferItems (filter (\<lambda>i. ?f i \<noteq> None) want)"
    by (simp add: answer_def flip: take_map)
  show "distinct (map ItemID (answer env h now u recipient want))" unfolding eq using assms(1) by simp
  show "[] \<notin> set (map ItemID (answer env h now u recipient want))"
    unfolding eq using assms(2) isDigestHex_length [of "[]"] by (auto dest: in_set_takeD)
qed

text \<open>A session without budgets, caps or fairness yields.\<close>

definition unhurried :: "clientSession \<Rightarrow> bool" where
  "unhurried s \<longleftrightarrow> (\<exists>d. drain s = Some d \<and> StopReason (state d) = DrainStopReasonNone \<and> RoundBudget (limits d) = 0 \<and>
     ByteBudget (limits d) = 0 \<and> WallClockBudget (limits d) = 0 \<and> NoProgressRoundCap (limits d) = 0 \<and> \<not> FairnessYieldEnable (limits d))"

lemma unhurried_on_drain:
  assumes "unhurried s"
  shows "unhurried (on_drain h now (\<lambda>d. RecordRequested d n now) s)" "unhurried (on_drain h now (\<lambda>d. RecordTransferred d n now) s)"
  using assms by (auto simp: unhurried_def on_drain_def ensureDrainSession_def RecordRequested_def RecordTransferred_def
      recordProgressLocked_def Let_def)

lemma unhurried_continues:
  assumes "unhurried s" and "ensureDrainSession h now s = (s', d)" and "CanStartAnotherRound d at now = (d', canContinue, why)"
  shows "canContinue \<and> unhurried (s'\<lparr>drain := Some d'\<rparr>)"
  using assms by (auto simp: unhurried_def ensureDrainSession_def CanStartAnotherRound_def stopReasonForBudgetExceeded_def Let_def)

lemma handleRequest_eq:
  assumes "ERequest ev = Some request" and "Want request \<noteq> []"
    and "\<forall>i \<in> set (Want request). is_ok (loadTransferObjectByItemID (wire w) h u i)"
    and "objects = answer (wire w) h now u (queueRecipient s) (Want request)"
  obtains canContinue why s4 s5 where
    "handleRequest w h now ev (s, u) = (if \<not> canContinue then ((s4, u), Inl (stopSession why))
      else if objects = [] then ((on_drain h now (\<lambda>d. CompleteRound d False now) s5, u), Inr ())
      else sendEnvelope w h now FrameTypeTransfer (GMapS (transfer_fields objects))
        (s5\<lparr>adapter := SetExpectedReceipt (adapter s5) (map ItemID objects)\<rparr>, u))"
    and "client s5 = client s" and "unhurried s \<Longrightarrow> canContinue \<and> unhurried s5"
proof -
  obtain s1 d1 where e1: "ensureDrainSession h now s = (s1, d1)" by fastforce
  define s2 where "s2 = on_drain h now (\<lambda>d. RecordRequested d (int (length (Want request))) now)
      (s1\<lparr>lastRoundRequested := int (length (Want request))\<rparr>)"
  obtain s3 d3 where e3: "ensureDrainSession h now s2 = (s3, d3)" by fastforce
  obtain d4 canContinue why where c: "CanStartAnotherRound d3 (toUTC now) now = (d4, canContinue, why)" by (metis prod_cases3)
  define s4 where "s4 = s3\<lparr>drain := Some d4\<rparr>"
  define s5 where "s5 = on_drain h now (\<lambda>d. RecordTransferred d (int (length objects)) now)
      (s4\<lparr>lastRoundTransferred := int (length objects)\<rparr>)"
  have "keeps s s2" using ensure_cases(1) [OF e1] by (simp add: s2_def)
  from keeps_trans [OF this ensure_cases(1) [OF e3]] have k: "keeps s s4" "keeps s s5" by (simp_all add: s4_def s5_def)
  then have q: "queueRecipient s4 = queueRecipient s" by (simp add: keeps_def)
  have serve: "serve_loop (loadTransferObjectByItemID (wire w) h u) (queueRecipient s4) (of_int (UnixMilli (toUTC now))) (Want request) [] = Inr objects"
    using serve_loop_exact [OF assms(3), of "[]"] by (simp add: assms(4) answer_def q)
  have ne: "(length (Want request) = 0) = False" using assms(2) by simp
  have hurry: "canContinue \<and> unhurried s5" if "unhurried s"
  proof -
    from that e1 have "unhurried (s1\<lparr>lastRoundRequested := int (length (Want request))\<rparr>)"
      by (auto simp: unhurried_def ensureDrainSession_def)
    then have "unhurried s2" unfolding s2_def by (rule unhurried_on_drain)
    from unhurried_continues [OF this e3 c] have "canContinue" and "unhurried s4" by (simp_all add: s4_def)
    then have "unhurried (s4\<lparr>lastRoundTransferred := int (length objects)\<rparr>)" by (simp add: unhurried_def)
    then have "unhurried s5" unfolding s5_def by (rule unhurried_on_drain)
    with \<open>canContinue\<close> show ?thesis by simp
  qed
  show ?thesis
  proof (rule that [OF _ _ hurry])
    show "handleRequest w h now ev (s, u) = (if \<not> canContinue then ((s4, u), Inl (stopSession why))
        else if objects = [] then ((on_drain h now (\<lambda>d. CompleteRound d False now) s5, u), Inr ())
        else sendEnvelope w h now FrameTypeTransfer (GMapS (transfer_fields objects))
          (s5\<lparr>adapter := SetExpectedReceipt (adapter s5) (map ItemID objects)\<rparr>, u))"
      by (simp only: handleRequest_def prod.case e1 assms(1) option.case Let_def s2_def [symmetric] ne if_False e3 c
          s4_def [symmetric] serve sum.case s5_def [symmetric])
    show "client s5 = client s" using k(2) by (simp add: keeps_def)
  qed
qed

lemma handleRequest_answer:
  assumes "ERequest ev = Some request" and "Want request \<noteq> []"
    and "\<forall>i \<in> set (Want request). is_ok (loadTransferObjectByItemID (wire w) h u i)"
    and "handleRequest w h now ev (s, u) = ((s', u'), Inr ())"
    and "objects = answer (wire w) h now u (queueRecipient s) (Want request)"
  shows "if objects = [] then u' = u
    else \<exists>s3. sendEnvelope w h now FrameTypeTransfer (GMapS (transfer_fields objects))
      (s3\<lparr>adapter := SetExpectedReceipt (adapter s3) (map ItemID objects)\<rparr>, u) = ((s', u'), Inr ()) \<and> client s3 = client s"
  by (rule handleRequest_eq [OF assms(1,2,3,5)]) (use assms(4) in \<open>auto split: if_splits\<close>)

subsection \<open>Properties\<close>

lemma hasObjectID_held:
  assumes "bbolt_handler api lo h" and "\<And>err. GetMessageByID api (db u) i = Inl err \<Longrightarrow> isNotFoundError err"
    and "\<And>err. GetEnvelopeByID api (edb u) i = Inl err \<Longrightarrow> isNotFoundError err"
  shows "hasObjectID h u i = Inr (is_ok (GetMessageByID api (db u) i) \<or> is_ok (GetEnvelopeByID api (edb u) i))"
  using assms by (auto simp: hasObjectID_def bbolt_handler_def is_ok_iff split: sum.splits)

lemma handleSummary_eq:
  assumes "ESummary ev = Some summary" and "computeMissingWant h u (Some summary) [] (peerMaxWant s) = Inr want"
  obtains s2 where "handleSummary w h now ev (s, u) =
      (if is_ok (validateSummaryPreviewCursor (PreviewItemIDs summary) (PreviewCursor summary))
       then sendEnvelope w h now FrameTypeRequest (GMapS (request_fields \<lparr>Want = want\<rparr>)) (s2, u)
       else handleSummary w h now ev (s, u))"
    and "client s2 = client s" and "unlimited s \<Longrightarrow> unlimited s2"
proof -
  obtain s1 d1 where e: "ensureDrainSession h now s = (s1, d1)" by fastforce
  have p: "peerMaxWant s1 = peerMaxWant s" using e by (auto simp: ensureDrainSession_def Let_def split: option.splits)
  define s2 where "s2 = (let s = on_drain h now (\<lambda>d. RecordRequested d (int (length want)) now) (s1\<lparr>lastRoundRequested := int (length want)\<rparr>)
     in if want = [] then on_drain h now (\<lambda>d. CompleteRound d False now) s else s)"
  have "keeps s s2" using ensure_cases(1) [OF e] by (simp add: s2_def Let_def)
  then have c: "client s2 = client s" by (simp add: keeps_def)
  have u: "unlimited s2" if "unlimited s"
  proof -
    have "unlimited (s1\<lparr>lastRoundRequested := int (length want)\<rparr>)" using that e
      by (auto simp: unlimited_def ensureDrainSession_def)
    then have "unlimited (on_drain h now (\<lambda>d. RecordRequested d (int (length want)) now) (s1\<lparr>lastRoundRequested := int (length want)\<rparr>))"
      by (auto simp: unlimited_def on_drain_def ensureDrainSession_def RecordRequested_def recordProgressLocked_def Let_def)
    then show ?thesis by (cases "want = []") (simp_all add: s2_def Let_def unlimited_on_drain(2))
  qed
  have "handleSummary w h now ev (s, u) = sendEnvelope w h now FrameTypeRequest (GMapS (request_fields \<lparr>Want = want\<rparr>)) (s2, u)"
    if "is_ok (validateSummaryPreviewCursor (PreviewItemIDs summary) (PreviewCursor summary))"
    using assms e p that by (auto simp: handleSummary_def s2_def Let_def is_ok_iff)
  then show ?thesis by (intro that [OF _ c u]) simp_all
qed

text \<open>
  Claim C23. The relay asks a peer for exactly what it lacks. Take a SUMMARY whose preview ids are valid, and
  stores whose look-ups of those ids end with a record or with not found. When \<open>handleSummary\<close> returns without an
  error, one frame was put on the client's channel, a REQUEST that lists, sorted and without repetition, the
  first ids of the preview that the Bloom filter confirms and for which neither the message store nor the
  envelope store has a record, at most 256 of them and at most as many as the peer's \<open>max_want\<close> when that is
  not zero.
\<close>

theorem wanted_items_exact:
  fixes u :: "('b msg_db, 'b env_db) hub"
  assumes "bbolt_handler api lo h" and "ESummary ev = Some summary"
    and "\<forall>i \<in> set (PreviewItemIDs summary). isDigestHex i \<and>
      (\<forall>err. GetMessageByID api (db u) i = Inl err \<or> GetEnvelopeByID api (edb u) i = Inl err \<longrightarrow> isNotFoundError err)"
    and "handleSummary w h now ev (s, u) = ((s', u'), Inr ())"
    and "limit = (if peerMaxWant s = 0 then 256 else min 256 (unat (peerMaxWant s)))"
    and "want = take limit (filter (\<lambda>i. BloomFilterMightContain (BloomFilter summary) i \<and>
        (\<forall>m. GetMessageByID api (db u) i \<noteq> Inr m) \<and> (\<forall>e. GetEnvelopeByID api (edb u) i \<noteq> Inr e))
      (sorted_list_of_set (set (PreviewItemIDs summary))))"
  shows "\<exists>frame. encode_frame (wire w) FrameTypeRequest (GMapS (request_fields \<lparr>Want = want\<rparr>)) = Inr frame \<and>
    sent u' (client s) = sent u (client s) @ [frame]"
proof -
  let ?ids = "normalizeDigestHexIDsDropInvalid (PreviewItemIDs summary)"
  have held: "hasObjectID h u i = Inr (is_ok (GetMessageByID api (db u) i) \<or> is_ok (GetEnvelopeByID api (edb u) i))"
    if "i \<in> set (PreviewItemIDs summary)" for i
    by (rule hasObjectID_held [OF assms(1)]) (use assms(3) that in blast)+
  have ids: "?ids = sorted_list_of_set (set (PreviewItemIDs summary))"
    by (rule sorted_wrt_less_unique) (use assms(3) in \<open>auto simp: drop_invalid_sorted drop_invalid_set\<close>)
  have "want_limit (peerMaxWant s) = limit"
    using word_less_nat_alt [of "peerMaxWant s" 256] by (auto simp: assms(5) want_limit_def word_gt_0 not_less)
  moreover have "\<forall>i \<in> set (PreviewItemIDs summary). isDigestHex i \<and> is_ok (hasObjectID h u i)"
    using assms(3) held by (simp add: is_ok_iff)
  moreover have "filter (\<lambda>i. BloomFilterMightContain (BloomFilter summary) i \<and> hasObjectID h u i = Inr False) ?ids =
      filter (\<lambda>i. BloomFilterMightContain (BloomFilter summary) i \<and> (\<forall>m. GetMessageByID api (db u) i \<noteq> Inr m) \<and>
        (\<forall>e. GetEnvelopeByID api (edb u) i \<noteq> Inr e)) ?ids"
    by (rule filter_cong) (use held in \<open>auto simp: is_ok_iff drop_invalid_set\<close>)
  ultimately have want: "computeMissingWant h u (Some summary) [] (peerMaxWant s) = Inr want"
    using computeMissingWant_eq [of summary h u "peerMaxWant s"] by (simp add: assms(6) ids)
  obtain s2 where eq: "handleSummary w h now ev (s, u) =
      (if is_ok (validateSummaryPreviewCursor (PreviewItemIDs summary) (PreviewCursor summary))
       then sendEnvelope w h now FrameTypeRequest (GMapS (request_fields \<lparr>Want = want\<rparr>)) (s2, u)
       else handleSummary w h now ev (s, u))" and c: "client s2 = client s" by (rule handleSummary_eq [OF assms(2) want])
  have "is_ok (validateSummaryPreviewCursor (PreviewItemIDs summary) (PreviewCursor summary))"
    using assms(2,4) by (auto simp: handleSummary_def is_ok_iff split: prod.splits sum.splits)
  with eq assms(4) have send: "sendEnvelope w h now FrameTypeRequest (GMapS (request_fields \<lparr>Want = want\<rparr>)) (s2, u) = ((s', u'), Inr ())" by simp
  from sendEnvelope_stores(2) [OF send] c show ?thesis by simp
qed

text \<open>
  Claim C13. A REQUEST is answered exactly: when the look-ups succeed and the handler returns without an error,
  the TRANSFER frame put on the client's channel carries the first 32, in the order of the request, of the
  requested items that the relay holds under their hash, that are addressed to the session's recipient and
  that have not expired, and the session then waits for a receipt of exactly those items; when there is none,
  nothing is sent.
\<close>

theorem requests_answered_exactly:
  assumes "ERequest ev = Some request" and "Want request \<noteq> []" and "distinct (Want request)" and "\<forall>i \<in> set (Want request). isDigestHex i"
    and "\<forall>i \<in> set (Want request). is_ok (loadTransferObjectByItemID (wire w) h u i)"
    and "handleRequest w h now ev (s, u) = ((s', u'), Inr ())"
    and "objects = answer (wire w) h now u (queueRecipient s) (Want request)"
  shows "if objects = [] then u' = u
    else (\<exists>frame. encode_frame (wire w) FrameTypeTransfer (GMapS (transfer_fields objects)) = Inr frame \<and>
        sent u' (client s) = sent u (client s) @ [frame]) \<and>
      awaitingReceipt (adapter s') \<and> PendingReceiptIDs (adapter s') = map ItemID objects"
proof (cases "objects = []")
  case True
  with handleRequest_answer [OF assms(1,2,5,6,7)] show ?thesis by simp
next
  case False
  with handleRequest_answer [OF assms(1,2,5,6,7)] obtain s3 where
    send: "sendEnvelope w h now FrameTypeTransfer (GMapS (transfer_fields objects))
      (s3\<lparr>adapter := SetExpectedReceipt (adapter s3) (map ItemID objects)\<rparr>, u) = ((s', u'), Inr ())"
    and c: "client s3 = client s" by auto
  note ids = answer_ids [OF assms(3,4), of "wire w" h now u "queueRecipient s", folded assms(7)]
  from sendEnvelope_adapter [OF send] SetExpectedReceipt_order [OF ids]
  have "awaitingReceipt (adapter s')" "PendingReceiptIDs (adapter s') = map ItemID objects"
    by (simp_all add: PendingReceiptIDs_def)
  with sendEnvelope_stores(2) [OF send] c False show ?thesis by simp
qed

subsection \<open>Witnesses\<close>

definition offer_summary :: SummaryPayload where
  "offer_summary = \<lparr>BloomFilter = bloom_build [digest_id], ItemCount = 1, PreviewItemIDs = [digest_id], PreviewCursor = digest_id, Have = []\<rparr>"

definition offer_event :: Event where
  "offer_event = (event EventTypeSummary FrameTypeSummary)\<lparr>ESummary := Some offer_summary\<rparr>"

theorem wanted_items_exact_witness:
  "\<exists>s' u' frame. handleSummary demo_ws sample_handler sample_now offer_event
       (new_session sample_handler sample_now 7 ''ws-7'' ''addr'', demo_hub) = ((s', u'), Inr ()) \<and>
     encode_frame demo_env FrameTypeRequest (GMapS (request_fields \<lparr>Want = [digest_id]\<rparr>)) = Inr frame \<and> sent u' 7 = [frame]"
proof -
  let ?s = "new_session sample_handler sample_now 7 ''ws-7'' ''addr''"
  let ?w = "[digest_id]"
  have none: "GetMessageByID mem_bolt (db demo_hub) i = Inl (NotFound i)"
    "GetEnvelopeByID mem_bolt (edb demo_hub) i = Inl (NotFound i)" for i
    by (simp_all add: GetMessageByID_def GetEnvelopeByID_def open_msg_db_def new_env_db_def mem_bolt_def mem_get_def
        demo_hub_def new_server_def)
  have ev: "ESummary offer_event = Some offer_summary" by (simp add: offer_event_def)
  have bloom: "BloomFilterMightContain (BloomFilter offer_summary) digest_id"
    using might_contain_bloom_build [of digest_id "[digest_id]"] digest_id_ok by (simp add: offer_summary_def)
  have look: "\<forall>i \<in> set (PreviewItemIDs offer_summary). isDigestHex i \<and> (\<forall>err. GetMessageByID mem_bolt (db demo_hub) i = Inl err \<or>
      GetEnvelopeByID mem_bolt (edb demo_hub) i = Inl err \<longrightarrow> isNotFoundError err)"
    by (auto simp: offer_summary_def digest_id_ok none isNotFoundError_def)
  have fields: "peerMaxWant ?s = 0" "client ?s = 7" by (simp_all add: new_session_def)
  have "hasObjectID sample_handler demo_hub digest_id = Inr False"
    using hasObjectID_held [OF sample_bbolt, of demo_hub digest_id] by (simp add: none isNotFoundError_def)
  moreover have "normalizeDigestHexIDsDropInvalid [digest_id] = [digest_id]" by (rule normalize_sorted_id) (simp_all add: digest_id_ok)
  ultimately have want: "computeMissingWant sample_handler demo_hub (Some offer_summary) [] (peerMaxWant ?s) = Inr ?w"
    using computeMissingWant_eq [of offer_summary sample_handler demo_hub 0] bloom digest_id_ok
    by (simp add: offer_summary_def fields want_limit_def)
  obtain s2 where "handleSummary demo_ws sample_handler sample_now offer_event (?s, demo_hub) =
      (if is_ok (validateSummaryPreviewCursor (PreviewItemIDs offer_summary) (PreviewCursor offer_summary))
       then sendEnvelope demo_ws sample_handler sample_now FrameTypeRequest (GMapS (request_fields \<lparr>Want = ?w\<rparr>)) (s2, demo_hub)
       else handleSummary demo_ws sample_handler sample_now offer_event (?s, demo_hub))"
    and s2: "client s2 = client ?s" "unlimited ?s \<Longrightarrow> unlimited s2"
    by (rule handleSummary_eq [OF ev want, where w = demo_ws and now = sample_now]) blast
  moreover have "is_ok (validateSummaryPreviewCursor (PreviewItemIDs offer_summary) (PreviewCursor offer_summary))"
    using isDigestHex_length [OF digest_id_ok] by (auto simp: validateSummaryPreviewCursor_def offer_summary_def)
  ultimately have eq: "handleSummary demo_ws sample_handler sample_now offer_event (?s, demo_hub) =
      sendEnvelope demo_ws sample_handler sample_now FrameTypeRequest (GMapS (request_fields \<lparr>Want = ?w\<rparr>)) (s2, demo_hub)"
    by simp
  have "unlimited ?s" by (simp add: unlimited_def new_session_def NewDrainSession_def sample_limits Normalize_def)
  moreover have "encode_frame (wire demo_ws) FrameTypeRequest (GMapS (request_fields \<lparr>Want = ?w\<rparr>)) = Inr (be_bytes 4 1 @ ''x'')"
    by (simp add: encode_frame_def EncodeEnvelope_def demo_ws_def demo_env_def EncodeLengthPrefixed_def)
  ultimately obtain s' u' where h: "handleSummary demo_ws sample_handler sample_now offer_event (?s, demo_hub) = ((s', u'), Inr ())"
    using sendEnvelope_unlimited [OF s2(2), of demo_ws FrameTypeRequest _ _ demo_hub] unfolding eq
    by (fastforce simp: NewClientRegistry_def demo_ws_def demo_hub_def new_server_def)
  have "PreviewItemIDs offer_summary = [digest_id]" by (simp add: offer_summary_def)
  with bloom have "?w = take (if peerMaxWant ?s = 0 then 256 else min 256 (unat (peerMaxWant ?s)))
      (filter (\<lambda>i. BloomFilterMightContain (BloomFilter offer_summary) i \<and> (\<forall>m. GetMessageByID mem_bolt (db demo_hub) i \<noteq> Inr m) \<and>
          (\<forall>e. GetEnvelopeByID mem_bolt (edb demo_hub) i \<noteq> Inr e)) (sorted_list_of_set (set (PreviewItemIDs offer_summary))))"
    by (simp add: fields none)
  from wanted_items_exact [OF sample_bbolt ev look h refl this] h show ?thesis
    by (auto simp: fields demo_ws_def demo_hub_def new_server_def)
qed

text \<open>The object of the sample transfer, asked for by its addressee once it is stored.\<close>

definition demo_request :: Event where
  "demo_request = (event EventTypeRequest FrameTypeRequest)\<lparr>ERequest := Some \<lparr>Want = [ItemID demo_item]\<rparr>\<rparr>"

lemma demo_stored:
  "\<exists>u e. loadTransferObjectByItemID demo_env sample_handler u (ItemID demo_item) = Inr (Some (demo_item\<lparr>Envelope := e\<rparr>)) \<and>
     To e = hex_encode (replicate 32 NUL) \<and> clients u = NewClientRegistry \<and> sent u = (\<lambda>_. [])"
proof -
  have w: "wire demo_ws = demo_env" by (simp add: demo_ws_def)
  obtain u1 where u1: "import_object demo_ws sample_handler sample_now demo_item demo_hub = (u1, Inr (Some (hex_encode (replicate 32 NUL))))"
    and c: "clients u1 = NewClientRegistry" "sent u1 = (\<lambda>_. [])" using demo_import by blast
  have l: "import_loop demo_ws sample_handler sample_now [demo_item] [] [] demo_hub =
      (u1, Inr ([ItemID demo_item], [hex_encode (replicate 32 NUL)]))"
    using u1 by (simp add: List.insert_def)
  have reach: "env_reachable mem_bolt (\<lambda>_. 0) (edb demo_hub)" by (simp add: demo_hub_def new_server_def env_reachable.New)
  have fits: "import_fits (wire demo_ws) (relayID (engine sample_handler)) sample_now demo_item" using demo_fits by (simp add: w)
  from import_loop_step [OF mem_bolt_laws reach sample_bbolt _ _ l] fits
  have "stored_item mem_bolt (wire demo_ws) sample_now [] demo_item (edb u1)" by simp
  from stored_item_served [OF sample_bbolt fits this] obtain e where
    d: "DecodeItemEnvelopeB64 demo_env (EnvelopeB64 demo_item) = Inr e"
    and load: "loadTransferObjectByItemID demo_env sample_handler u1 (ItemID demo_item) =
      Inr (Some (demo_item\<lparr>EnvelopeB64 := filter (\<lambda>c. \<not> is_newline c) (EnvelopeB64 demo_item), Envelope := e\<rparr>))"
    unfolding w by blast
  have n: "filter (\<lambda>c. \<not> is_newline c) (EnvelopeB64 demo_item) = EnvelopeB64 demo_item"
    by (simp add: demo_item_def sample_accepted_def aGk is_newline_def)
  have "decodeBase64URLRaw ''aGk'' = Inr ''hi''" using decode_sample by (simp add: aGk(1))
  then have "To e = hex_encode (replicate 32 NUL)" using d
    by (auto simp: demo_item_def sample_accepted_def aGk DecodeItemEnvelopeB64_def demo_env_def sample_env_def
        parseCanonicalItemEnvelope_def only_fields_def parseBytes_def transfer_envelope_fields_def signing_payload_fields_def)
  with load n c show ?thesis by (intro exI [of _ u1] exI [of _ e]) simp
qed

theorem requests_answered_exactly_witness:
  "\<exists>s u s' u'. handleRequest demo_ws sample_handler sample_now demo_request (s, u) = ((s', u'), Inr ()) \<and>
     sent u 7 = [] \<and> length (sent u' 7) = 1 \<and> PendingReceiptIDs (adapter s') = [ItemID demo_item]"
proof -
  obtain u e where load: "loadTransferObjectByItemID demo_env sample_handler u (ItemID demo_item) = Inr (Some (demo_item\<lparr>Envelope := e\<rparr>))"
    and e: "To e = hex_encode (replicate 32 NUL)" and u: "clients u = NewClientRegistry" "sent u = (\<lambda>_. [])" using demo_stored by blast
  define s where "s = (new_session sample_handler sample_now 7 ''ws-7'' ''addr'')\<lparr>queueRecipient := To e\<rparr>"
  have exp: "ExpiryUnixMS demo_item = 1500003600000" by (simp add: demo_item_def)
  have ms: "of_int (UnixMilli (toUTC sample_now)) = (1500000002000 :: u64)" by (simp add: UnixMilli_def toUTC_def s64_def)
  have ans: "answer demo_env sample_handler sample_now u (queueRecipient s) [ItemID demo_item] = [demo_item\<lparr>Envelope := e\<rparr>]"
    by (simp add: answer_def servable_def load s_def map_filter_simps exp ms)
  have free: "unhurried s" by (simp add: unhurried_def s_def new_session_def NewDrainSession_def sample_limits Normalize_def)
  obtain s5 where "handleRequest demo_ws sample_handler sample_now demo_request (s, u) = sendEnvelope demo_ws sample_handler sample_now
      FrameTypeTransfer (GMapS (transfer_fields [demo_item\<lparr>Envelope := e\<rparr>])) (s5, u)" and "unlimited s5" and "client s5 = 7"
    by (rule handleRequest_eq [of demo_request "\<lparr>Want = [ItemID demo_item]\<rparr>" demo_ws sample_handler u _ sample_now s, OF _ _ _ refl])
       (use free ans load in \<open>auto simp: demo_request_def demo_ws_def s_def new_session_def unhurried_def unlimited_def\<close>)
  moreover have "encode_frame (wire demo_ws) FrameTypeTransfer (GMapS (transfer_fields [demo_item\<lparr>Envelope := e\<rparr>])) = Inr (be_bytes 4 1 @ ''x'')"
    by (simp add: encode_frame_def EncodeEnvelope_def demo_ws_def demo_env_def EncodeLengthPrefixed_def)
  ultimately obtain s' u' where h: "handleRequest demo_ws sample_handler sample_now demo_request (s, u) = ((s', u'), Inr ())"
    using sendEnvelope_unlimited [of s5 demo_ws FrameTypeTransfer _ _ u] u by (fastforce simp: NewClientRegistry_def demo_ws_def)
  have c: "client s = 7" by (simp add: s_def new_session_def)
  have w: "wire demo_ws = demo_env" by (simp add: demo_ws_def)
  have "isDigestHex (ItemID demo_item)" using isDigestHex_sha [OF length_sha256] by (simp add: demo_item_def sample_accepted_def)
  with requests_answered_exactly [OF _ _ _ _ _ h refl, of "\<lparr>Want = [ItemID demo_item]\<rparr>"] load
  have "(\<exists>frame. sent u' 7 = [frame]) \<and> PendingReceiptIDs (adapter s') = [ItemID demo_item]"
    by (auto simp: demo_request_def ans w c u)
  with h u show ?thesis by (intro exI [of _ s] exI [of _ u] exI [of _ s'] exI [of _ u']) auto
qed

end
