(* ===== verification/Peering_Relay.thy ===== *)
theory Peering_Relay
  imports Peering_Runs WS_Exchange "HOL-Library.Sublist"
begin

text \<open>
  What the links do with items: a TRANSFER is announced to the other relays and never echoed to its sender,
  what is acknowledged to another relay can be served, what one relay serves another one can import, and a
  dial waits longer after every failure and gives up.
\<close>

subsection \<open>Announcing to the other links\<close>

definition announcement :: "fed_env \<Rightarrow> string \<Rightarrow> bytes \<Rightarrow> bool" where
  "announcement w i frame \<longleftrightarrow>
     encode_frame (fwire w) FrameTypeSummary (GMapS (summary_fields (BuildSummaryPreviewPayload [i] [i] []))) = Inr frame"

text \<open>
  The links get announcements of some of the items, in order; a link to the relay \<open>source\<close> and one that is
  not registered get none.
\<close>

definition fans_out :: "fed_env \<Rightarrow> string \<Rightarrow> string list \<Rightarrow> ('d, 'e) federation \<Rightarrow> ('d, 'e) federation \<Rightarrow> bool" where
  "fans_out w source ids u u' \<longleftrightarrow> peers u' = peers u \<and> peer u' = peer u \<and>
     (\<forall>q. \<exists>told frames. subseq told ids \<and> wrote u' q = wrote u q @ frames \<and> list_all2 (announcement w) told frames \<and>
        (RemoteNodeID (peer u q) = source \<or> q \<notin> peers u \<longrightarrow> told = []))"

lemma fans_out_refl: "fans_out w source ids u u"
  by (auto simp: fans_out_def intro: exI [of _ "[]"])

lemma fans_out_trans:
  assumes "fans_out w source ids u u1" and "fans_out w source ids' u1 u2"
  shows "fans_out w source (ids @ ids') u u2"
  unfolding fans_out_def
proof (intro conjI allI)
  show "peers u2 = peers u" "peer u2 = peer u" using assms by (simp_all add: fans_out_def)
  fix q
  obtain t f where 1: "subseq t ids" "wrote u1 q = wrote u q @ f" "list_all2 (announcement w) t f"
    "RemoteNodeID (peer u q) = source \<or> q \<notin> peers u \<longrightarrow> t = []" using assms(1) unfolding fans_out_def by blast
  obtain t' f' where 2: "subseq t' ids'" "wrote u2 q = wrote u1 q @ f'" "list_all2 (announcement w) t' f'"
    "RemoteNodeID (peer u q) = source \<or> q \<notin> peers u \<longrightarrow> t' = []" using assms unfolding fans_out_def by metis
  show "\<exists>told frames. subseq told (ids @ ids') \<and> wrote u2 q = wrote u q @ frames \<and> list_all2 (announcement w) told frames \<and>
      (RemoteNodeID (peer u q) = source \<or> q \<notin> peers u \<longrightarrow> told = [])"
    using 1 2 by (intro exI [of _ "t @ t'"] exI [of _ "f @ f'"]) (auto intro: list_all2_appendI list_emb_append_mono)
qed

lemma fans_out_stores [simp]:
  "fans_out w source ids (u\<lparr>fdb := d\<rparr>) u' = fans_out w source ids u u'" "fans_out w source ids (u\<lparr>fedb := ed\<rparr>) u' = fans_out w source ids u u'"
  "fans_out w source ids u (u'\<lparr>fdb := d\<rparr>) = fans_out w source ids u u'" "fans_out w source ids u (u'\<lparr>fedb := ed\<rparr>) = fans_out w source ids u u'"
  by (simp_all add: fans_out_def)

lemma announce_one_effect:
  "wrote (announce_one w payload p u) q = (if q = p then wrote (announce_one w payload p u) p else wrote u q)"
  "peer (announce_one w payload p u) = peer u" "peers (announce_one w payload p u) = peers u"
  "fdb (announce_one w payload p u) = fdb u" "fedb (announce_one w payload p u) = fedb u"
  by (auto simp: announce_one_def sendEnvelope_fed_def writePeerMessage_def split: sum.splits)

lemma announce_one_writes:
  "wrote (announce_one w payload p u) p = wrote u p \<or>
   (\<exists>frame. encode_frame (fwire w) FrameTypeSummary payload = Inr frame \<and> wrote (announce_one w payload p u) p = wrote u p @ [frame])"
  by (auto simp: announce_one_def sendEnvelope_fed_def writePeerMessage_def split: sum.splits)

lemma announce_fold:
  assumes "distinct targets"
  shows "peer (fold (announce_one w payload) targets u) = peer u" "peers (fold (announce_one w payload) targets u) = peers u"
    "fdb (fold (announce_one w payload) targets u) = fdb u" "fedb (fold (announce_one w payload) targets u) = fedb u"
    "q \<notin> set targets \<Longrightarrow> wrote (fold (announce_one w payload) targets u) q = wrote u q"
    "wrote (fold (announce_one w payload) targets u) q = wrote u q \<or> (\<exists>frame. encode_frame (fwire w) FrameTypeSummary payload = Inr frame \<and>
       wrote (fold (announce_one w payload) targets u) q = wrote u q @ [frame])"
proof -
  show "peer (fold (announce_one w payload) targets u) = peer u" "peers (fold (announce_one w payload) targets u) = peers u"
    "fdb (fold (announce_one w payload) targets u) = fdb u" "fedb (fold (announce_one w payload) targets u) = fedb u"
    by (induction targets arbitrary: u) (simp_all add: announce_one_effect)
  have out: "wrote (fold (announce_one w payload) ts u) q = wrote u q" if "q \<notin> set ts" for ts and u :: "('d, 'e) federation"
    using that
  proof (induction ts arbitrary: u)
    case (Cons t ts)
    then show ?case using announce_one_effect(1) [of w payload t u q] by simp
  qed simp
  show "q \<notin> set targets \<Longrightarrow> wrote (fold (announce_one w payload) targets u) q = wrote u q" by (rule out)
  show "wrote (fold (announce_one w payload) targets u) q = wrote u q \<or> (\<exists>frame. encode_frame (fwire w) FrameTypeSummary payload = Inr frame \<and>
       wrote (fold (announce_one w payload) targets u) q = wrote u q @ [frame])"
    using assms
  proof (induction targets arbitrary: u)
    case (Cons t ts)
    show ?case
    proof (cases "q = t")
      case True
      with Cons.prems out [of ts "announce_one w payload t u"] announce_one_writes [of w payload t u] show ?thesis by simp
    next
      case False
      with Cons.IH [of "announce_one w payload t u"] Cons.prems announce_one_effect(1) [of w payload t u q] show ?thesis by simp
    qed
  qed simp
qed

lemma announced_single:
  assumes "IsDigestHexID i"
  shows "announced_ids [i] = [i]"
proof -
  from assms have "isDigestHex i" "i \<noteq> []" using isDigestHex_length [of i] by (auto simp: IsDigestHexID_def)
  with normalize_sorted_id [of "[i]"] show ?thesis
    by (simp add: announced_ids_def NormalizeDigestHexIDs_def normalizeDigestHexIDs_eq IsDigestHexID_def Let_def)
qed

lemma forwardSummary_stores [simp]:
  "fdb (forwardSummaryToPeers w ids source u) = fdb u" "fedb (forwardSummaryToPeers w ids source u) = fedb u"
  by (auto simp: forwardSummaryToPeers_def Let_def announce_fold)

lemma forwardSummary_fans_out:
  assumes "source \<noteq> []"
  shows "fans_out w source [i] u (forwardSummaryToPeers w [i] source u)"
proof (cases "i \<noteq> [] \<and> IsDigestHexID i")
  case True
  let ?pl = "GMapS (summary_fields (BuildSummaryPreviewPayload [i] [i] []))"
  let ?ts = "filter (\<lambda>p. \<not> (source \<noteq> [] \<and> RemoteNodeID (peer u p) = source)) (sorted_list_of_set (peers u))"
  have d: "distinct ?ts" by simp
  have eq: "forwardSummaryToPeers w [i] source u = fold (announce_one w ?pl) ?ts u"
    using True by (simp add: forwardSummaryToPeers_def Let_def announced_single)
  have "\<exists>told frames. subseq told [i] \<and> wrote (fold (announce_one w ?pl) ?ts u) q = wrote u q @ frames \<and>
      list_all2 (announcement w) told frames \<and> (RemoteNodeID (peer u q) = source \<or> q \<notin> peers u \<longrightarrow> told = [])" for q
  proof (cases "q \<in> set ?ts")
    case out: False
    then show ?thesis using announce_fold(5) [OF d out, of w ?pl u] by (intro exI [of _ "[]"]) simp
  next
    case member: True
    with assms have s: "RemoteNodeID (peer u q) \<noteq> source" "q \<in> peers u" by (cases "finite (peers u)"; auto)+
    from announce_fold(6) [OF d, of w ?pl u q] show ?thesis
    proof
      assume "wrote (fold (announce_one w ?pl) ?ts u) q = wrote u q"
      then show ?thesis by (intro exI [of _ "[]"]) simp
    next
      assume "\<exists>frame. encode_frame (fwire w) FrameTypeSummary ?pl = Inr frame \<and> wrote (fold (announce_one w ?pl) ?ts u) q = wrote u q @ [frame]"
      then obtain frame where "announcement w i frame" "wrote (fold (announce_one w ?pl) ?ts u) q = wrote u q @ [frame]"
        by (auto simp: announcement_def)
      with s show ?thesis by (intro exI [of _ "[i]"] exI [of _ "[frame]"]) simp
    qed
  qed
  with d show ?thesis unfolding eq by (simp add: fans_out_def announce_fold)
next
  case False
  then show ?thesis by (auto simp: forwardSummaryToPeers_def fans_out_refl)
qed

lemma forward_signals:
  assumes "AcceptRelayForward st es e now d ed src (Some msg) mx = (d', ed', signals, r)"
  shows "signals = [] \<or> (\<exists>trusted. signals = [\<lparr>SignalItemID = MID msg, Trusted = trusted, SourceRelay = src\<rparr>])"
  using assms by (auto simp: AcceptRelayForward_def forward_checked_def forward_tail_def relayIngestItemID_def Let_def
      split: if_splits sum.splits prod.splits option.splits)

lemma fed_message_id: "transferObjectToMessage_fed env now object = Inr msg \<Longrightarrow> MID msg = ItemID object"
  by (auto simp: transferObjectToMessage_fed_def Let_def split: if_splits)

lemma forward_object_fans_out:
  assumes "RemoteNodeID (peer u p) \<noteq> []"
  shows "fans_out w (RemoteNodeID (peer u p)) [ItemID object] u (fst (forward_object w m st now p object u))"
proof (cases "transferObjectToMessage_fed (fwire w) now object")
  case (Inl issue)
  then show ?thesis by (simp add: forward_object_def fans_out_refl)
next
  case (Inr msg)
  let ?src = "RemoteNodeID (peer u p)"
  obtain d ed signals result where a: "AcceptRelayForward st (managerEnvelopeStore m) (managerEngine m) now (fdb u) (fedb u)
      ?src (Some msg) 65536 = (d, ed, signals, result)" by (metis prod_cases4)
  define u1 where "u1 = fold (observe_ingest w) signals (u\<lparr>fdb := d, fedb := ed\<rparr>)"
  have "fans_out w ?src [ItemID object] (u\<lparr>fdb := d, fedb := ed\<rparr>) u1"
    using forward_signals [OF a] fed_message_id [OF Inr] forwardSummary_fans_out [OF assms(1), of w "MID msg" "u\<lparr>fdb := d, fedb := ed\<rparr>"]
    by (auto simp: u1_def observe_ingest_def fans_out_refl)
  then have "fans_out w ?src [ItemID object] u u1" by simp
  with Inr a show ?thesis
    by (auto simp: forward_object_def Let_def u1_def [symmetric] split: sum.splits prod.splits)
qed

lemma forward_loop_fans_out:
  assumes "RemoteNodeID (peer u p) \<noteq> []" and "forward_loop w m st now p objects accepted u = (u', accepted')"
  shows "fans_out w (RemoteNodeID (peer u p)) (map ItemID objects) u u'"
  using assms
proof (induction objects arbitrary: accepted u)
  case (Cons object rest)
  obtain u1 ok where f: "forward_object w m st now p object u = (u1, ok)" by fastforce
  with forward_object_fans_out [OF Cons.prems(1), of w object m st now]
  have s: "fans_out w (RemoteNodeID (peer u p)) [ItemID object] u u1" by simp
  then have "peer u1 = peer u" "peers u1 = peers u" by (simp_all add: fans_out_def)
  with Cons.IH [of u1] Cons.prems f have "fans_out w (RemoteNodeID (peer u p)) (map ItemID rest) u1 u'" by simp
  from fans_out_trans [OF s this] show ?case by simp
qed (simp add: fans_out_refl)

text \<open>
  Claim C6. A TRANSFER is never echoed: handling one from an identified relay writes at most a RECEIPT to the
  link it came on, nothing to any other link to the same relay or to a link that is not registered, and to
  every other link announcements of single items of that TRANSFER, each at most once and in their order.
\<close>

theorem transfers_never_echoed:
  assumes "RemoteNodeID (peer u p) \<noteq> []" and "ETransfer ev = Some transfer"
    and "handleTransfer_fed w m now p ev u = (u', r)"
  shows "(wrote u' p = wrote u p \<or> (\<exists>accepted frame. wrote u' p = wrote u p @ [frame] \<and>
      encode_frame (fwire w) FrameTypeReceipt (GMapS (receipt_fields \<lparr>Accepted = accepted\<rparr>)) = Inr frame)) \<and>
    (\<forall>q. q \<noteq> p \<longrightarrow> (\<exists>told frames. subseq told (map (ItemID \<circ> Object) (Objects transfer)) \<and> wrote u' q = wrote u q @ frames \<and>
      list_all2 (announcement w) told frames \<and>
      (RemoteNodeID (peer u q) = RemoteNodeID (peer u p) \<or> q \<notin> peers u \<longrightarrow> frames = [])))"
proof (cases "managerStore m")
  case None
  with assms(2,3) have "u' = u" by (auto simp: handleTransfer_fed_def)
  then show ?thesis by (auto intro: exI [of _ "[]"])
next
  case (Some st)
  obtain u1 accepted0 where l: "forward_loop w m st now p (map Object (Objects transfer)) [] u = (u1, accepted0)" by fastforce
  define accepted where "accepted = (if length accepted0 > 1 then SortDigestHexIDs accepted0 else accepted0)"
  let ?pl = "GMapS (receipt_fields \<lparr>Accepted = accepted\<rparr>)"
  have send: "sendEnvelope_fed w p FrameTypeReceipt ?pl u1 = (u', r)"
    using assms(2,3) Some l by (simp add: handleTransfer_fed_def Let_def accepted_def)
  have "wrote u' q = wrote u1 q" if "q \<noteq> p" for q
    using send that by (auto simp: sendEnvelope_fed_def writePeerMessage_def split: sum.splits if_splits)
  moreover have "wrote u' p = wrote u1 p \<or> (\<exists>frame. wrote u' p = wrote u1 p @ [frame] \<and> encode_frame (fwire w) FrameTypeReceipt ?pl = Inr frame)"
    using send by (auto simp: sendEnvelope_fed_def writePeerMessage_def split: sum.splits if_splits)
  moreover have f: "fans_out w (RemoteNodeID (peer u p)) (map (ItemID \<circ> Object) (Objects transfer)) u u1"
    using forward_loop_fans_out [OF assms(1) l] by simp
  moreover have "wrote u1 p = wrote u p" using f by (fastforce simp: fans_out_def)
  ultimately show ?thesis unfolding fans_out_def by (metis list_all2_Nil)
qed

subsection \<open>The client path and the relay path\<close>

lemma not_found_agrees: "isNotFoundError_fed = isNotFoundError"
  by (intro ext) (simp add: isNotFoundError_fed_def isNotFoundError_def)

lemma load_agrees:
  assumes "envelopeStore h = managerEnvelopeStore m" and "db v = fdb u" and "edb v = fedb u"
  shows "loadTransferObjectByItemID_fed env (store h) m u i = loadTransferObjectByItemID env h v i"
  unfolding loadTransferObjectByItemID_fed_def loadTransferObjectByItemID_def not_found_agrees assms by (rule refl)


lemma persist_agrees:
  "envelopeStore h = managerEnvelopeStore m \<Longrightarrow> persistTransferEnvelope_fed m = persistTransferEnvelope h"
  unfolding persistTransferEnvelope_fed_def persistTransferEnvelope_def transfer_envelope_def by (intro ext) simp

lemma decoded_times: "DecodeItemEnvelopeB64 env b64 = Inr e \<Longrightarrow> CreatedAt e = 0 \<and> ExpiresAt e = 0"
  by (auto simp: DecodeItemEnvelopeB64_def parseCanonicalItemEnvelope_def split: option.splits if_splits)

lemma message_agrees:
  "transferObjectToMessage_fed env now object = Inr msg \<longleftrightarrow> transferObjectToMessage env now object = Inr msg"
proof (cases "DecodeItemEnvelopeB64 env (EnvelopeB64 object)")
  case (Inr e)
  with decoded_times [OF this] show ?thesis
    by (auto simp: transferObjectToMessage_fed_def transferObjectToMessage_def message_times_def Let_def split: if_splits)
qed (auto simp: transferObjectToMessage_fed_def transferObjectToMessage_def)





subsection \<open>What a relay acknowledges it serves\<close>

definition bbolt_manager :: "'b bolt_api \<Rightarrow> (int \<Rightarrow> int) \<Rightarrow> ('b msg_db, 'b env_db) PeerManager \<Rightarrow> bool" where
  "bbolt_manager api lo m \<longleftrightarrow> managerStore m = Some (bbolt_store api lo) \<and>
     managerEnvelopeStore m = Some (bbolt_envelope_store api lo)"

lemma accept_only_item:
  assumes "bolt api" and "env_reachable api lo ed" and "good_env (envelopeFromMessage msg src)" and "length src < 65536"
    and "AcceptRelayForward st (Some (bbolt_envelope_store api lo)) e now d ed src (Some msg) mx = (d', ed', sigs, r)"
  shows "only_item api lo (MID msg) ed ed'"
proof -
  from assms(5) have "ed' = ed \<or> (\<exists>ed1 q. persistEnvelopeState (Some (bbolt_envelope_store api lo)) ed msg src = (ed1, q) \<and>
      (ed' = ed1 \<or> (\<exists>i qs. ed' = fst (MarkSeenAndRelayIngestEmitted api lo now ed1 i qs))))"
    by (auto simp: AcceptRelayForward_def forward_checked_def forward_tail_def mark_ingest_def Let_def bbolt_envelope_store_def
        split: if_splits sum.splits prod.splits) (metis fst_conv)+
  then show ?thesis
  proof (elim disjE exE conjE)
    fix ed1 q
    assume p: "persistEnvelopeState (Some (bbolt_envelope_store api lo)) ed msg src = (ed1, q)"
    note step = persistEnvelopeState_step [OF assms(1-4) p]
    show ?thesis if "ed' = ed1" using step that by (simp add: only_item_def)
    show ?thesis if "ed' = fst (MarkSeenAndRelayIngestEmitted api lo now ed1 i qs)" for i qs
      using step env_reachable.Both [OF step(1), of now i qs] markers_keep_envelopes(1) [of ed' api lo now ed1 i _ qs] that
      by (simp add: only_item_def GetEnvelopeByID_def)
  qed (simp add: only_item_def assms(2))
qed

lemma handler_for:
  fixes u :: "('b msg_db, 'b env_db) federation"
  assumes "bbolt_manager api lo m"
  obtains h :: "('b msg_db, 'b env_db) WSHandler" and v :: "('b msg_db, 'b env_db) hub"
    where "bbolt_handler api lo h" "store h = bbolt_store api lo" "envelopeStore h = managerEnvelopeStore m" "db v = fdb u" "edb v = fedb u"
proof -
  fix h0 :: "('b msg_db, 'b env_db) WSHandler" and v0 :: "('b msg_db, 'b env_db) hub"
  show thesis
    by (rule that [of "h0\<lparr>store := bbolt_store api lo, envelopeStore := managerEnvelopeStore m\<rparr>" "v0\<lparr>db := fdb u, edb := fedb u\<rparr>"])
       (use assms in \<open>simp_all add: bbolt_handler_def bbolt_manager_def\<close>)
qed

lemma fed_decoded:
  assumes "transferObjectToMessage env now object = Inr msg"
  shows "\<exists>bs. b64_decode True (EnvelopeB64 object) = Some bs" and "MID msg = ItemID object"
proof -
  from toMessage_ok [OF assms] obtain e where e: "DecodeItemEnvelopeB64 env (EnvelopeB64 object) = Inr e" and "MID msg = ItemID object" by blast
  then show "MID msg = ItemID object" by blast
  from e show "\<exists>bs. b64_decode True (EnvelopeB64 object) = Some bs"
    by (auto simp: DecodeItemEnvelopeB64_def decodeBase64URLRaw_def split: if_splits option.splits)
qed

lemma fed_persist_step:
  fixes m :: "('b msg_db, 'b env_db) PeerManager"
  assumes "bolt api" and "env_reachable api lo ed" and "bbolt_manager api lo m" and "import_fits env sender now object"
    and "transferObjectToMessage env now object = Inr msg"
    and "persistTransferEnvelope_fed m ed object msg (sint (HopCount object)) sender = (ed', r)"
  shows "only_item api lo (ItemID object) ed ed'" and "r = Inr () \<Longrightarrow> stored_item api env now sender object ed'"
proof -
  obtain h :: "('b msg_db, 'b env_db) WSHandler" where h: "bbolt_handler api lo h" "envelopeStore h = managerEnvelopeStore m"
    using handler_for [OF assms(3)] by metis
  have len: "length sender < 65536" using assms(4) by (simp add: import_fits_def)
  note step = persist_transfer_step [OF assms(1,2) h(1) assms(4) len assms(5) assms(6) [unfolded persist_agrees [OF h(2)]]]
  show "only_item api lo (ItemID object) ed ed'" and "r = Inr () \<Longrightarrow> stored_item api env now sender object ed'" by (rule step)+
qed

lemma observe_stores: "fdb (fold (observe_ingest w) signals u) = fdb u \<and> fedb (fold (observe_ingest w) signals u) = fedb u \<and>
  peer (fold (observe_ingest w) signals u) = peer u"
proof (induction signals arbitrary: u)
  case (Cons signal signals)
  have "peer (forwardSummaryToPeers w ids source u) = peer u" for ids source
    by (simp add: forwardSummaryToPeers_def Let_def announce_fold)
  with Cons show ?case by (simp add: observe_ingest_def)
qed simp

lemma forward_object_step:
  fixes u :: "('b msg_db, 'b env_db) federation"
  assumes a: "bolt api" "env_reachable api lo (fedb u)" "bbolt_manager api lo m"
    and fits: "import_fits (fwire w) (RemoteNodeID (peer u p)) now object"
    and r: "forward_object w m (bbolt_store api lo) now p object u = (u', ok)"
  shows "only_item api lo (ItemID object) (fedb u) (fedb u') \<and> peer u' = peer u \<and>
    (ok \<longrightarrow> stored_item api (fwire w) now (RemoteNodeID (peer u p)) object (fedb u'))"
proof (cases "transferObjectToMessage (fwire w) now object")
  case (Inl issue)
  then have "\<exists>issue. transferObjectToMessage_fed (fwire w) now object = Inl issue"
    using message_agrees by (metis Inl_Inr_False sum.exhaust_sel obj_sumE)
  with r a(2) show ?thesis by (auto simp: forward_object_def only_item_def)
next
  case (Inr msg)
  let ?src = "RemoteNodeID (peer u p)"
  from Inr have fm: "transferObjectToMessage_fed (fwire w) now object = Inr msg" by (simp add: message_agrees)
  obtain d ed signals result where acc: "AcceptRelayForward (bbolt_store api lo) (managerEnvelopeStore m) (managerEngine m) now
      (fdb u) (fedb u) ?src (Some msg) 65536 = (d, ed, signals, result)" by (metis prod_cases4)
  define u1 where "u1 = fold (observe_ingest w) signals (u\<lparr>fdb := d, fedb := ed\<rparr>)"
  have u1: "fedb u1 = ed" "peer u1 = peer u" using observe_stores [of w signals "u\<lparr>fdb := d, fedb := ed\<rparr>"] by (simp_all add: u1_def)
  obtain bs where bs: "b64_decode True (EnvelopeB64 object) = Some bs" and id: "MID msg = ItemID object" using fed_decoded [OF Inr] by blast
  have len: "length ?src < 65536" using fits by (simp add: import_fits_def)
  have one: "only_item api lo (ItemID object) (fedb u) ed"
    using accept_only_item [OF a(1,2) imported_good(2) [OF fits Inr bs] len] acc a(3) id by (simp add: bbolt_manager_def)
  then have reach: "env_reachable api lo ed" by (simp add: only_item_def)
  obtain ed2 pr where p: "persistTransferEnvelope_fed m ed object msg (sint (HopCount object)) ?src = (ed2, pr)" by fastforce
  note two = fed_persist_step [OF a(1) reach a(3) fits Inr p]
  from r fm acc p u1 have "peer u' = peer u \<and> ((fedb u' = ed \<and> \<not> ok) \<or> (fedb u' = ed2 \<and> (ok \<longrightarrow> pr = Inr ())))"
    by (auto simp: forward_object_def Let_def u1_def [symmetric] split: sum.splits if_splits)
  with one two show ?thesis by (auto simp: only_item_def)
qed

lemma forward_loop_step:
  fixes u :: "('b msg_db, 'b env_db) federation"
  assumes "bolt api" and "env_reachable api lo (fedb u)" and "bbolt_manager api lo m" and "RemoteNodeID (peer u p) = src"
    and "\<forall>object \<in> set objects. import_fits (fwire w) src now object" and "distinct (map ItemID objects)"
    and "forward_loop w m (bbolt_store api lo) now p objects accepted u = (u', accepted')"
  shows "env_reachable api lo (fedb u') \<and>
    (\<forall>i. i \<notin> ItemID ` set objects \<longrightarrow> GetEnvelopeByID api (fedb u') i = GetEnvelopeByID api (fedb u) i) \<and>
    (\<forall>i \<in> set accepted'. i \<in> set accepted \<or>
       (\<exists>object \<in> set objects. ItemID object = i \<and> stored_item api (fwire w) now src object (fedb u')))"
  using assms
proof (induction objects arbitrary: accepted u)
  case (Cons object rest)
  obtain u1 ok where f: "forward_object w m (bbolt_store api lo) now p object u = (u1, ok)" by fastforce
  have "import_fits (fwire w) (RemoteNodeID (peer u p)) now object" using Cons.prems(4,5) by simp
  note step = forward_object_step [OF Cons.prems(1-3) this f, unfolded Cons.prems(4)]
  define acc where "acc = (if ok then accepted @ [ItemID object] else accepted)"
  have l: "forward_loop w m (bbolt_store api lo) now p rest acc u1 = (u', accepted')" using Cons.prems(7) f by (simp add: acc_def)
  have 1: "env_reachable api lo (fedb u1)" "RemoteNodeID (peer u1 p) = src"
    "\<And>i. i \<noteq> ItemID object \<Longrightarrow> GetEnvelopeByID api (fedb u1) i = GetEnvelopeByID api (fedb u) i"
    using step Cons.prems(4) by (simp_all add: only_item_def)
  from Cons.IH [OF Cons.prems(1) 1(1) Cons.prems(3) 1(2) _ _ l] Cons.prems(5,6)
  have rest: "env_reachable api lo (fedb u')"
    "\<And>i. i \<notin> ItemID ` set rest \<Longrightarrow> GetEnvelopeByID api (fedb u') i = GetEnvelopeByID api (fedb u1) i"
    "\<And>i. i \<in> set accepted' \<Longrightarrow> i \<in> set acc \<or> (\<exists>object \<in> set rest. ItemID object = i \<and> stored_item api (fwire w) now src object (fedb u'))"
    by auto
  have new: "stored_item api (fwire w) now src object (fedb u')" if ok
    using step that rest(2) [of "ItemID object"] Cons.prems(6) by (simp add: stored_item_def)
  have "GetEnvelopeByID api (fedb u') i = GetEnvelopeByID api (fedb u) i" if "i \<notin> ItemID ` set (object # rest)" for i
    using that rest(2) [of i] 1(3) [of i] by simp
  moreover have "i \<in> set accepted \<or> (\<exists>object \<in> set (object # rest). ItemID object = i \<and> stored_item api (fwire w) now src object (fedb u'))"
    if "i \<in> set accepted'" for i
    using rest(3) [OF that] new by (auto simp: acc_def split: if_splits)
  ultimately show ?case using rest(1) by blast
qed simp

lemma fed_item_served:
  fixes u :: "('b msg_db, 'b env_db) federation"
  assumes "bbolt_manager api lo m" and "import_fits env src now object" and "stored_item api env now src object (fedb u)"
  shows "\<exists>e. loadTransferObjectByItemID_fed env (bbolt_store api lo) m u (ItemID object) =
      Inr (Some (object\<lparr>EnvelopeB64 := filter (\<lambda>c. \<not> is_newline c) (EnvelopeB64 object), Envelope := e\<rparr>))"
proof -
  obtain h :: "('b msg_db, 'b env_db) WSHandler" and v :: "('b msg_db, 'b env_db) hub"
    where h: "bbolt_handler api lo h" "store h = bbolt_store api lo" "envelopeStore h = managerEnvelopeStore m" "db v = fdb u" "edb v = fedb u"
    by (rule handler_for [OF assms(1)])
  from stored_item_served [OF h(1) assms(2), of "src" v] assms(3) load_agrees [OF h(3-5), of env "ItemID object"] h(2,5) show ?thesis by auto
qed

text \<open>
  Claim C5. What the relay acknowledges to another relay it can serve, for frames that fit the record format:
  the id of the remote relay is shorter than 65536 bytes, the clock and the expiry of every object of the
  frame are within the 64-bit nanosecond range (before the year 2262), and every envelope and payload is
  below 4 GiB. When such a parsed TRANSFER is handled and its RECEIPT written, every item id in the receipt
  is the id of an object of the frame, and looking it up for a REQUEST in the state the handler leaves finds
  that object with the same envelope bytes, expiry and hop count, whatever the engine and the announcements
  did while the frame was handled; the envelope store stays well-formed.
\<close>

theorem forwarded_items_are_served:
  fixes u :: "('b msg_db, 'b env_db) federation"
  assumes "bolt api" and "env_reachable api lo (fedb u)" and "bbolt_manager api lo m"
    and "ParseTransferPayloadMixed (fwire w) payload = Inr transfer" and "ETransfer ev = Some transfer"
    and "\<forall>object \<in> set (map Object (Objects transfer)). import_fits (fwire w) (RemoteNodeID (peer u p)) now object"
    and "handleTransfer_fed w m now p ev u = (u', Inr ())"
  shows "\<exists>accepted frame. encode_frame (fwire w) FrameTypeReceipt (GMapS (receipt_fields \<lparr>Accepted = accepted\<rparr>)) = Inr frame \<and>
    last (wrote u' p) = frame \<and> env_reachable api lo (fedb u') \<and>
    (\<forall>i \<in> set accepted. \<exists>object \<in> set (map Object (Objects transfer)). \<exists>e. ItemID object = i \<and>
       loadTransferObjectByItemID_fed (fwire w) (bbolt_store api lo) m u' i =
         Inr (Some (object\<lparr>EnvelopeB64 := filter (\<lambda>c. \<not> is_newline c) (EnvelopeB64 object), Envelope := e\<rparr>)))"
proof -
  obtain u1 accepted0 where l: "forward_loop w m (bbolt_store api lo) now p (map Object (Objects transfer)) [] u = (u1, accepted0)" by fastforce
  define accepted where "accepted = (if length accepted0 > 1 then SortDigestHexIDs accepted0 else accepted0)"
  have send: "sendEnvelope_fed w p FrameTypeReceipt (GMapS (receipt_fields \<lparr>Accepted = accepted\<rparr>)) u1 = (u', Inr ())"
    using assms(3,5,7) l by (simp add: handleTransfer_fed_def bbolt_manager_def Let_def accepted_def)
  then have same: "fedb u' = fedb u1" by (auto simp: sendEnvelope_fed_def writePeerMessage_def split: sum.splits if_splits)
  have d: "distinct (map ItemID (map Object (Objects transfer)))" using parsed_ids_distinct [OF assms(4)] by (simp add: comp_def)
  note step = forward_loop_step [OF assms(1-3) refl assms(6) d l]
  have "\<exists>object \<in> set (map Object (Objects transfer)). \<exists>e. ItemID object = i \<and>
      loadTransferObjectByItemID_fed (fwire w) (bbolt_store api lo) m u' i =
        Inr (Some (object\<lparr>EnvelopeB64 := filter (\<lambda>c. \<not> is_newline c) (EnvelopeB64 object), Envelope := e\<rparr>))"
    if "i \<in> set accepted" for i
  proof -
    from that have "i \<in> set accepted0" by (auto simp: accepted_def SortDigestHexIDs_def split: if_splits)
    with step obtain object where o: "object \<in> set (map Object (Objects transfer))" "ItemID object = i"
      "stored_item api (fwire w) now (RemoteNodeID (peer u p)) object (fedb u')" unfolding same by fastforce
    with fed_item_served [OF assms(3) _ o(3)] assms(6) show ?thesis by metis
  qed
  moreover have "env_reachable api lo (fedb u')" using step same by simp
  moreover obtain frame where "encode_frame (fwire w) FrameTypeReceipt (GMapS (receipt_fields \<lparr>Accepted = accepted\<rparr>)) = Inr frame"
    "last (wrote u' p) = frame"
    using send by (auto simp: sendEnvelope_fed_def writePeerMessage_def split: sum.splits if_splits)
  ultimately show ?thesis by blast
qed

subsection \<open>What one relay serves, another imports\<close>

lemma load_fed_fields:
  assumes "loadTransferObjectByItemID_fed env st m u i = Inr (Some object)"
  obtains bs where "EnvelopeB64 object = b64_encode bs" and "isDigestHex i"
    and "DecodeItemEnvelopeB64 env (EnvelopeB64 object) = Inr (Envelope object)" and "ItemID object = ComputeTransferObjectItemID object"
  using assms by (auto simp: loadTransferObjectByItemID_fed_def Let_def ComputeTransferObjectItemID_def IsDigestHexID_def
      split: if_splits option.splits sum.splits)

lemma b64_encode_newline_free: "filter (\<lambda>c. \<not> is_newline c) (b64_encode bs) = b64_encode bs"
  using b64_encode_not_space newline_is_space by (auto intro!: filter_True)

lemma decoded_payload:
  assumes "DecodeItemEnvelopeB64 env b64 = Inr e"
  shows "From e \<noteq> []" and "To e \<noteq> []" and "PayloadB64 e \<noteq> [] \<Longrightarrow> DecodePayloadB64 (PayloadB64 e) \<noteq> None"
proof -
  from assms obtain bs where "parseCanonicalItemEnvelope env bs = Inr e" by (auto simp: DecodeItemEnvelopeB64_def)
  from parseCanonicalItemEnvelope_verified [OF this] obtain key to body where e: "length to = 32" "From e = hex_encode (sha256 key)"
    "To e = hex_encode to" "PayloadB64 e = b64_encode body" unfolding verified_envelope_def by blast
  then show "From e \<noteq> []" and "To e \<noteq> []" using recipient_neq_nil [OF length_sha256] recipient_neq_nil [of to] by simp_all
  show "PayloadB64 e \<noteq> [] \<Longrightarrow> DecodePayloadB64 (PayloadB64 e) \<noteq> None"
    using e(4) by (auto simp: DecodePayloadB64_def dest: b64_encode_not_space)
qed

text \<open>
  What one relay serves another one can import: an object that is loaded for a REQUEST, with a hop
  count of at most 65535, a body that is not empty and an expiry in the future, passes every check of the
  receiving relay, whose message has the same id, author, destination, body and expiry; and once the receiving
  relay holds it, the object it serves is the very same one, so an item keeps its bytes, expiry and hop count
  over any number of relays.
\<close>

lemma served_items_cross_relays:
  fixes v :: "('b msg_db, 'b env_db) federation"
  assumes "loadTransferObjectByItemID_fed env st m u i = Inr (Some object)" and "HopCount object \<le> 65535"
    and "PayloadB64 (Envelope object) \<noteq> []" and "instant now < sint (ExpiryUnixMS object) * millisecond"
    and "bbolt_manager api lo m'" and "import_fits env src now object"
  shows "\<exists>msg. transferObjectToMessage_fed env now object = Inr msg \<and> MID msg = i \<and> MFrom msg = From (Envelope object) \<and>
    MTo msg = To (Envelope object) \<and> MPayload msg = PayloadB64 (Envelope object) \<and>
    MExpiresAt msg = toUTC (time_UnixMilli (sint (ExpiryUnixMS object))) \<and>
    (stored_item api env now src object (fedb v) \<longrightarrow>
       loadTransferObjectByItemID_fed env (bbolt_store api lo) m' v i = Inr (Some object))"
proof -
  from load_fed_fields [OF assms(1)] obtain bs where b: "EnvelopeB64 object = b64_encode bs" "isDigestHex i"
    "DecodeItemEnvelopeB64 env (EnvelopeB64 object) = Inr (Envelope object)" "ItemID object = ComputeTransferObjectItemID object" .
  have id: "ItemID object = i" by (rule load_fed_item(1) [OF assms(1)])
  have "i \<noteq> []" using isDigestHex_length [OF b(2)] by auto
  moreover have "message_times now object (Envelope object) = Inr (toUTC now, toUTC (time_UnixMilli (sint (ExpiryUnixMS object))))"
    using decoded_times [OF b(3)] assms(4) by (simp add: message_times_def Let_def After_def toUTC_def time_UnixMilli_def)
  moreover have "loadTransferObjectByItemID_fed env (bbolt_store api lo) m' v i = Inr (Some object)"
    if s: "stored_item api env now src object (fedb v)"
  proof -
    from fed_item_served [OF assms(5,6) s] obtain e where l: "loadTransferObjectByItemID_fed env (bbolt_store api lo) m' v i =
        Inr (Some (object\<lparr>EnvelopeB64 := EnvelopeB64 object, Envelope := e\<rparr>))"
      unfolding id b(1) b64_encode_newline_free by blast
    let ?o = "object\<lparr>EnvelopeB64 := EnvelopeB64 object, Envelope := e\<rparr>"
    obtain bs' where "DecodeItemEnvelopeB64 env (EnvelopeB64 ?o) = Inr (Envelope ?o)" by (rule load_fed_fields [OF l])
    with b(3) have "Envelope object = e" by simp
    then have "?o = object" by simp
    with l show ?thesis by simp
  qed
  ultimately show ?thesis
    using b decoded_payload [OF b(3)] decoded_times [OF b(3)] assms(2,3) id
    by (simp add: message_agrees transferObjectToMessage_def IsDigestHexID_def not_less)
qed

subsection \<open>Dialling\<close>

definition backed_off :: "dial_job \<Rightarrow> bool" where
  "backed_off job \<longleftrightarrow> dialAttempt job \<le> 10 \<and> dialDelay job = min (2 ^ dialAttempt job) 60 * second"

lemma backed_off_new: "backed_off (new_dial url sid)"
  by (simp add: backed_off_def new_dial_def)

lemma backed_off_retry: "backed_off job \<Longrightarrow> dialAttempt job < 10 \<Longrightarrow> backed_off (retry job)"
  by (auto simp: backed_off_def retry_def min_def)

lemma dial_turn_dials:
  assumes "dial_turn w m now outcome job u = (u', job')"
  shows "dials u' = dials u" and "job' = None \<or> dialAttempt job < 10 \<and> job' = Some (retry job)"
proof -
  show "job' = None \<or> dialAttempt job < 10 \<and> job' = Some (retry job)"
    using assms by (auto simp: dial_turn_def Let_def split: if_splits dial_outcome.splits prod.splits sum.splits)
  from assms show "dials u' = dials u"
  proof (cases rule: dial_cases)
    case (Link p msg u1 r)
    then show ?thesis by (cases r) (simp_all add: encountered_def grown_def)
  qed simp
qed

lemma dial_step_dials:
  assumes "i < length (dials u)"
  shows "dials (fed_step w m u (Dial now i outcome)) = take i (dials u) @ drop (Suc i) (dials u) \<or>
    dialAttempt (dials u ! i) < 10 \<and> dials (fed_step w m u (Dial now i outcome)) = (dials u)[i := retry (dials u ! i)]"
proof -
  obtain u' job' where d: "dial_turn w m now outcome (dials u ! i) u = (u', job')" by fastforce
  from dial_turn_dials [OF d] assms d show ?thesis by (cases job') auto
qed

lemma other_step_dials:
  assumes "\<And>now i outcome. ev = Dial now i outcome \<Longrightarrow> length (dials u) \<le> i"
  shows "dials (fed_step w m u ev) = dials u \<or> (\<exists>sid url. ev = RunOutbound sid \<and> dials (fed_step w m u ev) = dials u @ [new_dial url sid])"
proof (cases ev)
  case (RunOutbound sid)
  then show ?thesis by (auto split: list.splits)
next
  case (Dial now i outcome)
  with assms show ?thesis by auto
qed (use fed_step_queues [of ev u w m] in \<open>auto simp: queues_def\<close>)

lemma fed_step_backed_off:
  assumes "\<forall>job \<in> set (dials u). backed_off job"
  shows "\<forall>job \<in> set (dials (fed_step w m u ev)). backed_off job"
proof (cases "\<exists>now i outcome. ev = Dial now i outcome \<and> i < length (dials u)")
  case True
  then obtain now i outcome where ev: "ev = Dial now i outcome" and i: "i < length (dials u)" by blast
  from i assms have "dialAttempt (dials u ! i) < 10 \<Longrightarrow> backed_off (retry (dials u ! i))" by (simp add: backed_off_retry)
  with dial_step_dials [OF i, of w m now outcome] assms show ?thesis unfolding ev
    by (elim disjE conjE; simp only:) (auto dest: in_set_takeD in_set_dropD set_update_subset_insert [THEN subsetD])
next
  case False
  with other_step_dials [of ev u w m] assms show ?thesis by (force simp: backed_off_new)
qed

text \<open>The turns of dials in a run, and how many turns the dials in progress may still take.\<close>

fun dial_turns :: "fed_env \<Rightarrow> ('d, 'e) PeerManager \<Rightarrow> ('d, 'e) federation \<Rightarrow> fed_event list \<Rightarrow> nat" where
  "dial_turns w m u [] = 0"
| "dial_turns w m u (ev # evs) =
     (case ev of Dial now i outcome \<Rightarrow> if i < length (dials u) then 1 else 0 | _ \<Rightarrow> 0) + dial_turns w m (fed_step w m u ev) evs"

definition turns_left :: "dial_job list \<Rightarrow> nat" where
  "turns_left jobs = sum_list (map (\<lambda>job. 11 - dialAttempt job) jobs)"

lemma turns_left_split: "i < length jobs \<Longrightarrow> turns_left jobs = turns_left (take i jobs @ drop (Suc i) jobs) + (11 - dialAttempt (jobs ! i))"
  by (subst (1) id_take_nth_drop) (simp_all add: turns_left_def ac_simps)

lemma turns_left_update: "i < length jobs \<Longrightarrow> turns_left (jobs[i := job]) = turns_left (take i jobs @ drop (Suc i) jobs) + (11 - dialAttempt job)"
  by (simp add: upd_conv_take_nth_drop turns_left_def)

lemma dial_turns_bounded:
  assumes "\<forall>job \<in> set (dials u). backed_off job"
  shows "dial_turns w m u evs \<le> turns_left (dials u) + 11 * length (filter (\<lambda>ev. \<exists>sid. ev = RunOutbound sid) evs)"
  using assms
proof (induction evs arbitrary: u)
  case (Cons ev evs)
  note IH = Cons.IH [OF fed_step_backed_off [OF Cons.prems, of w m ev]]
  show ?case
  proof (cases "\<exists>now i outcome. ev = Dial now i outcome \<and> i < length (dials u)")
    case True
    then obtain now i outcome where ev: "ev = Dial now i outcome" and i: "i < length (dials u)" by blast
    have "dialAttempt (dials u ! i) \<le> 10" using Cons.prems i by (simp add: backed_off_def)
    with dial_step_dials [OF i, of w m now outcome] turns_left_split [OF i] turns_left_update [OF i, of "retry (dials u ! i)"]
    have "Suc (turns_left (dials (fed_step w m u ev))) \<le> turns_left (dials u)" unfolding ev
      by (elim disjE conjE; simp only:) (simp_all add: retry_def)
    moreover have "dial_turns w m u (ev # evs) = Suc (dial_turns w m (fed_step w m u ev) evs)" using ev i by (simp del: fed_step.simps)
    moreover have "\<not> (\<exists>sid. ev = RunOutbound sid)" using ev by simp
    ultimately show ?thesis using IH by simp
  next
    case False
    then have "dial_turns w m u (ev # evs) = dial_turns w m (fed_step w m u ev) evs" by (cases ev) auto
    moreover from False other_step_dials [of ev u w m]
    have "turns_left (dials (fed_step w m u ev)) \<le> turns_left (dials u) + (if \<exists>sid. ev = RunOutbound sid then 11 else 0)"
      by (force simp: turns_left_def new_dial_def)
    ultimately show ?thesis using IH by (cases "\<exists>sid. ev = RunOutbound sid") simp_all
  qed
qed (simp add: turns_left_def)

text \<open>
  Claim C26. Dials back off and end: in every run each dial in progress has failed at most ten times and waits
  one second doubled with every failure, up to a minute; and however events interleave, the turns the dials
  have taken are at most eleven for every url that \<open>Run\<close> took from \<open>outbound\<close>.
\<close>

theorem dials_back_off_and_end:
  "(\<forall>job \<in> set (dials (fed_run w m (new_federation d ed) evs)).
      dialAttempt job \<le> 10 \<and> dialDelay job = min (2 ^ dialAttempt job) 60 * second) \<and>
   dial_turns w m (new_federation d ed) evs \<le> 11 * length (filter (\<lambda>ev. \<exists>sid. ev = RunOutbound sid) evs)"
proof
  have "\<forall>job \<in> set (dials (fed_run w m u evs)). backed_off job" if "\<forall>job \<in> set (dials u). backed_off job" for u :: "('a, 'b) federation"
    using that
  proof (induction evs arbitrary: u)
    case (Cons ev evs)
    from Cons.IH [OF fed_step_backed_off [OF Cons.prems]] show ?case by simp
  qed simp
  from this [of "new_federation d ed"] show "\<forall>job \<in> set (dials (fed_run w m (new_federation d ed) evs)).
      dialAttempt job \<le> 10 \<and> dialDelay job = min (2 ^ dialAttempt job) 60 * second" by (simp add: new_federation_def backed_off_def)
  from dial_turns_bounded [of "new_federation d ed" w m evs]
  show "dial_turns w m (new_federation d ed) evs \<le> 11 * length (filter (\<lambda>ev. \<exists>sid. ev = RunOutbound sid) evs)"
    by (simp add: new_federation_def turns_left_def)
qed

subsection \<open>Witnesses\<close>

text \<open>Three links, two of them to the same relay, and a TRANSFER with one object on the first.\<close>

definition demo_fed :: fed_env where
  "demo_fed = \<lparr>fwire = demo_env, writable = (\<lambda>_ _ _. True), metricsSeed = (\<lambda>_. 0)\<rparr>"

definition demo_link :: "string \<Rightarrow> Peer" where
  "demo_link node = (new_peer ''relay-a'' zero_time 0 ''p'' ''s'' ''u'' True)\<lparr>RemoteNodeID := node, localHelloSent := True, adapterAttached := True\<rparr>"

definition demo_links :: "(mem_bucket msg_db, mem_bucket env_db) federation" where
  "demo_links = no_links\<lparr>peer := (\<lambda>p. demo_link (if p = ''r'' then ''node-b'' else ''node-a'')), peers := {''p'', ''q'', ''r''}\<rparr>"

theorem dials_back_off_and_end_witness:
  "dial_turns link_env link_manager no_links [AddPeerURL ''u'', RunOutbound ''s'', Dial zero_time 0 DialRefused, Dial zero_time 0 DialRefused] \<le> 11"
  using dials_back_off_and_end [of link_env link_manager "open_msg_db mem_bolt" "new_env_db mem_bolt"
      "[AddPeerURL ''u'', RunOutbound ''s'', Dial zero_time 0 DialRefused, Dial zero_time 0 DialRefused]"] by simp

theorem transfers_never_echoed_witness:
  "wrote (fst (handleTransfer_fed demo_fed link_manager sample_now ''p'' demo_event demo_links)) ''q'' = []"
proof -
  obtain u' r where h: "handleTransfer_fed demo_fed link_manager sample_now ''p'' demo_event demo_links = (u', r)" by fastforce
  have p: "RemoteNodeID (peer demo_links ''p'') \<noteq> []" and q: "RemoteNodeID (peer demo_links ''q'') = RemoteNodeID (peer demo_links ''p'')"
    and w: "wrote demo_links ''q'' = []"
    by (simp_all add: demo_links_def demo_link_def new_federation_def)
  have ev: "ETransfer demo_event = Some \<lparr>Objects = [\<lparr>Index = 0, Object = demo_item\<rparr>], Rejected = []\<rparr>" by (simp add: demo_event_def)
  note never = transfers_never_echoed [OF p ev h]
  have "''q'' \<noteq> ''p''" by simp
  from never [THEN conjunct2, rule_format, OF this] obtain frames where "wrote u' ''q'' = wrote demo_links ''q'' @ frames"
    "RemoteNodeID (peer demo_links ''q'') = RemoteNodeID (peer demo_links ''p'') \<or> ''q'' \<notin> peers demo_links \<longrightarrow> frames = []" by (elim exE conjE)
  with q w have "wrote u' ''q'' = []" by simp
  with h show ?thesis by simp
qed

lemma link_manager_fields:
  "managerStore link_manager = Some (bbolt_store mem_bolt (\<lambda>_. 0))"
  "managerEnvelopeStore link_manager = Some (bbolt_envelope_store mem_bolt (\<lambda>_. 0))"
  "relayID (managerEngine link_manager) = ''relay-a''" "bbolt_manager mem_bolt (\<lambda>_. 0) link_manager"
  by (simp_all add: link_manager_def SetPeerEnvelopeStore_def NewPeerManagerWithConfig_def bbolt_manager_def)


lemma demo_message_fed: "transferObjectToMessage_fed demo_env sample_now demo_item = Inr demo_message"
  using demo_to_message by (simp add: message_agrees)

lemma demo_fed_storable:
  "\<exists>ed'. PersistEnvelope mem_bolt (\<lambda>_. 0) ed (envelopeFromMessage demo_message ''node-a'') = (ed', Inr ())"
  "\<exists>ed'. PersistEnvelope mem_bolt (\<lambda>_. 0) ed (transfer_envelope demo_item ''hi'' demo_message 2 ''node-a'') = (ed', Inr ())"
  using recipient_neq_nil [OF length_sha256, of "''hi''"] recipient_neq_nil [of "replicate 32 NUL"]
  by (intro mem.persist_env_succeeds; simp add: envelopeFromMessage_def transfer_envelope_def demo_valid)+

lemma demo_accept:
  "\<exists>d' ed' sigs. AcceptRelayForward (bbolt_store mem_bolt (\<lambda>_. 0)) (Some (bbolt_envelope_store mem_bolt (\<lambda>_. 0))) (managerEngine link_manager)
     sample_now (open_msg_db mem_bolt) (new_env_db mem_bolt) ''node-a'' (Some demo_message) 65536 =
     (d', ed', sigs, Inr \<lparr>Status = RelayForwardAccepted, REnvelope = Some (envelopeFromMessage demo_message ''node-a'')\<rparr>)"
proof -
  have n: "GetMessageByID mem_bolt (open_msg_db mem_bolt) i = Inl (NotFound i)" "IsSeenBy mem_bolt (new_env_db mem_bolt) i q = Inr False"
    "GetEnvelopeByID mem_bolt (new_env_db mem_bolt) i = Inl (NotFound i)" for i q
    by (simp_all add: GetMessageByID_def IsSeenBy_def GetEnvelopeByID_def open_msg_db_def new_env_db_def mem_bolt_def mem_get_def)
  have v: "isValidForwardMessage (Some demo_message)" "MPayload demo_message = ''aGk''" "\<not> After sample_now (MExpiresAt demo_message)"
    using recipient_neq_nil [OF length_sha256] recipient_neq_nil [of "replicate 32 NUL"]
    by (simp_all add: isValidForwardMessage_def demo_message_def IsZero_def zero_time_def After_def)
  obtain d' where p: "PersistMessage mem_bolt (\<lambda>_. 0) (open_msg_db mem_bolt) (Some demo_message) = (d', Inr ())"
    using mem.persist_succeeds [OF demo_storable] by blast
  obtain ed1 where pe: "PersistEnvelope mem_bolt (\<lambda>_. 0) (new_env_db mem_bolt) (envelopeFromMessage demo_message ''node-a'') = (ed1, Inr ())"
    using demo_fed_storable(1) by blast
  have f: "fill_origin (envelopeFromMessage demo_message ''node-a'') ''node-a'' = envelopeFromMessage demo_message ''node-a''"
    by (simp add: fill_origin_def envelopeFromMessage_def)
  obtain ed' ch where k: "MarkSeenAndRelayIngestEmitted mem_bolt (\<lambda>_. 0) sample_now ed1 (MID demo_message)
      (relayIngestSeenRelayIDs ''node-a'' ''relay-a'') = (ed', Inr ch)"
    using mem.mark_ingest_succeeds [of "relayIngestSeenRelayIDs ''node-a'' ''relay-a''" "MID demo_message" "\<lambda>_. 0" sample_now ed1]
      recipient_neq_nil [OF length_sha256, of "''hi''"]
    by (auto simp: relayIngestSeenRelayIDs_set demo_valid)
  show ?thesis
    by (simp add: AcceptRelayForward_def v forward_checked_def n isNotFoundErr_def p forward_tail_def persistEnvelopeState_def mark_ingest_def
       f pe relayIngestItemID_def link_manager_fields k)
qed

lemma demo_forward:
  "\<exists>u1. forward_object demo_fed link_manager (bbolt_store mem_bolt (\<lambda>_. 0)) sample_now ''p'' demo_item demo_links = (u1, True)"
proof -
  obtain d' ed' sigs where a: "AcceptRelayForward (bbolt_store mem_bolt (\<lambda>_. 0)) (Some (bbolt_envelope_store mem_bolt (\<lambda>_. 0))) (managerEngine link_manager)
     sample_now (open_msg_db mem_bolt) (new_env_db mem_bolt) ''node-a'' (Some demo_message) 65536 =
     (d', ed', sigs, Inr \<lparr>Status = RelayForwardAccepted, REnvelope = Some (envelopeFromMessage demo_message ''node-a'')\<rparr>)"
    using demo_accept by blast
  define u1 where "u1 = fold (observe_ingest demo_fed) sigs (demo_links\<lparr>fdb := d', fedb := ed'\<rparr>)"
  have l: "fdb demo_links = open_msg_db mem_bolt" "fedb demo_links = new_env_db mem_bolt" "RemoteNodeID (peer demo_links ''p'') = ''node-a''"
    by (simp_all add: demo_links_def new_federation_def demo_link_def)
  have u1: "fedb u1 = ed'" "peer u1 = peer demo_links" using observe_stores [of demo_fed sigs "demo_links\<lparr>fdb := d', fedb := ed'\<rparr>"] by (simp_all add: u1_def)
  have w: "fwire demo_fed = demo_env" by (simp add: demo_fed_def)
  obtain ed2 where p: "PersistEnvelope mem_bolt (\<lambda>_. 0) ed' (transfer_envelope demo_item ''hi'' demo_message 2 ''node-a'') = (ed2, Inr ())"
    using demo_fed_storable(2) by blast
  have i: "HopCount demo_item = 2" "EnvelopeB64 demo_item = b64_encode ''hi''" by (simp_all add: demo_item_def sample_accepted_def)
  have "sint (2 :: u64) = 2" by simp
  then show ?thesis
    by (simp add: forward_object_def w demo_message_fed l link_manager_fields a Let_def u1_def [symmetric] u1 persistTransferEnvelope_fed_def i
        p [unfolded transfer_envelope_def])
qed

lemma demo_fed_fits: "import_fits demo_env ''node-a'' sample_now demo_item"
  using demo_fits by (simp add: import_fits_def)

lemma demo_reach: "env_reachable mem_bolt (\<lambda>_. 0) (fedb demo_links)"
  by (simp add: demo_links_def new_federation_def env_reachable.New)

lemma demo_node: "RemoteNodeID (peer demo_links ''p'') = ''node-a''" "fwire demo_fed = demo_env"
  by (simp_all add: demo_links_def demo_link_def demo_fed_def)

theorem forwarded_items_are_served_witness:
  "\<exists>u' accepted. handleTransfer_fed demo_fed link_manager sample_now ''p'' demo_event demo_links = (u', Inr ()) \<and>
     (\<forall>i \<in> set accepted. i = ItemID demo_item \<and> (\<exists>object. loadTransferObjectByItemID_fed demo_env (bbolt_store mem_bolt (\<lambda>_. 0)) link_manager u' i = Inr (Some object))) \<and>
     encode_frame demo_env FrameTypeReceipt (GMapS (receipt_fields \<lparr>Accepted = accepted\<rparr>)) = Inr (last (wrote u' ''p''))"
proof -
  obtain u1 where f: "forward_object demo_fed link_manager (bbolt_store mem_bolt (\<lambda>_. 0)) sample_now ''p'' demo_item demo_links = (u1, True)"
    using demo_forward by blast
  let ?pl = "GMapS (receipt_fields \<lparr>Accepted = [ItemID demo_item]\<rparr>)"
  have eq: "handleTransfer_fed demo_fed link_manager sample_now ''p'' demo_event demo_links = sendEnvelope_fed demo_fed ''p'' FrameTypeReceipt ?pl u1"
    using f by (simp add: handleTransfer_fed_def demo_event_def link_manager_fields)
  have "encode_frame demo_env FrameTypeReceipt ?pl = Inr (be_bytes 4 1 @ ''x'')"
    by (simp add: encode_frame_def EncodeEnvelope_def demo_env_def EncodeLengthPrefixed_def)
  then obtain u' where h: "handleTransfer_fed demo_fed link_manager sample_now ''p'' demo_event demo_links = (u', Inr ())"
    unfolding eq by (simp add: sendEnvelope_fed_def writePeerMessage_def demo_fed_def)
  have ev: "ETransfer demo_event = Some \<lparr>Objects = [\<lparr>Index = 0, Object = demo_item\<rparr>], Rejected = []\<rparr>" by (simp add: demo_event_def)
  have "\<forall>object \<in> set (map Object (Objects \<lparr>Objects = [\<lparr>Index = 0, Object = demo_item\<rparr>], Rejected = []\<rparr>)).
      import_fits (fwire demo_fed) (RemoteNodeID (peer demo_links ''p'')) sample_now object"
    using demo_fed_fits by (simp add: demo_node)
  from forwarded_items_are_served [OF mem_bolt_laws demo_reach link_manager_fields(4) _ ev this h, unfolded demo_node, OF parse_demo] h
  show ?thesis by fastforce
qed

end
