(* ===== verification/Peer_Directory.thy ===== *)
theory Peer_Directory
  imports Peering_Runs
begin

text \<open>
  The endpoint \<^verbatim>\<open>/federation/peers\<close> (\<^verbatim>\<open>internal/api/federation_peers.go\<close>) and the view of the peer metrics
  behind it (\<^verbatim>\<open>GetPeerMetrics\<close> of \<^verbatim>\<open>internal/federation/peering.go\<close>, \<^verbatim>\<open>ToResponse\<close> of
  \<^verbatim>\<open>internal/model/peer_scoring.go\<close>), and what they show of a manager that ran.
\<close>

subsection \<open>The view and the endpoint\<close>

record PeerScoreResponse =
  PrPeerID :: string
  PrConnected :: bool
  PrLastConnectedAt :: gotime
  PrLastDisconnectedAt :: gotime
  PrForwardsTotal :: int
  PrAcksTotal :: int
  PrAckLatencyEWMA :: rat
  PrTimeoutsTotal :: int
  PrFailuresTotal :: int
  PrConsecutiveFailures :: int
  PrLastForwardAt :: gotime
  PrLastAckAt :: gotime
  PrBackoffUntil :: gotime
  PrScore :: rat
  PrIsHealthy :: bool
  PrIsBackingOff :: bool

definition ToResponse :: "gotime \<Rightarrow> PeerMetrics \<Rightarrow> PeerScoreResponse" where
  "ToResponse now m = \<lparr>PrPeerID = PmPeerID m, PrConnected = PmConnected m, PrLastConnectedAt = PmLastConnectedAt m,
     PrLastDisconnectedAt = PmLastDisconnectedAt m, PrForwardsTotal = PmForwardsTotal m, PrAcksTotal = PmAcksTotal m,
     PrAckLatencyEWMA = PmAckLatencyEWMA m, PrTimeoutsTotal = PmTimeoutsTotal m, PrFailuresTotal = PmFailuresTotal m,
     PrConsecutiveFailures = PmConsecutiveFailures m, PrLastForwardAt = PmLastForwardAt m, PrLastAckAt = PmLastAckAt m,
     PrBackoffUntil = PmBackoffUntil m, PrScore = PmScore m, PrIsHealthy = IsHealthy_metrics now m,
     PrIsBackingOff = IsBackingOff_metrics now m\<rparr>"

text \<open>\<open>ids\<close> is the order in which the loop meets the keys of the map; a key that is not in the map is not met.\<close>

definition GetPeerMetrics :: "gotime \<Rightarrow> string list \<Rightarrow> ('d, 'e) federation \<Rightarrow> PeerScoreResponse list" where
  "GetPeerMetrics now ids u = map (ToResponse now) (List.map_filter (peerMetrics u) ids)"

text \<open>The reply: a text with its status, or the fields \<open>peers\<close> and \<open>count\<close> of the JSON body with status 200.\<close>

datatype peers_reply = PeersError nat string | PeersBody "PeerScoreResponse list" nat

definition handleGetPeers :: "gotime \<Rightarrow> string list \<Rightarrow> ('d, 'e) federation \<Rightarrow> peers_reply" where
  "handleGetPeers now ids u = (let peers = GetPeerMetrics now ids u in PeersBody peers (length peers))"

definition ServeHTTP_peers :: "gotime \<Rightarrow> string list \<Rightarrow> string \<Rightarrow> ('d, 'e) federation \<Rightarrow> peers_reply" where
  "ServeHTTP_peers now ids meth u =
     (if meth = ''GET'' then handleGetPeers now ids u else PeersError 405 ''method not allowed'')"

subsection \<open>The metrics of a manager that ran\<close>

text \<open>Metrics as they were made, under the url or the address of the link.\<close>

definition untouched :: "Peer \<Rightarrow> bool" where
  "untouched x \<longleftrightarrow> (\<exists>now seed. Metrics x = NewPeerMetrics now seed (PeerURL x))"

definition metrics_inv :: "('d, 'e) federation \<Rightarrow> bool" where
  "metrics_inv u \<longleftrightarrow> (\<forall>p. untouched (peer u p)) \<and> (\<forall>p. peerMetrics u p = (if p \<in> peers u then Some (Metrics (peer u p)) else None))"

lemma new_peer_untouched [simp]: "untouched (new_peer relay now seed p sid url out)"
  by (auto simp: untouched_def new_peer_def)

lemma kept_untouched: "kept x x' \<Longrightarrow> untouched x' = untouched x"
  by (simp add: kept_def untouched_def)

lemma metrics_inv_kept:
  assumes "metrics_inv u" and "\<And>q. kept (peer u q) (peer u' q)" and "peers u' = peers u" and "peerMetrics u' = peerMetrics u"
  shows "metrics_inv u'"
  using assms kept_untouched [OF assms(2)] by (simp add: metrics_inv_def) (simp add: kept_def)

lemma turn_metrics_inv: "metrics_inv u \<Longrightarrow> turn w p u u' \<Longrightarrow> metrics_inv u'"
  by (erule metrics_inv_kept, erule turn_kept) (simp_all add: turn_def same_manager_def)

lemma end_read_metrics_inv: "metrics_inv u \<Longrightarrow> metrics_inv (end_read_loop p u)"
  by (auto simp: metrics_inv_def untouched_def end_read_loop_def removePeer_def Let_def)

lemma readLoop_metrics_inv:
  assumes "metrics_inv u"
  shows "metrics_inv (readLoop w m now p msg u)"
proof (rule readLoop_cases [of w p u m now msg])
  fix a u2
  assume t: "turn w p (on_peer p (\<lambda>x. x\<lparr>peerAdapter := a\<rparr>) u) u2"
    and r: "readLoop w m now p msg u = u2 \<or> readLoop w m now p msg u = end_read_loop p u2"
  have "metrics_inv (on_peer p (\<lambda>x. x\<lparr>peerAdapter := a\<rparr>) u)"
    by (rule metrics_inv_kept [OF assms]) (simp_all add: kept_def)
  from turn_metrics_inv [OF this t] r end_read_metrics_inv show ?thesis by metis
qed

lemma encounter_metrics_inv:
  assumes "metrics_inv u" and "p \<notin> peers u" and "untouched x" and "encountered w p (u\<lparr>peer := (peer u)(p := x)\<rparr>) (u', r)"
  shows "metrics_inv (case r of Inl _ \<Rightarrow> u' | Inr _ \<Rightarrow> u'\<lparr>inbound := inbound u' @ [p]\<rparr>)"
proof -
  have g: "grown w p (u\<lparr>peer := (peer u)(p := x)\<rparr>) u'" using assms(4) by (simp add: encountered_def)
  have p: "untouched (peer u' p)" using g assms(3) by (simp add: grown_def untouched_def)
  have q: "peer u' q = peer u q" if "q \<noteq> p" for q using g that by (simp add: grown_def)
  have m: "peers u' = peers u" "peerMetrics u' = peerMetrics u" using g by (simp_all add: grown_def)
  have "metrics_inv u'" unfolding metrics_inv_def
  proof (intro conjI allI)
    fix q'
    show "untouched (peer u' q')" using p q assms(1) by (cases "q' = p") (simp_all add: metrics_inv_def)
    show "peerMetrics u' q' = (if q' \<in> peers u' then Some (Metrics (peer u' q')) else None)"
      using q assms(1,2) by (cases "q' = p") (simp_all add: m metrics_inv_def)
  qed
  then show ?thesis by (cases r) (simp_all add: metrics_inv_def)
qed

lemma metrics_inv_fields [simp]:
  "metrics_inv (u\<lparr>dials := ds\<rparr>) = metrics_inv u" "metrics_inv (u\<lparr>outbound := os\<rparr>) = metrics_inv u"
  "metrics_inv (u\<lparr>inbound := is\<rparr>) = metrics_inv u" "metrics_inv (u\<lparr>ctxStop := b\<rparr>) = metrics_inv u"
  by (simp_all add: metrics_inv_def)

lemma fed_step_metrics_inv:
  assumes inv: "metrics_inv u" and new: "set (new_ids ev) \<inter> peers u = {}"
  shows "metrics_inv (fed_step w m u ev)"
proof (cases ev)
  case RunInbound
  with inv show ?thesis by (auto simp: addPeer_def metrics_inv_def split: list.splits)
next
  case (RunOutbound sid)
  with inv show ?thesis by (auto split: list.splits)
next
  case (Dial now i outcome)
  obtain u1 job where d: "dial_turn w m now outcome (dials u ! i) u = (u1, job)" by fastforce
  have "metrics_inv u1" using d
  proof (cases rule: dial_cases)
    case (Link p msg u2 r)
    with new Dial have "p \<notin> peers u" by auto
    from encounter_metrics_inv [OF inv this new_peer_untouched Link(2)] Link(3) show ?thesis by (cases r) simp_all
  qed (use inv in simp)
  with Dial d inv show ?thesis by (cases job) simp_all
next
  case (InboundPeer now p sid addr msg)
  show ?thesis
    by (rule inbound_cases [of w p u m now sid addr msg])
       (use encounter_metrics_inv [OF inv _ new_peer_untouched] new InboundPeer in auto)
next
  case (PeerRead now p msg)
  with inv readLoop_metrics_inv [OF inv] show ?thesis by simp
next
  case (Announce msg)
  with turn_metrics_inv [OF inv forwardSummary_turn] show ?thesis by (simp add: AnnounceMessage_def)
next
  case (Forward msg origin)
  with turn_metrics_inv [OF inv forwardSummary_turn] show ?thesis by (simp add: ForwardToPeers_def)
next
  case RunStopped
  with inv show ?thesis by (auto simp: cleanup_def metrics_inv_def untouched_def)
qed (use inv in simp_all)

lemma new_federation_metrics_inv: "metrics_inv (new_federation d ed)"
  by (simp add: metrics_inv_def new_federation_def)

lemma fed_run_metrics_inv:
  assumes "distinct (concat (map new_ids evs))"
  shows "metrics_inv (fed_run w m (new_federation d ed) evs)"
  using assms
proof (induction evs rule: rev_induct)
  case (snoc ev evs)
  let ?u = "fed_run w m (new_federation d ed) evs"
  have "fed_inv w ({} \<union> set (concat (map new_ids evs))) ?u"
    using snoc.prems by (intro fed_run_inv new_federation_inv) auto
  then have "peers ?u \<subseteq> set (concat (map new_ids evs))" by (auto simp: fed_inv_def)
  with snoc.prems have "set (new_ids ev) \<inter> peers ?u = {}" by auto
  with snoc show ?case by (simp add: fed_step_metrics_inv)
qed (simp add: new_federation_metrics_inv)

lemma ToResponse_untouched:
  assumes "untouched x"
  shows "PrPeerID (ToResponse now (Metrics x)) = PeerURL x" "PrConnected (ToResponse now (Metrics x))" "PrIsHealthy (ToResponse now (Metrics x))"
    "PrScore (ToResponse now (Metrics x)) = 1" "PrForwardsTotal (ToResponse now (Metrics x)) = 0" "PrAcksTotal (ToResponse now (Metrics x)) = 0"
    "PrTimeoutsTotal (ToResponse now (Metrics x)) = 0" "PrFailuresTotal (ToResponse now (Metrics x)) = 0"
proof -
  have "f64 (3 / 10) \<le> 1" "IsZero zero_time" by (rule f64_le_one) (simp_all add: IsZero_def zero_time_def)
  with assms show "PrPeerID (ToResponse now (Metrics x)) = PeerURL x" "PrConnected (ToResponse now (Metrics x))" "PrIsHealthy (ToResponse now (Metrics x))"
    "PrScore (ToResponse now (Metrics x)) = 1" "PrForwardsTotal (ToResponse now (Metrics x)) = 0" "PrAcksTotal (ToResponse now (Metrics x)) = 0"
    "PrTimeoutsTotal (ToResponse now (Metrics x)) = 0" "PrFailuresTotal (ToResponse now (Metrics x)) = 0"
    by (auto simp: untouched_def ToResponse_def NewPeerMetrics_def IsHealthy_metrics_def IsBackingOff_metrics_def)
qed

lemma GetPeerMetrics_registered:
  assumes "metrics_inv u" and "set ids = peers u"
  shows "GetPeerMetrics now ids u = map (\<lambda>p. ToResponse now (Metrics (peer u p))) ids"
proof -
  have "map (ToResponse now) (List.map_filter (peerMetrics u) ids') = map (\<lambda>p. ToResponse now (Metrics (peer u p))) ids'"
    if "set ids' \<subseteq> peers u" for ids'
    using that assms(1) by (induction ids') (simp_all add: List.map_filter_def metrics_inv_def)
  with assms(2) show ?thesis by (simp add: GetPeerMetrics_def)
qed

subsection \<open>What the endpoint shows\<close>

text \<open>
  No operation of the manager records anything in the metrics: after any run every registered link is shown as
  connected, healthy, with score one and without a forward, acknowledgement, timeout or failure.
\<close>

lemma peer_metrics_never_recorded:
  assumes "distinct (concat (map new_ids evs))" and "u = fed_run w m (new_federation d ed) evs" and "r = ToResponse now (Metrics (peer u p))"
  shows "PrConnected r \<and> PrIsHealthy r \<and> PrScore r = 1 \<and> PrForwardsTotal r = 0 \<and> PrAcksTotal r = 0 \<and>
    PrTimeoutsTotal r = 0 \<and> PrFailuresTotal r = 0"
proof -
  have "metrics_inv u" unfolding assms(2) by (rule fed_run_metrics_inv [OF assms(1)])
  then have "untouched (peer u p)" by (simp add: metrics_inv_def)
  from ToResponse_untouched [OF this] show ?thesis by (simp add: assms(3))
qed

text \<open>
  Claim C30. \<^verbatim>\<open>GET /federation/peers\<close> lists exactly the registered links.  After any run of the manager in which every
  link got a new id, and in whatever order the loop meets the map of the metrics, the keys of that map are the
  registered links, and the body has one entry for each of them, in that order, and their number: the view of the
  metrics of that link, under its url or address, with a score between zero and one.  Any other method gets 405.
\<close>

theorem peers_endpoint_shows_links:
  assumes "distinct (concat (map new_ids evs))" and "u = fed_run w m (new_federation d ed) evs"
    and "distinct ids" and "set ids = dom (peerMetrics u)"
  shows "set ids = peers u \<and>
    ServeHTTP_peers now ids ''GET'' u = PeersBody (map (\<lambda>p. ToResponse now (Metrics (peer u p))) ids) (GetPeerCount u) \<and>
    (\<forall>p. PrPeerID (ToResponse now (Metrics (peer u p))) = PeerURL (peer u p) \<and>
       0 \<le> PrScore (ToResponse now (Metrics (peer u p))) \<and> PrScore (ToResponse now (Metrics (peer u p))) \<le> 1) \<and>
    (\<forall>meth. meth \<noteq> ''GET'' \<longrightarrow> ServeHTTP_peers now ids meth u = PeersError 405 ''method not allowed'')"
proof (intro conjI allI impI)
  have inv: "metrics_inv u" unfolding assms(2) by (rule fed_run_metrics_inv [OF assms(1)])
  then show ids: "set ids = peers u" by (auto simp: assms(4) metrics_inv_def dom_def split: if_splits)
  have "length ids = GetPeerCount u" using distinct_card [OF assms(3)] by (simp add: GetPeerCount_def ids)
  then show "ServeHTTP_peers now ids ''GET'' u = PeersBody (map (\<lambda>p. ToResponse now (Metrics (peer u p))) ids) (GetPeerCount u)"
    by (simp add: ServeHTTP_peers_def handleGetPeers_def GetPeerMetrics_registered [OF inv ids])
  have "untouched (peer u p)" for p using inv by (simp add: metrics_inv_def)
  note r = ToResponse_untouched [OF this]
  show "PrPeerID (ToResponse now (Metrics (peer u p))) = PeerURL (peer u p)" for p by (rule r(1))
  show "0 \<le> PrScore (ToResponse now (Metrics (peer u p)))" "PrScore (ToResponse now (Metrics (peer u p))) \<le> 1" for p
    by (simp_all add: r)
  show "ServeHTTP_peers now ids meth u = PeersError 405 ''method not allowed''" if "meth \<noteq> ''GET''" for meth
    using that by (simp add: ServeHTTP_peers_def)
qed

theorem peers_endpoint_shows_links_witness:
  "\<exists>rs. ServeHTTP_peers zero_time [''p''] ''GET'' (fed_run link_env link_manager no_links (link_trace @ [RunInbound])) = PeersBody rs 1 \<and> length rs = 1"
proof -
  let ?u = "fed_run link_env link_manager no_links (link_trace @ [RunInbound])"
  have d: "distinct (concat (map new_ids (link_trace @ [RunInbound])))" by (simp add: link_trace_def)
  have p: "set [''p''] = peers ?u" using link_trace_run by (auto simp: addPeer_def)
  then have c: "GetPeerCount ?u = 1" unfolding GetPeerCount_def p [symmetric] by simp
  have "dom (peerMetrics ?u) = peers ?u"
    using fed_run_metrics_inv [OF d, of link_env link_manager "open_msg_db mem_bolt" "new_env_db mem_bolt"]
    by (auto simp: metrics_inv_def dom_def split: if_splits)
  then have "set [''p''] = dom (peerMetrics ?u)" using p by simp
  from peers_endpoint_shows_links [OF d refl _ this, of zero_time] show ?thesis unfolding c by auto
qed

end
