(* ===== verification/WS_Receipts.thy ===== *)
theory WS_Receipts
  imports WS_Delivery
begin

text \<open>
  What the running server never undoes: a fact about the message store that its two writes keep, persisting a
  message and marking a batch as acknowledged, holds through every run.  Acknowledgements are such a fact, so
  an item a client acknowledged is not offered to it again.
\<close>

subsection \<open>Facts that the writes of the server keep\<close>

locale server_keeps =
  fixes st :: "'d Store" and P :: "'d \<Rightarrow> bool"
  assumes persist_keeps: "P d \<Longrightarrow> sPersistMessage st d m = (d', r) \<Longrightarrow> P d'"
    and ack_keeps: "P d \<Longrightarrow> sMarkAckedBatch st now d ids q = (d', r') \<Longrightarrow> P d'"
begin

lemma engine_keeps:
  assumes "P d" and "EnginePersistMessage st es e d ed m = (d', ed', r)"
  shows "P d'"
  using assms persist_keeps [OF assms(1)]
  by (fastforce simp: EnginePersistMessage_def split: option.splits prod.splits sum.splits if_splits)

lemma import_object_keeps:
  assumes "P (db u)" and "store h = st" and "import_object w h now object u = (u', r)"
  shows "P (db u')"
  using assms engine_keeps [OF assms(1)]
  by (fastforce simp: import_object_def Let_def split: sum.splits prod.splits if_splits)

lemma import_loop_keeps:
  assumes "P (db u)" and "store h = st" and "import_loop w h now objects accepted notify u = (u', r)"
  shows "P (db u')"
  using assms(1,3)
proof (induction objects arbitrary: accepted notify u)
  case (Cons object rest)
  obtain u1 r1 where i: "import_object w h now object u = (u1, r1)" by fastforce
  from import_object_keeps [OF Cons.prems(1) assms(2) i] Cons.IH [of u1] i Cons.prems show ?case
    by (auto split: sum.splits option.splits)
qed simp

lemma send_keeps:
  assumes "P (db u)"
  shows "P (db (snd (fst (sendEnvelope w h now ft pl (s, u)))))" and "P (db (snd (fst (sendDrainSummary w h now b (s, u)))))"
proof -
  have "same_stores u (snd (fst (sendEnvelope w h now ft pl (s, u))))" using sendEnvelope_stores(1) by (metis prod.collapse)
  with assms show "P (db (snd (fst (sendEnvelope w h now ft pl (s, u)))))" by (simp add: same_stores_def)
  have "same_stores u (snd (fst (sendDrainSummary w h now b (s, u))))" using sendDrainSummary_stores by (metis prod.collapse)
  with assms show "P (db (snd (fst (sendDrainSummary w h now b (s, u)))))" by (simp add: same_stores_def)
qed

lemma handleTransfer_keeps:
  assumes "P (db u)" and "store h = st"
  shows "P (db (snd (fst (handleTransfer w h now ev (s, u)))))"
proof (cases "ETransfer ev")
  case (Some transfer)
  obtain u1 r where i: "import_loop w h now (map Object (Objects transfer)) [] [] u = (u1, r)" by fastforce
  note u1 = import_loop_keeps [OF assms i]
  then have "P (db (if b then pushSummariesToOnlineRecipients w h now sid p notify u1 else u1))" for b sid p notify
    using push_stores(3) [of u1 w h now sid p notify] by (simp add: same_stores_def)
  with Some i u1 show ?thesis
    by (auto simp: handleTransfer_def Let_def send_keeps split: prod.splits sum.splits)
qed (use assms in \<open>simp add: handleTransfer_def split: prod.splits\<close>)

lemma handleReceipt_keeps:
  assumes "P (db u)" and "store h = st"
  shows "P (db (snd (fst (handleReceipt w h now ev (s, u)))))"
proof (cases "EReceipt ev")
  case (Some receipt)
  obtain s1 d1 where e: "ensureDrainSession h now s = (s1, d1)" by fastforce
  obtain d' r where m: "sMarkAckedBatch (store h) now (db u) (Accepted receipt) (cDeliveryID (clientInfo u (client s1))) = (d', r)"
    by fastforce
  have "P (db (u\<lparr>db := d'\<rparr>))" using ack_keeps [OF assms(1)] assms(2) m by simp
  with Some e m show ?thesis
    by (cases r) (simp_all add: handleReceipt_def Let_def send_keeps split: prod.splits)
qed (use assms in \<open>simp add: handleReceipt_def split: prod.splits\<close>)

lemma processEvent_keeps:
  assumes "P (db u)" and "store h = st"
  shows "P (db (snd (fst (processEvent w h now ev (s, u)))))"
proof -
  have "P (db (bind_identity u p hello))" for p hello using assms(1) by (simp add: bind_identity_def)
  then have hello: "P (db (snd (fst (handleHelloValidated w h now ev (s', u)))))" for s'
    using assms(1) by (simp add: handleHelloValidated_def Let_def send_keeps split: option.splits)
  have summary: "P (db (snd (fst (handleSummary w h now ev (s, u)))))"
    using assms(1) by (simp add: handleSummary_def Let_def send_keeps split: option.splits prod.splits sum.splits)
  have request: "P (db (snd (fst (handleRequest w h now ev (s, u)))))"
    using assms(1) by (simp add: handleRequest_def Let_def send_keeps split: option.splits prod.splits sum.splits)
  show ?thesis
    using assms hello summary request handleTransfer_keeps [OF assms] handleReceipt_keeps [OF assms]
    by (cases "EType ev") (simp_all add: processEvent_def gated_def split: option.splits)
qed

lemma processEvents_keeps:
  assumes "P (db (snd x))" and "store h = st"
  shows "P (db (snd (fst (processEvents w h now evs x))))"
  using assms(1)
proof (induction evs arbitrary: x)
  case (Cons ev evs)
  have "P (db (snd (fst (processEvent w h now ev x))))" using processEvent_keeps [OF _ assms(2)] Cons.prems by (cases x) simp
  with Cons show ?case by (cases "processEvent w h now ev x"; cases "snd (processEvent w h now ev x)") auto
qed simp

lemma settle_keeps:
  assumes "P (db (snd (fst res)))" and "settle h now v res = Some v'"
  shows "P (db (shared v'))"
  using assms
  by (auto simp: settle_def end_read_def closeClientSend_def split: prod.splits sum.splits if_splits)

lemma server_step_keeps:
  assumes "P (db (shared v))" and "store h = st" and "server_step w h v ev = Some v'"
  shows "P (db (shared v'))"
proof (cases ev)
  case (HandleWebSocket now p origin sid addr)
  have "P (db (snd (fst (start_read w h now (s, new_client (shared v) p)))))" for s
    using assms(1) by (simp add: start_read_def sendLocalHello_def new_client_def sendBinary_def split: prod.splits sum.splits)
  from settle_keeps [OF this [of "new_session h now p sid addr"], of h now v v'] assms HandleWebSocket show ?thesis
    by (simp split: if_splits)
next
  case (ReadMessage now p msg)
  have "P (db u')" if "processEvents w h now evs (s, shared v) = ((s', u'), r)" for evs s s' u' r
    using processEvents_keeps [OF _ assms(2), of "(s, shared v)" w now evs] assms(1) that by simp
  then have turn: "P (db (snd (fst (read_turn w h now msg (s, shared v)))))" for s
    using assms(1) by (cases msg) (auto simp: stop_read_def split: prod.splits sum.splits)
  show ?thesis
  proof (cases "sessions v p")
    case (Some s)
    with settle_keeps [OF turn [of s], of h now v v'] assms(3) ReadMessage show ?thesis by simp
  qed (use assms ReadMessage in simp)
next
  case (PushTimer now t)
  with assms show ?thesis
    by (auto simp: fire_timer_def flushRecipientSummaryPush_def timer_Stop_def Let_def
        push_stores(2) [unfolded same_stores_def] split: option.splits)
qed

lemma server_run_keeps:
  assumes "P (db (shared v))" and "store h = st" and "server_run w h v evs = Some v'"
  shows "P (db (shared v'))"
  using assms(1,3) by (induction evs arbitrary: v) (auto split: option.splits dest: server_step_keeps [OF _ assms(2)])

end

subsection \<open>Acknowledgements in the bbolt store\<close>

context bolt
begin

lemma ack_loop_mono:
  "ack_batch_loop api nowBytes q b tr ids = Inr (b', tr') \<Longrightarrow> bget api b k \<noteq> None \<Longrightarrow> bget api b' k \<noteq> None"
proof (induction ids arbitrary: b tr)
  case (Cons i rest)
  show ?case
  proof (cases "i = [] \<or> bget api b (EncodeDeliveryKey i q) \<noteq> None")
    case True
    with Cons show ?thesis by (auto split: if_splits)
  next
    case False
    then obtain c where c: "put_in api b (EncodeDeliveryKey i q) nowBytes ''ack'' = Inr c"
      and l: "ack_batch_loop api nowBytes q c (insert i tr) rest = Inr (b', tr')" using Cons.prems(1) by auto
    from put_in_Inr [OF c] Cons.prems(2) have "bget api c k \<noteq> None" by simp
    from Cons.IH [OF l this] show ?thesis .
  qed
qed simp

lemma ack_batch_mono:
  assumes "MarkAckedBatch api lo now d ids q = (d', r)" and "IsAckedBy api d i p = Inr True"
  shows "IsAckedBy api d' i p = Inr True"
proof (cases "ids = []")
  case False
  from assms(1) False consider "d' = d"
    | b tr where "ack_batch_loop api (MarshalBinary lo now) q (BucketAckState d) {} ids = Inr (b, tr)" "d' = d\<lparr>BucketAckState := b\<rparr>"
    by (cases "ack_batch_loop api (MarshalBinary lo now) q (BucketAckState d) {} ids")
       (auto simp: MarkAckedBatch_def Message_Store.db_update_def)
  then show ?thesis
  proof cases
    case (2 b tr)
    with ack_loop_mono [OF 2(1)] assms(2) show ?thesis by (simp add: IsAckedBy_def)
  qed (use assms(2) in simp)
qed (use assms in \<open>simp add: MarkAckedBatch_def\<close>)

end

sublocale bolt \<subseteq> acked: server_keeps "bbolt_store api lo" "\<lambda>d. IsAckedBy api d i q = Inr True" for lo i q
  by unfold_locales (use store.persist_marks ack_batch_mono in \<open>auto\<close>)

context bolt
begin

lemma acked_through_run:
  "IsAckedBy api (db (shared v)) i q = Inr True \<Longrightarrow> store h = bbolt_store api lo \<Longrightarrow> server_run w h v evs = Some v' \<Longrightarrow>
   IsAckedBy api (db (shared v')) i q = Inr True"
  by (rule acked.server_run_keeps)

end

subsection \<open>Properties\<close>

text \<open>
  Claim C12. A receipt is remembered: once \<open>handleReceipt\<close> has taken a RECEIPT of digest ids without a storage
  error, every item id in it is acknowledged by the delivery identity of the session, and stays so through
  any later messages, connections, disconnections and push timers of the server. Whatever summary the
  server then builds for that identity, at any time, for any recipient and with any valid cursor, is a
  summary of items none of which is one of those: neither its preview nor its count nor its Bloom filter
  has it.
\<close>

theorem acknowledged_items_not_offered:
  fixes u :: "('b msg_db, 'b env_db) hub"
  assumes "bolt api" and "bbolt_handler api lo h" and "identity = cDeliveryID (clientInfo u (client s))" and "identity \<noteq> []"
    and "EReceipt ev = Some receipt" and "\<forall>j \<in> set (Accepted receipt). isDigestHex j" and "i \<in> set (Accepted receipt)"
    and "handleReceipt w h now ev (s, u) = ((s', u'), r)" and "r \<noteq> Inl (stopSession DrainStopReasonStorageError)"
    and "shared v = u'" and "server_run w h v evs = Some v'"
  shows "IsAckedBy api (db (shared v')) i identity = Inr True \<and>
    (\<forall>now' recipient cursor. recipient \<noteq> [] \<and> (cursor = [] \<or> isDigestHex cursor) \<longrightarrow>
       (\<exists>U summary next. i \<notin> set U \<and> buildRecipientSummary h now' (shared v') recipient identity cursor = Inr (summary, next) \<and>
          ItemCount summary = of_nat (length U) \<and> PreviewItemIDs summary = next_page cursor U \<and> i \<notin> set (PreviewItemIDs summary) \<and>
          BloomFilter summary = BloomFilter (BuildSummaryPreviewPayload U [] [])))"
proof -
  note ack = handleReceipt_acks(1) [OF assms(1,2,5,7,6,8,9), folded assms(3,10)]
  have st: "store h = bbolt_store api lo" using assms(2) by (simp add: bbolt_handler_def)
  have acked: "IsAckedBy api (db (shared v')) i identity = Inr True"
    by (rule bolt.acked_through_run [OF assms(1) ack st assms(11)])
  have "\<exists>U summary next. i \<notin> set U \<and> buildRecipientSummary h now' (shared v') recipient identity cursor = Inr (summary, next) \<and>
      ItemCount summary = of_nat (length U) \<and> PreviewItemIDs summary = next_page cursor U \<and> i \<notin> set (PreviewItemIDs summary) \<and>
      BloomFilter summary = BloomFilter (BuildSummaryPreviewPayload U [] [])"
    if "recipient \<noteq> []" and "cursor = [] \<or> isDigestHex cursor" for now' recipient cursor
  proof -
    define U where "U = unacked api now' (shared v') recipient identity"
    have i: "i \<notin> set U" using acked by (simp add: U_def unacked_def)
    moreover have "i \<notin> set (next_page cursor U)" using i next_page_props(2) [of cursor U] by blast
    ultimately show ?thesis
      using summary_eq(2) [OF assms(1,2) that(1) assms(4) that(2) U_def] by (elim exE conjE) (rule exI [of _ U], auto)
  qed
  with acked show ?thesis by blast
qed

text \<open>A receipt of one item for \<open>bob\<close>, after which a timer that is not armed and a session that is not open get their events.\<close>

definition bob_hub :: "(mem_bucket msg_db, mem_bucket env_db) hub" where
  "bob_hub = sample_hub\<lparr>clientInfo := (\<lambda>_. \<lparr>cWayfarerID = ''bob'', cDeviceID = [], cDeliveryID = ''bob''\<rparr>)\<rparr>"

definition receipt_event :: Event where
  "receipt_event = (event EventTypeReceipt FrameTypeReceipt)\<lparr>EReceipt := Some \<lparr>Accepted = [digest_id]\<rparr>\<rparr>"

theorem acknowledged_items_not_offered_witness:
  "\<exists>s' u' r v' summary next. handleReceipt sample_ws sample_handler sample_now receipt_event
       (new_session sample_handler sample_now 1 ''ws-1'' ''addr'', bob_hub) = ((s', u'), r) \<and>
     server_run sample_ws sample_handler \<lparr>shared = u', sessions = Map.empty\<rparr>
       [PushTimer sample_now 0, ReadMessage sample_now 1 ReadClosed] = Some v' \<and>
     buildRecipientSummary sample_handler sample_now (shared v') ''bob'' ''bob'' [] = Inr (summary, next) \<and>
     digest_id \<notin> set (PreviewItemIDs summary)"
proof -
  let ?s = "new_session sample_handler sample_now 1 ''ws-1'' ''addr''"
  obtain s' u' r where h: "handleReceipt sample_ws sample_handler sample_now receipt_event (?s, bob_hub) = ((s', u'), r)"
    by (metis prod.collapse)
  obtain d' tr where m: "MarkAckedBatch mem_bolt (\<lambda>_. 0) sample_now (open_msg_db mem_bolt) [digest_id] ''bob'' = (d', Inr tr)"
    by (simp add: MarkAckedBatch_def open_msg_db_def put_in_def mem_bolt_def mem_get_def key_ok_def
        EncodeDeliveryKey_def Message_Store.db_update_def mem.value_ok_Marshal digest_id_def)
  have st: "store sample_handler = bbolt_store mem_bolt (\<lambda>_. 0)" using sample_bbolt by (simp add: bbolt_handler_def)
  have bob: "cDeliveryID (clientInfo bob_hub (client ?s)) = ''bob''" "db bob_hub = open_msg_db mem_bolt"
    by (simp_all add: bob_hub_def sample_hub_fields)
  have r: "r \<noteq> Inl (stopSession DrainStopReasonStorageError)"
    using h m st bob by (auto simp: handleReceipt_def receipt_event_def new_session_def ensureDrainSession_def on_drain_def Let_def)
  have ev: "EReceipt receipt_event = Some \<lparr>Accepted = [digest_id]\<rparr>" by (simp add: receipt_event_def)
  define v where "v = \<lparr>shared = u', sessions = Map.empty\<rparr>"
  obtain v' where run: "server_run sample_ws sample_handler v [PushTimer sample_now 0, ReadMessage sample_now 1 ReadClosed] = Some v'"
    by (simp add: v_def)
  have "\<exists>U summary next. digest_id \<notin> set U \<and> buildRecipientSummary sample_handler sample_now (shared v') ''bob'' ''bob'' [] = Inr (summary, next) \<and>
      ItemCount summary = of_nat (length U) \<and> PreviewItemIDs summary = next_page [] U \<and> digest_id \<notin> set (PreviewItemIDs summary) \<and>
      BloomFilter summary = BloomFilter (BuildSummaryPreviewPayload U [] [])"
    by (rule acknowledged_items_not_offered [OF mem_bolt_laws sample_bbolt bob(1) [symmetric] _ ev _ _ h r _ run, THEN conjunct2, rule_format])
       (simp_all add: digest_id_ok v_def)
  with h run show ?thesis unfolding v_def by blast
qed

end
