(* ===== verification/Maintenance.thy ===== *)
theory Maintenance
  imports Store_Interfaces Base64
begin

text \<open>
  The background work on the stores: the sweeps of the TTL sweepers
  (\<^verbatim>\<open>internal/store/ttl_sweeper.go\<close>, \<^verbatim>\<open>internal/store/envelope_sweeper.go\<close>) and the scrub at
  start-up that drops queued messages with malformed payloads (\<^verbatim>\<open>internal/store/payload_scrub.go\<close>).
  \<open>None\<close> is a removal that does not return; the removal of the message store has no error of its own.
\<close>

subsection \<open>Sweeps\<close>

fun ttl_loop :: "'d Store \<Rightarrow> 'd \<Rightarrow> nat \<Rightarrow> Message list \<Rightarrow> ('d \<times> nat) option" where
  "ttl_loop st d expiredCtr [] = Some (d, expiredCtr)"
| "ttl_loop st d expiredCtr (msg # rest) = (case sRemoveMessage st d (MID msg) of
     None \<Rightarrow> None
   | Some d' \<Rightarrow> ttl_loop st d' (Suc expiredCtr) rest)"

text \<open>\<open>TTLSweeper.sweep\<close>: the state and the number of times the counter was called.\<close>

definition sweep_messages :: "'d Store \<Rightarrow> gotime \<Rightarrow> 'd \<Rightarrow> ('d \<times> nat) option" where
  "sweep_messages st now d = (case sGetExpiredMessages st d now of
     Inl _ \<Rightarrow> Some (d, 0)
   | Inr expired \<Rightarrow> (case ttl_loop st d 0 expired of
       None \<Rightarrow> None
     | Some (d', n) \<Rightarrow> Some (fst (sSetLastSweepTime st d' now), n)))"

fun envelope_sweep_loop :: "'e EnvelopeStore \<Rightarrow> 'e \<Rightarrow> nat \<Rightarrow> Envelope list \<Rightarrow> 'e \<times> nat" where
  "envelope_sweep_loop es ed n [] = (ed, n)"
| "envelope_sweep_loop es ed n (env # rest) = (case eRemoveEnvelope es ed (EID env) of
     (ed', Inl _) \<Rightarrow> envelope_sweep_loop es ed' n rest
   | (ed', Inr _) \<Rightarrow> envelope_sweep_loop es ed' (Suc n) rest)"

definition sweep_envelopes :: "'e EnvelopeStore \<Rightarrow> gotime \<Rightarrow> 'e \<Rightarrow> 'e \<times> nat" where
  "sweep_envelopes es now ed = (case eGetExpiredEnvelopes es ed now of
     Inl _ \<Rightarrow> (ed, 0)
   | Inr expired \<Rightarrow>
       if expired = [] then (ed, 0)
       else case envelope_sweep_loop es ed 0 expired of
              (ed', n) \<Rightarrow> (fst (eSetLastSweepTime es ed' now), n))"

subsection \<open>Scrub\<close>

record PayloadScrubReport =
  RecipientsScanned :: nat
  QueuedScanned :: nat
  InvalidFound :: nat
  Removed :: nat
  LookupErrors :: nat
  RemoveErrors :: nat

datatype scrub_err = ListRecipientsErr serr | ListQueuedErr string serr | LoadQueuedErr string string serr

definition first_err :: "scrub_err option \<Rightarrow> scrub_err \<Rightarrow> scrub_err option" where
  "first_err firstErr err = (if firstErr = None then Some err else firstErr)"

fun scrub_messages ::
  "'d Store \<Rightarrow> string \<Rightarrow> 'd \<Rightarrow> PayloadScrubReport \<Rightarrow> scrub_err option \<Rightarrow> string list \<Rightarrow>
   ('d \<times> PayloadScrubReport \<times> scrub_err option) option" where
  "scrub_messages st recipientID d report firstErr [] = Some (d, report, firstErr)"
| "scrub_messages st recipientID d report firstErr (msgID # rest) =
     (let report = report\<lparr>QueuedScanned := QueuedScanned report + 1\<rparr>
      in case sGetMessageByID st d msgID of
           Inl err \<Rightarrow> scrub_messages st recipientID d (report\<lparr>LookupErrors := LookupErrors report + 1\<rparr>)
                        (first_err firstErr (LoadQueuedErr msgID recipientID err)) rest
         | Inr msg \<Rightarrow>
             if DecodePayloadB64 (MPayload msg) \<noteq> None
             then scrub_messages st recipientID d report firstErr rest
             else (let report = report\<lparr>InvalidFound := InvalidFound report + 1\<rparr>
                   in case sRemoveMessage st d msgID of
                        None \<Rightarrow> None
                      | Some d' \<Rightarrow> scrub_messages st recipientID d' (report\<lparr>Removed := Removed report + 1\<rparr>) firstErr rest))"

fun scrub_recipients ::
  "'d Store \<Rightarrow> 'd \<Rightarrow> PayloadScrubReport \<Rightarrow> scrub_err option \<Rightarrow> string list \<Rightarrow>
   ('d \<times> PayloadScrubReport \<times> scrub_err option) option" where
  "scrub_recipients st d report firstErr [] = Some (d, report, firstErr)"
| "scrub_recipients st d report firstErr (recipientID # rest) =
     (case sGetAllQueuedMessageIDs st d recipientID of
        Inl err \<Rightarrow> scrub_recipients st d (report\<lparr>LookupErrors := LookupErrors report + 1\<rparr>)
                     (first_err firstErr (ListQueuedErr recipientID err)) rest
      | Inr msgIDs \<Rightarrow> (case scrub_messages st recipientID d report firstErr msgIDs of
          None \<Rightarrow> None
        | Some (d', report', firstErr') \<Rightarrow> scrub_recipients st d' report' firstErr' rest))"

definition ScrubInvalidPayloadMessages ::
  "'d Store \<Rightarrow> 'd \<Rightarrow> ('d \<times> PayloadScrubReport \<times> scrub_err option) option" where
  "ScrubInvalidPayloadMessages st d =
     (let report = \<lparr>RecipientsScanned = 0, QueuedScanned = 0, InvalidFound = 0, Removed = 0, LookupErrors = 0,
                    RemoveErrors = 0\<rparr>
      in case sGetAllRecipientIDs st d of
           Inl err \<Rightarrow> Some (d, report, Some (ListRecipientsErr err))
         | Inr recipients \<Rightarrow>
             scrub_recipients st d (report\<lparr>RecipientsScanned := length recipients\<rparr>) None recipients)"

subsection \<open>Stores that remove\<close>

text \<open>
  What the background work relies on: a removal returns, the record is then not found and every other
  record is as before, and queues only get shorter.
\<close>

locale pruning_store =
  fixes st :: "'d Store"
  assumes remove_effect: "\<exists>d'. sRemoveMessage st d i = Some d' \<and>
      (\<forall>j. sGetMessageByID st d' j = (if j = i then Inl (NotFound i) else sGetMessageByID st d j)) \<and>
      (\<forall>r ids'. sGetAllQueuedMessageIDs st d' r = Inr ids' \<longrightarrow>
         (\<exists>ids. sGetAllQueuedMessageIDs st d r = Inr ids \<and> set ids' \<subseteq> set ids))"
    and sweep_time_get: "sGetMessageByID st (fst (sSetLastSweepTime st d t)) j = sGetMessageByID st d j"
    and sweep_time: "sGetLastSweepTime st (fst (sSetLastSweepTime st d t)) = Inr (stored_time t)"
begin

lemma ttl_loop_removes:
  "\<exists>d'. ttl_loop st d n ms = Some (d', n + length ms) \<and>
     (\<forall>j. sGetMessageByID st d' j = (if j \<in> MID ` set ms then Inl (NotFound j) else sGetMessageByID st d j))"
proof (induction ms arbitrary: d n)
  case (Cons m ms)
  from remove_effect obtain d1 where "sRemoveMessage st d (MID m) = Some d1"
    and "\<And>j. sGetMessageByID st d1 j = (if j = MID m then Inl (NotFound (MID m)) else sGetMessageByID st d j)" by blast
  with Cons.IH [of d1 "Suc n"] show ?case by auto
qed simp

lemma sweep_messages_effect:
  assumes "sGetExpiredMessages st d now = Inr expired"
  shows "\<exists>d'. sweep_messages st now d = Some (d', length expired) \<and> sGetLastSweepTime st d' = Inr (stored_time now) \<and>
    (\<forall>j. sGetMessageByID st d' j = (if j \<in> MID ` set expired then Inl (NotFound j) else sGetMessageByID st d j))"
  using ttl_loop_removes [of d 0 expired] assms sweep_time_get sweep_time by (auto simp: sweep_messages_def)

text \<open>
  \<open>scrubbed d d'\<close>: from \<open>d\<close> to \<open>d'\<close> only records with a malformed payload
  went away, and no queue got longer.
\<close>

definition scrubbed :: "'d \<Rightarrow> 'd \<Rightarrow> bool" where
  "scrubbed d d' \<longleftrightarrow>
     (\<forall>j. sGetMessageByID st d' j = sGetMessageByID st d j \<or>
        sGetMessageByID st d' j = Inl (NotFound j) \<and>
        (\<exists>m. sGetMessageByID st d j = Inr m \<and> DecodePayloadB64 (MPayload m) = None)) \<and>
     (\<forall>r ids'. sGetAllQueuedMessageIDs st d' r = Inr ids' \<longrightarrow>
        (\<exists>ids. sGetAllQueuedMessageIDs st d r = Inr ids \<and> set ids' \<subseteq> set ids))"

lemma scrubbed_refl: "scrubbed d d"
  by (simp add: scrubbed_def)

lemma scrubbed_trans:
  assumes "scrubbed d d1" and "scrubbed d1 d2"
  shows "scrubbed d d2"
proof -
  have "sGetMessageByID st d2 j = sGetMessageByID st d j \<or>
        sGetMessageByID st d2 j = Inl (NotFound j) \<and>
        (\<exists>m. sGetMessageByID st d j = Inr m \<and> DecodePayloadB64 (MPayload m) = None)" for j
    using assms unfolding scrubbed_def by (metis Inl_Inr_False)
  moreover have "\<exists>ids. sGetAllQueuedMessageIDs st d r = Inr ids \<and> set ids' \<subseteq> set ids"
    if q: "sGetAllQueuedMessageIDs st d2 r = Inr ids'" for r ids'
  proof -
    from assms(2) q obtain ids1 where "sGetAllQueuedMessageIDs st d1 r = Inr ids1" "set ids' \<subseteq> set ids1"
      unfolding scrubbed_def by blast
    moreover with assms(1) obtain ids where "sGetAllQueuedMessageIDs st d r = Inr ids" "set ids1 \<subseteq> set ids"
      unfolding scrubbed_def by blast
    ultimately show ?thesis by blast
  qed
  ultimately show ?thesis by (simp add: scrubbed_def)
qed

lemma scrubbed_remove:
  assumes "sGetMessageByID st d i = Inr m" and "DecodePayloadB64 (MPayload m) = None"
  obtains d' where "sRemoveMessage st d i = Some d'" and "scrubbed d d'"
    and "sGetMessageByID st d' i = Inl (NotFound i)"
  using remove_effect [of d i] assms unfolding scrubbed_def by (metis (no_types, lifting))

definition clean :: "'d \<Rightarrow> string \<Rightarrow> bool" where
  "clean d i \<longleftrightarrow> (\<forall>m. sGetMessageByID st d i = Inr m \<longrightarrow> DecodePayloadB64 (MPayload m) \<noteq> None)"

lemma clean_scrubbed: "clean d i \<Longrightarrow> scrubbed d d' \<Longrightarrow> clean d' i"
  unfolding clean_def scrubbed_def by (metis Inl_Inr_False)

lemma scrub_messages_effect:
  "\<exists>d' rep' err'. scrub_messages st r d rep err ids = Some (d', rep', err') \<and> scrubbed d d' \<and>
     (\<forall>i \<in> set ids. clean d' i)"
proof (induction ids arbitrary: d rep err)
  case Nil
  then show ?case by (simp add: scrubbed_refl)
next
  case (Cons i ids)
  show ?case
  proof (cases "\<exists>m. sGetMessageByID st d i = Inr m \<and> DecodePayloadB64 (MPayload m) = None")
    case True
    then obtain m where m: "sGetMessageByID st d i = Inr m" "DecodePayloadB64 (MPayload m) = None" by blast
    obtain d1 where d1: "sRemoveMessage st d i = Some d1" "scrubbed d d1" "clean d1 i"
      using scrubbed_remove [OF m] by (metis Inl_Inr_False clean_def)
    have step: "\<exists>rep1. scrub_messages st r d rep err (i # ids) = scrub_messages st r d1 rep1 err ids"
      using m d1(1) by (auto simp: Let_def)
    with Cons.IH [of d1] obtain d' rep' err' where "scrub_messages st r d rep err (i # ids) = Some (d', rep', err')"
      "scrubbed d1 d'" "\<forall>i \<in> set ids. clean d' i" by metis
    with d1 show ?thesis using scrubbed_trans clean_scrubbed by (metis set_ConsD)
  next
    case False
    then have c: "clean d i" by (auto simp: clean_def)
    have step: "\<exists>rep1 err1. scrub_messages st r d rep err (i # ids) = scrub_messages st r d rep1 err1 ids"
      using False by (cases "sGetMessageByID st d i") (auto simp: Let_def)
    with Cons.IH [of d] obtain d' rep' err' where "scrub_messages st r d rep err (i # ids) = Some (d', rep', err')"
      "scrubbed d d'" "\<forall>i \<in> set ids. clean d' i" by metis
    with c show ?thesis using clean_scrubbed by (metis set_ConsD)
  qed
qed

lemma scrub_recipients_effect:
  "\<exists>d' rep' err'. scrub_recipients st d rep err rs = Some (d', rep', err') \<and> scrubbed d d' \<and>
     (\<forall>r \<in> set rs. \<forall>ids i. sGetAllQueuedMessageIDs st d' r = Inr ids \<longrightarrow> i \<in> set ids \<longrightarrow> clean d' i)"
proof (induction rs arbitrary: d rep err)
  case Nil
  then show ?case by (simp add: scrubbed_refl)
next
  case (Cons r rs)
  show ?case
  proof (cases "sGetAllQueuedMessageIDs st d r")
    case (Inl e)
    obtain d' rep' err' where *: "scrub_recipients st d rep err (r # rs) = Some (d', rep', err')" "scrubbed d d'"
      "\<forall>r \<in> set rs. \<forall>ids i. sGetAllQueuedMessageIDs st d' r = Inr ids \<longrightarrow> i \<in> set ids \<longrightarrow> clean d' i"
      using Cons.IH [of d] Inl by fastforce
    have "sGetAllQueuedMessageIDs st d' r \<noteq> Inr ids" for ids
      using *(2) Inl unfolding scrubbed_def by (metis Inl_Inr_False)
    with * show ?thesis by auto
  next
    case (Inr ids)
    obtain d1 rep1 err1 where 1: "scrub_messages st r d rep err ids = Some (d1, rep1, err1)" "scrubbed d d1"
      "\<forall>i \<in> set ids. clean d1 i" using scrub_messages_effect by blast
    obtain d' rep' err' where 2: "scrub_recipients st d1 rep1 err1 rs = Some (d', rep', err')" "scrubbed d1 d'"
      "\<forall>r \<in> set rs. \<forall>ids i. sGetAllQueuedMessageIDs st d' r = Inr ids \<longrightarrow> i \<in> set ids \<longrightarrow> clean d' i"
      using Cons.IH by blast
    have "clean d' i" if q: "sGetAllQueuedMessageIDs st d' r = Inr ids'" "i \<in> set ids'" for ids' i
    proof -
      from scrubbed_trans [OF 1(2) 2(2)] q Inr have "i \<in> set ids" unfolding scrubbed_def by fastforce
      with 1(3) 2(2) clean_scrubbed show ?thesis by blast
    qed
    with 1 2 Inr show ?thesis using scrubbed_trans [OF 1(2) 2(2)] by auto
  qed
qed

end

subsection \<open>The bbolt stores\<close>

lemma hd_split_byte: "sep \<in> set k \<Longrightarrow> has_prefix k (hd (split_byte sep k) @ [sep])"
  by (induction k) (auto simp: has_prefix_iff split: list.splits)

lemma hd_split_byte_clean: "sep \<notin> set (hd (split_byte sep k))"
  by (induction k) (auto split: list.splits)

context bolt
begin

lemma SetLastSweepTime_effect:
  "\<exists>db'. SetLastSweepTime api db t = (db', Inr ()) \<and> BucketMessages db' = BucketMessages db \<and>
     bget api (BucketMeta db') MetaLastSweep = Some (be_int64 (Unix t))"
proof -
  have "key_ok MetaLastSweep" "value_ok (be_int64 (Unix t))"
    by (simp_all add: key_ok_def value_ok_def MetaLastSweep_def)
  then obtain b where "put_in api (BucketMeta db) MetaLastSweep (be_int64 (Unix t)) ''meta'' = Inr b"
    using put_in_ok by blast
  then show ?thesis using put_in_Inr by (fastforce simp: SetLastSweepTime_def db_update_def)
qed

text \<open>
  A message that some queue lists is listed by the queue of a recipient without zero bytes, and the
  recipients with a queue are all found.
\<close>

lemma queued_for_plain_recipient:
  assumes "GetAllQueuedMessageIDs api db r = Inr ids" and "i \<in> set ids"
  obtains r' ids' where "NUL \<notin> set r'" and "GetAllQueuedMessageIDs api db r' = Inr ids'" and "i \<in> set ids'"
proof -
  from GetAllQueuedMessageIDs_set [OF assms(1)] assms(2) obtain k
    where k: "bget api (BucketQueueByRecipient db) k = Some i" and p: "has_prefix k (r @ [NUL])"
    and m: "bget api (BucketMessages db) i \<noteq> None" by auto
  let ?r = "hd (split_byte NUL k)"
  have "NUL \<in> set k" using p by (auto simp: has_prefix_iff)
  then have "has_prefix k (?r @ [NUL])" by (rule hd_split_byte)
  moreover have "GetAllQueuedMessageIDs api db ?r = Inr (queued_ids_scan (bget api (BucketMessages db)) (?r @ [NUL])
      (bseek api (BucketQueueByRecipient db) (?r @ [NUL])))" by (simp add: GetAllQueuedMessageIDs_def)
  ultimately show thesis using that GetAllQueuedMessageIDs_set k m hd_split_byte_clean by blast
qed

lemma queued_recipient_found:
  assumes "GetAllRecipientIDs api db = Inr rs" and "GetAllQueuedMessageIDs api db r = Inr ids" and "i \<in> set ids"
    and "NUL \<notin> set r"
  shows "r \<in> set rs"
proof -
  from GetAllQueuedMessageIDs_set [OF assms(2)] assms(3) obtain k
    where k: "bget api (BucketQueueByRecipient db) k = Some i" and p: "has_prefix k (r @ [NUL])" by auto
  from p assms(4) have "hd (split_byte NUL k) = r" by (auto simp: has_prefix_iff split_byte_append)
  then show ?thesis
    using assms(1) k seek_entries [of k i "BucketQueueByRecipient db" "[]"]
    by (force simp: GetAllRecipientIDs_def recipients_loop_props)
qed

end

context bolt_cursor
begin

lemma pruning: "pruning_store (bbolt_store api lo)"
proof (unfold_locales, goal_cases)
  case (1 d i)
  obtain d' where r: "RemoveMessage api lo d i = Some d'"
    and m: "bget api (BucketMessages d') = (bget api (BucketMessages d))(i := None)"
    and q: "BucketQueueByRecipient d' = BucketQueueByRecipient (remove_indexes api lo d i)"
    using RemoveMessage_effect by blast
  have sub: "bget api (BucketQueueByRecipient d) k = Some v"
    if "bget api (BucketQueueByRecipient d') k = Some v" for k v
    using that unfolding q
    by (auto simp: remove_indexes_def get_delete split: option.splits sum.splits if_splits)
  have "set ids' \<subseteq> set ids"
    if "GetAllQueuedMessageIDs api d' r = Inr ids'" "GetAllQueuedMessageIDs api d r = Inr ids" for r ids' ids
    unfolding GetAllQueuedMessageIDs_set [OF that(1)] GetAllQueuedMessageIDs_set [OF that(2)]
    using sub by (auto simp: m split: if_splits)
  then have "\<exists>ids. GetAllQueuedMessageIDs api d r = Inr ids \<and> set ids' \<subseteq> set ids"
    if "GetAllQueuedMessageIDs api d' r = Inr ids'" for r ids'
    using that by (auto simp: GetAllQueuedMessageIDs_def)
  with r m show ?case by (auto simp: GetMessageByID_def)
next
  case (2 d t j)
  then show ?case using SetLastSweepTime_effect [of d t] by (auto simp: GetMessageByID_def)
next
  case (3 d t)
  then show ?case using SetLastSweepTime_effect [of d t]
    by (auto simp: GetLastSweepTime_def stored_time_def int64_val_be_int64)
qed

end

sublocale bolt_cursor \<subseteq> prune: pruning_store "bbolt_store api lo" for lo
  by (rule pruning)

interpretation mem_prune: pruning_store "bbolt_store mem_bolt lo" for lo
  by (rule bolt_cursor.pruning [OF mem_bolt_cursor])

text \<open>Envelopes: a removal takes the record and leaves the markers.\<close>

context bolt
begin

lemma RemoveEnvelope_get:
  "\<exists>ed'. RemoveEnvelope api lo ed i = (ed', Inr ()) \<and> BucketSeen ed' = BucketSeen ed \<and>
     BucketRelayIngest ed' = BucketRelayIngest ed \<and>
     (\<forall>j. GetEnvelopeByID api ed' j = (if j = i then Inl (NotFound i) else GetEnvelopeByID api ed j))"
  by (auto simp: RemoveEnvelope_def db_update_def Let_def GetEnvelopeByID_def get_delete split: option.splits sum.splits)

lemma envelope_sweep_loop_effect:
  "\<exists>ed'. envelope_sweep_loop (bbolt_envelope_store api lo) ed n es = (ed', n + length es) \<and>
     BucketSeen ed' = BucketSeen ed \<and> BucketRelayIngest ed' = BucketRelayIngest ed \<and>
     (\<forall>j. GetEnvelopeByID api ed' j = (if j \<in> EID ` set es then Inl (NotFound j) else GetEnvelopeByID api ed j))"
proof (induction es arbitrary: ed n)
  case (Cons e es)
  from RemoveEnvelope_get [of lo ed "EID e"] obtain ed1 where "RemoveEnvelope api lo ed (EID e) = (ed1, Inr ())"
    and "BucketSeen ed1 = BucketSeen ed" and "BucketRelayIngest ed1 = BucketRelayIngest ed"
    and "\<And>j. GetEnvelopeByID api ed1 j = (if j = EID e then Inl (NotFound (EID e)) else GetEnvelopeByID api ed j)"
    by blast
  with Cons.IH [of ed1 "Suc n"] show ?case by auto
qed simp

end

subsection \<open>Properties\<close>

text \<open>
  The scrub at start-up ends and leaves no malformed payload in any queue: afterwards every
  message that a queue lists and that can be read has a payload that decodes, and a message that was
  removed or changed had a payload that does not decode.
\<close>

lemma scrub_leaves_valid_payloads:
  assumes "bolt_cursor api"
  shows "\<exists>d' report err. ScrubInvalidPayloadMessages (bbolt_store api lo) d = Some (d', report, err) \<and>
    (\<forall>r ids i m. GetAllQueuedMessageIDs api d' r = Inr ids \<and> i \<in> set ids \<and> GetMessageByID api d' i = Inr m \<longrightarrow>
       DecodePayloadB64 (MPayload m) \<noteq> None) \<and>
    (\<forall>i. GetMessageByID api d' i = GetMessageByID api d i \<or>
       (\<exists>m. GetMessageByID api d i = Inr m \<and> DecodePayloadB64 (MPayload m) = None))"
proof -
  note ps = bolt_cursor.pruning [OF assms, of lo] and b = bolt_cursor.axioms(1) [OF assms]
  let ?st = "bbolt_store api lo"
  let ?rs = "recipients_loop {} (bseek api (BucketQueueByRecipient d) [])"
  have rs: "GetAllRecipientIDs api d = Inr ?rs" by (simp add: GetAllRecipientIDs_def)
  obtain d' report err where run: "ScrubInvalidPayloadMessages ?st d = Some (d', report, err)"
    and scr: "pruning_store.scrubbed ?st d d'"
    and cl: "\<And>r ids i. r \<in> set ?rs \<Longrightarrow> GetAllQueuedMessageIDs api d' r = Inr ids \<Longrightarrow> i \<in> set ids \<Longrightarrow>
      pruning_store.clean ?st d' i"
    using pruning_store.scrub_recipients_effect [OF ps, of d _ None ?rs]
    by (fastforce simp: ScrubInvalidPayloadMessages_def rs Let_def)
  have "DecodePayloadB64 (MPayload m) \<noteq> None"
    if q: "GetAllQueuedMessageIDs api d' r = Inr ids" "i \<in> set ids" "GetMessageByID api d' i = Inr m" for r ids i m
  proof -
    obtain r1 ids1 where r1: "NUL \<notin> set r1" "GetAllQueuedMessageIDs api d' r1 = Inr ids1" "i \<in> set ids1"
      by (rule bolt.queued_for_plain_recipient [OF b q(1,2)])
    moreover obtain ids0 where "GetAllQueuedMessageIDs api d r1 = Inr ids0" "i \<in> set ids0"
      using scr r1(2,3) unfolding pruning_store.scrubbed_def [OF ps] by fastforce
    ultimately have "pruning_store.clean ?st d' i" using bolt.queued_recipient_found [OF b rs] cl by blast
    with q(3) show ?thesis unfolding pruning_store.clean_def [OF ps] by simp
  qed
  moreover have "GetMessageByID api d' i = GetMessageByID api d i \<or>
      (\<exists>m. GetMessageByID api d i = Inr m \<and> DecodePayloadB64 (MPayload m) = None)" for i
    using scr unfolding pruning_store.scrubbed_def [OF ps] by auto
  ultimately show ?thesis using run by blast
qed

lemma scrub_leaves_valid_payloads_example:
  "\<exists>d' report err. ScrubInvalidPayloadMessages (bbolt_store mem_bolt (\<lambda>_. 0)) half_delivered = Some (d', report, err) \<and>
     (\<forall>r ids i m. GetAllQueuedMessageIDs mem_bolt d' r = Inr ids \<and> i \<in> set ids \<and> GetMessageByID mem_bolt d' i = Inr m \<longrightarrow>
       DecodePayloadB64 (MPayload m) \<noteq> None)"
  using scrub_leaves_valid_payloads [OF mem_bolt_cursor, of "\<lambda>_. 0" half_delivered] by blast

text \<open>
  Claim C34. A sweep of the message store ends, removes every message the expiry scan reports for the
  time of the sweep, leaves all other messages alone, counts each removal and records its time.
\<close>

theorem message_sweep_exact:
  assumes "bolt_cursor api" and "GetExpiredMessages api lo d now = Inr expired"
  shows "\<exists>d'. sweep_messages (bbolt_store api lo) now d = Some (d', length expired) \<and>
    GetLastSweepTime api d' = Inr (stored_time now) \<and>
    (\<forall>i. GetMessageByID api d' i = (if i \<in> MID ` set expired then Inl (NotFound i) else GetMessageByID api d i))"
  using pruning_store.sweep_messages_effect [OF bolt_cursor.pruning [OF assms(1), of lo], of d now expired] assms(2)
  by auto

text \<open>An expired message and the database that holds it.\<close>

lemma sample_expired:
  "\<exists>d. PersistMessage mem_bolt (\<lambda>_. 0) (open_msg_db mem_bolt) (Some sample_message) = (d, Inr ()) \<and>
     GetExpiredMessages mem_bolt (\<lambda>_. 0) d \<lparr>instant = 1600000000000000000, loc = UTC\<rparr> = Inr [stored_message sample_message]"
proof -
  obtain d where p: "PersistMessage mem_bolt (\<lambda>_. 0) (open_msg_db mem_bolt) (Some sample_message) = (d, Inr ())"
    using mem.persist_succeeds [OF sample_storable] by blast
  let ?k = "expiry_key (\<lambda>_. 0) sample_message"
  have "bget mem_bolt (BucketExpiryIndex d) = [?k \<mapsto> ''m1'']"
    using mem.persist_buckets(3) [OF p]
    by (simp add: fun_eq_iff open_msg_db_def mem.get_empty) (simp add: sample_message_def)
  then have "bseek mem_bolt (BucketExpiryIndex d) [] = [(?k, ''m1'')]"
    by (intro mem.seek_unique) (auto split: if_splits)
  moreover have "bget mem_bolt (BucketMessages d) ''m1'' = Some (EncodeMessage sample_message)"
    using mem.persist_buckets(1) [OF p] by (simp add: sample_message_def)
  moreover have "DecodeMessage (EncodeMessage sample_message) = Inr (stored_message sample_message)"
    by (rule DecodeMessage_EncodeMessage) (simp add: message_fits_def sample_message_def)
  moreover have "\<not> rfc3339nano (\<lambda>_. 0) (MExpiresAt sample_message) >
      rfc3339nano (\<lambda>_. 0) \<lparr>instant = 1600000000000000000, loc = UTC\<rparr>"
    by (simp add: sample_message_def format_defs dec_digits.simps char_less_iff)
  ultimately show ?thesis
    using p by (simp add: GetExpiredMessages_def expiry_key_def EncodeExpiryKey_def split_byte_append Suc_le_eq)
qed

theorem message_sweep_exact_witness:
  "\<exists>d d'. sweep_messages (bbolt_store mem_bolt (\<lambda>_. 0)) \<lparr>instant = 1600000000000000000, loc = UTC\<rparr> d = Some (d', 1) \<and>
     GetMessageByID mem_bolt d' ''m1'' = Inl (NotFound ''m1'')"
proof -
  obtain d where "GetExpiredMessages mem_bolt (\<lambda>_. 0) d \<lparr>instant = 1600000000000000000, loc = UTC\<rparr> =
      Inr [stored_message sample_message]" using sample_expired by blast
  from message_sweep_exact [OF mem_bolt_cursor this] obtain d' where
    "sweep_messages (bbolt_store mem_bolt (\<lambda>_. 0)) \<lparr>instant = 1600000000000000000, loc = UTC\<rparr> d = Some (d', 1)"
    and "GetMessageByID mem_bolt d' ''m1'' = Inl (NotFound ''m1'')"
    by (auto simp: stored_message_def sample_message_def)
  then show ?thesis by blast
qed

text \<open>
  A sweep of the envelope store removes every envelope the expiry scan reports for the time
  of the sweep and leaves all other envelopes alone; the seen and relay-ingest markers outlive it, so a
  swept item that comes back is neither offered to the same relay nor announced again.
\<close>

lemma envelope_sweep_exact:
  assumes "bolt api" and "GetExpiredEnvelopes api lo ed now = Inr expired"
  shows "\<exists>ed'. sweep_envelopes (bbolt_envelope_store api lo) now ed = (ed', length expired) \<and>
    (\<forall>i. GetEnvelopeByID api ed' i = (if i \<in> EID ` set expired then Inl (NotFound i) else GetEnvelopeByID api ed i)) \<and>
    (\<forall>i relay. IsSeenBy api ed' i relay = IsSeenBy api ed i relay \<and>
       IsRelayIngestEmitted api ed' i = IsRelayIngestEmitted api ed i)"
proof (cases "expired = []")
  case True
  with assms(2) show ?thesis by (simp add: sweep_envelopes_def)
next
  case False
  from bolt.envelope_sweep_loop_effect [OF assms(1), of lo ed 0 expired] obtain ed1 where
    l: "envelope_sweep_loop (bbolt_envelope_store api lo) ed 0 expired = (ed1, length expired)"
    and m: "BucketSeen ed1 = BucketSeen ed" "BucketRelayIngest ed1 = BucketRelayIngest ed"
    and g: "\<And>j. GetEnvelopeByID api ed1 j = (if j \<in> EID ` set expired then Inl (NotFound j) else GetEnvelopeByID api ed j)"
    by auto
  have s: "BucketSeen (fst (SetEnvelopeLastSweepTime api ed1 now)) = BucketSeen ed1"
    "BucketRelayIngest (fst (SetEnvelopeLastSweepTime api ed1 now)) = BucketRelayIngest ed1"
    "BucketEnvelopes (fst (SetEnvelopeLastSweepTime api ed1 now)) = BucketEnvelopes ed1"
    by (auto simp: SetEnvelopeLastSweepTime_def db_update_def split: sum.splits)
  then have "GetEnvelopeByID api (fst (SetEnvelopeLastSweepTime api ed1 now)) j = GetEnvelopeByID api ed1 j" for j
    by (simp add: GetEnvelopeByID_def)
  with l m g s False assms(2) show ?thesis
    by (simp add: sweep_envelopes_def IsSeenBy_def IsRelayIngestEmitted_def)
qed

end
