(* ===== verification/Rate_Limiter.thy ===== *)
theory Rate_Limiter
  imports Go_Time
begin

text \<open>
  The sliding-window rate limiter of \<^verbatim>\<open>internal/federation/peering.go\<close> and the list difference beside it.
\<close>

subsection \<open>Operations\<close>

record RateLimiter =
  requests :: "string \<rightharpoonup> gotime list"
  maxRequests :: int
  window :: int

definition NewRateLimiter :: "int \<Rightarrow> int \<Rightarrow> RateLimiter" where
  "NewRateLimiter mx win = \<lparr>requests = Map.empty, maxRequests = mx, window = win\<rparr>"

definition history :: "RateLimiter \<Rightarrow> string \<Rightarrow> gotime list" where
  "history rl peerID = (case requests rl peerID of None \<Rightarrow> [] | Some ts \<Rightarrow> ts)"

definition still_valid :: "RateLimiter \<Rightarrow> gotime \<Rightarrow> gotime list \<Rightarrow> gotime list" where
  "still_valid rl now = filter (\<lambda>t. After t (Add now (s64 (- window rl))))"

definition Allow :: "gotime \<Rightarrow> string \<Rightarrow> RateLimiter \<Rightarrow> RateLimiter \<times> bool" where
  "Allow now peerID rl =
     (let valid = still_valid rl now (history rl peerID)
      in if int (length valid) \<ge> maxRequests rl then (rl\<lparr>requests := (requests rl)(peerID \<mapsto> valid)\<rparr>, False)
         else (rl\<lparr>requests := (requests rl)(peerID \<mapsto> valid @ [now])\<rparr>, True))"

definition Cleanup :: "gotime \<Rightarrow> RateLimiter \<Rightarrow> RateLimiter" where
  "Cleanup now rl = rl\<lparr>requests := (\<lambda>peerID. case requests rl peerID of
     None \<Rightarrow> None
   | Some ts \<Rightarrow> (let valid = still_valid rl now ts in if length valid = 0 then None else Some valid))\<rparr>"

definition diff :: "string list \<Rightarrow> string list \<Rightarrow> string list" where
  "diff a b = filter (\<lambda>v. v \<notin> set b) a"

subsection \<open>Runs\<close>

datatype limiter_op = OpAllow gotime string | OpCleanup gotime

fun op_time :: "limiter_op \<Rightarrow> int" where
  "op_time (OpAllow t p) = instant t"
| "op_time (OpCleanup t) = instant t"

text \<open>The grants of a run, as pairs of a peer and a time.\<close>

fun limiter_run :: "RateLimiter \<Rightarrow> limiter_op list \<Rightarrow> (string \<times> gotime) list" where
  "limiter_run rl [] = []"
| "limiter_run rl (OpAllow now p # ops) = (case Allow now p rl of
     (rl', granted) \<Rightarrow> (if granted then [(p, now)] else []) @ limiter_run rl' ops)"
| "limiter_run rl (OpCleanup now # ops) = limiter_run (Cleanup now rl) ops"

abbreviation in_window :: "int \<Rightarrow> int \<Rightarrow> gotime \<Rightarrow> bool" where
  "in_window win t s \<equiv> t - win < instant s \<and> instant s \<le> t"

lemma Allow_simps:
  "maxRequests (fst (Allow now p rl)) = maxRequests rl" "window (fst (Allow now p rl)) = window rl"
  "history (fst (Allow now p rl)) q = (if q = p then still_valid rl now (history rl p) @ (if snd (Allow now p rl) then [now] else []) else history rl q)"
  "snd (Allow now p rl) \<longleftrightarrow> int (length (still_valid rl now (history rl p))) < maxRequests rl"
  by (auto simp: Allow_def history_def Let_def)

lemma Cleanup_simps:
  "maxRequests (Cleanup now rl) = maxRequests rl" "window (Cleanup now rl) = window rl"
  "history (Cleanup now rl) q = still_valid rl now (history rl q)"
  by (auto simp: Cleanup_def history_def still_valid_def Let_def split: option.splits)

lemma still_valid_eq: "fits64 (- window rl) \<Longrightarrow> still_valid rl now ts = filter (\<lambda>s. instant now - window rl < instant s) ts"
  by (simp add: still_valid_def After_def Add_def s64_id)

text \<open>
  What the limiter remembers of the grants \<open>gs\<close> up to the time \<open>T\<close>: of each peer, all that still count at
  \<open>T\<close>.
\<close>

definition remembers :: "int \<Rightarrow> (string \<times> gotime) list \<Rightarrow> RateLimiter \<Rightarrow> bool" where
  "remembers T gs rl \<longleftrightarrow> (\<forall>(p, s) \<in> set gs. instant s \<le> T) \<and>
     (\<forall>p. filter (\<lambda>s. T - window rl < instant s) (map snd (filter (\<lambda>g. fst g = p) gs)) =
          filter (\<lambda>s. T - window rl < instant s) (history rl p))"

lemma later_filter:
  assumes "filter (\<lambda>s. T - win < f s) xs = filter (\<lambda>s. T - win < f s) ys" and "T \<le> T'"
  shows "filter (\<lambda>s. T' - win < f s) xs = filter (\<lambda>s. (T' :: int) - win < f s) ys"
proof -
  have "filter (\<lambda>s. T' - win < f s) zs = filter (\<lambda>s. T' - win < f s) (filter (\<lambda>s. T - win < f s) zs)" for zs
    using assms(2) by (auto intro: filter_cong)
  with assms(1) show ?thesis by metis
qed

lemma remembers_later: "remembers T gs rl \<Longrightarrow> T \<le> T' \<Longrightarrow> remembers T' gs rl"
  using later_filter [of T "window rl" instant] by (fastforce simp: remembers_def)

lemma remembers_Cleanup:
  assumes "fits64 (- window rl)" and "remembers (instant now) gs rl"
  shows "remembers (instant now) gs (Cleanup now rl)"
  using assms by (simp add: remembers_def Cleanup_simps still_valid_eq)

lemma remembers_Allow:
  assumes "fits64 (- window rl)" and "remembers (instant now) gs rl" and "0 < window rl"
  shows "remembers (instant now) (gs @ (if snd (Allow now p rl) then [(p, now)] else [])) (fst (Allow now p rl))"
  using assms by (auto simp: remembers_def Allow_simps(1-3) still_valid_eq)

text \<open>At most \<open>mx\<close> grants of a peer lie in any window.\<close>

definition within :: "int \<Rightarrow> int \<Rightarrow> (string \<times> gotime) list \<Rightarrow> bool" where
  "within mx win gs \<longleftrightarrow> (\<forall>p t. int (length (filter (\<lambda>g. fst g = p \<and> in_window win t (snd g)) gs)) \<le> mx)"

lemma length_filter_imp: "(\<And>x. P x \<Longrightarrow> Q x) \<Longrightarrow> length (filter P xs) \<le> length (filter Q xs)"
  by (induction xs) (auto intro: le_SucI)

lemma within_grant:
  assumes w: "within (maxRequests rl) (window rl) gs" and r: "remembers (instant now) gs rl" and fits: "fits64 (- window rl)"
    and ok: "snd (Allow now p rl)"
  shows "within (maxRequests rl) (window rl) (gs @ [(p, now)])"
  unfolding within_def
proof (intro allI)
  fix q :: string and t :: int
  let ?n = "\<lambda>xs. int (length (filter (\<lambda>g. fst g = q \<and> in_window (window rl) t (snd g)) xs))"
  show "?n (gs @ [(p, now)]) \<le> maxRequests rl"
  proof (cases "q = p \<and> in_window (window rl) t now")
    case False
    with w show ?thesis by (auto simp: within_def)
  next
    case True
    have "length (filter (\<lambda>g. fst g = q \<and> in_window (window rl) t (snd g)) gs) \<le>
        length (filter (\<lambda>g. instant now - window rl < instant (snd g)) (filter (\<lambda>g. fst g = p) gs))"
      unfolding filter_filter using True by (intro length_filter_imp) auto
    also have "\<dots> = length (filter (\<lambda>s. instant now - window rl < instant s) (map snd (filter (\<lambda>g. fst g = p) gs)))"
      by (simp add: filter_map comp_def)
    also have "\<dots> = length (filter (\<lambda>s. instant now - window rl < instant s) (history rl p))"
      using r by (simp add: remembers_def)
    finally show ?thesis using True ok fits by (simp add: Allow_simps(4) still_valid_eq)
  qed
qed

lemma limiter_run_within:
  assumes "0 < window rl" and "fits64 (- window rl)" and "sorted (map op_time ops)" and "\<forall>op \<in> set ops. T \<le> op_time op"
    and "remembers T gs rl" and "within (maxRequests rl) (window rl) gs"
  shows "within (maxRequests rl) (window rl) (gs @ limiter_run rl ops)"
  using assms
proof (induction ops arbitrary: T gs rl)
  case (Cons op ops)
  have later: "\<forall>op' \<in> set ops. op_time op \<le> op_time op'" and sorted: "sorted (map op_time ops)" using Cons.prems(3) by auto
  have rem: "remembers (op_time op) gs rl" using remembers_later [OF Cons.prems(5)] Cons.prems(4) by simp
  show ?case
  proof (cases op)
    case (OpCleanup now)
    with rem remembers_Cleanup [OF Cons.prems(2)] have "remembers (op_time op) gs (Cleanup now rl)" by simp
    from Cons.IH [OF _ _ sorted later this] Cons.prems OpCleanup show ?thesis by (simp add: Cleanup_simps)
  next
    case (OpAllow now p)
    let ?gs = "gs @ (if snd (Allow now p rl) then [(p, now)] else [])"
    have "remembers (op_time op) ?gs (fst (Allow now p rl))"
      using OpAllow rem remembers_Allow [OF Cons.prems(2) _ Cons.prems(1)] by simp
    moreover have "within (maxRequests rl) (window rl) ?gs"
      using OpAllow rem Cons.prems(2,6) within_grant [of rl gs now p] by auto
    ultimately show ?thesis using Cons.IH [OF _ _ sorted later, of "fst (Allow now p rl)" ?gs] Cons.prems(1,2) OpAllow
      by (simp add: Allow_simps(1,2) case_prod_unfold)
  qed
qed simp

text \<open>Two limiters that agree on what still counts.\<close>

definition agrees :: "int \<Rightarrow> RateLimiter \<Rightarrow> RateLimiter \<Rightarrow> bool" where
  "agrees T rl rl' \<longleftrightarrow> maxRequests rl' = maxRequests rl \<and> window rl' = window rl \<and>
     (\<forall>p. filter (\<lambda>s. T - window rl < instant s) (history rl p) = filter (\<lambda>s. T - window rl < instant s) (history rl' p))"

lemma agrees_later: "agrees T rl rl' \<Longrightarrow> T \<le> T' \<Longrightarrow> agrees T' rl rl'"
  using later_filter [of T "window rl" instant] by (fastforce simp: agrees_def)

lemma agrees_Allow:
  assumes "fits64 (- window rl)" and "agrees (instant now) rl rl'"
  shows "snd (Allow now p rl') = snd (Allow now p rl)" and "agrees (instant now) (fst (Allow now p rl)) (fst (Allow now p rl'))"
  using assms by (auto simp: agrees_def Allow_simps still_valid_eq)

lemma limiter_run_agrees:
  assumes "fits64 (- window rl)" and "sorted (map op_time ops)" and "\<forall>op \<in> set ops. T \<le> op_time op" and "agrees T rl rl'"
  shows "limiter_run rl ops = limiter_run rl' (filter (\<lambda>op. \<exists>t p. op = OpAllow t p) ops)"
  using assms
proof (induction ops arbitrary: T rl rl')
  case (Cons op ops)
  have later: "\<forall>op' \<in> set ops. op_time op \<le> op_time op'" and sorted: "sorted (map op_time ops)" using Cons.prems(2) by auto
  have ag: "agrees (op_time op) rl rl'" using agrees_later [OF Cons.prems(4)] Cons.prems(3) by simp
  show ?case
  proof (cases op)
    case (OpCleanup now)
    with ag Cons.prems(1) have "agrees (op_time op) (Cleanup now rl) rl'" by (simp add: agrees_def Cleanup_simps still_valid_eq)
    from Cons.IH [OF _ sorted later this] Cons.prems(1) OpCleanup show ?thesis by (simp add: Cleanup_simps)
  next
    case (OpAllow now p)
    note al = agrees_Allow [OF Cons.prems(1), of now rl' p]
    from Cons.IH [OF _ sorted later, of "fst (Allow now p rl)" "fst (Allow now p rl')"] al ag OpAllow Cons.prems(1)
    show ?thesis by (simp add: Allow_simps(2) case_prod_unfold)
  qed
qed simp

subsection \<open>Properties\<close>

text \<open>
  The limiter keeps its promise: from a new limiter with a positive window, through calls at
  non-decreasing times and with any clean-ups in between, no peer is granted more than
  \<open>maxRequests\<close> requests in any window of that length, not only in the windows that end at a call.
\<close>

lemma rate_limited_in_every_window:
  assumes "0 < win" and "fits64 (- win)" and "0 \<le> mx" and "sorted (map op_time ops)"
  shows "int (length (filter (\<lambda>(q, s). q = p \<and> t - win < instant s \<and> instant s \<le> t)
    (limiter_run (NewRateLimiter mx win) ops))) \<le> mx"
proof -
  let ?rl = "NewRateLimiter mx win"
  have rl: "window ?rl = win" "maxRequests ?rl = mx" by (simp_all add: NewRateLimiter_def)
  have "remembers (if ops = [] then 0 else op_time (hd ops)) [] ?rl" by (simp add: remembers_def history_def NewRateLimiter_def)
  moreover have "\<forall>op \<in> set ops. (if ops = [] then 0 else op_time (hd ops)) \<le> op_time op" using assms(4) by (cases ops) auto
  ultimately have "within mx win (limiter_run ?rl ops)"
    using limiter_run_within [of ?rl ops "if ops = [] then 0 else op_time (hd ops)" "[]"] assms rl by (simp add: within_def)
  then show ?thesis by (simp add: within_def case_prod_unfold)
qed

text \<open>
  \<open>Cleanup\<close> frees memory and nothing else: at non-decreasing times, the requests granted are the
  same with and without the clean-ups.
\<close>

lemma cleanup_changes_no_decision:
  assumes "fits64 (- window rl)" and "sorted (map op_time ops)"
  shows "limiter_run rl ops = limiter_run rl (filter (\<lambda>op. \<exists>t p. op = OpAllow t p) ops)"
  using limiter_run_agrees [OF assms, of "if ops = [] then 0 else op_time (hd ops)" rl] assms(2)
  by (cases ops) (auto simp: agrees_def)

end
