(* ===== verification/Exchange_Sort.thy ===== *)
theory Exchange_Sort
  imports Relay_Prelude "HOL-Library.Multiset"
begin

text \<open>
  The two nested loops the code sorts slices with in four places: for every \<open>i\<close> and every later \<open>j\<close>,
  exchange \<open>xs[i]\<close> and \<open>xs[j]\<close> when \<open>xs[j]\<close> belongs before \<open>xs[i]\<close>.  They are written once, with the
  comparison as an argument, and shown to sort for every strict weak order.
\<close>

text \<open>The inner loop: the element at \<open>i\<close> and those behind it.\<close>

fun exchange_pass :: "('a \<Rightarrow> 'a \<Rightarrow> bool) \<Rightarrow> 'a \<Rightarrow> 'a list \<Rightarrow> 'a \<times> 'a list" where
  "exchange_pass lt x [] = (x, [])"
| "exchange_pass lt x (y # ys) =
     (if lt y x then (case exchange_pass lt y ys of (z, zs) \<Rightarrow> (z, x # zs))
      else (case exchange_pass lt x ys of (z, zs) \<Rightarrow> (z, y # zs)))"

lemma exchange_pass_length [termination_simp]: "(z, zs) = exchange_pass lt x xs \<Longrightarrow> length zs = length xs"
  by (induction lt x xs arbitrary: z zs rule: exchange_pass.induct) (auto split: prod.splits if_splits)

text \<open>The outer loop.\<close>

fun exchange_sort :: "('a \<Rightarrow> 'a \<Rightarrow> bool) \<Rightarrow> 'a list \<Rightarrow> 'a list" where
  "exchange_sort lt [] = []"
| "exchange_sort lt (x # xs) = (case exchange_pass lt x xs of (z, zs) \<Rightarrow> z # exchange_sort lt zs)"

lemma exchange_pass_mset: "exchange_pass lt x xs = (z, zs) \<Longrightarrow> add_mset z (mset zs) = add_mset x (mset xs)"
  by (induction lt x xs arbitrary: z zs rule: exchange_pass.induct)
     (auto simp: add_mset_commute split: prod.splits if_splits)

lemma exchange_sort_mset [simp]: "mset (exchange_sort lt xs) = mset xs"
  by (induction lt xs rule: exchange_sort.induct) (auto dest: exchange_pass_mset split: prod.splits)

lemma exchange_sort_set [simp]: "set (exchange_sort lt xs) = set xs" "length (exchange_sort lt xs) = length xs"
  by (rule mset_eq_setD, rule exchange_sort_mset) (rule mset_eq_length, rule exchange_sort_mset)

lemma exchange_sort_distinct [simp]: "distinct (map f (exchange_sort lt xs)) = distinct (map f xs)"
  by (metis exchange_sort_mset mset_eq_imp_distinct_iff mset_map)

locale weak_order =
  fixes lt :: "'a \<Rightarrow> 'a \<Rightarrow> bool"
  assumes asym: "lt x y \<Longrightarrow> \<not> lt y x"
    and negtrans: "\<not> lt y x \<Longrightarrow> \<not> lt z y \<Longrightarrow> \<not> lt z x"
begin

lemma pass_first: "exchange_pass lt x xs = (z, zs) \<Longrightarrow> \<not> lt x z \<and> (\<forall>y \<in> set zs. \<not> lt y z)"
proof (induction xs arbitrary: x z zs)
  case Nil
  then show ?case using asym by auto
next
  case (Cons y ys)
  obtain z1 zs1 where p: "exchange_pass lt (if lt y x then y else x) ys = (z1, zs1)" by fastforce
  note IH = Cons.IH [OF p]
  from Cons.prems p have z: "z = z1" "set zs = insert (if lt y x then x else y) (set zs1)" by (auto split: if_splits)
  show ?case
  proof (cases "lt y x")
    case True
    with IH have "\<not> lt y z1" "\<not> lt x y" using asym by auto
    then have "\<not> lt x z1" using negtrans by blast
    with IH True z show ?thesis by simp
  next
    case False
    with IH have "\<not> lt x z1" by simp
    with False have "\<not> lt y z1" using negtrans by blast
    with IH False z show ?thesis by simp
  qed
qed

lemma sorts: "sorted_wrt (\<lambda>x y. \<not> lt y x) (exchange_sort lt xs)"
proof (induction "length xs" arbitrary: xs)
  case (Suc n)
  then obtain x ys where xs: "xs = x # ys" by (cases xs) auto
  obtain z zs where p: "exchange_pass lt x ys = (z, zs)" by fastforce
  with Suc xs exchange_pass_length [OF p [symmetric]] have "sorted_wrt (\<lambda>x y. \<not> lt y x) (exchange_sort lt zs)" by simp
  with pass_first [OF p] show ?case by (simp add: xs p)
qed simp

lemma sorts_front:
  assumes "x \<in> set (take k (exchange_sort lt xs))" and "y \<in> set (drop k (exchange_sort lt xs))"
  shows "\<not> lt y x"
proof -
  have "sorted_wrt (\<lambda>x y. \<not> lt y x) (take k (exchange_sort lt xs) @ drop k (exchange_sort lt xs))"
    using sorts by simp
  then show ?thesis using assms unfolding sorted_wrt_append by blast
qed

end

lemma mset_take_drop: "mset (take k (exchange_sort lt xs)) + mset (drop k (exchange_sort lt xs)) = mset xs"
  by (metis append_take_drop_id exchange_sort_mset mset_append)

interpretation ascending: weak_order "(<) :: int \<Rightarrow> int \<Rightarrow> bool"
  by unfold_locales auto

end
