(* ===== verification/Traffic.thy ===== *)
theory Traffic
  imports Go_Time Exchange_Sort
begin

text \<open>
  Traffic analysis resistance, \<^verbatim>\<open>internal/federation/tar.go\<close>: the configuration, the batcher of a peer with
  its jittered ticks and cover frames, and the padding of payloads.
\<close>

subsection \<open>Configuration\<close>

record TARConfig =
  BatchInterval :: int
  BatchJitter :: int
  BatchMax :: int
  PaddingEnabled :: bool
  PadBuckets :: "int list"
  CoverEnabled :: bool
  CoverMax :: int

definition DefaultTARConfig :: TARConfig where
  "DefaultTARConfig = \<lparr>BatchInterval = 500 * millisecond, BatchJitter = 250 * millisecond, BatchMax = 10, PaddingEnabled = False,
     PadBuckets = [1024, 4096, 16384, 65536], CoverEnabled = False, CoverMax = 3\<rparr>"

definition Validate_tar :: "TARConfig \<Rightarrow> TARConfig" where
  "Validate_tar c =
     (let c = (if BatchInterval c \<le> 0 then c\<lparr>BatchInterval := 500 * millisecond\<rparr> else c);
          c = (if BatchJitter c < 0 then c\<lparr>BatchJitter := 250 * millisecond\<rparr> else c);
          c = (if BatchMax c \<le> 0 then c\<lparr>BatchMax := 10\<rparr> else c);
          c = (if length (PadBuckets c) = 0 then c\<lparr>PadBuckets := [1024, 4096, 16384, 65536]\<rparr> else c);
          c = c\<lparr>PadBuckets := exchange_sort (<) (PadBuckets c)\<rparr>
      in if CoverMax c < 0 then c\<lparr>CoverMax := 0\<rparr> else c)"

subsection \<open>The batcher of a peer\<close>

text \<open>
  The channel \<open>queue\<close> with its capacity, the configuration, \<open>closed\<close>, which is set together with the
  cancellation of \<open>ctx\<close>, and whether the loop has returned or has panicked, which ends the relay.
\<close>

record PeerBatcher =
  batchQueue :: "bytes list"
  batchSize :: nat
  batchConfig :: TARConfig
  batchClosed :: bool
  loopDone :: bool
  crashed :: bool

definition NewPeerBatcher :: "nat \<Rightarrow> TARConfig \<Rightarrow> PeerBatcher" where
  "NewPeerBatcher queueSize c = \<lparr>batchQueue = [], batchSize = queueSize, batchConfig = c, batchClosed = False, loopDone = False, crashed = False\<rparr>"

definition Enqueue :: "bytes \<Rightarrow> PeerBatcher \<Rightarrow> PeerBatcher \<times> bool" where
  "Enqueue frame b =
     (if batchClosed b then (b, False)
      else if length (batchQueue b) < batchSize b then (b\<lparr>batchQueue := batchQueue b @ [frame]\<rparr>, True)
      else (b, False))"

text \<open>What is handed to \<open>sendFunc\<close>; only the development tells frames from cover frames.\<close>

datatype outgoing = Frame bytes | Cover bytes

fun drain_loop :: "int \<Rightarrow> int \<Rightarrow> bytes list \<Rightarrow> bytes list \<times> bytes list" where
  "drain_loop mx drained [] = ([], [])"
| "drain_loop mx drained (frame # queue) =
     (let drained = drained + 1
      in if mx > 0 \<and> drained \<ge> mx then ([frame], queue)
         else case drain_loop mx drained queue of (sent, left) \<Rightarrow> (frame # sent, left))"

definition drainQueue :: "int \<Rightarrow> PeerBatcher \<Rightarrow> PeerBatcher \<times> outgoing list" where
  "drainQueue mx b = (case drain_loop mx 0 (batchQueue b) of (sent, left) \<Rightarrow> (b\<lparr>batchQueue := left\<rparr>, map Frame sent))"

text \<open>
  \<open>json.Marshal\<close> of the map of a cover frame: the keys in order.  The number of frames and their times and
  nonces come from the clock and the random source.
\<close>

definition cover_frame :: "gotime \<times> int \<Rightarrow> bytes" where
  "cover_frame = (\<lambda>(now, nonce).
     ''{\"nonce\":'' @ append_int nonce 0 @ '',\"sent_at\":'' @ append_int (UnixMilli now mod 2 ^ 64) 0 @ '',\"ts\":'' @ append_int (Unix now) 0 @
     '',\"type\":\"COVER\"}'')"

definition sendCoverFrames :: "(gotime \<times> int) list \<Rightarrow> PeerBatcher \<Rightarrow> outgoing list" where
  "sendCoverFrames drawn b = (if CoverMax (batchConfig b) = 0 then [] else map (Cover \<circ> cover_frame) drawn)"

text \<open>The next interval, given the random number; \<open>Int63n\<close> and \<open>Ticker.Reset\<close> panic unless it is positive.\<close>

definition adjustedInterval :: "TARConfig \<Rightarrow> int \<Rightarrow> int" where
  "adjustedInterval c r = (if BatchJitter c > 0 then s64 (BatchInterval c + s64 (r - BatchJitter c)) else BatchInterval c)"

definition tick :: "int \<Rightarrow> (gotime \<times> int) list \<Rightarrow> PeerBatcher \<Rightarrow> PeerBatcher \<times> outgoing list" where
  "tick r drawn b =
     (let c = batchConfig b
      in if BatchJitter c > 0 \<and> s64 (2 * BatchJitter c) \<le> 0 then (b\<lparr>crashed := True\<rparr>, [])
         else if adjustedInterval c r \<le> 0 then (b\<lparr>crashed := True\<rparr>, [])
         else case drainQueue (BatchMax c) b of (b, frames) \<Rightarrow>
           (b, frames @ (if CoverEnabled c \<and> batchQueue b = [] then sendCoverFrames drawn b else [])))"

definition StopBatcher :: "PeerBatcher \<Rightarrow> PeerBatcher" where
  "StopBatcher b = (if batchClosed b then b else b\<lparr>batchClosed := True\<rparr>)"

definition QueueLength :: "PeerBatcher \<Rightarrow> nat" where
  "QueueLength b = length (batchQueue b)"

text \<open>
  The steps of \<open>Enqueue\<close>, \<open>Stop\<close> and the loop.  A frame that is enqueued while the loop drains counts as
  enqueued after that drain.  The loop returns once \<open>ctx\<close> is cancelled, after a last drain without limit.
\<close>

datatype batch_event = EnqueueFrame bytes | Tick int "(gotime \<times> int) list" | StopLoop | ContextDone

fun batch_step :: "PeerBatcher \<Rightarrow> batch_event \<Rightarrow> PeerBatcher \<times> outgoing list" where
  "batch_step b (EnqueueFrame frame) = (if crashed b then (b, []) else (fst (Enqueue frame b), []))"
| "batch_step b (Tick r drawn) = (if crashed b \<or> loopDone b then (b, []) else tick r drawn b)"
| "batch_step b StopLoop = (if crashed b then (b, []) else (StopBatcher b, []))"
| "batch_step b ContextDone =
     (if crashed b \<or> loopDone b \<or> \<not> batchClosed b then (b, [])
      else case drainQueue (- 1) b of (b, frames) \<Rightarrow> (b\<lparr>loopDone := True\<rparr>, frames))"

fun batch_run :: "PeerBatcher \<Rightarrow> batch_event list \<Rightarrow> PeerBatcher \<times> outgoing list" where
  "batch_run b [] = (b, [])"
| "batch_run b (ev # evs) = (case batch_step b ev of (b, out) \<Rightarrow> case batch_run b evs of (b, outs) \<Rightarrow> (b, out @ outs))"

text \<open>The frames of a run that \<open>Enqueue\<close> accepted, and those that were sent.\<close>

fun accepted_frames :: "PeerBatcher \<Rightarrow> batch_event list \<Rightarrow> bytes list" where
  "accepted_frames b [] = []"
| "accepted_frames b (ev # evs) =
     (case ev of EnqueueFrame frame \<Rightarrow> if \<not> crashed b \<and> snd (Enqueue frame b) then [frame] else [] | _ \<Rightarrow> []) @
     accepted_frames (fst (batch_step b ev)) evs"

definition sent_frames :: "outgoing list \<Rightarrow> bytes list" where
  "sent_frames outs = concat (map (\<lambda>x. case x of Frame bs \<Rightarrow> [bs] | Cover _ \<Rightarrow> []) outs)"

definition sent_covers :: "outgoing list \<Rightarrow> bytes list" where
  "sent_covers outs = concat (map (\<lambda>x. case x of Frame _ \<Rightarrow> [] | Cover bs \<Rightarrow> [bs]) outs)"

subsection \<open>Padding\<close>

text \<open>The padding bytes are the random source \<open>rnd\<close>, by position.\<close>

fun PadPayload :: "(nat \<Rightarrow> char) \<Rightarrow> bytes \<Rightarrow> int list \<Rightarrow> bytes" where
  "PadPayload rnd payload [] = payload"
| "PadPayload rnd payload (bucket # buckets) =
     (if bucket \<ge> int (length payload)
      then (if bucket = int (length payload) then payload
            else payload @ map rnd [length payload ..< nat bucket])
      else PadPayload rnd payload buckets)"

subsection \<open>Facts\<close>

lemma sent_simps [simp]:
  "sent_frames [] = []" "sent_frames (xs @ ys) = sent_frames xs @ sent_frames ys" "sent_frames (map Frame fs) = fs"
  "sent_frames (map (Cover \<circ> g) cs) = []" "sent_covers (xs @ ys) = sent_covers xs @ sent_covers ys" "sent_covers (map Frame fs) = []"
  "sent_covers [] = []" "sent_covers (map (Cover \<circ> g) cs) = map g cs"
  by (simp_all add: sent_frames_def sent_covers_def comp_def)

lemma drain_loop_split: "drain_loop mx n queue = (sent, left) \<Longrightarrow> queue = sent @ left"
  by (induction mx n queue arbitrary: sent left rule: drain_loop.induct) (auto simp: Let_def split: if_splits prod.splits)

lemma drain_loop_all: "drain_loop (- 1) n queue = (queue, [])"
  by (induction queue arbitrary: n) (simp_all add: Let_def)

lemma drain_loop_bound:
  "drain_loop mx n queue = (sent, left) \<Longrightarrow> 0 \<le> n \<Longrightarrow> n < mx \<Longrightarrow> n + int (length sent) \<le> mx \<and> (left \<noteq> [] \<longrightarrow> n + int (length sent) = mx)"
proof (induction mx n queue arbitrary: sent left rule: drain_loop.induct)
  case (2 mx n frame queue)
  show ?case
  proof (cases "mx > 0 \<and> n + 1 \<ge> mx")
    case True
    with 2 show ?thesis by (auto simp: Let_def)
  next
    case False
    obtain s l where d: "drain_loop mx (n + 1) queue = (s, l)" by fastforce
    with 2(1) [OF refl False d] False 2(2-) show ?thesis by (auto simp: Let_def)
  qed
qed simp

lemma drainQueue_frames:
  "drainQueue mx b = (b', outs) \<Longrightarrow> batchQueue b = sent_frames outs @ batchQueue b' \<and> sent_covers outs = [] \<and>
     b' = b\<lparr>batchQueue := batchQueue b'\<rparr>"
  by (auto simp: drainQueue_def dest: drain_loop_split split: prod.splits)

text \<open>One step keeps the order: what was queued and newly accepted is what was sent and is still queued.\<close>

lemma tick_frames:
  assumes "tick r drawn b = (b', outs)"
  shows "batchQueue b = sent_frames outs @ batchQueue b' \<and> batchClosed b' = batchClosed b \<and> loopDone b' = loopDone b \<and>
    batchConfig b' = batchConfig b"
proof (cases "crashed b' \<and> batchQueue b' = batchQueue b \<and> outs = [] \<and> b' = b\<lparr>crashed := True\<rparr>")
  case True
  then show ?thesis by (metis PeerBatcher.select_convs(3-5) PeerBatcher.surjective PeerBatcher.update_convs(6) append_Nil sent_simps(1))
next
  case False
  obtain b1 frames where d: "drainQueue (BatchMax (batchConfig b)) b = (b1, frames)" by fastforce
  from assms False d have "b' = b1" "sent_frames outs = sent_frames frames"
    by (auto simp: tick_def Let_def sendCoverFrames_def split: if_splits)
  with drainQueue_frames [OF d] show ?thesis
    by (metis PeerBatcher.select_convs(3-5) PeerBatcher.surjective PeerBatcher.update_convs(1))
qed

lemma batch_step_frames:
  assumes "batch_step b ev = (b', outs)" and "loopDone b \<longrightarrow> batchClosed b \<and> batchQueue b = []"
  shows "batchQueue b @ accepted_frames b [ev] = sent_frames outs @ batchQueue b'"
    and "loopDone b' \<longrightarrow> batchClosed b' \<and> batchQueue b' = []" and "batchConfig b' = batchConfig b"
proof -
  have "batchQueue b @ accepted_frames b [ev] = sent_frames outs @ batchQueue b' \<and>
    (loopDone b' \<longrightarrow> batchClosed b' \<and> batchQueue b' = []) \<and> batchConfig b' = batchConfig b"
  proof (cases ev)
    case (EnqueueFrame frame)
    with assms show ?thesis by (auto simp: Enqueue_def split: if_splits)
  next
    case (Tick r drawn)
    with assms tick_frames [of r drawn b b' outs] show ?thesis by (auto split: if_splits)
  next
    case StopLoop
    with assms show ?thesis by (auto simp: StopBatcher_def split: if_splits)
  next
    case ContextDone
    with assms show ?thesis by (auto simp: drainQueue_def drain_loop_all split: if_splits)
  qed
  then show "batchQueue b @ accepted_frames b [ev] = sent_frames outs @ batchQueue b'"
    and "loopDone b' \<longrightarrow> batchClosed b' \<and> batchQueue b' = []" and "batchConfig b' = batchConfig b" by blast+
qed

lemma accepted_frames_cons: "accepted_frames b (ev # evs) = accepted_frames b [ev] @ accepted_frames (fst (batch_step b ev)) evs"
  by simp

lemma batch_run_frames:
  assumes "batch_run b evs = (b', outs)" and "loopDone b \<longrightarrow> batchClosed b \<and> batchQueue b = []"
  shows "batchQueue b @ accepted_frames b evs = sent_frames outs @ batchQueue b' \<and>
    (loopDone b' \<longrightarrow> batchClosed b' \<and> batchQueue b' = [])"
  using assms
proof (induction evs arbitrary: b outs)
  case (Cons ev evs)
  obtain b1 out where s: "batch_step b ev = (b1, out)" by fastforce
  obtain outs' where r: "batch_run b1 evs = (b', outs')" "outs = out @ outs'" using Cons.prems(1) s by (auto split: prod.splits)
  note step = batch_step_frames [OF s Cons.prems(2)]
  from Cons.IH [OF r(1) step(2)]
  have IH: "batchQueue b1 @ accepted_frames b1 evs = sent_frames outs' @ batchQueue b'" "loopDone b' \<longrightarrow> batchClosed b' \<and> batchQueue b' = []" by blast+
  have "batchQueue b @ accepted_frames b (ev # evs) = (batchQueue b @ accepted_frames b [ev]) @ accepted_frames b1 evs"
    unfolding accepted_frames_cons [of b ev evs] by (simp add: s del: accepted_frames.simps)
  with step(1) IH r(2) show ?case by simp
qed simp

subsection \<open>Properties\<close>

text \<open>
  Claim C38. The batcher neither loses, repeats nor reorders: through every interleaving of \<open>Enqueue\<close>, ticks and
  \<open>Stop\<close>, the frames sent so far followed by those still queued are exactly the frames \<open>Enqueue\<close> accepted, in
  their order; and once the loop has returned after \<open>Stop\<close>, every accepted frame was sent.
\<close>

theorem batched_frames_in_order:
  assumes "batch_run (NewPeerBatcher queueSize c) evs = (b, outs)"
  shows "sent_frames outs @ batchQueue b = accepted_frames (NewPeerBatcher queueSize c) evs \<and>
    (loopDone b \<longrightarrow> sent_frames outs = accepted_frames (NewPeerBatcher queueSize c) evs)"
  using batch_run_frames [OF assms] by (auto simp: NewPeerBatcher_def)

text \<open>
  A tick is bounded: with a validated configuration it sends at most \<open>BatchMax\<close> frames, it leaves frames
  behind only when it sent exactly that many, and it sends cover frames only when they are enabled and nothing
  is queued any more.
\<close>

lemma Validate_tar_fields:
  "BatchInterval (Validate_tar c) > 0" "BatchJitter (Validate_tar c) \<ge> 0" "BatchMax (Validate_tar c) > 0"
  "sorted (PadBuckets (Validate_tar c))" "PadBuckets (Validate_tar c) \<noteq> []" "CoverMax (Validate_tar c) \<ge> 0"
proof -
  have "sorted (exchange_sort (<) bs)" for bs :: "int list"
    using ascending.sorts [of bs] by (simp add: not_less)
  moreover have "exchange_sort (<) bs = [] \<longleftrightarrow> bs = []" for bs :: "int list" by (metis exchange_sort_set(2) length_0_conv)
  ultimately show "BatchInterval (Validate_tar c) > 0" "BatchJitter (Validate_tar c) \<ge> 0" "BatchMax (Validate_tar c) > 0"
    "sorted (PadBuckets (Validate_tar c))" "PadBuckets (Validate_tar c) \<noteq> []" "CoverMax (Validate_tar c) \<ge> 0"
    by (simp_all add: Validate_tar_def Let_def)
qed

lemma tick_bounded:
  assumes "batchConfig b = Validate_tar c" and "tick r drawn b = (b', outs)"
  shows "int (length (sent_frames outs)) \<le> BatchMax (Validate_tar c) \<and>
    (batchQueue b' \<noteq> [] \<and> \<not> crashed b' \<longrightarrow> int (length (sent_frames outs)) = BatchMax (Validate_tar c)) \<and>
    (sent_covers outs \<noteq> [] \<longrightarrow> CoverEnabled (Validate_tar c) \<and> batchQueue b' = [])"
proof (cases "outs = [] \<and> crashed b'")
  case True
  with Validate_tar_fields(3) [of c] show ?thesis by simp
next
  case False
  let ?mx = "BatchMax (Validate_tar c)"
  obtain sent left where d: "drain_loop ?mx 0 (batchQueue b) = (sent, left)" by fastforce
  from assms False d have "batchQueue b' = left" "sent_frames outs = sent" "sent_covers outs \<noteq> [] \<longrightarrow> CoverEnabled (Validate_tar c) \<and> left = []"
    by (auto simp: tick_def Let_def drainQueue_def sendCoverFrames_def split: if_splits)
  with drain_loop_bound [OF d] Validate_tar_fields(3) [of c] show ?thesis by auto
qed

text \<open>
  Validation does not keep the ticker alive: with a validated configuration whose interval and jitter
  are far from the ends of a duration, no random number in range makes a tick panic if and only if the jitter
  is zero or smaller than the interval, which \<open>Validate\<close> does not check.
\<close>

lemma ticker_survives_iff:
  assumes "batchConfig b = Validate_tar c" and "\<not> crashed b"
    and "BatchInterval (Validate_tar c) < 2 ^ 61" and "BatchJitter (Validate_tar c) < 2 ^ 61"
  shows "(\<forall>r \<in> {0 ..< 2 * BatchJitter (Validate_tar c)} \<union> {0}. \<not> crashed (fst (tick r drawn b))) \<longleftrightarrow>
    BatchJitter (Validate_tar c) = 0 \<or> BatchJitter (Validate_tar c) < BatchInterval (Validate_tar c)"
proof -
  let ?c = "Validate_tar c" let ?I = "BatchInterval ?c" and ?J = "BatchJitter ?c"
  have pos: "?I > 0" "?J \<ge> 0" by (rule Validate_tar_fields)+
  have ok: "s64 (2 * ?J) = 2 * ?J" using assms(4) pos by (intro s64_id) (simp add: fits64_def)
  have adj: "adjustedInterval ?c r = (if ?J = 0 then ?I else ?I + (r - ?J))" if "r \<in> {0 ..< 2 * ?J} \<union> {0}" for r
  proof -
    have "s64 (r - ?J) = r - ?J" "s64 (?I + (r - ?J)) = ?I + (r - ?J)"
      using assms(3,4) pos that by (auto intro!: s64_id simp: fits64_def)
    with pos show ?thesis by (auto simp: adjustedInterval_def)
  qed
  have crash: "crashed (fst (tick r drawn b)) \<longleftrightarrow> adjustedInterval ?c r \<le> 0" if "r \<in> {0 ..< 2 * ?J} \<union> {0}" for r
    using assms(1,2) ok pos by (auto simp: tick_def Let_def drainQueue_def split: prod.splits)
  show ?thesis
  proof
    assume all: "\<forall>r \<in> {0 ..< 2 * ?J} \<union> {0}. \<not> crashed (fst (tick r drawn b))"
    with crash [of 0] adj [of 0] show "?J = 0 \<or> ?J < ?I" by (auto split: if_splits)
  next
    assume "?J = 0 \<or> ?J < ?I"
    with crash adj pos show "\<forall>r \<in> {0 ..< 2 * ?J} \<union> {0}. \<not> crashed (fst (tick r drawn b))" by (auto split: if_splits)
  qed
qed

lemma PadPayload_first:
  assumes "sorted buckets"
  shows "PadPayload rnd payload buckets =
    (case filter (\<lambda>bucket. int (length payload) \<le> bucket) buckets of [] \<Rightarrow> payload
     | bucket # _ \<Rightarrow> payload @ map rnd [length payload ..< nat bucket])"
  using assms by (induction buckets) auto

text \<open>
  Padding hides the length: with the buckets of a validated configuration, a payload that fits in
  some bucket is padded to exactly the smallest such bucket and starts with the payload, whatever the random bytes
  are; so payloads with the same smallest bucket cannot be told apart by their length.
\<close>

lemma padding_hides_length:
  assumes "buckets = PadBuckets (Validate_tar c)" and "bucket \<in> set buckets" and "int (length payload) \<le> bucket"
    and "\<forall>other \<in> set buckets. int (length payload) \<le> other \<longrightarrow> bucket \<le> other"
  shows "take (length payload) (PadPayload rnd payload buckets) = payload \<and> int (length (PadPayload rnd payload buckets)) = bucket"
proof -
  have s: "sorted buckets" using assms(1) Validate_tar_fields(4) by simp
  obtain first rest where f: "filter (\<lambda>other. int (length payload) \<le> other) buckets = first # rest"
    using assms(2,3) by (cases "filter (\<lambda>other. int (length payload) \<le> other) buckets") (auto simp: filter_empty_conv)
  then have "first \<in> set (filter (\<lambda>other. int (length payload) \<le> other) buckets)" by simp
  then have fin: "first \<in> set buckets" "int (length payload) \<le> first" by auto
  have "sorted (first # rest)" using sorted_filter [of id buckets "\<lambda>other. int (length payload) \<le> other"] s f by simp
  moreover have "bucket \<in> set (first # rest)" using assms(2,3) by (auto simp flip: f)
  ultimately have "first \<le> bucket" by auto
  with assms(4) fin have "first = bucket" by force
  with PadPayload_first [OF s, of rnd payload] f fin show ?thesis by simp
qed

lemma padding_unchanged:
  "\<forall>bucket \<in> set buckets. bucket < int (length payload) \<Longrightarrow> PadPayload rnd payload buckets = payload"
  by (induction buckets) auto

subsection \<open>Witnesses\<close>

theorem batched_frames_in_order_witness:
  "sent_frames (snd (batch_run (NewPeerBatcher 1 DefaultTARConfig)
     [EnqueueFrame ''a'', EnqueueFrame ''b'', StopLoop, EnqueueFrame ''c'', ContextDone])) = [''a'']"
proof -
  let ?evs = "[EnqueueFrame ''a'', EnqueueFrame ''b'', StopLoop, EnqueueFrame ''c'', ContextDone]"
  obtain b outs where r: "batch_run (NewPeerBatcher 1 DefaultTARConfig) ?evs = (b, outs)" by fastforce
  have "loopDone (fst (batch_run (NewPeerBatcher 1 DefaultTARConfig) ?evs))"
    and a: "accepted_frames (NewPeerBatcher 1 DefaultTARConfig) ?evs = [''a'']"
    by (simp_all add: NewPeerBatcher_def Enqueue_def StopBatcher_def drainQueue_def Let_def)
  with batched_frames_in_order [OF r] show ?thesis unfolding r a by simp
qed

lemma ticker_survives_iff_example:
  "\<exists>r \<in> {0 ..< 500 * millisecond} \<union> {0}.
     crashed (fst (tick r [] (NewPeerBatcher 1 (Validate_tar (DefaultTARConfig\<lparr>BatchInterval := 200 * millisecond\<rparr>)))))"
proof -
  define c where "c = DefaultTARConfig\<lparr>BatchInterval := 200 * millisecond\<rparr>"
  define b where "b = NewPeerBatcher 1 (Validate_tar c)"
  have f: "BatchInterval (Validate_tar c) = 200 * millisecond" "BatchJitter (Validate_tar c) = 250 * millisecond"
    by (simp_all add: Validate_tar_def DefaultTARConfig_def Let_def c_def)
  have b: "batchConfig b = Validate_tar c" "\<not> crashed b" by (simp_all add: b_def NewPeerBatcher_def)
  have "\<exists>r \<in> {0 ..< 500 * millisecond} \<union> {0}. crashed (fst (tick r [] b))"
    using ticker_survives_iff [OF b, of "[]", unfolded f] by simp
  then show ?thesis by (simp only: b_def c_def)
qed

end
