(* ===== verification/Time_Parse.thy ===== *)
theory Time_Parse
  imports Go_Time
begin

text \<open>
  \<open>time.Parse(time.RFC3339Nano, s)\<close> of the standard library, which reads back the times of descriptor records
  and keys, and the proof that it inverts \<open>Format\<close>.  The parser follows the chunks of the layout: an hour may
  have one digit, a fraction may follow a point or a comma and have any number of digits, of which nine
  count, and a zone is \<open>Z\<close> or an offset, which becomes the local zone when that has the same offset then.
\<close>

subsection \<open>The parser\<close>

definition is_digit :: "char \<Rightarrow> bool" where
  "is_digit c \<longleftrightarrow> CHR ''0'' \<le> c \<and> c \<le> CHR ''9''"

definition digit_val :: "char \<Rightarrow> nat" where
  "digit_val c = of_char c - 48"

definition num_of :: "string \<Rightarrow> nat" where
  "num_of ds = foldl (\<lambda>n c. n * 10 + digit_val c) 0 ds"

fun getnum :: "bool \<Rightarrow> string \<Rightarrow> (int \<times> string) option" where
  "getnum fixed (a # b # rest) =
     (if \<not> is_digit a then None
      else if \<not> is_digit b then (if fixed then None else Some (int (digit_val a), b # rest))
      else Some (int (num_of [a, b]), rest))"
| "getnum fixed [a] = (if \<not> is_digit a \<or> fixed then None else Some (int (digit_val a), []))"
| "getnum fixed [] = None"

fun skip_char :: "char \<Rightarrow> string \<Rightarrow> string option" where
  "skip_char c (x # xs) = (if x = c then Some xs else None)"
| "skip_char c [] = None"

definition get_year :: "string \<Rightarrow> (int \<times> string) option" where
  "get_year s = (if length s \<ge> 4 \<and> (\<forall>c \<in> set (take 4 s). is_digit c) then Some (int (num_of (take 4 s)), drop 4 s) else None)"

definition get_nano :: "string \<Rightarrow> int \<times> string" where
  "get_nano s = (case s of
     p # d # rest \<Rightarrow>
       if (p = CHR ''.'' \<or> p = CHR '','') \<and> is_digit d
       then let ds = takeWhile is_digit (d # rest); used = take 9 ds
            in (int (num_of used * 10 ^ (9 - length used)), dropWhile is_digit (d # rest))
       else (0, s)
   | _ \<Rightarrow> (0, s))"

text \<open>The zone ends the text; \<open>None\<close> inside is \<open>Z\<close>.\<close>

definition get_zone :: "string \<Rightarrow> int option option" where
  "get_zone s = (case s of
     [z] \<Rightarrow> if z = CHR ''Z'' then Some None else None
   | [sign, h1, h2, colon, m1, m2] \<Rightarrow>
       if colon \<noteq> CHR '':'' then None
       else (case (getnum True [h1, h2], getnum True [m1, m2]) of
               (Some (hr, _), Some (mm, _)) \<Rightarrow>
                 if hr > 24 \<or> mm > 60 then None
                 else if sign = CHR ''+'' then Some (Some ((hr * 60 + mm) * 60))
                 else if sign = CHR ''-'' then Some (Some (- ((hr * 60 + mm) * 60)))
                 else None
             | _ \<Rightarrow> None)
   | _ \<Rightarrow> None)"

definition is_leap :: "int \<Rightarrow> bool" where
  "is_leap y \<longleftrightarrow> y mod 4 = 0 \<and> (y mod 100 \<noteq> 0 \<or> y mod 400 = 0)"

definition daysIn :: "int \<Rightarrow> int \<Rightarrow> int" where
  "daysIn m y = (if m = 2 then (if is_leap y then 29 else 28) else if m \<in> {4, 6, 9, 11} then 30 else 31)"

definition day_of_civil :: "int \<Rightarrow> int \<Rightarrow> int \<Rightarrow> int" where
  "day_of_civil y m d =
     (let y' = (if m \<le> 2 then y - 1 else y); yoe = y' mod 400; mp = (m + 9) mod 12;
          doy = (153 * mp + 2) div 5 + d - 1
      in (y' div 400) * 146097 + (365 * yoe + yoe div 4 - yoe div 100 + doy) - 719468)"

definition date_seconds :: "int \<Rightarrow> int \<Rightarrow> int \<Rightarrow> int \<Rightarrow> int \<Rightarrow> int \<Rightarrow> int" where
  "date_seconds y m d hr mi sec = day_of_civil y m d * 86400 + hr * 3600 + mi * 60 + sec"

definition at_zone :: "(int \<Rightarrow> int) \<Rightarrow> int \<Rightarrow> int \<Rightarrow> int option \<Rightarrow> gotime" where
  "at_zone lo secs nsec zone = (case zone of
     None \<Rightarrow> \<lparr>instant = secs * second + nsec, loc = UTC\<rparr>
   | Some off \<Rightarrow> let i = (secs - off) * second + nsec in \<lparr>instant = i, loc = (if lo i = off then Local else Fixed off)\<rparr>)"

definition time_Parse :: "(int \<Rightarrow> int) \<Rightarrow> string \<Rightarrow> gotime option" where
  "time_Parse lo s =
     Option.bind (get_year s) (\<lambda>(y, s).
     Option.bind (Option.bind (skip_char (CHR ''-'') s) (getnum True)) (\<lambda>(m, s).
     if m \<le> 0 \<or> 12 < m then None else
     Option.bind (Option.bind (skip_char (CHR ''-'') s) (getnum True)) (\<lambda>(d, s).
     Option.bind (Option.bind (skip_char (CHR ''T'') s) (getnum False)) (\<lambda>(hr, s).
     if 24 \<le> hr then None else
     Option.bind (Option.bind (skip_char (CHR '':'') s) (getnum True)) (\<lambda>(mi, s).
     if 60 \<le> mi then None else
     Option.bind (Option.bind (skip_char (CHR '':'') s) (getnum True)) (\<lambda>(sec, s).
     if 60 \<le> sec then None else
     (case get_nano s of (nsec, s) \<Rightarrow>
     Option.bind (get_zone s) (\<lambda>zone.
     if d < 1 \<or> d > daysIn m y then None
     else Some (at_zone lo (date_seconds y m d hr mi sec) nsec zone)))))))))"

subsection \<open>Digits\<close>

lemma of_nat_digit: "n < 10 \<Longrightarrow> is_digit (''0123456789'' ! n) \<and> digit_val (''0123456789'' ! n) = n"
proof -
  assume "n < 10"
  then have "n \<in> {0, 1, 2, 3, 4, 5, 6, 7, 8, 9}" by auto
  then show ?thesis by (elim insertE; simp add: is_digit_def digit_val_def)
qed

lemma num_of_append: "num_of (xs @ [c]) = num_of xs * 10 + digit_val c"
  by (simp add: num_of_def)

lemma dec_digits_parse: "num_of (dec_digits n) = n \<and> (\<forall>c \<in> set (dec_digits n). is_digit c)"
proof (induction n rule: dec_digits.induct)
  case (1 n)
  show ?case
  proof (cases "n < 10")
    case True
    then show ?thesis using of_nat_digit [of n] by (simp add: dec_digits.simps [of n] num_of_def)
  next
    case False
    with 1 of_nat_digit [of "n mod 10"] show ?thesis by (simp add: dec_digits.simps [of n] num_of_append)
  qed
qed

lemma dec_digits_length: "0 < w \<Longrightarrow> n < 10 ^ w \<Longrightarrow> length (dec_digits n) \<le> w"
proof (induction w arbitrary: n)
  case (Suc w)
  show ?case
  proof (cases "n < 10")
    case True
    then show ?thesis by (simp add: dec_digits.simps [of n])
  next
    case False
    then have "0 < w" using Suc.prems by (cases w) auto
    moreover have "n div 10 < 10 ^ w" using Suc.prems by (simp add: div_less_iff_less_mult)
    ultimately show ?thesis using False Suc.IH [of "n div 10"] by (simp add: dec_digits.simps [of n])
  qed
qed simp

lemma num_of_zeros: "num_of (replicate k (CHR ''0'') @ ds) = num_of ds"
proof -
  have "foldl (\<lambda>n c. n * 10 + digit_val c) 0 (replicate k (CHR ''0'')) = 0" by (induction k) (simp_all add: digit_val_def)
  then show ?thesis by (simp add: num_of_def)
qed

lemma dec_pad_parse:
  assumes "0 < w" and "n < 10 ^ w"
  shows "num_of (dec_pad w n) = n" and "\<forall>c \<in> set (dec_pad w n). is_digit c" and "length (dec_pad w n) = w"
  using dec_digits_parse [of n] dec_digits_length [OF assms]
  by (auto simp: dec_pad_def num_of_zeros is_digit_def)

lemma getnum_two:
  assumes "0 \<le> n" and "n < 100"
  shows "getnum fixed (append_int n 2 @ rest) = Some (n, rest)"
proof -
  have p: "num_of (dec_pad 2 (nat n)) = nat n" "\<forall>c \<in> set (dec_pad 2 (nat n)). is_digit c" "length (dec_pad 2 (nat n)) = 2"
    using assms dec_pad_parse [of 2 "nat n"] by auto
  then obtain a b where "dec_pad 2 (nat n) = [a, b]" by (auto simp: numeral_2_eq_2 length_Suc_conv)
  with p assms show ?thesis by (simp add: append_int_def)
qed

lemma get_year_four:
  assumes "0 \<le> y" and "y < 10000"
  shows "get_year (append_int y 4 @ rest) = Some (y, rest)"
  using assms dec_pad_parse [of 4 "nat y"] by (simp add: get_year_def append_int_def)

subsection \<open>Fractions and zones\<close>

lemma num_of_trailing: "num_of (ds @ replicate k (CHR ''0'')) = num_of ds * 10 ^ k"
proof (induction k)
  case (Suc k)
  have "ds @ replicate (Suc k) (CHR ''0'') = (ds @ replicate k (CHR ''0'')) @ [CHR ''0'']" by (simp add: replicate_append_same)
  then have "num_of (ds @ replicate (Suc k) (CHR ''0'')) = num_of (ds @ replicate k (CHR ''0'')) * 10 + digit_val (CHR ''0'')"
    by (simp only: num_of_append)
  with Suc show ?case by (simp add: digit_val_def)
qed simp

lemma strip_zeros: "\<exists>k. ds = rev (dropWhile (\<lambda>c. c = CHR ''0'') (rev ds)) @ replicate k (CHR ''0'')"
proof -
  have "rev ds = takeWhile (\<lambda>c. c = CHR ''0'') (rev ds) @ dropWhile (\<lambda>c. c = CHR ''0'') (rev ds)" by simp
  then have "ds = rev (dropWhile (\<lambda>c. c = CHR ''0'') (rev ds)) @ rev (takeWhile (\<lambda>c. c = CHR ''0'') (rev ds))"
    by (metis rev_append rev_rev_ident)
  moreover have "rev (takeWhile (\<lambda>c. c = CHR ''0'') (rev ds)) = replicate (length (takeWhile (\<lambda>c. c = CHR ''0'') (rev ds))) (CHR ''0'')"
    by (rule replicate_eqI) (auto dest: set_takeWhileD)
  ultimately show ?thesis by metis
qed

definition zone_start :: "string \<Rightarrow> bool" where
  "zone_start s \<longleftrightarrow> s \<noteq> [] \<and> hd s \<in> {CHR ''Z'', CHR ''+'', CHR ''-''}"

lemma get_nano_append:
  assumes "n < 10 ^ 9" and "zone_start rest"
  shows "get_nano (append_nano n @ rest) = (int n, rest)"
proof -
  define ds where "ds = rev (dropWhile (\<lambda>c. c = CHR ''0'') (rev (dec_pad 9 n)))"
  obtain k where k: "dec_pad 9 n = ds @ replicate k (CHR ''0'')" using strip_zeros unfolding ds_def by blast
  note p = dec_pad_parse [of 9 n, OF _ assms(1), simplified]
  have n: "n = num_of ds * 10 ^ k" using p(1) num_of_trailing [of ds k] by (simp add: k)
  have len: "length ds + k = 9" and dig: "\<forall>c \<in> set ds. is_digit c" using p(2,3) by (auto simp: k)
  obtain z zs where z: "rest = z # zs" "z \<in> {CHR ''Z'', CHR ''+'', CHR ''-''}" using assms(2) by (cases rest) (auto simp: zone_start_def)
  have zd: "\<not> is_digit z" "z \<noteq> CHR ''.''" "z \<noteq> CHR '',''" using z(2) by (auto simp: is_digit_def)
  show ?thesis
  proof (cases ds)
    case Nil
    with n have "n = 0" by (simp add: num_of_def)
    moreover have "append_nano n = []" using Nil by (simp add: append_nano_def flip: ds_def)
    ultimately show ?thesis using zd z(1) by (simp add: get_nano_def split: list.splits)
  next
    case (Cons d ds')
    have tw: "takeWhile is_digit (ds @ rest) = ds" "dropWhile is_digit (ds @ rest) = rest"
      using dig zd(1) by (simp_all add: z(1) takeWhile_append2 dropWhile_append2)
    have a: "append_nano n = CHR ''.'' # ds" using Cons by (simp add: append_nano_def flip: ds_def)
    have "take 9 ds = ds" "9 - length ds = k" using len by simp_all
    with a tw Cons dig n show ?thesis by (simp add: get_nano_def Let_def)
  qed
qed

definition zone_ok :: "int \<Rightarrow> bool" where
  "zone_ok off \<longleftrightarrow> off mod 60 = 0 \<and> \<bar>off\<bar> < 25 * 3600"

lemma get_zone_append:
  assumes "zone_ok off"
  shows "get_zone (append_zone off) = Some (if off = 0 then None else Some off)" and "zone_start (append_zone off)"
proof -
  show "zone_start (append_zone off)" by (auto simp: append_zone_def zone_start_def Let_def)
  show "get_zone (append_zone off) = Some (if off = 0 then None else Some off)"
  proof (cases "off = 0")
    case True
    then show ?thesis by (simp add: append_zone_def get_zone_def)
  next
    case False
    define z where "z = \<bar>off\<bar> div 60"
    define hr where "hr = z div 60"
    define mi where "mi = z mod 60"
    have m: "\<bar>off\<bar> = z * 60" 
    proof -
      have "60 dvd \<bar>off\<bar>" using assms unfolding zone_ok_def dvd_abs_iff by (simp add: dvd_eq_mod_eq_0)
      then show ?thesis unfolding z_def by simp
    qed
    have r: "0 \<le> hr" "hr \<le> 24" "0 \<le> mi" "mi < 60" using assms by (auto simp: zone_ok_def hr_def mi_def z_def)
    have zz: "z = hr * 60 + mi" by (simp add: hr_def mi_def)
    have two: "\<exists>a b. append_int x 2 = [a, b]" if "0 \<le> x" "x < 100" for x
    proof -
      have "length (append_int x 2) = 2" using that dec_pad_parse(3) [of 2 "nat x"] by (simp add: append_int_def)
      then show ?thesis by (auto simp: numeral_2_eq_2 length_Suc_conv)
    qed
    obtain h1 h2 where h: "append_int hr 2 = [h1, h2]" using two [of hr] r by auto
    obtain m1 m2 where mm: "append_int mi 2 = [m1, m2]" using two [of mi] r by auto
    have hn: "getnum True [h1, h2] = Some (hr, [])" using getnum_two [of hr True "[]"] r h by simp
    have mn: "getnum True [m1, m2] = Some (mi, [])" using getnum_two [of mi True "[]"] r mm by simp
    have pos: "z > 0" using False m by linarith
    then have abs: "\<bar>sgn off * z\<bar> = z" and sg: "sgn off * z < 0 \<longleftrightarrow> off < 0"
      using False by (cases "off < 0"; simp add: sgn_if)+
    have "append_zone off = (if off < 0 then CHR ''-'' else CHR ''+'') # h1 # h2 # CHR '':'' # [m1, m2]"
      using False by (simp add: append_zone_def z_def [symmetric] Let_def abs hr_def [symmetric] mi_def [symmetric] h mm sg)
    moreover have "(hr * 60 + mi) * 60 = \<bar>off\<bar>" using m zz by simp
    ultimately show ?thesis using hn mn r False by (auto simp: get_zone_def)
  qed
qed

subsection \<open>The calendar\<close>

text \<open>Within an era of 400 years that start in March: the year of a day, and the first and last day of a year.\<close>

definition year_of_day :: "int \<Rightarrow> int" where
  "year_of_day doe = (doe - doe div 1460 + doe div 36524 - doe div 146096) div 365"

definition year_start :: "int \<Rightarrow> int" where
  "year_start y = 365 * y + y div 4 - y div 100"

definition year_end :: "int \<Rightarrow> int" where
  "year_end y = year_start y + (if is_leap (y + 1) then 365 else 364)"

lemma year_table:
  "list_all (\<lambda>y. year_of_day (year_start y) = y \<and> year_of_day (year_end y) = y \<and> (y = 399 \<or> year_end y + 1 = year_start (y + 1)))
     [0 .. 399]"
  by code_simp

lemma year_facts:
  assumes "0 \<le> y" and "y < 400"
  shows "year_of_day (year_start y) = y" and "year_of_day (year_end y) = y" and "y \<noteq> 399 \<Longrightarrow> year_end y + 1 = year_start (y + 1)"
  using year_table assms by (auto simp: list_all_iff)

lemma year_of_day_mono:
  assumes "a \<le> b" and "0 \<le> a" and "b < 146097"
  shows "year_of_day a \<le> year_of_day b"
proof -
  have "a - a div 1460 \<le> b - b div 1460" using assms by linarith
  moreover have "a div 36524 - a div 146096 \<le> b div 36524 - b div 146096"
  proof (cases "b < 146096")
    case True
    with assms have "a div 146096 = 0" "b div 146096 = 0" by simp_all
    with assms(1) show ?thesis by (simp add: zdiv_mono1)
  next
    case False
    with assms have b: "b = 146096" by simp
    show ?thesis
    proof (cases "a = b")
      case neq: False
      with assms b have "a div 146096 = 0" "a div 36524 < 4" by (simp_all add: div_less_iff_less_mult)
      then show ?thesis by (simp add: b)
    qed simp
  qed
  ultimately show ?thesis unfolding year_of_day_def by (intro zdiv_mono1) auto
qed

lemma year_bounds:
  assumes "0 \<le> doe" and "doe < 146097"
  shows "0 \<le> year_of_day doe" and "year_of_day doe < 400"
    and "year_start (year_of_day doe) \<le> doe" and "doe \<le> year_end (year_of_day doe)"
proof -
  let ?y = "year_of_day doe"
  have "year_of_day 0 = 0" "year_of_day 146096 = 399" by (simp_all add: year_of_day_def)
  with year_of_day_mono [of 0 doe] year_of_day_mono [of doe 146096] assms show y: "0 \<le> ?y" "?y < 400" by auto
  show "year_start ?y \<le> doe"
  proof (rule ccontr)
    assume less: "\<not> year_start ?y \<le> doe"
    have "?y \<noteq> 0" using less assms by (auto simp: year_start_def)
    with y year_facts(3) [of "?y - 1"] have "year_start ?y - 1 = year_end (?y - 1)" by auto
    with y \<open>?y \<noteq> 0\<close> year_facts(2) [of "?y - 1"] have "year_of_day (year_start ?y - 1) = ?y - 1" by auto
    moreover have "year_of_day doe \<le> year_of_day (year_start ?y - 1)"
      using less assms y by (intro year_of_day_mono) (auto simp: year_start_def)
    ultimately show False by simp
  qed
  show "doe \<le> year_end ?y"
  proof (rule ccontr)
    assume more: "\<not> doe \<le> year_end ?y"
    have n: "?y \<noteq> 399"
    proof
      assume "?y = 399"
      moreover have "year_end 399 = 146096" by (simp add: year_end_def year_start_def is_leap_def)
      ultimately show False using more assms by simp
    qed
    with y year_facts(1) [of "?y + 1"] year_facts(3) [of ?y] have "year_of_day (year_end ?y + 1) = ?y + 1" by auto
    moreover have "year_of_day (year_end ?y + 1) \<le> year_of_day doe"
      using more assms y by (intro year_of_day_mono) (auto simp: year_end_def year_start_def)
    ultimately show False by simp
  qed
qed

lemma month_table:
  "list_all (\<lambda>doy. let mp = (5 * doy + 2) div 153; m = (if mp < 10 then mp + 3 else mp - 9); d = doy - (153 * mp + 2) div 5 + 1
     in 0 \<le> mp \<and> mp < 12 \<and> 1 \<le> d \<and> (if m = 2 then d \<le> (if doy = 365 then 29 else 28) else d \<le> daysIn m 0)) [0 .. 365]"
  by code_simp

lemma month_facts:
  assumes "0 \<le> doy" and "doy \<le> 365"
  defines "mp \<equiv> (5 * doy + 2) div 153"
  defines "m \<equiv> if mp < 10 then mp + 3 else mp - 9"
  defines "d \<equiv> doy - (153 * mp + 2) div 5 + 1"
  shows "0 \<le> mp" and "mp < 12" and "1 \<le> d" and "m = 2 \<Longrightarrow> d \<le> (if doy = 365 then 29 else 28)" and "m \<noteq> 2 \<Longrightarrow> d \<le> daysIn m y"
proof -
  have "doy \<in> set [0 .. 365]" using assms(1,2) by simp
  with month_table have t: "0 \<le> mp \<and> mp < 12 \<and> 1 \<le> d \<and> (if m = 2 then d \<le> (if doy = 365 then 29 else 28) else d \<le> daysIn m 0)"
    unfolding list_all_iff Let_def mp_def m_def d_def by blast
  then show "0 \<le> mp" and "mp < 12" and "1 \<le> d" and "m = 2 \<Longrightarrow> d \<le> (if doy = 365 then 29 else 28)" by simp_all
  from t show "m \<noteq> 2 \<Longrightarrow> d \<le> daysIn m y" by (simp add: daysIn_def)
qed

lemma is_leap_period: "is_leap (x + k * 400) = is_leap x"
proof -
  have "(x + k * 400) mod 4 = x mod 4" "(x + k * 400) mod 100 = x mod 100" "(x + k * 400) mod 400 = x mod 400"
    using mod_mult_self1 [of x "k * 100" 4] mod_mult_self1 [of x "k * 4" 100] mod_mult_self1 [of x k 400]
    by (simp_all add: mult.assoc)
  then show ?thesis by (simp only: is_leap_def dvd_eq_mod_eq_0)
qed

lemma civil_date_inverse:
  assumes "civil_date n = (y, m, d)"
  shows "day_of_civil y m d = n" and "1 \<le> m" and "m \<le> 12" and "1 \<le> d" and "d \<le> daysIn m y"
proof -
  define era where "era = (n + 719468) div 146097"
  define doe where "doe = (n + 719468) mod 146097"
  define yoe where "yoe = year_of_day doe"
  define doy where "doy = doe - year_start yoe"
  define mp where "mp = (5 * doy + 2) div 153"
  have doe: "0 \<le> doe" "doe < 146097" by (simp_all add: doe_def)
  note yb = year_bounds [OF doe, folded yoe_def]
  have doy: "0 \<le> doy" "doy \<le> (if is_leap (yoe + 1) then 365 else 364)" using yb by (auto simp: doy_def year_end_def)
  then have doy': "doy \<le> 365" by (auto split: if_splits)
  note mf = month_facts [OF doy(1) doy', folded mp_def]
  have "doe - (365 * yoe + yoe div 4 - yoe div 100) = doy" by (simp add: doy_def year_start_def)
  with assms have c: "(y, m, d) = (if mp < 10 then (yoe + era * 400, mp + 3, doy - (153 * mp + 2) div 5 + 1)
      else (yoe + era * 400 + 1, mp - 9, doy - (153 * mp + 2) div 5 + 1))"
    by (simp add: civil_defs era_def [symmetric] doe_def [symmetric] year_of_day_def [symmetric] yoe_def [symmetric] mp_def [symmetric])
  then have d: "d = doy - (153 * mp + 2) div 5 + 1" and m: "m = (if mp < 10 then mp + 3 else mp - 9)" by (auto split: if_splits)
  from mf(1,2) m show "1 \<le> m" "m \<le> 12" by (auto split: if_splits)
  show "1 \<le> d" using mf(3) d by simp
  show "d \<le> daysIn m y"
  proof (cases "m = 2")
    case True
    with m mf(1,2) have "\<not> mp < 10" by auto
    with c have "y = yoe + 1 + era * 400" by auto
    then have "is_leap y = is_leap (yoe + 1)" by (simp only: is_leap_period)
    with True mf(4) d m doy show ?thesis by (auto simp: daysIn_def split: if_splits)
  next
    case False
    with mf(5) d m show ?thesis by auto
  qed
  have y': "(if m \<le> 2 then y - 1 else y) = yoe + era * 400" using c mf(1,2) by (auto split: if_splits)
  have "(m + 9) mod 12 = mp" using m mf(1,2) by (auto split: if_splits)
  moreover have "(yoe + era * 400) mod 400 = yoe" "(yoe + era * 400) div 400 = era" using yb by simp_all
  ultimately have "day_of_civil y m d = era * 146097 + doe - 719468"
    unfolding day_of_civil_def Let_def y' by (simp add: d doy_def year_start_def)
  then show "day_of_civil y m d = n" by (simp add: era_def doe_def)
qed

subsection \<open>Parsing inverts formatting\<close>

definition shown_year :: "(int \<Rightarrow> int) \<Rightarrow> gotime \<Rightarrow> int" where
  "shown_year lo t = fst (civil_date ((instant t div second + zone_offset lo t) div 86400))"

text \<open>The times that survive: a year of four digits, and an offset of whole minutes.\<close>

definition time_fits :: "(int \<Rightarrow> int) \<Rightarrow> gotime \<Rightarrow> bool" where
  "time_fits lo t \<longleftrightarrow> 0 \<le> shown_year lo t \<and> shown_year lo t < 10000 \<and> zone_ok (zone_offset lo t)"

definition parsed_time :: "(int \<Rightarrow> int) \<Rightarrow> gotime \<Rightarrow> gotime" where
  "parsed_time lo t = t\<lparr>loc := (let off = zone_offset lo t in
     if off = 0 then UTC else if lo (instant t) = off then Local else Fixed off)\<rparr>"

lemma parsed_time_simps [simp]: "instant (parsed_time lo t) = instant t" "zone_offset lo (parsed_time lo t) = zone_offset lo t"
  by (simp_all add: parsed_time_def zone_offset_def Let_def)

lemma parsed_time_idem [simp]: "parsed_time lo (parsed_time lo t) = parsed_time lo t" "rfc3339nano lo (parsed_time lo t) = rfc3339nano lo t"
  "time_fits lo (parsed_time lo t) = time_fits lo t"
  by (simp_all add: rfc3339nano_def time_fits_def shown_year_def) (simp add: parsed_time_def zone_offset_def Let_def)

lemma Parse_Format:
  assumes "time_fits lo t"
  shows "time_Parse lo (rfc3339nano lo t) = Some (parsed_time lo t)"
proof -
  define off where "off = zone_offset lo t"
  define secs where "secs = instant t div second + off"
  define nsec where "nsec = instant t mod second"
  define sod where "sod = secs mod 86400"
  obtain y m d where c: "civil_date (secs div 86400) = (y, m, d)" by (metis prod_cases3)
  note ci = civil_date_inverse [OF c]
  have y: "0 \<le> y" "y < 10000" and z: "zone_ok off"
    using assms c by (auto simp: time_fits_def shown_year_def off_def secs_def)
  have dm: "daysIn m y \<le> 31" by (simp add: daysIn_def)
  have sod: "0 \<le> sod" "sod < 86400" by (simp_all add: sod_def)
  have n: "nat nsec < 10 ^ 9" "int (nat nsec) = nsec" "0 \<le> nsec" by (simp_all add: nsec_def nat_less_iff)
  define hr where "hr = sod div 3600"
  define mi where "mi = sod mod 3600 div 60"
  define sec where "sec = sod mod 60"
  have hms: "0 \<le> hr" "hr < 24" "0 \<le> mi" "mi < 60" "0 \<le> sec" "sec < 60"
    using sod by (simp_all add: hr_def mi_def sec_def div_less_iff_less_mult)
  have ds: "date_seconds y m d hr mi sec = secs"
  proof -
    have "sod mod 3600 mod 60 = sod mod 60" by (simp add: mod_mod_cancel)
    with div_mult_mod_eq [of sod 3600] div_mult_mod_eq [of "sod mod 3600" 60]
    have "hr * 3600 + mi * 60 + sec = sod" unfolding hr_def mi_def sec_def by linarith
    moreover have "day_of_civil y m d * 86400 + sod = secs" by (simp add: ci(1) sod_def)
    ultimately show ?thesis by (simp add: date_seconds_def)
  qed
  have inst: "(secs - off) * second + nsec = instant t" by (simp add: secs_def nsec_def)
  have fin: "at_zone lo secs nsec (if off = 0 then None else Some off) = parsed_time lo t"
  proof (cases "off = 0")
    case True
    with inst show ?thesis by (simp add: at_zone_def parsed_time_def off_def [symmetric])
  next
    case False
    with inst show ?thesis by (simp add: at_zone_def parsed_time_def off_def [symmetric] Let_def)
  qed
  have s: "rfc3339nano lo t = append_int y 4 @ CHR ''-'' # append_int m 2 @ CHR ''-'' # append_int d 2 @ CHR ''T'' # append_int hr 2 @
      CHR '':'' # append_int mi 2 @ CHR '':'' # append_int sec 2 @ append_nano (nat nsec) @ append_zone off"
    by (simp add: rfc3339nano_def format_at_def format_date_def format_clock_def off_def [symmetric] secs_def [symmetric] nsec_def [symmetric]
        c sod_def [symmetric] hr_def mi_def sec_def)
  note nano = get_nano_append [OF n(1) get_zone_append(2) [OF z]] and zone = get_zone_append(1) [OF z]
  have m: "0 \<le> m" "m < 100" "\<not> (m \<le> 0 \<or> 12 < m)" and d: "0 \<le> d" "d < 100" "\<not> (d < 1 \<or> daysIn m y < d)" using ci dm by auto
  show ?thesis
    unfolding s time_Parse_def using hms m d y
    by (simp add: get_year_four getnum_two nano zone ds) (use fin n(3) in \<open>simp split: if_splits\<close>)
qed

end
