(* ===== verification/Relay_Server.thy ===== *)
theory Relay_Server
  imports WS_State Maintenance Rate_Limiter Traffic Time_Parse
begin

text \<open>
  The relay as a process: the health endpoints (\<^verbatim>\<open>internal/api/http.go\<close>) and the parts of \<^verbatim>\<open>cmd/relay/main.go\<close> that
  compute: the arguments of the command line, the inventory at start-up, the lists given as flags and
  the gate in front of inbound federation links.
\<close>

subsection \<open>Health endpoints\<close>

record HTTPHandler =
  hasSweeper :: bool
  maxTTLSecs :: int
  wsActive :: int
  storeInit :: bool

definition NewHTTPHandler :: "bool \<Rightarrow> int \<Rightarrow> HTTPHandler" where
  "NewHTTPHandler sweeper secs = \<lparr>hasSweeper = sweeper, maxTTLSecs = secs, wsActive = 0, storeInit = False\<rparr>"

definition SetStoreInitialized :: "HTTPHandler \<Rightarrow> HTTPHandler" where
  "SetStoreInitialized h = h\<lparr>storeInit := True\<rparr>"

text \<open>\<open>wsActive\<close> is an \<open>atomic.Int32\<close>, whose \<open>Add\<close> wraps.\<close>

definition s32 :: "int \<Rightarrow> int" where
  "s32 x = (x + 2 ^ 31) mod 2 ^ 32 - 2 ^ 31"

definition IncrementWSActive :: "HTTPHandler \<Rightarrow> HTTPHandler" where
  "IncrementWSActive h = h\<lparr>wsActive := s32 (wsActive h + 1)\<rparr>"

definition DecrementWSActive :: "HTTPHandler \<Rightarrow> HTTPHandler" where
  "DecrementWSActive h = h\<lparr>wsActive := s32 (wsActive h - 1)\<rparr>"

definition WSActiveCount :: "HTTPHandler \<Rightarrow> int" where
  "WSActiveCount h = wsActive h"

text \<open>A reply with its status and text (without the newline that \<^verbatim>\<open>http.Error\<close> adds), or the page of the metrics library.\<close>

datatype reply = Reply nat string | MetricsPage

definition handleHealthz :: "'d Store \<Rightarrow> 'd \<Rightarrow> reply" where
  "handleHealthz st d = (case sGetLastSweepTime st d of Inl _ \<Rightarrow> Reply 503 ''store unhealthy'' | Inr _ \<Rightarrow> Reply 200 ''ok'')"

text \<open>The sweeper reads the last sweep from the store it was made with, the one of the handler.\<close>

definition sweep_threshold :: "HTTPHandler \<Rightarrow> int" where
  "sweep_threshold h = s64 (s64 (maxTTLSecs h * 2) * second)"

definition handleReadyz :: "'d Store \<Rightarrow> gotime \<Rightarrow> 'd \<Rightarrow> HTTPHandler \<Rightarrow> reply" where
  "handleReadyz st now d h =
     (if \<not> storeInit h then Reply 503 ''store not initialized''
      else case sGetLastSweepTime st d of
        Inl _ \<Rightarrow> Reply 503 ''store unhealthy''
      | Inr _ \<Rightarrow>
          if hasSweeper h
          then case sGetLastSweepTime st d of
                 Inr lastSweep \<Rightarrow> if \<not> IsZero lastSweep \<and> Sub now lastSweep > sweep_threshold h then Reply 503 ''sweeper stalled''
                                  else Reply 200 ''ready''
               | Inl _ \<Rightarrow> Reply 200 ''ready''
          else Reply 200 ''ready'')"

definition ServeHTTP :: "'d Store \<Rightarrow> gotime \<Rightarrow> 'd \<Rightarrow> HTTPHandler \<Rightarrow> string \<Rightarrow> reply" where
  "ServeHTTP st now d h path =
     (if path = ''/healthz'' then handleHealthz st d
      else if path = ''/readyz'' then handleReadyz st now d h
      else if path = ''/metrics'' then MetricsPage
      else Reply 404 ''404 page not found'')"

subsection \<open>Command line\<close>

definition looks_like_flag :: "string \<Rightarrow> bool" where
  "looks_like_flag arg \<longleftrightarrow> has_prefix arg ''-'' \<and> CHR ''='' \<notin> set arg"

definition is_bool_text :: "string \<Rightarrow> bool" where
  "is_bool_text s \<longleftrightarrow> s = ''true'' \<or> s = ''false''"

fun normalize_rest :: "string set \<Rightarrow> string list \<Rightarrow> string list" where
  "normalize_rest boolFlags [] = []"
| "normalize_rest boolFlags [arg] = [arg]"
| "normalize_rest boolFlags (arg # nxt # rest) =
     (if arg = ''--'' then arg # nxt # rest
      else if looks_like_flag arg \<and> dropWhile (\<lambda>c. c = CHR ''-'') arg \<in> boolFlags \<and> is_bool_text (to_lower nxt)
      then (arg @ ''='' @ to_lower nxt) # normalize_rest boolFlags rest
      else arg # normalize_rest boolFlags (nxt # rest))"

definition normalizeBoolFlagArgs :: "string set \<Rightarrow> string list \<Rightarrow> string list" where
  "normalizeBoolFlagArgs boolFlags args = (case args of [] \<Rightarrow> [] | prog # rest \<Rightarrow> prog # normalize_rest boolFlags rest)"

text \<open>\<^verbatim>\<open>Sscanf\<close> with \<open>%d\<close>: a sign, then digits, and the rest of the text is ignored.\<close>

definition Sscanf_d :: "string \<Rightarrow> int option" where
  "Sscanf_d s =
     (let neg = has_prefix s ''-'';
          body = (if neg \<or> has_prefix s ''+'' then tl s else s);
          digits = takeWhile is_digit body;
          v = (if neg then - int (num_of digits) else int (num_of digits))
      in if digits = [] \<or> \<not> fits64 v then None else Some v)"

definition parse_pad_buckets :: "string \<Rightarrow> int list" where
  "parse_pad_buckets flag =
     (let padBuckets = (if flag = [] then []
        else concat (map (\<lambda>b. case Sscanf_d (TrimSpace b) of Some bucket \<Rightarrow> if bucket > 0 then [bucket] else [] | None \<Rightarrow> [])
               (split_byte (CHR '','') flag)))
      in if length padBuckets = 0 then [1024, 4096, 16384, 65536] else padBuckets)"

definition parse_peer_urls :: "string \<Rightarrow> string list" where
  "parse_peer_urls flag = (if flag = [] then [] else filter (\<lambda>peerURL. peerURL \<noteq> []) (map TrimSpace (split_byte (CHR '','') flag)))"

subsection \<open>Inventory at start-up\<close>

fun inventory_loop :: "'d Store \<Rightarrow> 'd \<Rightarrow> string list \<Rightarrow> string set \<Rightarrow> string set \<times> serr option" where
  "inventory_loop st d [] seen = (seen, None)"
| "inventory_loop st d (recipientID # rest) seen = (case sGetAllQueuedMessageIDs st d recipientID of
     Inl err \<Rightarrow> (seen, Some err)
   | Inr msgIDs \<Rightarrow> inventory_loop st d rest (seen \<union> set (filter (\<lambda>msgID. msgID \<noteq> []) msgIDs)))"

definition startupQueueInventory :: "'d Store \<Rightarrow> 'd \<Rightarrow> nat \<times> nat \<times> serr option" where
  "startupQueueInventory st d = (case sGetAllRecipientIDs st d of
     Inl err \<Rightarrow> (0, 0, Some err)
   | Inr recipients \<Rightarrow> (case inventory_loop st d recipients {} of (seen, err) \<Rightarrow> (length recipients, card seen, err)))"

subsection \<open>The gate of the federation endpoint\<close>

text \<open>
  \<^verbatim>\<open>federationSem\<close> with its capacity, the limits, the rate limiter.  An admitted request stays in
  \<^verbatim>\<open>HandleInboundPeer\<close> until it leaves the semaphore.
\<close>

record fed_gate =
  semCap :: nat
  semUsed :: nat
  maxFederationPeers :: int
  gateLimiter :: RateLimiter

datatype gate_reply = Refused nat string | Admitted

definition federation_ws :: "gotime \<Rightarrow> nat \<Rightarrow> string \<Rightarrow> fed_gate \<Rightarrow> fed_gate \<times> gate_reply" where
  "federation_ws now peerCount remoteAddr g =
     (if int peerCount \<ge> maxFederationPeers g then (g, Refused 503 ''Maximum federation peers reached'')
      else case Allow now remoteAddr (gateLimiter g) of
        (rl, False) \<Rightarrow> (g\<lparr>gateLimiter := rl\<rparr>, Refused 429 ''Rate limit exceeded'')
      | (rl, True) \<Rightarrow>
          if semUsed g < semCap g then (g\<lparr>gateLimiter := rl, semUsed := Suc (semUsed g)\<rparr>, Admitted)
          else (g\<lparr>gateLimiter := rl\<rparr>, Refused 503 ''Too many concurrent federation connections''))"

definition gate_leave :: "fed_gate \<Rightarrow> fed_gate" where
  "gate_leave g = g\<lparr>semUsed := semUsed g - 1\<rparr>"

subsection \<open>Facts\<close>

text \<open>The relay is ready exactly when the store was reported initialised, can be read, and was swept in time or never.\<close>

lemma readyz_iff:
  "handleReadyz st now d h = Reply 200 ''ready'' \<longleftrightarrow>
     storeInit h \<and> (\<exists>lastSweep. sGetLastSweepTime st d = Inr lastSweep \<and>
       (hasSweeper h \<longrightarrow> IsZero lastSweep \<or> Sub now lastSweep \<le> sweep_threshold h))"
  by (auto simp: handleReadyz_def split: sum.splits)

text \<open>\<^verbatim>\<open>main\<close> makes the handler and never calls \<open>SetStoreInitialized\<close>: the relay does not become ready.\<close>

lemma new_handler_not_ready: "handleReadyz st now d (NewHTTPHandler sweeper secs) = Reply 503 ''store not initialized''"
  by (simp add: handleReadyz_def NewHTTPHandler_def)

text \<open>A sweep of the message store keeps an initialised relay ready until the threshold has passed.\<close>

context pruning_store
begin

lemma swept_relay_ready:
  assumes "sGetExpiredMessages st d now = Inr expired" and "storeInit h" and "Sub later (stored_time now) \<le> sweep_threshold h"
  shows "\<exists>d'. sweep_messages st now d = Some (d', length expired) \<and> handleReadyz st later d' h = Reply 200 ''ready''"
  using sweep_messages_effect [OF assms(1)] assms(2,3) by (auto simp: readyz_iff)

end

text \<open>Arguments in which no boolean flag before \<open>--\<close> has its value as an argument of its own.\<close>

definition mergeable :: "string set \<Rightarrow> string \<Rightarrow> string \<Rightarrow> bool" where
  "mergeable boolFlags arg nxt \<longleftrightarrow>
     looks_like_flag arg \<and> dropWhile (\<lambda>c. c = CHR ''-'') arg \<in> boolFlags \<and> is_bool_text (to_lower nxt)"

fun settled :: "string set \<Rightarrow> string list \<Rightarrow> bool" where
  "settled boolFlags (arg # nxt # rest) \<longleftrightarrow> arg = ''--'' \<or> \<not> mergeable boolFlags arg nxt \<and> settled boolFlags (nxt # rest)"
| "settled boolFlags args = True"

lemma merged_not_flag: "\<not> mergeable boolFlags (arg @ ''='' @ v) nxt"
  by (simp add: mergeable_def looks_like_flag_def)

lemma merged_not_value: "\<not> mergeable boolFlags arg (nxt @ ''='' @ v)"
proof -
  have "CHR ''='' \<in> set (to_lower (nxt @ ''='' @ v))" by (simp add: to_lower_def to_lower_char_def)
  then show ?thesis by (auto simp: mergeable_def is_bool_text_def)
qed

lemma normalize_rest_head:
  "\<exists>h tail. normalize_rest boolFlags (nxt # rest) = h # tail \<and> (h = nxt \<or> (\<exists>v. h = nxt @ ''='' @ v))"
  by (cases rest) auto

lemma settled_Cons: "settled boolFlags args \<Longrightarrow> (\<And>nxt. args \<noteq> [] \<Longrightarrow> \<not> mergeable boolFlags arg (hd args)) \<Longrightarrow> settled boolFlags (arg # args)"
  by (cases args) auto

lemma normalize_rest_step:
  assumes "arg \<noteq> ''--''"
  shows "normalize_rest boolFlags (arg # nxt # rest) =
    (if mergeable boolFlags arg nxt then (arg @ ''='' @ to_lower nxt) # normalize_rest boolFlags rest
     else arg # normalize_rest boolFlags (nxt # rest))"
  using assms by (simp add: mergeable_def)

lemma normalize_settles: "settled boolFlags (normalize_rest boolFlags args)"
proof (induction boolFlags args rule: normalize_rest.induct)
  case (3 boolFlags arg nxt rest)
  show ?case
  proof (cases "arg = ''--''")
    case False
    note step = normalize_rest_step [OF False, of boolFlags nxt rest]
    show ?thesis
    proof (cases "mergeable boolFlags arg nxt")
      case True
      with False have "settled boolFlags (normalize_rest boolFlags rest)" using "3.IH"(1) by (simp add: mergeable_def)
      then show ?thesis unfolding step if_P [OF True] by (rule settled_Cons) (rule merged_not_flag)
    next
      case no: False
      then have rec: "settled boolFlags (normalize_rest boolFlags (nxt # rest))" using False "3.IH"(2) by (simp add: mergeable_def)
      obtain h tail where h: "normalize_rest boolFlags (nxt # rest) = h # tail" "h = nxt \<or> (\<exists>v. h = nxt @ ''='' @ v)"
        using normalize_rest_head by blast
      have "\<not> mergeable boolFlags arg h" using h(2) no merged_not_value by blast
      with rec show ?thesis unfolding step if_not_P [OF no] h(1) by (simp del: normalize_rest.simps)
    qed
  qed simp
qed simp_all

lemma settled_unchanged: "settled boolFlags args \<Longrightarrow> normalize_rest boolFlags args = args"
  by (induction boolFlags args rule: normalize_rest.induct) (auto simp: mergeable_def)

text \<open>
  Normalising the arguments leaves no boolean flag with a separate value, does it once and for all, and changes nothing
  when there is nothing to do.
\<close>

lemma bool_flags_normalised:
  "settled boolFlags (tl (normalizeBoolFlagArgs boolFlags args)) \<and>
   normalizeBoolFlagArgs boolFlags (normalizeBoolFlagArgs boolFlags args) = normalizeBoolFlagArgs boolFlags args \<and>
   (settled boolFlags (tl args) \<longrightarrow> normalizeBoolFlagArgs boolFlags args = args)"
  by (cases args) (simp_all add: normalizeBoolFlagArgs_def normalize_settles settled_unchanged)

lemma bool_flags_example:
  "normalizeBoolFlagArgs {''dev-mode'', ''log-json''} [''relay'', ''--dev-mode'', ''TRUE'', ''-log-json'', ''--'', ''-log-json'', ''true''] =
     [''relay'', ''--dev-mode=true'', ''-log-json'', ''--'', ''-log-json'', ''true'']"
  by code_simp

text \<open>The inventory counts the recipients and the distinct queued messages when every queue can be listed.\<close>

lemma inventory_loop_counts:
  "\<forall>r \<in> set rs. \<exists>ids. sGetAllQueuedMessageIDs st d r = Inr ids \<Longrightarrow>
     inventory_loop st d rs seen = (seen \<union> {i. i \<noteq> [] \<and> (\<exists>r \<in> set rs. \<exists>ids. sGetAllQueuedMessageIDs st d r = Inr ids \<and> i \<in> set ids)}, None)"
  by (induction rs arbitrary: seen) auto

subsection \<open>Runs of the gate\<close>

text \<open>
  A request is named by a number.  One that was admitted returns from \<^verbatim>\<open>HandleInboundPeer\<close> at some time, and only then is
  its slot released; \<open>Leave\<close> of any other request is nothing that happens.
\<close>

datatype gate_event = Arrive nat gotime nat string | Leave nat | CleanUp gotime

text \<open>
  The gate after a run from the requests \<open>inside\<close>, the requests that are inside then, which is counted by the replies and the
  departures alone, and who was admitted when.
\<close>

fun gate_run :: "fed_gate \<Rightarrow> nat list \<Rightarrow> gate_event list \<Rightarrow> fed_gate \<times> nat list \<times> (string \<times> gotime) list" where
  "gate_run g inside [] = (g, inside, [])"
| "gate_run g inside (Arrive r now peerCount addr # es) = (case federation_ws now peerCount addr g of
     (g', Admitted) \<Rightarrow> (case gate_run g' (r # inside) es of (g'', inside', admitted) \<Rightarrow> (g'', inside', (addr, now) # admitted))
   | (g', Refused _ _) \<Rightarrow> gate_run g' inside es)"
| "gate_run g inside (Leave r # es) =
     (if r \<in> set inside then gate_run (gate_leave g) (remove1 r inside) es else gate_run g inside es)"
| "gate_run g inside (CleanUp now # es) = gate_run (g\<lparr>gateLimiter := Cleanup now (gateLimiter g)\<rparr>) inside es"

fun event_times :: "gate_event \<Rightarrow> int list" where
  "event_times (Arrive r now peerCount addr) = [instant now]"
| "event_times (Leave r) = []"
| "event_times (CleanUp now) = [instant now]"

text \<open>The calls to the rate limiter that a run makes.\<close>

fun gate_ops :: "int \<Rightarrow> gate_event list \<Rightarrow> limiter_op list" where
  "gate_ops mp [] = []"
| "gate_ops mp (Arrive r now peerCount addr # es) = (if int peerCount \<ge> mp then gate_ops mp es else OpAllow now addr # gate_ops mp es)"
| "gate_ops mp (Leave r # es) = gate_ops mp es"
| "gate_ops mp (CleanUp now # es) = OpCleanup now # gate_ops mp es"

lemma gate_ops_times: "op_time ` set (gate_ops mp es) \<subseteq> set (concat (map event_times es))"
  by (induction mp es rule: gate_ops.induct) auto

lemma gate_ops_sorted: "sorted (concat (map event_times es)) \<Longrightarrow> sorted (map op_time (gate_ops mp es))"
proof (induction mp es rule: gate_ops.induct)
  case (2 mp r now n addr es)
  then show ?case using gate_ops_times [of mp es] by fastforce
next
  case (4 mp now es)
  then show ?case using gate_ops_times [of mp es] by fastforce
qed auto

lemma federation_ws_sel [simp]:
  "maxFederationPeers (fst (federation_ws now n addr g)) = maxFederationPeers g" "semCap (fst (federation_ws now n addr g)) = semCap g"
  by (simp_all add: federation_ws_def split: prod.splits bool.splits)

lemma federation_ws_limiter:
  "gateLimiter (fst (federation_ws now n addr g)) = (if int n \<ge> maxFederationPeers g then gateLimiter g else fst (Allow now addr (gateLimiter g)))"
  "snd (federation_ws now n addr g) = Admitted \<Longrightarrow> int n < maxFederationPeers g \<and> snd (Allow now addr (gateLimiter g))"
  by (auto simp: federation_ws_def split: prod.splits bool.splits if_splits)

lemma gate_run_granted:
  "length (filter P (snd (snd (gate_run g inside es)))) \<le> length (filter P (limiter_run (gateLimiter g) (gate_ops (maxFederationPeers g) es)))"
proof (induction g inside es rule: gate_run.induct)
  case (2 g inside r now n addr es)
  obtain g' reply where w: "federation_ws now n addr g = (g', reply)" by fastforce
  note f = federation_ws_sel(1) [of now n addr g] federation_ws_limiter [of now n addr g]
  show ?case
  proof (cases reply)
    case (Refused code why)
    with 2(1) [OF w [symmetric] Refused] f show ?thesis by (auto simp: w case_prod_unfold split: if_splits intro: le_SucI)
  next
    case Admitted
    with 2(2) [OF w [symmetric] Admitted] f show ?thesis by (auto simp: w case_prod_unfold split: if_splits)
  qed
next
  case (3 g inside r es)
  then show ?case by (simp add: gate_leave_def)
qed simp_all

text \<open>The semaphore counts the requests that are inside.\<close>

lemma federation_ws_slots:
  assumes "federation_ws now n addr g = (g', reply)" and "semUsed g \<le> semCap g"
  shows "semUsed g' = (if reply = Admitted then Suc (semUsed g) else semUsed g)" and "semUsed g' \<le> semCap g'" and "semCap g' = semCap g"
  using assms by (auto simp: federation_ws_def split: prod.splits bool.splits if_splits)

lemma gate_run_slots:
  "semUsed g = length inside \<Longrightarrow> semUsed g \<le> semCap g \<Longrightarrow> gate_run g inside es = (g', inside', admitted) \<Longrightarrow>
     semUsed g' = length inside' \<and> length inside' \<le> semCap g"
proof (induction g inside es arbitrary: g' inside' admitted rule: gate_run.induct)
  case (2 g inside r now n addr es)
  obtain g1 reply where w: "federation_ws now n addr g = (g1, reply)" by fastforce
  note slots = federation_ws_slots [OF w 2(4)]
  show ?case
  proof (cases reply)
    case (Refused code why)
    from 2(1) [OF w [symmetric] Refused] 2(3,5) slots show ?thesis by (simp add: w Refused)
  next
    case Admitted
    obtain g2 inside2 adm where rest: "gate_run g1 (r # inside) es = (g2, inside2, adm)" by (cases "gate_run g1 (r # inside) es") auto
    from 2(2) [OF w [symmetric] Admitted _ _ rest] 2(3,5) slots rest show ?thesis by (simp add: w Admitted)
  qed
next
  case (3 g inside r es)
  then show ?case by (auto simp: gate_leave_def length_remove1 split: if_splits)
next
  case (4 g inside now es)
  then show ?case by simp
qed simp

text \<open>An address that has not called before is never limited: the port is part of \<^verbatim>\<open>RemoteAddr\<close>, so every connection is such an address.\<close>

lemma fresh_address_never_limited: "requests rl addr = None \<Longrightarrow> 0 < maxRequests rl \<Longrightarrow> snd (Allow now addr rl)"
  by (simp add: Allow_simps history_def still_valid_def)

text \<open>
  Claim C39. The gate in front of inbound federation links holds: from an empty gate and through any requests, departures and
  clean-ups, with a clock that does not go back, never more than \<open>max-federation-conns\<close> of the requests that were
  answered with an admission are still inside, the semaphore holds exactly one slot for each of them, and of the requests of one
  address no more than the limit are admitted in any window of the limiter's length.
\<close>

theorem federation_gate_holds:
  assumes "semUsed g = 0" and "gateLimiter g = NewRateLimiter mx win" and "0 < win" and "fits64 (- win)" and "0 \<le> mx"
    and "sorted (concat (map event_times es))" and "gate_run g [] es = (g', inside, admitted)"
  shows "length inside \<le> semCap g \<and> semUsed g' = length inside \<and>
    int (length (filter (\<lambda>(q, s). q = addr \<and> t - win < instant s \<and> instant s \<le> t) admitted)) \<le> mx"
  using gate_run_slots [OF _ _ assms(7)] assms(1,7) gate_run_granted [of "\<lambda>(q, s). q = addr \<and> t - win < instant s \<and> instant s \<le> t" g "[]" es]
    rate_limited_in_every_window [OF assms(3-5) gate_ops_sorted [OF assms(6)], of addr t "maxFederationPeers g"] assms(2)
  by force

definition small_gate :: fed_gate where
  "small_gate = \<lparr>semCap = 1, semUsed = 0, maxFederationPeers = 50, gateLimiter = NewRateLimiter 1 60\<rparr>"

definition gate_day :: "gate_event list" where
  "gate_day = [Arrive 1 \<lparr>instant = 1, loc = UTC\<rparr> 0 ''10.0.0.1:999'', Leave 1, Arrive 2 \<lparr>instant = 2, loc = UTC\<rparr> 0 ''10.0.0.1:999'']"

theorem federation_gate_holds_witness:
  "\<exists>g inside admitted. gate_run small_gate [] gate_day = (g, inside, admitted) \<and> length inside \<le> 1 \<and>
     length (filter (\<lambda>(q, s). q = ''10.0.0.1:999'' \<and> 5 - 60 < instant s \<and> instant s \<le> 5) admitted) \<le> 1"
proof -
  obtain g inside admitted where r: "gate_run small_gate [] gate_day = (g, inside, admitted)" by (cases "gate_run small_gate [] gate_day") auto
  have "semUsed small_gate = 0" "gateLimiter small_gate = NewRateLimiter 1 60" "semCap small_gate = 1"
    "sorted (concat (map event_times gate_day))" by (simp_all add: small_gate_def gate_day_def)
  with federation_gate_holds [of small_gate 1 60 gate_day g inside admitted "''10.0.0.1:999''" 5] r show ?thesis
    by (simp add: fits64_def)
qed

end
