(* ===== verification/Descriptor_Store.thy ===== *)
theory Descriptor_Store
  imports Message_Store Time_Parse
begin

text \<open>
  Relay descriptors: the record and its validation (\<^verbatim>\<open>internal/model/relay.go\<close>), their codec and keys
  (\<^verbatim>\<open>internal/store/codec.go\<close>), the descriptor store (\<^verbatim>\<open>internal/store/descriptor_store.go\<close>) and its sweeper
  (\<^verbatim>\<open>internal/store/descriptor_sweeper.go\<close>).  Conventions are those of \<open>Message_Store\<close>; an index that is out of
  range, at which Go panics, is the error \<open>DescPanic\<close>, which no caller swallows.
\<close>

subsection \<open>Descriptors\<close>

record RelayDescriptor =
  DRelayID :: string
  DWSURL :: string
  DRegion :: string
  DTags :: "string list"
  DFirstSeenAt :: gotime
  DLastSeenAt :: gotime
  DExpiresAt :: gotime
  DAdvertisedBy :: string

datatype DescriptorError = ErrDescriptorInvalidRelayID | ErrDescriptorInvalidURL | ErrDescriptorInvalidURLScheme
  | ErrDescriptorInvalidTimestamp | ErrDescriptorRateLimited | ErrDescriptorRegistryFull

abbreviation MAX_DESCRIPTOR_TTL :: int where "MAX_DESCRIPTOR_TTL \<equiv> 604800 * second"
abbreviation MAX_TOTAL_DESCRIPTORS :: nat where "MAX_TOTAL_DESCRIPTORS \<equiv> 10000"

definition clamp_ttl :: "RelayDescriptor \<Rightarrow> RelayDescriptor" where
  "clamp_ttl d = (if Sub (DExpiresAt d) (DLastSeenAt d) > MAX_DESCRIPTOR_TTL then d\<lparr>DExpiresAt := Add (DLastSeenAt d) MAX_DESCRIPTOR_TTL\<rparr> else d)"

text \<open>No letter outside ASCII has a lower case among those of the two schemes.\<close>

definition has_ws_scheme :: "string \<Rightarrow> bool" where
  "has_ws_scheme url \<longleftrightarrow> has_prefix (to_lower url) ''ws://'' \<or> has_prefix (to_lower url) ''wss://''"

definition Validate_descriptor :: "RelayDescriptor \<Rightarrow> DescriptorError + RelayDescriptor" where
  "Validate_descriptor d =
     (if DRelayID d = [] then Inl ErrDescriptorInvalidRelayID
      else if DWSURL d = [] then Inl ErrDescriptorInvalidURL
      else if \<not> has_ws_scheme (DWSURL d) then Inl ErrDescriptorInvalidURLScheme
      else if IsZero (DFirstSeenAt d) then Inl ErrDescriptorInvalidTimestamp
      else if IsZero (DLastSeenAt d) then Inl ErrDescriptorInvalidTimestamp
      else if IsZero (DExpiresAt d) then Inl ErrDescriptorInvalidTimestamp
      else if Before (DLastSeenAt d) (DFirstSeenAt d) then Inl ErrDescriptorInvalidTimestamp
      else if Before (DExpiresAt d) (DLastSeenAt d) then Inl ErrDescriptorInvalidTimestamp
      else Inr (clamp_ttl d))"

definition IsExpired_descriptor :: "gotime \<Rightarrow> RelayDescriptor \<Rightarrow> bool" where
  "IsExpired_descriptor now d = After now (DExpiresAt d)"

definition IsStale :: "gotime \<Rightarrow> int \<Rightarrow> RelayDescriptor \<Rightarrow> bool" where
  "IsStale now staleness d \<longleftrightarrow> Sub now (DLastSeenAt d) > staleness"

definition IsRelayDescriptorFrameType :: "string \<Rightarrow> bool" where
  "IsRelayDescriptorFrameType frameType \<longleftrightarrow> frameType = ''relay_descriptors'' \<or> frameType = ''relay_descriptor_ack''"

subsection \<open>Codec\<close>

datatype desc_err = DescInvalidKey | DescBadTime | DescPanic | DescPutFailed string | DescNotFound | DescModel DescriptorError

fun joinStrings :: "string list \<Rightarrow> string" where
  "joinStrings [] = []"
| "joinStrings [s] = s"
| "joinStrings (s # ss) = s @ '','' @ joinStrings ss"

text \<open>\<open>splitStr\<close> is called with the separator \<open>,\<close> only; it would not end for an empty one.\<close>

function splitStr :: "string \<Rightarrow> string \<Rightarrow> string \<Rightarrow> string list" where
  "splitStr sep part s =
     (if sep = [] \<or> length s < length sep then [part @ s]
      else if take (length sep) s = sep then part # splitStr sep [] (drop (length sep) s)
      else splitStr sep (part @ [hd s]) (tl s))"
  by pat_completeness auto
termination
proof (relation "measure (\<lambda>(sep, part, s). length s)", goal_cases)
  case (2 sep part s)
  then show ?case by (cases sep) auto
next
  case (3 sep part s)
  then show ?case by (cases s) auto
qed simp

declare splitStr.simps [simp del]

definition splitStrings :: "string \<Rightarrow> string list" where
  "splitStrings s = (if s = [] then [] else filter (\<lambda>part. part \<noteq> []) (splitStr '','' [] s))"

definition EncodeDescriptor :: "(int \<Rightarrow> int) \<Rightarrow> RelayDescriptor \<Rightarrow> bytes" where
  "EncodeDescriptor lo d = DRelayID d @ NUL # DWSURL d @ NUL # DRegion d @ NUL # joinStrings (DTags d) @ NUL #
     rfc3339nano lo (DFirstSeenAt d) @ NUL # rfc3339nano lo (DLastSeenAt d) @ NUL # rfc3339nano lo (DExpiresAt d) @ NUL # DAdvertisedBy d"

definition parse_part :: "(int \<Rightarrow> int) \<Rightarrow> string \<Rightarrow> desc_err + gotime" where
  "parse_part lo s = (case time_Parse lo s of None \<Rightarrow> Inl DescBadTime | Some t \<Rightarrow> Inr t)"

definition DecodeDescriptor :: "(int \<Rightarrow> int) \<Rightarrow> bytes \<Rightarrow> desc_err + RelayDescriptor" where
  "DecodeDescriptor lo data =
     (let parts = split_byte NUL data
      in if length parts < 7 then Inl DescInvalidKey
         else bindE (parse_part lo (parts ! 4)) (\<lambda>firstSeen.
              bindE (parse_part lo (parts ! 5)) (\<lambda>lastSeen.
              bindE (parse_part lo (parts ! 6)) (\<lambda>expires.
              if length parts = 7 then Inl DescPanic
              else Inr \<lparr>DRelayID = parts ! 0, DWSURL = parts ! 1, DRegion = parts ! 2, DTags = splitStrings (parts ! 3),
                        DFirstSeenAt = firstSeen, DLastSeenAt = lastSeen, DExpiresAt = expires, DAdvertisedBy = parts ! 7\<rparr>))))"

definition EncodeDescriptorExpiryKey :: "(int \<Rightarrow> int) \<Rightarrow> string \<Rightarrow> gotime \<Rightarrow> bytes" where
  "EncodeDescriptorExpiryKey lo relay expiresAt = rfc3339nano lo expiresAt @ NUL # relay"

definition EncodeDescriptorPeerKey :: "(int \<Rightarrow> int) \<Rightarrow> string \<Rightarrow> gotime \<Rightarrow> bytes" where
  "EncodeDescriptorPeerKey lo peerID timestamp = peerID @ NUL # rfc3339nano lo timestamp"

text \<open>\<open>DecodeQueueKey\<close> of the message queue uses the same parser.\<close>

definition DecodeQueueKey :: "(int \<Rightarrow> int) \<Rightarrow> bytes \<Rightarrow> desc_err + (string \<times> gotime \<times> string)" where
  "DecodeQueueKey lo data = (case split_byte NUL data of
     [to, createdAt, msgID] \<Rightarrow> bindE (parse_part lo createdAt) (\<lambda>t. Inr (to, t, msgID))
   | _ \<Rightarrow> Inl DescInvalidKey)"

subsection \<open>The store\<close>

record 'b desc_db =
  BucketDescriptors :: 'b
  BucketDescriptorExpiryIndex :: 'b
  BucketDescriptorPeerIndex :: 'b

definition new_desc_db :: "'b bolt_api \<Rightarrow> 'b desc_db" where
  "new_desc_db api = \<lparr>BucketDescriptors = bempty api, BucketDescriptorExpiryIndex = bempty api, BucketDescriptorPeerIndex = bempty api\<rparr>"

text \<open>\<open>Stats().KeyN\<close>: the number of keys of a bucket.\<close>

definition CountDescriptors :: "'b bolt_api \<Rightarrow> 'b desc_db \<Rightarrow> nat" where
  "CountDescriptors api db = length (bseek api (BucketDescriptors db) [])"

definition desc_put :: "'b bolt_api \<Rightarrow> 'b \<Rightarrow> bytes \<Rightarrow> bytes \<Rightarrow> string \<Rightarrow> desc_err + 'b" where
  "desc_put api b k v place = (case bput api b k v of None \<Rightarrow> Inl (DescPutFailed place) | Some b' \<Rightarrow> Inr b')"

text \<open>A transaction that fails leaves the database as it was.\<close>

definition desc_update :: "'d \<Rightarrow> desc_err + 'd \<Rightarrow> 'd \<times> (desc_err + unit)" where
  "desc_update db r = (case r of Inl e \<Rightarrow> (db, Inl e) | Inr db' \<Rightarrow> (db', Inr ()))"

definition PutDescriptor ::
  "'b bolt_api \<Rightarrow> (int \<Rightarrow> int) \<Rightarrow> 'b desc_db \<Rightarrow> RelayDescriptor \<Rightarrow> 'b desc_db \<times> (desc_err + unit)" where
  "PutDescriptor api lo db d0 =
     (let d = clamp_ttl d0; isUpdate = (bget api (BucketDescriptors db) (DRelayID d) \<noteq> None)
      in desc_update db
        (bindE (guardE (\<not> (\<not> isUpdate \<and> CountDescriptors api db \<ge> MAX_TOTAL_DESCRIPTORS)) (DescModel ErrDescriptorRegistryFull)) (\<lambda>_.
         bindE (desc_put api (BucketDescriptors db) (DRelayID d) (EncodeDescriptor lo d) ''descriptors'') (\<lambda>descriptors.
         bindE (desc_put api (BucketDescriptorExpiryIndex db) (EncodeDescriptorExpiryKey lo (DRelayID d) (DExpiresAt d)) (DRelayID d) ''expiry'') (\<lambda>expiry.
         bindE (if \<not> isUpdate \<and> DAdvertisedBy d \<noteq> []
                then desc_put api (BucketDescriptorPeerIndex db) (EncodeDescriptorPeerKey lo (DAdvertisedBy d) (DFirstSeenAt d)) (DRelayID d) ''peer''
                else Inr (BucketDescriptorPeerIndex db)) (\<lambda>peer_index.
         Inr \<lparr>BucketDescriptors = descriptors, BucketDescriptorExpiryIndex = expiry, BucketDescriptorPeerIndex = peer_index\<rparr>))))))"

definition GetDescriptor :: "'b bolt_api \<Rightarrow> (int \<Rightarrow> int) \<Rightarrow> 'b desc_db \<Rightarrow> string \<Rightarrow> desc_err + RelayDescriptor" where
  "GetDescriptor api lo db relay = (case bget api (BucketDescriptors db) relay of
     None \<Rightarrow> Inl DescNotFound
   | Some descBytes \<Rightarrow> DecodeDescriptor lo descBytes)"

fun all_scan :: "(int \<Rightarrow> int) \<Rightarrow> gotime \<Rightarrow> (bytes \<times> bytes) list \<Rightarrow> desc_err + RelayDescriptor list" where
  "all_scan lo now [] = Inr []"
| "all_scan lo now ((k, v) # rest) = (case DecodeDescriptor lo v of
     Inl err \<Rightarrow> if err = DescPanic then Inl err else all_scan lo now rest
   | Inr desc \<Rightarrow> if IsExpired_descriptor now desc then all_scan lo now rest
                 else bindE (all_scan lo now rest) (\<lambda>descriptors. Inr (desc # descriptors)))"

definition GetAllDescriptors :: "'b bolt_api \<Rightarrow> (int \<Rightarrow> int) \<Rightarrow> gotime \<Rightarrow> 'b desc_db \<Rightarrow> desc_err + RelayDescriptor list" where
  "GetAllDescriptors api lo now db = all_scan lo now (bseek api (BucketDescriptors db) [])"

definition RemoveDescriptor :: "'b bolt_api \<Rightarrow> (int \<Rightarrow> int) \<Rightarrow> 'b desc_db \<Rightarrow> string \<Rightarrow> 'b desc_db \<times> (desc_err + unit)" where
  "RemoveDescriptor api lo db relay =
     (let indexed = (case bget api (BucketDescriptors db) relay of
            None \<Rightarrow> Inr db
          | Some descBytes \<Rightarrow> (case DecodeDescriptor lo descBytes of
              Inl err \<Rightarrow> if err = DescPanic then Inl err else Inr db
            | Inr desc \<Rightarrow> Inr (db\<lparr>BucketDescriptorExpiryIndex := bdelete api (BucketDescriptorExpiryIndex db)
                                    (EncodeDescriptorExpiryKey lo relay (DExpiresAt desc)),
                                  BucketDescriptorPeerIndex := (if DAdvertisedBy desc \<noteq> []
                                    then bdelete api (BucketDescriptorPeerIndex db)
                                           (EncodeDescriptorPeerKey lo (DAdvertisedBy desc) (DFirstSeenAt desc))
                                    else BucketDescriptorPeerIndex db)\<rparr>)))
      in desc_update db (bindE indexed (\<lambda>db. Inr (db\<lparr>BucketDescriptors := bdelete api (BucketDescriptors db) relay\<rparr>))))"

text \<open>\<open>splitKey\<close>: like splitting at NUL, without a last part that is empty.\<close>

fun split_key_from :: "bytes \<Rightarrow> bytes \<Rightarrow> bytes list" where
  "split_key_from current [] = (if length current > 0 then [current] else [])"
| "split_key_from current (b # bs) = (if b = NUL then current # split_key_from [] bs else split_key_from (current @ [b]) bs)"

definition splitKey :: "bytes \<Rightarrow> bytes list" where
  "splitKey key = split_key_from [] key"

fun lookup_desc :: "(int \<Rightarrow> int) \<Rightarrow> bytes option \<Rightarrow> desc_err + RelayDescriptor option" where
  "lookup_desc lo None = Inr None"
| "lookup_desc lo (Some descBytes) = (case DecodeDescriptor lo descBytes of
     Inl err \<Rightarrow> if err = DescPanic then Inl err else Inr None
   | Inr desc \<Rightarrow> Inr (Some desc))"

fun expired_desc_scan ::
  "(int \<Rightarrow> int) \<Rightarrow> (bytes \<Rightarrow> bytes option) \<Rightarrow> string \<Rightarrow> (bytes \<times> bytes) list \<Rightarrow> desc_err + RelayDescriptor list" where
  "expired_desc_scan lo descriptors beforeStr [] = Inr []"
| "expired_desc_scan lo descriptors beforeStr ((k, v) # rest) =
     (let parts = splitKey k
      in if length parts < 2 then expired_desc_scan lo descriptors beforeStr rest
         else if hd parts > beforeStr then Inr []
         else bindE (lookup_desc lo (descriptors v)) (\<lambda>found.
              bindE (expired_desc_scan lo descriptors beforeStr rest) (\<lambda>others.
              Inr (case found of None \<Rightarrow> others | Some desc \<Rightarrow> desc # others))))"

definition GetExpiredDescriptors :: "'b bolt_api \<Rightarrow> (int \<Rightarrow> int) \<Rightarrow> 'b desc_db \<Rightarrow> gotime \<Rightarrow> desc_err + RelayDescriptor list" where
  "GetExpiredDescriptors api lo db before =
     expired_desc_scan lo (bget api (BucketDescriptors db)) (rfc3339nano lo before) (bseek api (BucketDescriptorExpiryIndex db) [])"

fun peer_desc_scan ::
  "(int \<Rightarrow> int) \<Rightarrow> (bytes \<Rightarrow> bytes option) \<Rightarrow> bytes \<Rightarrow> (bytes \<times> bytes) list \<Rightarrow> desc_err + RelayDescriptor list" where
  "peer_desc_scan lo descriptors prefix [] = Inr []"
| "peer_desc_scan lo descriptors prefix ((k, v) # rest) =
     (if \<not> has_prefix k prefix then Inr []
      else bindE (lookup_desc lo (descriptors v)) (\<lambda>found.
           bindE (peer_desc_scan lo descriptors prefix rest) (\<lambda>others.
           Inr (case found of None \<Rightarrow> others | Some desc \<Rightarrow> desc # others))))"

definition GetDescriptorsForPeer :: "'b bolt_api \<Rightarrow> (int \<Rightarrow> int) \<Rightarrow> 'b desc_db \<Rightarrow> string \<Rightarrow> desc_err + RelayDescriptor list" where
  "GetDescriptorsForPeer api lo db peerID =
     (let prefix = peerID @ [NUL]
      in peer_desc_scan lo (bget api (BucketDescriptors db)) prefix (bseek api (BucketDescriptorPeerIndex db) prefix))"

fun peer_count_scan :: "(int \<Rightarrow> int) \<Rightarrow> gotime \<Rightarrow> bytes \<Rightarrow> (bytes \<times> bytes) list \<Rightarrow> nat" where
  "peer_count_scan lo oneHourAgo prefix [] = 0"
| "peer_count_scan lo oneHourAgo prefix ((k, v) # rest) =
     (if \<not> has_prefix k prefix then 0
      else let parts = splitKey k
      in if length parts < 2 then peer_count_scan lo oneHourAgo prefix rest
         else case time_Parse lo (parts ! 1) of
                None \<Rightarrow> peer_count_scan lo oneHourAgo prefix rest
              | Some t \<Rightarrow> (if After t oneHourAgo then 1 else 0) + peer_count_scan lo oneHourAgo prefix rest)"

definition GetPeerDescriptorCount :: "'b bolt_api \<Rightarrow> (int \<Rightarrow> int) \<Rightarrow> gotime \<Rightarrow> 'b desc_db \<Rightarrow> string \<Rightarrow> nat" where
  "GetPeerDescriptorCount api lo now db peerID =
     (let prefix = peerID @ [NUL]
      in peer_count_scan lo (Add now (- (3600 * second))) prefix (bseek api (BucketDescriptorPeerIndex db) prefix))"

subsection \<open>The sweeper\<close>

fun desc_sweep_loop :: "'b bolt_api \<Rightarrow> (int \<Rightarrow> int) \<Rightarrow> 'b desc_db \<Rightarrow> nat \<Rightarrow> RelayDescriptor list \<Rightarrow> 'b desc_db \<times> (desc_err + nat)" where
  "desc_sweep_loop api lo db removed [] = (db, Inr removed)"
| "desc_sweep_loop api lo db removed (desc # rest) = (case RemoveDescriptor api lo db (DRelayID desc) of
     (db', Inl err) \<Rightarrow> if err = DescPanic then (db', Inl err) else desc_sweep_loop api lo db' removed rest
   | (db', Inr _) \<Rightarrow> desc_sweep_loop api lo db' (Suc removed) rest)"

definition sweep_descriptors :: "'b bolt_api \<Rightarrow> (int \<Rightarrow> int) \<Rightarrow> gotime \<Rightarrow> 'b desc_db \<Rightarrow> 'b desc_db \<times> (desc_err + nat)" where
  "sweep_descriptors api lo now db = (case GetExpiredDescriptors api lo db now of
     Inl err \<Rightarrow> if err = DescPanic then (db, Inl err) else (db, Inr 0)
   | Inr expired \<Rightarrow> desc_sweep_loop api lo db 0 expired)"


subsection \<open>The codec\<close>

definition desc_ok :: "(int \<Rightarrow> int) \<Rightarrow> RelayDescriptor \<Rightarrow> bool" where
  "desc_ok lo d \<longleftrightarrow> NUL \<notin> set (DRelayID d) \<and> NUL \<notin> set (DWSURL d) \<and> NUL \<notin> set (DRegion d) \<and> NUL \<notin> set (DAdvertisedBy d) \<and>
     (\<forall>tag \<in> set (DTags d). tag \<noteq> [] \<and> CHR '','' \<notin> set tag \<and> NUL \<notin> set tag) \<and>
     time_fits lo (DFirstSeenAt d) \<and> time_fits lo (DLastSeenAt d) \<and> time_fits lo (DExpiresAt d)"

definition parsed_desc :: "(int \<Rightarrow> int) \<Rightarrow> RelayDescriptor \<Rightarrow> RelayDescriptor" where
  "parsed_desc lo d = d\<lparr>DFirstSeenAt := parsed_time lo (DFirstSeenAt d), DLastSeenAt := parsed_time lo (DLastSeenAt d),
     DExpiresAt := parsed_time lo (DExpiresAt d)\<rparr>"

lemma parsed_desc_sel [simp]:
  "DRelayID (parsed_desc lo d) = DRelayID d" "DAdvertisedBy (parsed_desc lo d) = DAdvertisedBy d"
  "DExpiresAt (parsed_desc lo d) = parsed_time lo (DExpiresAt d)" "DFirstSeenAt (parsed_desc lo d) = parsed_time lo (DFirstSeenAt d)"
  "DLastSeenAt (parsed_desc lo d) = parsed_time lo (DLastSeenAt d)"
  by (simp_all add: parsed_desc_def)

text \<open>With a separator of one byte the splitting loop is the library's \<open>bytes.Split\<close>.\<close>

lemma splitStr_byte: "splitStr [c] part s = (part @ hd (split_byte c s)) # tl (split_byte c s)"
proof (induction s arbitrary: part)
  case Nil
  show ?case by (subst splitStr.simps) simp
next
  case (Cons b s)
  have "split_byte c s \<noteq> []" by simp
  then show ?case
    by (subst splitStr.simps) (auto simp: Cons.IH Suc_le_eq split: list.splits)
qed

lemma split_join:
  "tags \<noteq> [] \<Longrightarrow> \<forall>tag \<in> set tags. CHR '','' \<notin> set tag \<Longrightarrow> split_byte (CHR '','') (joinStrings tags) = tags"
  by (induction tags rule: joinStrings.induct) (auto simp: split_byte_clean split_byte_append)

lemma joinStrings_Nil: "\<forall>tag \<in> set tags. tag \<noteq> [] \<Longrightarrow> joinStrings tags = [] \<longleftrightarrow> tags = []"
  by (cases tags rule: joinStrings.cases) auto

lemma splitStrings_join:
  assumes "\<forall>tag \<in> set tags. tag \<noteq> [] \<and> CHR '','' \<notin> set tag"
  shows "splitStrings (joinStrings tags) = tags"
  using assms joinStrings_Nil [of tags] split_join [of tags]
  by (cases "tags = []") (auto simp: splitStrings_def splitStr_byte filter_id_conv)

lemma joinStrings_clean: "\<forall>tag \<in> set tags. NUL \<notin> set tag \<Longrightarrow> NUL \<notin> set (joinStrings tags)"
  by (induction tags rule: joinStrings.induct) auto

lemma parse_part_text: "time_fits lo t \<Longrightarrow> parse_part lo (rfc3339nano lo t) = Inr (parsed_time lo t)"
  by (simp add: parse_part_def Parse_Format)

text \<open>
  A descriptor survives its codec when its strings hold no NUL byte, its tags are not empty and hold no comma,
  and its three times have a year of four digits and a zone of whole minutes below 25 hours.
\<close>

lemma Decode_Encode: "desc_ok lo d \<Longrightarrow> DecodeDescriptor lo (EncodeDescriptor lo d) = Inr (parsed_desc lo d)"
  by (simp add: desc_ok_def DecodeDescriptor_def EncodeDescriptor_def split_byte_append split_byte_clean
      joinStrings_clean splitStrings_join parse_part_text parsed_desc_def)

text \<open>Every encoding has the eighth part that the decoder reads without checking.\<close>

lemma encoded_parts: "length (split_byte NUL (EncodeDescriptor lo d)) \<ge> 8"
  by (simp add: length_split_byte EncodeDescriptor_def)

lemma Decode_no_panic: "DecodeDescriptor lo (EncodeDescriptor lo d) \<noteq> Inl DescPanic"
  using encoded_parts [of lo d]
  by (auto simp: DecodeDescriptor_def bindE_Inl_iff parse_part_def Let_def split: option.splits)


subsection \<open>Every store that is reached\<close>

datatype desc_op = DPut RelayDescriptor | DRemove string | DSweep gotime

fun desc_step :: "'b bolt_api \<Rightarrow> (int \<Rightarrow> int) \<Rightarrow> 'b desc_db \<Rightarrow> desc_op \<Rightarrow> 'b desc_db" where
  "desc_step api lo db (DPut d) = fst (PutDescriptor api lo db d)"
| "desc_step api lo db (DRemove relay) = fst (RemoveDescriptor api lo db relay)"
| "desc_step api lo db (DSweep now) = fst (sweep_descriptors api lo now db)"

definition desc_run :: "'b bolt_api \<Rightarrow> (int \<Rightarrow> int) \<Rightarrow> desc_op list \<Rightarrow> 'b desc_db" where
  "desc_run api lo ops = foldl (desc_step api lo) (new_desc_db api) ops"

definition desc_inv :: "'b bolt_api \<Rightarrow> (int \<Rightarrow> int) \<Rightarrow> 'b desc_db \<Rightarrow> bool" where
  "desc_inv api lo db \<longleftrightarrow>
     (\<forall>k v. bget api (BucketDescriptors db) k = Some v \<longrightarrow> (\<exists>d. v = EncodeDescriptor lo d \<and> DRelayID d = k)) \<and>
     (\<forall>k v. bget api (BucketDescriptorExpiryIndex db) k = Some v \<longrightarrow> v \<noteq> [] \<and> (\<exists>t. k = EncodeDescriptorExpiryKey lo v t)) \<and>
     CountDescriptors api db \<le> MAX_TOTAL_DESCRIPTORS"

lemma clamp_ttl_sel [simp]:
  "DRelayID (clamp_ttl d) = DRelayID d" "DAdvertisedBy (clamp_ttl d) = DAdvertisedBy d" "DLastSeenAt (clamp_ttl d) = DLastSeenAt d"
  "DFirstSeenAt (clamp_ttl d) = DFirstSeenAt d"
  by (simp_all add: clamp_ttl_def)

lemma desc_put_Inr: "desc_put api b k v place = Inr b' \<longleftrightarrow> bput api b k v = Some b'"
  by (simp add: desc_put_def split: option.splits)

lemma desc_put_Inl: "desc_put api b k v place = Inl e \<Longrightarrow> e = DescPutFailed place"
  by (simp add: desc_put_def split: option.splits)

lemma desc_update_Inr: "desc_update db r = (db', Inr ()) \<longleftrightarrow> r = Inr db'"
  by (cases r) (auto simp: desc_update_def)

lemma desc_update_Inl: "desc_update db r = (db', Inl e) \<longleftrightarrow> r = Inl e \<and> db' = db"
  by (cases r) (auto simp: desc_update_def)

lemma expiry_key_not_Nil [simp]: "EncodeDescriptorExpiryKey lo relay t \<noteq> []"
  by (simp add: EncodeDescriptorExpiryKey_def)

text \<open>The descriptor that the store holds for a relay and can decode.\<close>

definition decoded :: "'b bolt_api \<Rightarrow> (int \<Rightarrow> int) \<Rightarrow> 'b desc_db \<Rightarrow> string \<Rightarrow> RelayDescriptor option" where
  "decoded api lo db relay = (case bget api (BucketDescriptors db) relay of None \<Rightarrow> None
     | Some v \<Rightarrow> (case DecodeDescriptor lo v of Inl _ \<Rightarrow> None | Inr d \<Rightarrow> Some d))"

lemma NUL_least [simp]: "NUL \<le> c"
  by (simp add: less_eq_char_def)

lemma text_before_NUL:
  "t @ NUL # x < t' @ NUL # y \<Longrightarrow> NUL \<notin> set t \<Longrightarrow> NUL \<notin> set t' \<Longrightarrow> t \<le> t'"
proof (induction t arbitrary: t')
  case (Cons c t)
  then show ?case using NUL_least [of c] by (cases t') (auto simp: antisym)
qed simp

lemma expiry_key_le:
  "EncodeDescriptorExpiryKey lo v t < EncodeDescriptorExpiryKey lo v' t' \<Longrightarrow> rfc3339nano lo t \<le> rfc3339nano lo t'"
  unfolding EncodeDescriptorExpiryKey_def by (rule text_before_NUL) auto

lemma split_key_from_clean: "NUL \<notin> set t \<Longrightarrow> split_key_from acc (t @ NUL # x) = (acc @ t) # split_key_from [] x"
  by (induction t arbitrary: acc) auto

lemma split_key_from_some: "x \<noteq> [] \<or> acc \<noteq> [] \<Longrightarrow> split_key_from acc x \<noteq> []"
  by (induction x arbitrary: acc) auto

lemma splitKey_expiry:
  assumes "v \<noteq> []"
  shows "hd (splitKey (EncodeDescriptorExpiryKey lo v t)) = rfc3339nano lo t" "\<not> length (splitKey (EncodeDescriptorExpiryKey lo v t)) < 2"
  using assms split_key_from_some [of v "[]"]
  by (simp_all add: splitKey_def EncodeDescriptorExpiryKey_def split_key_from_clean Suc_le_eq not_less)

definition desc_storable :: "(int \<Rightarrow> int) \<Rightarrow> RelayDescriptor \<Rightarrow> bool" where
  "desc_storable lo d \<longleftrightarrow> key_ok (DRelayID d) \<and> value_ok (EncodeDescriptor lo (clamp_ttl d)) \<and>
     key_ok (EncodeDescriptorExpiryKey lo (DRelayID d) (DExpiresAt (clamp_ttl d))) \<and>
     key_ok (EncodeDescriptorPeerKey lo (DAdvertisedBy d) (DFirstSeenAt d))"

context bolt
begin

lemma CountDescriptors_card: "CountDescriptors api db = card (dom (bget api (BucketDescriptors db)))"
proof -
  have "length (bseek api (BucketDescriptors db) []) = card (fst ` set (bseek api (BucketDescriptors db) []))"
    by (metis distinct_card length_map list.set_map seek_distinct)
  then show ?thesis by (simp add: CountDescriptors_def seek_keys dom_def)
qed

lemma finite_bucket: "finite (dom (bget api b))"
proof -
  have "dom (bget api b) = fst ` set (bseek api b [])" by (auto simp: seek_keys)
  then show ?thesis by simp
qed

lemma PutDescriptor_Inr:
  assumes "PutDescriptor api lo db d = (db', Inr ())"
  shows "bget api (BucketDescriptors db') = (bget api (BucketDescriptors db))(DRelayID d \<mapsto> EncodeDescriptor lo (clamp_ttl d))"
    and "bget api (BucketDescriptorExpiryIndex db') =
           (bget api (BucketDescriptorExpiryIndex db))(EncodeDescriptorExpiryKey lo (DRelayID d) (DExpiresAt (clamp_ttl d)) \<mapsto> DRelayID d)"
    and "bget api (BucketDescriptors db) (DRelayID d) \<noteq> None \<or> CountDescriptors api db < MAX_TOTAL_DESCRIPTORS"
    and "DRelayID d \<noteq> []"
  using assms
  by (auto simp: PutDescriptor_def desc_update_Inr desc_put_Inr Let_def guardE_def key_ok_def dest!: put_Some split: if_splits)

lemma PutDescriptor_succeeds:
  assumes "desc_storable lo d" and "bget api (BucketDescriptors db) (DRelayID d) \<noteq> None \<or> CountDescriptors api db < MAX_TOTAL_DESCRIPTORS"
  shows "\<exists>db'. PutDescriptor api lo db d = (db', Inr ())"
proof -
  have "value_ok (DRelayID d)" using assms(1) by (simp add: desc_storable_def key_ok_def value_ok_def)
  with assms(1) put_ok have put: "\<exists>b'. desc_put api b k v place = Inr b'"
    if "key_ok k" "v = DRelayID d \<or> v = EncodeDescriptor lo (clamp_ttl d)" for b k v place
    using that by (auto simp: desc_put_Inr desc_storable_def)
  obtain b1 where 1: "desc_put api (BucketDescriptors db) (DRelayID d) (EncodeDescriptor lo (clamp_ttl d)) ''descriptors'' = Inr b1"
    using put assms(1) unfolding desc_storable_def by blast
  obtain b2 where 2: "desc_put api (BucketDescriptorExpiryIndex db)
      (EncodeDescriptorExpiryKey lo (DRelayID d) (DExpiresAt (clamp_ttl d))) (DRelayID d) ''expiry'' = Inr b2"
    using put assms(1) unfolding desc_storable_def by blast
  obtain b3 where 3: "desc_put api (BucketDescriptorPeerIndex db)
      (EncodeDescriptorPeerKey lo (DAdvertisedBy d) (DFirstSeenAt d)) (DRelayID d) ''peer'' = Inr b3"
    using put assms(1) unfolding desc_storable_def by blast
  show ?thesis
    using assms(2) by (auto simp: PutDescriptor_def Let_def desc_update_Inr guardE_def 1 2 3)
qed

lemma PutDescriptor_Inl: "PutDescriptor api lo db d = (db', Inl e) \<Longrightarrow> db' = db \<and> e \<noteq> DescPanic"
  by (auto simp: PutDescriptor_def desc_update_Inl bindE_Inl_iff Let_def guardE_def dest: desc_put_Inl split: if_splits)

lemma RemoveDescriptor_db:
  assumes "desc_inv api lo db"
  obtains db' where "RemoveDescriptor api lo db relay = (db', Inr ())"
    and "bget api (BucketDescriptors db') = (bget api (BucketDescriptors db))(relay := None)"
    and "bget api (BucketDescriptorExpiryIndex db') \<subseteq>\<^sub>m bget api (BucketDescriptorExpiryIndex db)"
proof (cases "bget api (BucketDescriptors db) relay")
  case None
  then show ?thesis
    using that [of "db\<lparr>BucketDescriptors := bdelete api (BucketDescriptors db) relay\<rparr>"]
    by (simp add: RemoveDescriptor_def desc_update_def get_delete map_le_def)
next
  case (Some v)
  then have "DecodeDescriptor lo v \<noteq> Inl DescPanic"
    using assms Decode_no_panic unfolding desc_inv_def by metis
  then show ?thesis
    using Some that
    by (cases "DecodeDescriptor lo v") (auto simp: RemoveDescriptor_def desc_update_def get_delete map_le_def split: if_splits)
qed

lemma desc_inv_new: "desc_inv api lo (new_desc_db api)"
  by (simp add: desc_inv_def new_desc_db_def CountDescriptors_card get_empty dom_def)

lemma desc_inv_put:
  assumes "desc_inv api lo db"
  shows "desc_inv api lo (fst (PutDescriptor api lo db d))"
proof (cases "PutDescriptor api lo db d")
  case (Pair db' r)
  show ?thesis
  proof (cases r)
    case Inl
    then show ?thesis using Pair assms PutDescriptor_Inl by fastforce
  next
    case (Inr u)
    note p = PutDescriptor_Inr [OF Pair [unfolded Inr unit_eq [of u]]]
    have "CountDescriptors api db' \<le> MAX_TOTAL_DESCRIPTORS"
      using assms p(3) by (auto simp: CountDescriptors_card p(1) desc_inv_def card_insert_if finite_bucket insert_absorb domI)
    moreover have "DRelayID (clamp_ttl d) = DRelayID d" by simp
    ultimately show ?thesis
      using assms p(4) unfolding Pair fst_conv desc_inv_def
      by (intro conjI allI impI; clarsimp simp: p(1,2) split: if_splits; blast?)
  qed
qed

lemma desc_inv_remove:
  assumes "desc_inv api lo db"
  shows "desc_inv api lo (fst (RemoveDescriptor api lo db relay))"
proof -
  obtain db' where r: "RemoveDescriptor api lo db relay = (db', Inr ())"
    "bget api (BucketDescriptors db') = (bget api (BucketDescriptors db))(relay := None)"
    "bget api (BucketDescriptorExpiryIndex db') \<subseteq>\<^sub>m bget api (BucketDescriptorExpiryIndex db)"
    using RemoveDescriptor_db [OF assms] by blast
  have "CountDescriptors api db' \<le> CountDescriptors api db"
    unfolding CountDescriptors_card r(2) by (rule card_mono) (auto simp: finite_bucket)
  moreover have "bget api (BucketDescriptorExpiryIndex db) k = Some v" if "bget api (BucketDescriptorExpiryIndex db') k = Some v" for k v
    using r(3) that by (metis domI map_le_def)
  ultimately show ?thesis
    using assms unfolding r(1) fst_conv desc_inv_def r(2) by (metis fun_upd_apply le_trans option.distinct(1))
qed

text \<open>The scan of the expiry index stops at the first later text, and no earlier one follows it.\<close>

lemma lookup_decoded:
  assumes "desc_inv api lo db"
  shows "lookup_desc lo (bget api (BucketDescriptors db) relay) = Inr (decoded api lo db relay)"
proof (cases "bget api (BucketDescriptors db) relay")
  case (Some v)
  then have "DecodeDescriptor lo v \<noteq> Inl DescPanic"
    using assms Decode_no_panic unfolding desc_inv_def by metis
  then show ?thesis by (auto simp: Some decoded_def split: sum.splits)
qed (simp add: decoded_def)

lemma expired_scan_ids:
  assumes "desc_inv api lo db" and "\<forall>(k, v) \<in> set es. v \<noteq> [] \<and> (\<exists>t. k = EncodeDescriptorExpiryKey lo v t)"
    and "sorted_wrt (<) (map fst es)"
  shows "\<exists>ds. expired_desc_scan lo (bget api (BucketDescriptors db)) s es = Inr ds \<and>
     set ds = {d. \<exists>v t. (EncodeDescriptorExpiryKey lo v t, v) \<in> set es \<and> rfc3339nano lo t \<le> s \<and> decoded api lo db v = Some d}"
  using assms(2,3)
proof (induction es)
  case (Cons e es)
  obtain v t where e: "e = (EncodeDescriptorExpiryKey lo v t, v)" "v \<noteq> []" using Cons.prems(1) by (cases e) auto
  obtain ds where ds: "expired_desc_scan lo (bget api (BucketDescriptors db)) s es = Inr ds"
    "set ds = {d. \<exists>v t. (EncodeDescriptorExpiryKey lo v t, v) \<in> set es \<and> rfc3339nano lo t \<le> s \<and> decoded api lo db v = Some d}"
    using Cons by auto
  have later: "rfc3339nano lo t \<le> rfc3339nano lo t'" if "(EncodeDescriptorExpiryKey lo v' t', v') \<in> set es" for v' t'
    using Cons.prems(2) that e(1) expiry_key_le by (fastforce simp: expiry_key_le)
  have same: "rfc3339nano lo t' = rfc3339nano lo t" if "EncodeDescriptorExpiryKey lo v t' = EncodeDescriptorExpiryKey lo v t" for t'
    using that by (simp add: EncodeDescriptorExpiryKey_def)
  show ?case
  proof (cases "rfc3339nano lo t \<le> s")
    case True
    have "expired_desc_scan lo (bget api (BucketDescriptors db)) s (e # es) =
        Inr (case decoded api lo db v of None \<Rightarrow> ds | Some d \<Rightarrow> d # ds)"
      using True ds(1) by (simp add: e splitKey_expiry lookup_decoded [OF assms(1)] leD)
    moreover have "(\<exists>v' t'. (EncodeDescriptorExpiryKey lo v' t', v') \<in> set (e # es) \<and> rfc3339nano lo t' \<le> s \<and> decoded api lo db v' = Some d)
        \<longleftrightarrow> decoded api lo db v = Some d \<or> d \<in> set ds" (is "?L d \<longleftrightarrow> ?R d") for d
    proof
      show "?L d \<Longrightarrow> ?R d" unfolding ds(2) e(1) by clarsimp (metis Pair_inject)
      have "?L d" if "decoded api lo db v = Some d"
        by (rule exI [of _ v], rule exI [of _ t]) (simp add: that True e(1))
      moreover have "?L d" if "d \<in> set ds" using that unfolding ds(2) by auto
      ultimately show "?R d \<Longrightarrow> ?L d" by blast
    qed
    ultimately show ?thesis by (auto split: option.splits)
  next
    case False
    then have "expired_desc_scan lo (bget api (BucketDescriptors db)) s (e # es) = Inr []"
      by (simp add: e splitKey_expiry not_le)
    moreover have "\<not> rfc3339nano lo t' \<le> s" if "(EncodeDescriptorExpiryKey lo v' t', v') \<in> set (e # es)" for v' t'
      using that later [of v' t'] same [of t'] False e(1) by auto
    ultimately show ?thesis by auto
  qed
qed simp

lemma GetExpiredDescriptors_set:
  assumes "desc_inv api lo db"
  obtains ds where "GetExpiredDescriptors api lo db before = Inr ds"
    and "set ds = {d. \<exists>v t. bget api (BucketDescriptorExpiryIndex db) (EncodeDescriptorExpiryKey lo v t) = Some v \<and>
           rfc3339nano lo t \<le> rfc3339nano lo before \<and> decoded api lo db v = Some d}"
proof -
  have "\<forall>(k, v) \<in> set (bseek api (BucketDescriptorExpiryIndex db) []). v \<noteq> [] \<and> (\<exists>t. k = EncodeDescriptorExpiryKey lo v t)"
    using assms unfolding desc_inv_def by (fastforce simp: seek_entries)
  from expired_scan_ids [OF assms this seek_sorted, of "rfc3339nano lo before"] show thesis
    using that by (auto simp: GetExpiredDescriptors_def seek_entries)
qed

lemma desc_sweep_loop_removes:
  assumes "desc_inv api lo db"
  shows "\<exists>db'. desc_sweep_loop api lo db n ds = (db', Inr (n + length ds)) \<and> desc_inv api lo db' \<and>
    bget api (BucketDescriptors db') = bget api (BucketDescriptors db) |` (- DRelayID ` set ds)"
  using assms
proof (induction ds arbitrary: db n)
  case (Cons d ds)
  obtain db' where r: "RemoveDescriptor api lo db (DRelayID d) = (db', Inr ())"
    "bget api (BucketDescriptors db') = (bget api (BucketDescriptors db))(DRelayID d := None)"
    using RemoveDescriptor_db [OF Cons.prems] by metis
  moreover have "desc_inv api lo db'" using desc_inv_remove [OF Cons.prems, of "DRelayID d"] r(1) by simp
  ultimately show ?case
    using Cons.IH [of db' "Suc n"] by (auto simp: restrict_map_def fun_eq_iff)
qed (simp add: restrict_map_def)

lemma sweep_descriptors_removes:
  assumes "desc_inv api lo db"
  obtains db' ds where "sweep_descriptors api lo now db = (db', Inr (length ds))" and "desc_inv api lo db'"
    and "set ds = {d. \<exists>v t. bget api (BucketDescriptorExpiryIndex db) (EncodeDescriptorExpiryKey lo v t) = Some v \<and>
           rfc3339nano lo t \<le> rfc3339nano lo now \<and> decoded api lo db v = Some d}"
    and "bget api (BucketDescriptors db') = bget api (BucketDescriptors db) |` (- DRelayID ` set ds)"
proof -
  obtain ds where ds: "GetExpiredDescriptors api lo db now = Inr ds"
    "set ds = {d. \<exists>v t. bget api (BucketDescriptorExpiryIndex db) (EncodeDescriptorExpiryKey lo v t) = Some v \<and>
           rfc3339nano lo t \<le> rfc3339nano lo now \<and> decoded api lo db v = Some d}"
    by (rule GetExpiredDescriptors_set [OF assms])
  from desc_sweep_loop_removes [OF assms, of 0 ds] show thesis
    using that ds by (auto simp: sweep_descriptors_def)
qed

lemma desc_inv_run: "desc_inv api lo (desc_run api lo ops)"
proof -
  have "desc_inv api lo (foldl (desc_step api lo) db ops)" if "desc_inv api lo db" for db
    using that
  proof (induction ops arbitrary: db)
    case (Cons op ops)
    have "desc_inv api lo (desc_step api lo db op)"
    proof (cases op)
      case (DSweep now)
      obtain db' n where "sweep_descriptors api lo now db = (db', Inr n)" "desc_inv api lo db'"
        using sweep_descriptors_removes [OF Cons.prems, of now] by metis
      then show ?thesis by (simp add: DSweep)
    qed (simp_all add: Cons.prems desc_inv_put desc_inv_remove)
    then show ?case by (simp add: Cons.IH)
  qed simp
  then show ?thesis by (simp add: desc_run_def desc_inv_new)
qed

lemma all_scan_no_panic:
  "\<forall>(k, v) \<in> set es. DecodeDescriptor lo v \<noteq> Inl DescPanic \<Longrightarrow> \<exists>ds. all_scan lo now es = Inr ds"
  by (induction lo now es rule: all_scan.induct) (auto split: sum.splits)

lemma peer_scan_no_panic:
  "desc_inv api lo db \<Longrightarrow> \<exists>ds. peer_desc_scan lo (bget api (BucketDescriptors db)) prefix es = Inr ds"
proof (induction es)
  case (Cons e es)
  then show ?case by (cases e) (auto simp: lookup_decoded)
qed simp

lemma refresh_leaves_old_expiry:
  assumes "PutDescriptor api lo (desc_run api lo ops) d = (db1, Inr ())" and "PutDescriptor api lo db1 d' = (db2, Inr ())"
    and "DRelayID d' = DRelayID d" and "desc_ok lo (clamp_ttl d')"
    and "rfc3339nano lo (DExpiresAt (clamp_ttl d)) \<le> rfc3339nano lo now"
  shows "GetDescriptor api lo db2 (DRelayID d) = Inr (parsed_desc lo (clamp_ttl d')) \<and>
    GetDescriptor api lo (fst (sweep_descriptors api lo now db2)) (DRelayID d) = Inl DescNotFound"
proof -
  have "desc_inv api lo db1" using desc_inv_put [OF desc_inv_run, of lo ops d] assms(1) by simp
  then have inv: "desc_inv api lo db2" using desc_inv_put [of lo db1 d'] assms(2) by simp
  note p1 = PutDescriptor_Inr [OF assms(1)] and p2 = PutDescriptor_Inr [OF assms(2)]
  have dec: "decoded api lo db2 (DRelayID d) = Some (parsed_desc lo (clamp_ttl d'))"
    using Decode_Encode [OF assms(4)] by (simp add: decoded_def p2(1) assms(3))
  have key: "bget api (BucketDescriptorExpiryIndex db2) (EncodeDescriptorExpiryKey lo (DRelayID d) (DExpiresAt (clamp_ttl d))) = Some (DRelayID d)"
    by (simp add: p1(2) p2(2) assms(3))
  obtain db' ds where sw: "sweep_descriptors api lo now db2 = (db', Inr (length ds))"
    "set ds = {d. \<exists>v t. bget api (BucketDescriptorExpiryIndex db2) (EncodeDescriptorExpiryKey lo v t) = Some v \<and>
           rfc3339nano lo t \<le> rfc3339nano lo now \<and> decoded api lo db2 v = Some d}"
    "bget api (BucketDescriptors db') = bget api (BucketDescriptors db2) |` (- DRelayID ` set ds)"
    by (rule sweep_descriptors_removes [OF inv])
  have "parsed_desc lo (clamp_ttl d') \<in> set ds" unfolding sw(2) using key dec assms(5) by blast
  then have "DRelayID d \<in> DRelayID ` set ds" using assms(3) parsed_desc_sel(1) [of lo "clamp_ttl d'"] by (metis clamp_ttl_sel(1) image_eqI)
  then show ?thesis
    using Decode_Encode [OF assms(4)] by (simp add: GetDescriptor_def sw(1,3) p2(1) assms(3))
qed

end

subsection \<open>What the store promises\<close>

definition sample_desc :: RelayDescriptor where
  "sample_desc = \<lparr>DRelayID = ''r1'', DWSURL = ''wss://r1'', DRegion = ''eu'', DTags = [''a'', ''b''],
     DFirstSeenAt = \<lparr>instant = 1500000000 * 10 ^ 9, loc = UTC\<rparr>, DLastSeenAt = \<lparr>instant = 1500000000 * 10 ^ 9, loc = UTC\<rparr>,
     DExpiresAt = \<lparr>instant = 1500003600 * 10 ^ 9, loc = UTC\<rparr>, DAdvertisedBy = ''p1''\<rparr>"

lemma sample_desc_ok: "desc_ok (\<lambda>_. 0) sample_desc"
  by (simp add: desc_ok_def sample_desc_def time_fits_def shown_year_def zone_offset_def civil_defs zone_ok_def)

lemma sample_desc_clamp: "clamp_ttl sample_desc = sample_desc"
  by (simp add: clamp_ttl_def sample_desc_def Sub_def)

text \<open>
  Claim C35. A put that succeeds leaves the descriptor of every other relay what it was. When moreover no text
  field of the descriptor has a NUL byte, its tags are not empty and have no comma and no NUL, and its times fit
  RFC 3339 (years 0 to 9999, a zone offset of whole minutes below 25 hours), none of which the store checks,
  the descriptor can be read back: it is the one that was put, with its expiry at most seven days after it was
  last seen.
\<close>

theorem descriptor_put_get:
  assumes "bolt api" and "PutDescriptor api lo db d = (db', Inr ())"
  shows "(desc_ok lo (clamp_ttl d) \<longrightarrow> GetDescriptor api lo db' (DRelayID d) = Inr (parsed_desc lo (clamp_ttl d)) \<and>
      Sub (DExpiresAt (parsed_desc lo (clamp_ttl d))) (DLastSeenAt d) \<le> MAX_DESCRIPTOR_TTL) \<and>
    (\<forall>relay. relay \<noteq> DRelayID d \<longrightarrow> GetDescriptor api lo db' relay = GetDescriptor api lo db relay)"
  using bolt.PutDescriptor_Inr(1) [OF assms] Decode_Encode [of lo "clamp_ttl d"]
  by (auto simp: GetDescriptor_def clamp_ttl_def time_defs)

lemma sample_times:
  "length (rfc3339nano (\<lambda>_. 0) (DFirstSeenAt sample_desc)) \<le> 40" "length (rfc3339nano (\<lambda>_. 0) (DLastSeenAt sample_desc)) \<le> 40"
  "length (rfc3339nano (\<lambda>_. 0) (DExpiresAt sample_desc)) \<le> 40"
  by (simp_all add: sample_desc_def format_defs dec_digits.simps)

lemma sample_desc_storable: "desc_storable (\<lambda>_. 0) sample_desc"
  using sample_times
  by (simp add: desc_storable_def sample_desc_clamp key_ok_def value_ok_def EncodeDescriptor_def EncodeDescriptorExpiryKey_def
      EncodeDescriptorPeerKey_def) (simp add: sample_desc_def)

lemma sample_desc_stored:
  "\<exists>db'. PutDescriptor mem_bolt (\<lambda>_. 0) (new_desc_db mem_bolt) sample_desc = (db', Inr ())"
  by (rule mem.PutDescriptor_succeeds [OF sample_desc_storable])
     (simp add: mem.CountDescriptors_card new_desc_db_def mem.get_empty dom_def)

theorem descriptor_put_get_witness:
  "\<exists>db'. GetDescriptor mem_bolt (\<lambda>_. 0) db' ''r1'' = Inr (parsed_desc (\<lambda>_. 0) sample_desc) \<and>
     GetDescriptor mem_bolt (\<lambda>_. 0) db' ''r2'' = Inl DescNotFound"
proof -
  obtain db' where p: "PutDescriptor mem_bolt (\<lambda>_. 0) (new_desc_db mem_bolt) sample_desc = (db', Inr ())"
    using sample_desc_stored by blast
  have r: "DRelayID sample_desc = ''r1''" by (simp add: sample_desc_def)
  have "GetDescriptor mem_bolt (\<lambda>_. 0) (new_desc_db mem_bolt) ''r2'' = Inl DescNotFound"
    by (simp add: GetDescriptor_def new_desc_db_def mem.get_empty)
  with descriptor_put_get [OF mem_bolt_laws p] show ?thesis
    unfolding sample_desc_clamp r using sample_desc_ok by force
qed

text \<open>
  The registry never grows past its cap: in every store that puts, removals and sweeps reach
  from the empty one, whatever was put and whenever the sweeps ran, at most ten thousand
  descriptors are stored; and a put of a new relay into a full registry is refused with the error of the code.
\<close>

lemma descriptor_registry_bounded:
  assumes "bolt api"
  shows "CountDescriptors api (desc_run api lo ops) \<le> MAX_TOTAL_DESCRIPTORS \<and>
    (CountDescriptors api (desc_run api lo ops) = MAX_TOTAL_DESCRIPTORS \<and> bget api (BucketDescriptors (desc_run api lo ops)) (DRelayID d) = None \<longrightarrow>
     PutDescriptor api lo (desc_run api lo ops) d = (desc_run api lo ops, Inl (DescModel ErrDescriptorRegistryFull)))"
  using bolt.desc_inv_run [OF assms, of lo ops]
  by (auto simp: desc_inv_def PutDescriptor_def guardE_def desc_update_def)

lemma descriptor_registry_bounded_example:
  "CountDescriptors mem_bolt (desc_run mem_bolt (\<lambda>_. 0) [DPut sample_desc]) \<le> MAX_TOTAL_DESCRIPTORS"
  using descriptor_registry_bounded [OF mem_bolt_laws] by blast

text \<open>
  Claim C36. Decoding never fails an index check in a store the relay wrote: \<^verbatim>\<open>DecodeDescriptor\<close> accepts seven
  parts and then reads an eighth, which panics on seven; but every value of a reached store has at least
  eight, so that no lookup, listing, removal or sweep panics.
\<close>

theorem stored_descriptors_never_panic:
  assumes "bolt api"
  shows "GetDescriptor api lo (desc_run api lo ops) relay \<noteq> Inl DescPanic \<and>
    (\<exists>ds. GetAllDescriptors api lo now (desc_run api lo ops) = Inr ds) \<and>
    (\<exists>ds. GetDescriptorsForPeer api lo (desc_run api lo ops) peer = Inr ds) \<and>
    (\<exists>ds. GetExpiredDescriptors api lo (desc_run api lo ops) now = Inr ds) \<and>
    snd (RemoveDescriptor api lo (desc_run api lo ops) relay) = Inr () \<and>
    (\<exists>n. snd (sweep_descriptors api lo now (desc_run api lo ops)) = Inr n)"
proof (intro conjI)
  let ?db = "desc_run api lo ops"
  have inv: "desc_inv api lo ?db" by (rule bolt.desc_inv_run [OF assms])
  have v: "DecodeDescriptor lo v \<noteq> Inl DescPanic" if "bget api (BucketDescriptors ?db) k = Some v" for k v
    using inv that Decode_no_panic unfolding desc_inv_def by metis
  show "GetDescriptor api lo ?db relay \<noteq> Inl DescPanic"
    using v by (auto simp: GetDescriptor_def split: option.splits)
  show "\<exists>ds. GetAllDescriptors api lo now ?db = Inr ds"
    unfolding GetAllDescriptors_def using v
    by (intro bolt.all_scan_no_panic [OF assms]) (auto simp: bolt.seek_entries [OF assms])
  show "\<exists>ds. GetDescriptorsForPeer api lo ?db peer = Inr ds"
    using bolt.peer_scan_no_panic [OF assms inv] by (simp add: GetDescriptorsForPeer_def Let_def)
  show "\<exists>ds. GetExpiredDescriptors api lo ?db now = Inr ds"
    by (metis bolt.GetExpiredDescriptors_set [OF assms inv])
  show "snd (RemoveDescriptor api lo ?db relay) = Inr ()"
    by (metis bolt.RemoveDescriptor_db [OF assms inv] snd_conv)
  show "\<exists>n. snd (sweep_descriptors api lo now ?db) = Inr n"
    by (metis bolt.sweep_descriptors_removes [OF assms inv] snd_conv)
qed

theorem stored_descriptors_never_panic_witness:
  "\<exists>ds. GetAllDescriptors mem_bolt (\<lambda>_. 0) zero_time (desc_run mem_bolt (\<lambda>_. 0) [DPut sample_desc]) = Inr ds"
  using stored_descriptors_never_panic [OF mem_bolt_laws] by blast

text \<open>
  Refreshing a descriptor does not prolong it: an update stores the new record but leaves the
  expiry key of the old one, so that a sweep after the first expiry removes the refreshed descriptor,
  which readers saw up to then, however far its own expiry lies ahead.
\<close>

lemma refreshed_descriptor_is_swept:
  assumes "bolt api" and "PutDescriptor api lo (desc_run api lo ops) d = (db1, Inr ())" and "PutDescriptor api lo db1 d' = (db2, Inr ())"
    and "DRelayID d' = DRelayID d" and "desc_ok lo (clamp_ttl d')"
    and "rfc3339nano lo (DExpiresAt (clamp_ttl d)) \<le> rfc3339nano lo now"
  shows "GetDescriptor api lo db2 (DRelayID d) = Inr (parsed_desc lo (clamp_ttl d')) \<and>
    GetDescriptor api lo (fst (sweep_descriptors api lo now db2)) (DRelayID d) = Inl DescNotFound"
  using bolt.refresh_leaves_old_expiry [OF assms] .

definition refreshed_desc :: RelayDescriptor where
  "refreshed_desc = sample_desc\<lparr>DLastSeenAt := \<lparr>instant = 1500003000 * 10 ^ 9, loc = UTC\<rparr>,
     DExpiresAt := \<lparr>instant = 1500006600 * 10 ^ 9, loc = UTC\<rparr>\<rparr>"

lemma refreshed_desc_facts:
  "clamp_ttl refreshed_desc = refreshed_desc" "desc_ok (\<lambda>_. 0) refreshed_desc" "DRelayID refreshed_desc = DRelayID sample_desc"
  by (simp_all add: clamp_ttl_def refreshed_desc_def sample_desc_def Sub_def desc_ok_def time_fits_def shown_year_def zone_offset_def
      civil_defs zone_ok_def)

lemma refreshed_times:
  "length (rfc3339nano (\<lambda>_. 0) (DLastSeenAt refreshed_desc)) \<le> 40" "length (rfc3339nano (\<lambda>_. 0) (DExpiresAt refreshed_desc)) \<le> 40"
  by (simp_all add: refreshed_desc_def sample_desc_def format_defs dec_digits.simps)

lemma refreshed_desc_storable: "desc_storable (\<lambda>_. 0) refreshed_desc"
  using sample_times(1) refreshed_times
  by (simp add: desc_storable_def refreshed_desc_facts(1) key_ok_def value_ok_def EncodeDescriptor_def EncodeDescriptorExpiryKey_def
      EncodeDescriptorPeerKey_def) (simp add: refreshed_desc_def sample_desc_def)

lemma refreshed_descriptor_is_swept_example:
  "\<exists>db now. GetDescriptor mem_bolt (\<lambda>_. 0) db ''r1'' = Inr (parsed_desc (\<lambda>_. 0) refreshed_desc) \<and>
     \<not> IsExpired_descriptor now (parsed_desc (\<lambda>_. 0) refreshed_desc) \<and>
     GetDescriptor mem_bolt (\<lambda>_. 0) (fst (sweep_descriptors mem_bolt (\<lambda>_. 0) now db)) ''r1'' = Inl DescNotFound"
proof -
  let ?now = "\<lparr>instant = 1500003600 * 10 ^ 9, loc = UTC\<rparr>"
  obtain db1 where p1: "PutDescriptor mem_bolt (\<lambda>_. 0) (desc_run mem_bolt (\<lambda>_. 0) []) sample_desc = (db1, Inr ())"
    using sample_desc_stored by (auto simp: desc_run_def)
  then have "bget mem_bolt (BucketDescriptors db1) (DRelayID refreshed_desc) \<noteq> None"
    by (simp add: mem.PutDescriptor_Inr(1) refreshed_desc_facts)
  then obtain db2 where p2: "PutDescriptor mem_bolt (\<lambda>_. 0) db1 refreshed_desc = (db2, Inr ())"
    using mem.PutDescriptor_succeeds [OF refreshed_desc_storable] by blast
  have "rfc3339nano (\<lambda>_. 0) (DExpiresAt (clamp_ttl sample_desc)) \<le> rfc3339nano (\<lambda>_. 0) ?now"
    by (simp add: sample_desc_clamp) (simp add: sample_desc_def)
  moreover have "\<not> IsExpired_descriptor ?now (parsed_desc (\<lambda>_. 0) refreshed_desc)"
    by (simp add: IsExpired_descriptor_def After_def) (simp add: refreshed_desc_def)
  moreover have "DRelayID sample_desc = ''r1''" by (simp add: sample_desc_def)
  ultimately show ?thesis
    using refreshed_descriptor_is_swept [OF mem_bolt_laws p1 p2, of ?now] refreshed_desc_facts by force
qed

text \<open>
  The encoding does not quote NUL: a region that holds three texts of times between NUL bytes makes the
  decoder read its times from the region, so that the stored expiry is the sender's and not the clamped one.
\<close>

lemma region_forges_expiry:
  assumes "NUL \<notin> set (DRelayID d)" "NUL \<notin> set (DWSURL d)" "time_fits lo f" "time_fits lo l" "time_fits lo e"
    and "DRegion d = NUL # NUL # rfc3339nano lo f @ NUL # rfc3339nano lo l @ NUL # rfc3339nano lo e"
  shows "\<exists>d'. DecodeDescriptor lo (EncodeDescriptor lo (clamp_ttl d)) = Inr d' \<and> DRelayID d' = DRelayID d \<and> DExpiresAt d' = parsed_time lo e"
proof -
  have "DRegion (clamp_ttl d) = DRegion d" "DWSURL (clamp_ttl d) = DWSURL d" by (simp_all add: clamp_ttl_def)
  with assms show ?thesis
    by (auto simp: DecodeDescriptor_def EncodeDescriptor_def split_byte_append parse_part_text length_split_byte Let_def)
qed

end
