(* ===== verification/Descriptor_Exchange.thy ===== *)
theory Descriptor_Exchange
  imports Descriptor_Store Exchange_Sort Float64
begin

text \<open>
  The exchange of relay descriptors: the selection of descriptors for gossip (\<^verbatim>\<open>internal/gossip/gossip.go\<close>) and the
  handlers of descriptor frames and requests (\<^verbatim>\<open>internal/api/relay_federation.go\<close>).  \<open>None\<close> is a slice
  expression or an allocation at which Go panics.  The random choices of \<^verbatim>\<open>rand.Shuffle\<close> are an argument, the
  decoding of a request body by \<^verbatim>\<open>encoding/json\<close> is the argument of the handler that reads it.
\<close>

subsection \<open>Arithmetic of the sample\<close>

text \<open>\<^verbatim>\<open>int(float64(maxSample) * 0.7)\<close>.\<close>

definition fresh_count :: "int \<Rightarrow> int" where
  "fresh_count maxSample = to_int (fmul (float64 maxSample) (f64 (7 / 10)))"

text \<open>The loop of \<^verbatim>\<open>rand.Shuffle\<close>: the element at \<open>i\<close> is exchanged with a random one at or before it.\<close>

primrec Shuffle_from :: "(nat \<Rightarrow> nat) \<Rightarrow> nat \<Rightarrow> 'a list \<Rightarrow> 'a list" where
  "Shuffle_from rnd 0 xs = xs"
| "Shuffle_from rnd (Suc i) xs = (let j = rnd (Suc i) mod Suc (Suc i)
     in Shuffle_from rnd i (xs[j := xs ! Suc i, Suc i := xs ! j]))"

definition Shuffle :: "(nat \<Rightarrow> nat) \<Rightarrow> 'a list \<Rightarrow> 'a list" where
  "Shuffle rnd xs = Shuffle_from rnd (length xs - 1) xs"

subsection \<open>Gossip\<close>

abbreviation MAX_DESCRIPTORS_PER_PEER_PER_HOUR :: nat where "MAX_DESCRIPTORS_PER_PEER_PER_HOUR \<equiv> 100"
abbreviation GossipSampleSize :: int where "GossipSampleSize \<equiv> 50"

definition IsRateLimited :: "'b bolt_api \<Rightarrow> (int \<Rightarrow> int) \<Rightarrow> gotime \<Rightarrow> 'b desc_db \<Rightarrow> string \<Rightarrow> bool" where
  "IsRateLimited api lo now db peerID \<longleftrightarrow> GetPeerDescriptorCount api lo now db peerID \<ge> MAX_DESCRIPTORS_PER_PEER_PER_HOUR"

definition fresher :: "RelayDescriptor \<Rightarrow> RelayDescriptor \<Rightarrow> bool" where
  "fresher d e = After (DLastSeenAt d) (DLastSeenAt e)"

definition older :: "RelayDescriptor \<Rightarrow> RelayDescriptor \<Rightarrow> bool" where
  "older d e = Before (DLastSeenAt d) (DLastSeenAt e)"

definition selectSample :: "(nat \<Rightarrow> nat) \<Rightarrow> RelayDescriptor list \<Rightarrow> int \<Rightarrow> RelayDescriptor list option" where
  "selectSample rnd descriptors maxSample =
     (if descriptors = [] then Some []
      else if int (length descriptors) \<le> maxSample then Some descriptors
      else if maxSample < 0 then None
      else let sorted = exchange_sort fresher descriptors;
               freshCount = min (fresh_count maxSample) (int (length sorted));
               sample = take (nat freshCount) sorted;
               remaining = drop (nat freshCount) sorted
           in if length remaining > 0 then
                let needed = min (maxSample - freshCount) (int (length remaining))
                in if needed < 0 then None else Some (sample @ take (nat needed) (Shuffle rnd remaining))
              else Some sample)"

definition SelectBoundedSample :: "(nat \<Rightarrow> nat) \<Rightarrow> RelayDescriptor list \<Rightarrow> int \<Rightarrow> RelayDescriptor list option" where
  "SelectBoundedSample rnd descriptors maxSample = selectSample rnd descriptors maxSample"

text \<open>One round: the registry size it reports, if it comes that far; the sample itself goes nowhere.\<close>

definition gossipDescriptors :: "'b bolt_api \<Rightarrow> (int \<Rightarrow> int) \<Rightarrow> gotime \<Rightarrow> (nat \<Rightarrow> nat) \<Rightarrow> 'b desc_db \<Rightarrow> desc_err + nat option" where
  "gossipDescriptors api lo now rnd db = bindE (GetAllDescriptors api lo now db) (\<lambda>descriptors.
     if descriptors = [] then Inr None
     else case selectSample rnd descriptors GossipSampleSize of
       None \<Rightarrow> Inl DescPanic
     | Some sample \<Rightarrow> if sample = [] then Inr None else Inr (Some (CountDescriptors api db)))"

definition FilterStale :: "gotime \<Rightarrow> RelayDescriptor list \<Rightarrow> int \<Rightarrow> RelayDescriptor list" where
  "FilterStale now descriptors threshold = filter (\<lambda>d. \<not> IsStale now threshold d) descriptors"

definition EnforceRegistryCap :: "RelayDescriptor list \<Rightarrow> int \<Rightarrow> RelayDescriptor list option" where
  "EnforceRegistryCap descriptors maxDescriptors =
     (if int (length descriptors) \<le> maxDescriptors then Some []
      else let sorted = exchange_sort older descriptors;
               removeCount = int (length descriptors) - maxDescriptors
           in if removeCount > int (length sorted) then None else Some (take (nat removeCount) sorted))"

definition GetStaleDescriptors :: "gotime \<Rightarrow> RelayDescriptor list \<Rightarrow> int \<Rightarrow> RelayDescriptor list" where
  "GetStaleDescriptors now descriptors threshold = filter (IsStale now threshold) descriptors"

subsection \<open>Descriptor frames\<close>

record RelayDescriptorFrame =
  FrType :: string
  FrDescriptors :: "RelayDescriptor list"

text \<open>The counters and the gauge that the handler updates.\<close>

record desc_metrics =
  DescriptorsReceived :: nat
  DescriptorsAccepted :: nat
  DescriptorsRejectedRateLimit :: nat
  DescriptorsRejectedValidation :: nat
  DescriptorsRegistrySize :: nat

record 'b fed_state =
  FedDB :: "'b desc_db"
  FedMetrics :: desc_metrics
  FedAccepted :: nat
  FedRejected :: nat

definition count_limited :: "desc_metrics \<Rightarrow> desc_metrics" where
  "count_limited m = m\<lparr>DescriptorsRejectedRateLimit := Suc (DescriptorsRejectedRateLimit m)\<rparr>"

definition count_invalid :: "desc_metrics \<Rightarrow> desc_metrics" where
  "count_invalid m = m\<lparr>DescriptorsRejectedValidation := Suc (DescriptorsRejectedValidation m)\<rparr>"

text \<open>One round of the loop over the descriptors of a frame; an error here is a panic of the decoder.\<close>

definition handle_descriptor :: "'b bolt_api \<Rightarrow> (int \<Rightarrow> int) \<Rightarrow> string \<Rightarrow> RelayDescriptor \<Rightarrow> 'b fed_state \<Rightarrow> desc_err + 'b fed_state" where
  "handle_descriptor api lo peerID d0 st = (case Validate_descriptor d0 of
     Inl _ \<Rightarrow> Inr (st\<lparr>FedMetrics := count_invalid (FedMetrics st), FedRejected := Suc (FedRejected st)\<rparr>)
   | Inr desc \<Rightarrow>
       if CountDescriptors api (FedDB st) \<ge> MAX_TOTAL_DESCRIPTORS
       then Inr (st\<lparr>FedMetrics := count_limited (FedMetrics st), FedRejected := Suc (FedRejected st)\<rparr>)
       else case GetDescriptor api lo (FedDB st) (DRelayID desc) of
         Inl err \<Rightarrow> if err = DescPanic then Inl err else Inr st
       | Inr existing \<Rightarrow>
           let desc = desc\<lparr>DFirstSeenAt := DFirstSeenAt existing\<rparr>;
               desc = (if DAdvertisedBy desc = [] then desc\<lparr>DAdvertisedBy := peerID\<rparr> else desc)
           in case PutDescriptor api lo (FedDB st) desc of
                (db, Inl _) \<Rightarrow> Inr (st\<lparr>FedDB := db, FedRejected := Suc (FedRejected st)\<rparr>)
              | (db, Inr _) \<Rightarrow> Inr (st\<lparr>FedDB := db, FedAccepted := Suc (FedAccepted st)\<rparr>))"

fun handle_descriptors :: "'b bolt_api \<Rightarrow> (int \<Rightarrow> int) \<Rightarrow> string \<Rightarrow> RelayDescriptor list \<Rightarrow> 'b fed_state \<Rightarrow> desc_err + 'b fed_state" where
  "handle_descriptors api lo peerID [] st = Inr st"
| "handle_descriptors api lo peerID (d # ds) st = bindE (handle_descriptor api lo peerID d st) (handle_descriptors api lo peerID ds)"

definition HandleRelayDescriptors ::
  "'b bolt_api \<Rightarrow> (int \<Rightarrow> int) \<Rightarrow> gotime \<Rightarrow> bool \<Rightarrow> 'b desc_db \<Rightarrow> desc_metrics \<Rightarrow> string \<Rightarrow> RelayDescriptorFrame \<Rightarrow>
     desc_err + 'b desc_db \<times> desc_metrics \<times> DescriptorError option" where
  "HandleRelayDescriptors api lo now enabled db m peerID frame =
     (if \<not> enabled then Inr (db, m, None)
      else let m = m\<lparr>DescriptorsReceived := Suc (DescriptorsReceived m)\<rparr>
           in if GetPeerDescriptorCount api lo now db peerID \<ge> MAX_DESCRIPTORS_PER_PEER_PER_HOUR
              then Inr (db, count_limited m, Some ErrDescriptorRateLimited)
              else bindE (handle_descriptors api lo peerID (FrDescriptors frame) \<lparr>FedDB = db, FedMetrics = m, FedAccepted = 0, FedRejected = 0\<rparr>) (\<lambda>st.
                   let m = FedMetrics st;
                       m = (if FedAccepted st > 0 then m\<lparr>DescriptorsAccepted := Suc (DescriptorsAccepted m)\<rparr> else m);
                       m = (if FedRejected st > 0 then count_invalid m else m)
                   in Inr (FedDB st, m\<lparr>DescriptorsRegistrySize := CountDescriptors api (FedDB st)\<rparr>, None)))"

definition GetDescriptorsForGossip :: "'b bolt_api \<Rightarrow> (int \<Rightarrow> int) \<Rightarrow> gotime \<Rightarrow> 'b desc_db \<Rightarrow> int \<Rightarrow> desc_err + RelayDescriptor list" where
  "GetDescriptorsForGossip api lo now db limit = bindE (GetAllDescriptors api lo now db) (\<lambda>descriptors.
     let scored = exchange_sort (\<lambda>s s'. After (snd s) (snd s')) (map (\<lambda>d. (d, DLastSeenAt d)) descriptors)
     in if min (int (length scored)) limit < 0 then Inl DescPanic
        else Inr (map fst (take (nat limit) scored)))"

subsection \<open>The descriptor endpoint\<close>

datatype http_reply = HttpError nat string | DescriptorsReply "RelayDescriptor list" nat | StatusOk

definition handleGet :: "'b bolt_api \<Rightarrow> (int \<Rightarrow> int) \<Rightarrow> gotime \<Rightarrow> 'b desc_db \<Rightarrow> desc_err + http_reply" where
  "handleGet api lo now db = bindE (GetAllDescriptors api lo now db) (\<lambda>descriptors. Inr (DescriptorsReply descriptors (length descriptors)))"

primrec error_text :: "DescriptorError \<Rightarrow> string" where
  "error_text ErrDescriptorInvalidRelayID = ''relay_id is required''"
| "error_text ErrDescriptorInvalidURL = ''ws_url is required''"
| "error_text ErrDescriptorInvalidURLScheme = ''ws_url must use ws:// or wss:// scheme''"
| "error_text ErrDescriptorInvalidTimestamp = ''invalid timestamp''"
| "error_text ErrDescriptorRateLimited = ''rate limited by peer''"
| "error_text ErrDescriptorRegistryFull = ''descriptor registry full''"

definition handlePost ::
  "'b bolt_api \<Rightarrow> (int \<Rightarrow> int) \<Rightarrow> gotime \<Rightarrow> bool \<Rightarrow> 'b desc_db \<Rightarrow> desc_metrics \<Rightarrow> RelayDescriptorFrame option \<Rightarrow>
     desc_err + 'b desc_db \<times> desc_metrics \<times> http_reply" where
  "handlePost api lo now enabled db m body = (case body of
     None \<Rightarrow> Inr (db, m, HttpError 400 ''invalid request body'')
   | Some frame \<Rightarrow> bindE (HandleRelayDescriptors api lo now enabled db m ''local'' frame) (\<lambda>(db', m', err).
       Inr (db', m', case err of Some e \<Rightarrow> HttpError 400 (error_text e) | None \<Rightarrow> StatusOk)))"

definition ServeDescriptors ::
  "'b bolt_api \<Rightarrow> (int \<Rightarrow> int) \<Rightarrow> gotime \<Rightarrow> bool \<Rightarrow> 'b desc_db \<Rightarrow> desc_metrics \<Rightarrow> string \<Rightarrow> RelayDescriptorFrame option \<Rightarrow>
     desc_err + 'b desc_db \<times> desc_metrics \<times> http_reply" where
  "ServeDescriptors api lo now enabled db m verb body =
     (if \<not> enabled then Inr (db, m, HttpError 503 ''relay discovery disabled'')
      else if verb = ''GET'' then bindE (handleGet api lo now db) (\<lambda>reply. Inr (db, m, reply))
      else if verb = ''POST'' then handlePost api lo now enabled db m body
      else Inr (db, m, HttpError 405 ''method not allowed''))"


subsection \<open>The sample\<close>

interpretation fresh_first: weak_order fresher
  by unfold_locales (auto simp: fresher_def time_defs)

interpretation old_first: weak_order older
  by unfold_locales (auto simp: older_def time_defs)

interpretation score_first: weak_order "\<lambda>s s' :: 'a \<times> gotime. After (snd s) (snd s')"
  by unfold_locales (auto simp: time_defs)

lemma fresh_count_bounds:
  assumes "0 \<le> n"
  shows "0 \<le> fresh_count n" and "fresh_count n \<le> n"
proof -
  have "0 \<le> f64 (7 / 10)" "f64 (7 / 10) \<le> 23 / 25" using f64_coarse [of "7 / 10"] by (simp_all add: f64_nonneg)
  from scale_down [OF this, of n] assms show "0 \<le> fresh_count n" "fresh_count n \<le> n"
    by (cases "n = 0"; simp add: fresh_count_def to_int_def fmul_def float64_def)+
qed

lemma fresh_count_sample: "fresh_count 50 = 35"
  by code_simp

lemma Shuffle_from_mset: "i < length xs \<Longrightarrow> mset (Shuffle_from rnd i xs) = mset xs"
proof (induction i arbitrary: xs)
  case (Suc i)
  have "rnd (Suc i) mod Suc (Suc i) < length xs" using Suc.prems mod_less_divisor [of "Suc (Suc i)" "rnd (Suc i)"] by linarith
  with Suc show ?case by (simp add: Let_def mset_swap)
qed simp

lemma Shuffle_mset [simp]: "mset (Shuffle rnd xs) = mset xs"
  by (cases "xs = []") (simp_all add: Shuffle_def Shuffle_from_mset)

lemma Shuffle_length [simp]: "length (Shuffle rnd xs) = length xs"
  by (rule mset_eq_length) simp


text \<open>
  Claim C37. The gossip sample is bounded and prefers fresh descriptors: for every limit that is not negative
  and every outcome of the random choices the selection returns, with as many of the given descriptors as the limit
  allows; when some are left out, the first seventy per cent (rounded as \<open>float64\<close> does, 35 of 50) are among the
  last seen: no descriptor behind them, chosen or left out, was seen later.
\<close>

theorem gossip_sample_fresh_and_bounded:
  assumes "0 \<le> n"
  shows "\<exists>sample. selectSample rnd ds n = Some sample \<and> length sample = min (nat n) (length ds) \<and> mset sample \<subseteq># mset ds \<and>
    (n < int (length ds) \<longrightarrow> (\<forall>d \<in> set (take (nat (fresh_count n)) sample).
       \<forall>e \<in># mset ds - mset (take (nat (fresh_count n)) sample). \<not> After (DLastSeenAt e) (DLastSeenAt d)))"
proof (cases "int (length ds) \<le> n")
  case True
  then show ?thesis by (auto simp: selectSample_def)
next
  case False
  let ?k = "nat (fresh_count n)" and ?s = "exchange_sort fresher ds"
  let ?sample = "take ?k ?s @ take (nat (n - int ?k)) (Shuffle rnd (drop ?k ?s))"
  have k: "?k \<le> nat n" "int ?k = fresh_count n" using fresh_count_bounds [OF assms] by simp_all
  with False assms have len: "?k < length ds" "nat n < length ds" "int ?k \<le> n" by linarith+
  have sel: "selectSample rnd ds n = Some ?sample"
    using False assms len fresh_count_bounds [OF assms] by (auto simp: selectSample_def Let_def min_def)
  have split: "mset ds = mset (take ?k ?s) + mset (drop ?k ?s)"
    by (rule mset_take_drop [symmetric])
  have "mset (take (nat (n - int ?k)) (Shuffle rnd (drop ?k ?s))) \<subseteq># mset (drop ?k ?s)"
    by (metis Shuffle_mset append_take_drop_id mset_append mset_subset_eq_add_left)
  then have "mset ?sample \<subseteq># mset ds" by (simp add: split)
  moreover have "nat (n - int ?k) = nat n - ?k" using assms by (simp add: nat_diff_distrib del: int_nat_eq)
  then have "length ?sample = min (nat n) (length ds)" using len k(1) by (simp add: min_def) linarith
  moreover have front: "take ?k ?sample = take ?k ?s" using len by simp
  have "\<not> fresher e d" if "d \<in> set (take ?k ?s)" "e \<in> set (drop ?k ?s)" for d e
    using that by (rule fresh_first.sorts_front)
  then have "\<forall>d \<in> set (take ?k ?sample). \<forall>e \<in># mset ds - mset (take ?k ?sample). \<not> After (DLastSeenAt e) (DLastSeenAt d)"
    unfolding front split add_diff_cancel_left' set_mset_mset fresher_def by blast
  ultimately show ?thesis using sel by blast
qed

definition seen_at :: "int \<Rightarrow> RelayDescriptor" where
  "seen_at t = sample_desc\<lparr>DLastSeenAt := \<lparr>instant = t, loc = UTC\<rparr>\<rparr>"

theorem gossip_sample_fresh_and_bounded_witness:
  "\<exists>sample. selectSample (\<lambda>i. i) (map seen_at [1, 2, 3]) 2 = Some sample \<and> length sample = 2"
  using gossip_sample_fresh_and_bounded [of 2 "\<lambda>i. i" "map seen_at [1, 2, 3]"] by auto

text \<open>
  The registry cap evicts the oldest descriptors: for a cap that is not negative it returns exactly the
  surplus, all of them given, and none was seen later than one that stays.
\<close>

lemma registry_cap_evicts_oldest:
  assumes "0 \<le> n"
  shows "\<exists>victims. EnforceRegistryCap ds n = Some victims \<and> length victims = length ds - nat n \<and> mset victims \<subseteq># mset ds \<and>
    (\<forall>d \<in> set victims. \<forall>e \<in># mset ds - mset victims. \<not> After (DLastSeenAt d) (DLastSeenAt e))"
proof (cases "int (length ds) \<le> n")
  case True
  then show ?thesis by (auto simp: EnforceRegistryCap_def)
next
  case False
  let ?s = "exchange_sort older ds" and ?k = "length ds - nat n"
  have k: "nat (int (length ds) - n) = ?k" using False assms by linarith
  have split: "mset ds = mset (take ?k ?s) + mset (drop ?k ?s)"
    by (rule mset_take_drop [symmetric])
  then have "mset (take ?k ?s) \<subseteq># mset ds" "mset ds - mset (take ?k ?s) = mset (drop ?k ?s)" by simp_all
  moreover have "EnforceRegistryCap ds n = Some (take ?k ?s)" using False assms by (simp add: EnforceRegistryCap_def k)
  moreover have "\<not> older e d" if "d \<in> set (take ?k ?s)" "e \<in> set (drop ?k ?s)" for d e
    using that by (rule old_first.sorts_front)
  then have "\<forall>d \<in> set (take ?k ?s). \<forall>e \<in># mset (drop ?k ?s). \<not> After (DLastSeenAt d) (DLastSeenAt e)"
    unfolding older_def time_defs set_mset_mset by blast
  moreover have "length (take ?k ?s) = ?k" by simp
  ultimately show ?thesis by metis
qed

lemma registry_cap_evicts_oldest_example:
  "\<exists>victims. EnforceRegistryCap (map seen_at [3, 1, 2]) 2 = Some victims \<and> length victims = 1"
  using registry_cap_evicts_oldest [of 2 "map seen_at [3, 1, 2]"] by auto

subsection \<open>Descriptor frames\<close>

text \<open>The frames that a relay handles one after the other, each with the time and the peer it comes from.\<close>

fun descriptor_frames ::
  "'b bolt_api \<Rightarrow> (int \<Rightarrow> int) \<Rightarrow> 'b desc_db \<Rightarrow> desc_metrics \<Rightarrow> (gotime \<times> string \<times> RelayDescriptorFrame) list \<Rightarrow>
     desc_err + 'b desc_db \<times> desc_metrics" where
  "descriptor_frames api lo db m [] = Inr (db, m)"
| "descriptor_frames api lo db m ((now, peerID, frame) # rest) =
     bindE (HandleRelayDescriptors api lo now True db m peerID frame) (\<lambda>(db', m', err). descriptor_frames api lo db' m' rest)"

text \<open>What a frame keeps: the relays that are known, and the index that the rate limit counts.\<close>

definition same_relays :: "'b bolt_api \<Rightarrow> 'b desc_db \<Rightarrow> 'b desc_db \<Rightarrow> bool" where
  "same_relays api db db' \<longleftrightarrow> dom (bget api (BucketDescriptors db')) = dom (bget api (BucketDescriptors db)) \<and>
     BucketDescriptorPeerIndex db' = BucketDescriptorPeerIndex db"

lemma same_relays_refl [simp]: "same_relays api db db"
  by (simp add: same_relays_def)

lemma same_relays_trans: "same_relays api db db' \<Longrightarrow> same_relays api db' db'' \<Longrightarrow> same_relays api db db''"
  by (simp add: same_relays_def)

lemma put_known_peer_index:
  "bget api (BucketDescriptors db) (DRelayID d) \<noteq> None \<Longrightarrow> PutDescriptor api lo db d = (db', r) \<Longrightarrow>
     BucketDescriptorPeerIndex db' = BucketDescriptorPeerIndex db"
  by (cases r) (auto simp: PutDescriptor_def Let_def desc_update_def guardE_def split: sum.splits)

lemma scored_mset: "mset (map fst (exchange_sort lt (map (\<lambda>d. (d, f d)) ds))) = mset ds"
  unfolding mset_map [of fst] exchange_sort_mset by (simp add: multiset.map_comp comp_def)

lemma scored_sorted:
  "sorted_wrt (\<lambda>d e. \<not> After (f e) (f d)) (map fst (exchange_sort (\<lambda>s s'. After (snd s) (snd s')) (map (\<lambda>d. (d, f d)) ds)))"
  (is "sorted_wrt _ (map fst ?s)")
proof -
  have s: "snd x = f (fst x)" if "x \<in> set ?s" for x using that by auto
  show ?thesis
    unfolding sorted_wrt_map
  proof (rule sorted_wrt_mono_rel [OF _ score_first.sorts])
    fix x y
    assume "x \<in> set ?s" "y \<in> set ?s" and later: "\<not> After (snd y) (snd x)"
    then have x: "snd x = f (fst x)" and y: "snd y = f (fst y)" by (auto intro: s)
    show "\<not> After (f (fst y)) (f (fst x))" using later unfolding x y .
  qed
qed

lemma all_scan_alive: "all_scan lo now es = Inr ds \<Longrightarrow> d \<in> set ds \<Longrightarrow> \<not> IsExpired_descriptor now d"
proof (induction es arbitrary: ds)
  case (Cons e es)
  then show ?case by (cases e) (auto split: sum.splits if_splits)
qed simp

context bolt
begin

lemma GetAllDescriptors_returns:
  assumes "desc_inv api lo db"
  shows "\<exists>ds. GetAllDescriptors api lo now db = Inr ds"
  unfolding GetAllDescriptors_def
proof (rule all_scan_no_panic, clarify)
  fix k v
  assume "(k, v) \<in> set (bseek api (BucketDescriptors db) [])" and "DecodeDescriptor lo v = Inl DescPanic"
  then show False using assms Decode_no_panic unfolding desc_inv_def seek_entries by metis
qed

lemma dom_empty: "dom (bget api (bempty api)) = {}"
  by (simp add: dom_def get_empty)

lemma put_known_same_relays:
  assumes "bget api (BucketDescriptors db) (DRelayID d) \<noteq> None" and "PutDescriptor api lo db d = (db', r)"
  shows "same_relays api db db'"
  using put_known_peer_index [OF assms] assms PutDescriptor_Inr(1) [of lo db d db'] PutDescriptor_Inl [of lo db d db']
  by (cases r) (auto simp: same_relays_def insert_absorb domI)

lemma handle_descriptor_known:
  assumes "desc_inv api lo (FedDB st)"
  shows "\<exists>st'. handle_descriptor api lo peerID d st = Inr st' \<and> desc_inv api lo (FedDB st') \<and> same_relays api (FedDB st) (FedDB st')"
proof (cases "Validate_descriptor d")
  case (Inr desc)
  show ?thesis
  proof (cases "GetDescriptor api lo (FedDB st) (DRelayID desc)")
    case (Inl err)
    moreover have "err \<noteq> DescPanic"
      using Inl assms Decode_no_panic unfolding GetDescriptor_def desc_inv_def by (fastforce split: option.splits)
    ultimately show ?thesis using Inr assms by (simp add: handle_descriptor_def)
  next
    case known: (Inr existing)
    let ?d = "desc\<lparr>DFirstSeenAt := DFirstSeenAt existing, DAdvertisedBy := if DAdvertisedBy desc = [] then peerID else DAdvertisedBy desc\<rparr>"
    obtain db r where p: "PutDescriptor api lo (FedDB st) ?d = (db, r)" by fastforce
    have "bget api (BucketDescriptors (FedDB st)) (DRelayID ?d) \<noteq> None"
      using known by (auto simp: GetDescriptor_def split: option.splits)
    then have "same_relays api (FedDB st) db" using p by (rule put_known_same_relays)
    moreover have "desc_inv api lo db" using desc_inv_put [OF assms, of ?d] p by simp
    ultimately show ?thesis
      using Inr known assms p by (auto simp: handle_descriptor_def Let_def split: sum.splits if_splits)
  qed
qed (simp add: handle_descriptor_def assms)

lemma handle_descriptors_known:
  "desc_inv api lo (FedDB st) \<Longrightarrow> \<exists>st'. handle_descriptors api lo peerID ds st = Inr st' \<and> desc_inv api lo (FedDB st') \<and>
     same_relays api (FedDB st) (FedDB st')"
proof (induction ds arbitrary: st)
  case (Cons d ds)
  obtain st1 where 1: "handle_descriptor api lo peerID d st = Inr st1" "desc_inv api lo (FedDB st1)"
    "same_relays api (FedDB st) (FedDB st1)"
    using handle_descriptor_known [OF Cons.prems] by blast
  from Cons.IH [OF 1(2)] show ?case using 1 same_relays_trans by fastforce
qed simp

lemma HandleRelayDescriptors_known:
  assumes "desc_inv api lo db"
  shows "\<exists>db' m' err. HandleRelayDescriptors api lo now enabled db m peerID frame = Inr (db', m', err) \<and> desc_inv api lo db' \<and>
    same_relays api db db'"
proof -
  obtain st where "handle_descriptors api lo peerID (FrDescriptors frame)
      \<lparr>FedDB = db, FedMetrics = m\<lparr>DescriptorsReceived := Suc (DescriptorsReceived m)\<rparr>, FedAccepted = 0, FedRejected = 0\<rparr> = Inr st"
    "desc_inv api lo (FedDB st)" "same_relays api db (FedDB st)"
    using handle_descriptors_known [of lo "\<lparr>FedDB = db, FedMetrics = m\<lparr>DescriptorsReceived := Suc (DescriptorsReceived m)\<rparr>,
      FedAccepted = 0, FedRejected = 0\<rparr>"] assms by fastforce
  with assms show ?thesis by (simp add: HandleRelayDescriptors_def Let_def)
qed

lemma descriptor_frames_known:
  "desc_inv api lo db \<Longrightarrow> \<exists>db' m'. descriptor_frames api lo db m fs = Inr (db', m') \<and> same_relays api db db'"
proof (induction fs arbitrary: db m)
  case (Cons f fs)
  obtain now peerID frame where f: "f = (now, peerID, frame)" by (cases f)
  obtain db1 m1 err where 1: "HandleRelayDescriptors api lo now True db m peerID frame = Inr (db1, m1, err)" "desc_inv api lo db1"
    "same_relays api db db1"
    using HandleRelayDescriptors_known [OF Cons.prems] by metis
  from Cons.IH [OF 1(2), of m1] show ?case using f 1 same_relays_trans by fastforce
qed simp

end

text \<open>
  Claim C40. Frames of descriptors never introduce a relay: however many frames arrive from whichever
  peers, in a reached store they are all handled without a panic, the relays that are known stay the
  same, and so does the index that the rate limit counts.  A relay that starts with an empty registry
  therefore keeps it empty, since the handler takes the error of an unknown relay for a failed lookup.
\<close>

theorem frames_never_add_relays:
  assumes "bolt api"
  shows "(\<exists>db' m'. descriptor_frames api lo (desc_run api lo ops) m fs = Inr (db', m') \<and>
      dom (bget api (BucketDescriptors db')) = dom (bget api (BucketDescriptors (desc_run api lo ops))) \<and>
      GetPeerDescriptorCount api lo now db' peer = GetPeerDescriptorCount api lo now (desc_run api lo ops) peer) \<and>
    (\<exists>db' m'. descriptor_frames api lo (new_desc_db api) m fs = Inr (db', m') \<and> CountDescriptors api db' = 0)"
  using bolt.descriptor_frames_known [OF assms bolt.desc_inv_run [OF assms], of lo ops m fs]
    bolt.descriptor_frames_known [OF assms bolt.desc_inv_new [OF assms], of lo m fs]
  by (auto simp: same_relays_def GetPeerDescriptorCount_def bolt.CountDescriptors_card [OF assms] new_desc_db_def bolt.dom_empty [OF assms])

theorem frames_never_add_relays_witness:
  "\<exists>db' m'. descriptor_frames mem_bolt (\<lambda>_. 0) (new_desc_db mem_bolt) \<lparr>DescriptorsReceived = 0, DescriptorsAccepted = 0,
      DescriptorsRejectedRateLimit = 0, DescriptorsRejectedValidation = 0, DescriptorsRegistrySize = 0\<rparr>
      [(DLastSeenAt sample_desc, ''p1'', \<lparr>FrType = ''relay_descriptors'', FrDescriptors = [sample_desc]\<rparr>)] = Inr (db', m') \<and>
    CountDescriptors mem_bolt db' = 0"
  using frames_never_add_relays [OF mem_bolt_laws] by blast

text \<open>
  The descriptors shared with a peer are the freshest that are alive: for a limit that is not negative
  the list returns, within the limit, unexpired descriptors of the registry, those last seen most recently
  first, and nothing fresher is left out; a negative limit panics at the allocation.
\<close>

lemma shared_descriptors_freshest:
  assumes "bolt api"
  shows "\<exists>all. GetAllDescriptors api lo now (desc_run api lo ops) = Inr all \<and> (\<forall>d \<in> set all. \<not> IsExpired_descriptor now d) \<and>
    (if limit < 0 then GetDescriptorsForGossip api lo now (desc_run api lo ops) limit = Inl DescPanic
     else \<exists>shared left. GetDescriptorsForGossip api lo now (desc_run api lo ops) limit = Inr shared \<and>
       length shared = min (nat limit) (length all) \<and> mset shared + mset left = mset all \<and>
       sorted_wrt (\<lambda>d e. \<not> After (DLastSeenAt e) (DLastSeenAt d)) (shared @ left))"
proof -
  obtain all where all: "GetAllDescriptors api lo now (desc_run api lo ops) = Inr all"
    using bolt.GetAllDescriptors_returns [OF assms bolt.desc_inv_run [OF assms]] by blast
  let ?s = "exchange_sort (\<lambda>s s'. After (snd s) (snd s')) (map (\<lambda>d. (d, DLastSeenAt d)) all)"
  let ?shared = "map fst (take (nat limit) ?s)" and ?left = "map fst (drop (nat limit) ?s)"
  have parts: "?shared @ ?left = map fst ?s" by (metis append_take_drop_id map_append)
  have "sorted_wrt (\<lambda>d e. \<not> After (DLastSeenAt e) (DLastSeenAt d)) (?shared @ ?left)"
    unfolding parts by (rule scored_sorted)
  moreover have "mset ?shared + mset ?left = mset all"
    unfolding mset_append [symmetric] parts by (rule scored_mset)
  moreover have "length ?shared = min (nat limit) (length all)" by (simp add: min.commute)
  moreover have "GetDescriptorsForGossip api lo now (desc_run api lo ops) limit = (if limit < 0 then Inl DescPanic else Inr ?shared)"
    by (simp add: GetDescriptorsForGossip_def all Let_def min_def)
  moreover have "\<forall>d \<in> set all. \<not> IsExpired_descriptor now d"
    using all all_scan_alive unfolding GetAllDescriptors_def by blast
  ultimately show ?thesis
    using all by (cases "limit < 0") (auto intro!: exI [of _ ?left])
qed

lemma shared_descriptors_freshest_example:
  "\<exists>shared. GetDescriptorsForGossip mem_bolt (\<lambda>_. 0) zero_time (desc_run mem_bolt (\<lambda>_. 0) [DPut sample_desc]) 10 = Inr shared"
  using shared_descriptors_freshest [OF mem_bolt_laws, of "\<lambda>_. 0" zero_time "[DPut sample_desc]" 10] by auto

end
