(* ===== verification/Background.thy ===== *)
theory Background
  imports Maintenance Descriptor_Exchange
begin

text \<open>
  The goroutines that repeat a sweep or a gossip round (\<^verbatim>\<open>Start\<close> of \<^verbatim>\<open>internal/store/ttl_sweeper.go\<close>,
  \<^verbatim>\<open>envelope_sweeper.go\<close> and \<^verbatim>\<open>descriptor_sweeper.go\<close>, \<^verbatim>\<open>Run\<close> of \<^verbatim>\<open>internal/gossip/gossip.go\<close>): a \<open>select\<close> over a ticker, the channel that
  \<^verbatim>\<open>Stop\<close> closes and the context.  The events are the operations of the other goroutines and the cases that the
  \<open>select\<close> takes, one of those that are ready.  The interval is positive: \<^verbatim>\<open>NewTicker\<close> panics otherwise.
\<close>

subsection \<open>The loops\<close>

record 's background =
  bgState :: 's
  stopCh :: bool
  bgCancelled :: bool
  looping :: bool

datatype bg_event = BgTick gotime | BgStop | BgCancel | BgWakeStop | BgWakeCancel

text \<open>
  \<open>selects_stop\<close> says whether the \<open>select\<close> has a case for the channel, \<open>work\<close> is what a tick does.  \<open>None\<close> is a panic, in
  the work or by closing the channel twice, or a work that does not return.
\<close>

fun bg_step :: "bool \<Rightarrow> (gotime \<Rightarrow> 's \<Rightarrow> 's option) \<Rightarrow> 's background \<Rightarrow> bg_event \<Rightarrow> 's background option" where
  "bg_step selects_stop work b (BgTick now) =
     (if looping b then map_option (\<lambda>s. b\<lparr>bgState := s\<rparr>) (work now (bgState b)) else Some b)"
| "bg_step selects_stop work b BgStop = (if stopCh b then None else Some (b\<lparr>stopCh := True\<rparr>))"
| "bg_step selects_stop work b BgCancel = Some (b\<lparr>bgCancelled := True\<rparr>)"
| "bg_step selects_stop work b BgWakeStop = Some (if selects_stop \<and> stopCh b then b\<lparr>looping := False\<rparr> else b)"
| "bg_step selects_stop work b BgWakeCancel = Some (if bgCancelled b then b\<lparr>looping := False\<rparr> else b)"

fun bg_run :: "bool \<Rightarrow> (gotime \<Rightarrow> 's \<Rightarrow> 's option) \<Rightarrow> 's background \<Rightarrow> bg_event list \<Rightarrow> 's background option" where
  "bg_run selects_stop work b [] = Some b"
| "bg_run selects_stop work b (ev # evs) = (case bg_step selects_stop work b ev of None \<Rightarrow> None | Some b \<Rightarrow> bg_run selects_stop work b evs)"

definition new_background :: "'s \<Rightarrow> 's background" where
  "new_background s = \<lparr>bgState = s, stopCh = False, bgCancelled = False, looping = True\<rparr>"

text \<open>The message and the descriptor sweeper and the gossip engine work once before the loop; the envelope sweeper does not.\<close>

definition message_work :: "'d Store \<Rightarrow> gotime \<Rightarrow> 'd \<Rightarrow> 'd option" where
  "message_work st now d = map_option fst (sweep_messages st now d)"

definition Start_messages :: "'d Store \<Rightarrow> gotime \<Rightarrow> 'd \<Rightarrow> bg_event list \<Rightarrow> 'd background option" where
  "Start_messages st now d evs = (case message_work st now d of
     None \<Rightarrow> None
   | Some d \<Rightarrow> bg_run True (message_work st) (new_background d) evs)"

definition envelope_work :: "'e EnvelopeStore \<Rightarrow> gotime \<Rightarrow> 'e \<Rightarrow> 'e option" where
  "envelope_work es now ed = Some (fst (sweep_envelopes es now ed))"

definition Start_envelopes :: "'e EnvelopeStore \<Rightarrow> 'e \<Rightarrow> bg_event list \<Rightarrow> 'e background option" where
  "Start_envelopes es ed evs = bg_run False (envelope_work es) (new_background ed) evs"

definition descriptor_work :: "'b bolt_api \<Rightarrow> (int \<Rightarrow> int) \<Rightarrow> gotime \<Rightarrow> 'b desc_db \<Rightarrow> 'b desc_db option" where
  "descriptor_work api lo now db = (case sweep_descriptors api lo now db of (db', Inl _) \<Rightarrow> None | (db', Inr _) \<Rightarrow> Some db')"

definition Start_descriptors :: "'b bolt_api \<Rightarrow> (int \<Rightarrow> int) \<Rightarrow> gotime \<Rightarrow> 'b desc_db \<Rightarrow> bg_event list \<Rightarrow> 'b desc_db background option" where
  "Start_descriptors api lo now db evs = (case descriptor_work api lo now db of
     None \<Rightarrow> None
   | Some db \<Rightarrow> bg_run True (descriptor_work api lo) (new_background db) evs)"

text \<open>A round of gossip only reads; its random choices are those of the time of the round.\<close>

definition gossip_work :: "'b bolt_api \<Rightarrow> (int \<Rightarrow> int) \<Rightarrow> (gotime \<Rightarrow> nat \<Rightarrow> nat) \<Rightarrow> gotime \<Rightarrow> 'b desc_db \<Rightarrow> 'b desc_db option" where
  "gossip_work api lo rnd now db = (if gossipDescriptors api lo now (rnd now) db = Inl DescPanic then None else Some db)"

definition Run_gossip ::
  "'b bolt_api \<Rightarrow> (int \<Rightarrow> int) \<Rightarrow> (gotime \<Rightarrow> nat \<Rightarrow> nat) \<Rightarrow> bool \<Rightarrow> gotime \<Rightarrow> 'b desc_db \<Rightarrow> bg_event list \<Rightarrow> 'b desc_db background option" where
  "Run_gossip api lo rnd enabled now db evs =
     (if \<not> enabled then bg_run True (gossip_work api lo rnd) ((new_background db)\<lparr>looping := False\<rparr>) evs
      else case gossip_work api lo rnd now db of
             None \<Rightarrow> None
           | Some db \<Rightarrow> bg_run True (gossip_work api lo rnd) (new_background db) evs)"

subsection \<open>What every loop keeps\<close>

text \<open>A work that goes through from the states of an invariant and keeps it.\<close>

locale steady_work =
  fixes work :: "gotime \<Rightarrow> 's \<Rightarrow> 's option" and inv :: "'s \<Rightarrow> bool"
  assumes steady: "inv s \<Longrightarrow> \<exists>s'. work now s = Some s' \<and> inv s'"
begin

text \<open>The only way to panic is to stop twice.\<close>

lemma bg_run_steady:
  assumes "inv (bgState b)" and "count_list evs BgStop \<le> (if stopCh b then 0 else 1)"
  shows "\<exists>b'. bg_run sel work b evs = Some b' \<and> inv (bgState b') \<and> (BgWakeStop \<notin> set evs \<or> \<not> sel \<longrightarrow> BgCancel \<notin> set evs \<longrightarrow> \<not> bgCancelled b \<longrightarrow> looping b' = looping b)"
  using assms
proof (induction evs arbitrary: b)
  case (Cons ev evs)
  show ?case
  proof (cases ev)
    case (BgTick now)
    obtain s where s: "work now (bgState b) = Some s" "inv s" using steady [OF Cons.prems(1)] by blast
    have "inv (bgState (if looping b then b\<lparr>bgState := s\<rparr> else b))" using s Cons.prems(1) by simp
    from Cons.IH [OF this] Cons.prems(2) BgTick s(1) show ?thesis by (auto split: if_splits)
  next
    case BgStop
    with Cons.prems have "\<not> stopCh b" by (auto split: if_splits)
    with Cons.IH [of "b\<lparr>stopCh := True\<rparr>"] Cons.prems BgStop show ?thesis by auto
  next
    case BgCancel
    with Cons.IH [of "b\<lparr>bgCancelled := True\<rparr>"] Cons.prems show ?thesis by auto
  next
    case BgWakeStop
    with Cons.IH [of b] Cons.IH [of "b\<lparr>looping := False\<rparr>"] Cons.prems show ?thesis by auto
  next
    case BgWakeCancel
    with Cons.IH [of b] Cons.IH [of "b\<lparr>looping := False\<rparr>"] Cons.prems show ?thesis by auto
  qed
qed simp

lemma new_background_steady:
  assumes "inv s" and "count_list evs BgStop \<le> 1"
  shows "\<exists>b. bg_run sel work ((new_background s)\<lparr>looping := l\<rparr>) evs = Some b" and "\<exists>b. bg_run sel work (new_background s) evs = Some b"
  using bg_run_steady [of "(new_background s)\<lparr>looping := l\<rparr>" evs sel] bg_run_steady [of "new_background s" evs sel] assms
  by (auto simp: new_background_def)

lemma start_steady:
  assumes "inv s" and "count_list evs BgStop \<le> 1"
  shows "\<exists>b. (case work now s of None \<Rightarrow> None | Some s \<Rightarrow> bg_run sel work (new_background s) evs) = Some b"
  using steady [OF assms(1), of now] new_background_steady(2) [OF _ assms(2), of _ sel] by auto

end

text \<open>Once the loop has returned nothing it did is undone or added to.\<close>

lemma ended_step: "bg_step sel work b ev = Some b' \<Longrightarrow> \<not> looping b \<Longrightarrow> bgState b' = bgState b \<and> \<not> looping b'"
  by (cases ev) (auto split: if_splits)

lemma ended_loop_changes_nothing: "bg_run sel work b evs = Some b' \<Longrightarrow> \<not> looping b \<Longrightarrow> bgState b' = bgState b \<and> \<not> looping b'"
proof (induction evs arbitrary: b)
  case (Cons ev evs)
  then obtain b1 where "bg_step sel work b ev = Some b1" "bg_run sel work b1 evs = Some b'" by (auto split: option.splits)
  with ended_step [of sel work b ev b1] Cons.IH [of b1] Cons.prems(2) show ?case by simp
qed simp

lemma bg_run_append:
  "bg_run sel work b (evs @ evs') = (case bg_run sel work b evs of None \<Rightarrow> None | Some b' \<Rightarrow> bg_run sel work b' evs')"
  by (induction evs arbitrary: b) (auto split: option.splits)

subsection \<open>The works of the relay are steady\<close>

lemma selectSample_defined: "0 \<le> n \<Longrightarrow> selectSample rnd ds n \<noteq> None"
  using fresh_count_bounds [of n] by (auto simp: selectSample_def Let_def min_def)

interpretation envelopes: steady_work "envelope_work es" "\<lambda>_. True" for es
  by unfold_locales (simp add: envelope_work_def)

sublocale bolt_cursor \<subseteq> messages: steady_work "message_work (bbolt_store api lo)" "\<lambda>_. True" for lo
proof
  fix d now
  show "\<exists>d'. message_work (bbolt_store api lo) now d = Some d' \<and> True"
  proof (cases "GetExpiredMessages api lo d now")
    case (Inl e)
    then show ?thesis by (simp add: message_work_def sweep_messages_def)
  next
    case (Inr expired)
    with prune.sweep_messages_effect [of lo d now expired] show ?thesis by (auto simp: message_work_def)
  qed
qed

sublocale bolt \<subseteq> descriptors: steady_work "descriptor_work api lo" "desc_inv api lo" for lo
proof
  fix db now
  assume "desc_inv api lo db"
  then show "\<exists>db'. descriptor_work api lo now db = Some db' \<and> desc_inv api lo db'"
    by (rule sweep_descriptors_removes [of lo db now]) (simp add: descriptor_work_def)
qed

sublocale bolt \<subseteq> gossip: steady_work "gossip_work api lo rnd" "desc_inv api lo" for lo rnd
proof
  fix db now
  assume inv: "desc_inv api lo db"
  from GetAllDescriptors_returns [OF inv, of now] obtain ds where "GetAllDescriptors api lo now db = Inr ds" by blast
  moreover have "selectSample (rnd now) ds GossipSampleSize \<noteq> None" by (rule selectSample_defined) simp
  ultimately show "\<exists>db'. gossip_work api lo rnd now db = Some db' \<and> desc_inv api lo db'"
    using inv by (auto simp: gossip_work_def gossipDescriptors_def split: option.splits)
qed

context bolt_cursor
begin

lemmas steady_messages = messages.steady_work_axioms

end

context bolt
begin

lemmas steady_descriptors = descriptors.steady_work_axioms and steady_gossip = gossip.steady_work_axioms

end

interpretation mem_messages: steady_work "message_work (bbolt_store mem_bolt lo)" "\<lambda>_. True" for lo
  by (rule mem.messages.steady_work_axioms)

subsection \<open>What stopping does\<close>

text \<open>
  A background loop of the stores never fails: in every run in which \<^verbatim>\<open>Stop\<close> is called at most once no sweep and no
  round of gossip panics or hangs, from every database the stores can reach.
\<close>

lemma background_loops_never_fail:
  assumes "bolt_cursor api" and "count_list evs BgStop \<le> 1"
  shows "\<exists>b. Start_messages (bbolt_store api lo) now d evs = Some b"
    and "\<exists>b. Start_envelopes es ed evs = Some b"
    and "\<exists>b. Start_descriptors api lo now (desc_run api lo ops) evs = Some b"
    and "\<exists>b. Run_gossip api lo rnd enabled now (desc_run api lo ops) evs = Some b"
proof -
  have b: "bolt api" using assms(1) by (simp add: bolt_cursor_def)
  note inv = bolt.desc_inv_run [OF b, of lo ops]
  note m = steady_work.start_steady [OF bolt_cursor.steady_messages [OF assms(1)]] and e = steady_work.new_background_steady(2) [OF envelopes.steady_work_axioms]
    and d = steady_work.start_steady [OF bolt.steady_descriptors [OF b] inv assms(2)]
    and g = steady_work.start_steady [OF bolt.steady_gossip [OF b] inv assms(2)] steady_work.new_background_steady(1) [OF bolt.steady_gossip [OF b] inv assms(2)]
  show "\<exists>b. Start_messages (bbolt_store api lo) now d evs = Some b" unfolding Start_messages_def by (rule m [OF TrueI assms(2)])
  show "\<exists>b. Start_envelopes es ed evs = Some b" unfolding Start_envelopes_def by (rule e [OF TrueI assms(2)])
  show "\<exists>b. Start_descriptors api lo now (desc_run api lo ops) evs = Some b" unfolding Start_descriptors_def by (rule d)
  show "\<exists>b. Run_gossip api lo rnd enabled now (desc_run api lo ops) evs = Some b"
    unfolding Run_gossip_def by (cases enabled) (simp_all only: g if_True if_False not_True_eq_False not_False_eq_True)
qed

text \<open>
  Stopping ends the loop of the message sweeper as soon as its \<open>select\<close> sees it, and the store is left alone from then on.
\<close>

lemma stopped_message_sweeper_ends:
  assumes "Start_messages st now d (evs @ [BgStop, BgWakeStop]) = Some b"
    and "Start_messages st now d (evs @ [BgStop, BgWakeStop] @ evs') = Some b'"
  shows "\<not> looping b \<and> bgState b' = bgState b"
proof -
  obtain s where s: "message_work st now d = Some s" "bg_run True (message_work st) (new_background s) (evs @ [BgStop, BgWakeStop]) = Some b"
    using assms(1) by (auto simp: Start_messages_def split: option.splits)
  then have b: "\<not> looping b" by (auto simp: bg_run_append split: option.splits if_splits)
  have "bg_run True (message_work st) (new_background s) ((evs @ [BgStop, BgWakeStop]) @ evs') = Some b'"
    using assms(2) s(1) by (simp add: Start_messages_def)
  then have "bg_run True (message_work st) b evs' = Some b'" using s(2) unfolding bg_run_append by simp
  with ended_loop_changes_nothing b show ?thesis by blast
qed

text \<open>
  The envelope sweeper has no case for its own channel: until its context ends it goes on sweeping, stopped or not.
\<close>

lemma envelope_sweeper_ignores_stop:
  assumes "count_list evs BgStop \<le> 1" and "BgCancel \<notin> set evs"
  shows "\<exists>b. Start_envelopes es ed evs = Some b \<and> looping b \<and>
    Start_envelopes es ed (evs @ [BgTick now]) = Some (b\<lparr>bgState := fst (sweep_envelopes es now (bgState b))\<rparr>)"
proof -
  obtain b where "bg_run False (envelope_work es) (new_background ed) evs = Some b" "looping b"
    using envelopes.bg_run_steady [where b = "new_background ed" and evs = evs and sel = False and es = es] assms by (auto simp: new_background_def)
  then show ?thesis by (simp add: Start_envelopes_def bg_run_append envelope_work_def)
qed

end
