(* ===== verification/Write_Pumps.thy ===== *)
theory Write_Pumps
  imports Relay_Prelude "HOL-Library.Sublist"
begin

text \<open>
  The goroutines that write to connections: \<^verbatim>\<open>writePump\<close> of the WebSocket endpoint (\<^verbatim>\<open>internal/api/ws.go\<close>), which
  empties the channel \<open>Send\<close> of a client, and \<^verbatim>\<open>writeLoop\<close> of a federation link (\<^verbatim>\<open>internal/federation/peering.go\<close>), which only
  sends heartbeats.  A step is one round of the loop or one operation of another goroutine on the channel;
  whether a write to the connection succeeds is part of the event.
\<close>

subsection \<open>The write pump of a client\<close>

datatype wire_msg = WireBinary bytes | WirePing | WireClose

record pump =
  sendQueue :: "bytes list"
  sendClosed :: bool
  pumpDone :: bool
  onWire :: "wire_msg list"

abbreviation sendCapacity :: nat where "sendCapacity \<equiv> 256"

definition new_pump :: pump where
  "new_pump = \<lparr>sendQueue = [], sendClosed = False, pumpDone = False, onWire = []\<rparr>"

text \<open>
  \<open>Offer\<close> is the moment at which the \<open>select\<close> of \<^verbatim>\<open>sendBinary\<close> decides: the frame is queued if there is room, otherwise the
  timer has fired; on a closed channel the panic is recovered.  \<open>Take\<close> and \<open>Heartbeat\<close> are rounds of the pump.
\<close>

datatype pump_event = Offer bytes | CloseSend | Take bool | Heartbeat bool

definition offer :: "bytes \<Rightarrow> pump \<Rightarrow> pump \<times> bool" where
  "offer data p =
     (if sendClosed p then (p, False)
      else if length (sendQueue p) < sendCapacity then (p\<lparr>sendQueue := sendQueue p @ [data]\<rparr>, True)
      else (p, False))"

definition pump_take :: "bool \<Rightarrow> pump \<Rightarrow> pump" where
  "pump_take ok p = (case sendQueue p of
     message # rest \<Rightarrow>
       if ok then p\<lparr>sendQueue := rest, onWire := onWire p @ [WireBinary message]\<rparr> else p\<lparr>sendQueue := rest, pumpDone := True\<rparr>
   | [] \<Rightarrow>
       if sendClosed p then p\<lparr>onWire := (if ok then onWire p @ [WireClose] else onWire p), pumpDone := True\<rparr> else p)"

definition pump_heartbeat :: "bool \<Rightarrow> pump \<Rightarrow> pump" where
  "pump_heartbeat ok p = (if ok then p\<lparr>onWire := onWire p @ [WirePing]\<rparr> else p\<lparr>pumpDone := True\<rparr>)"

fun pump_step :: "pump \<Rightarrow> pump_event \<Rightarrow> pump" where
  "pump_step p (Offer data) = fst (offer data p)"
| "pump_step p CloseSend = p\<lparr>sendClosed := True\<rparr>"
| "pump_step p (Take ok) = (if pumpDone p then p else pump_take ok p)"
| "pump_step p (Heartbeat ok) = (if pumpDone p then p else pump_heartbeat ok p)"

definition pump_run :: "pump_event list \<Rightarrow> pump" where
  "pump_run evs = foldl pump_step new_pump evs"

text \<open>The frames that \<^verbatim>\<open>sendBinary\<close> reported as queued, and those that reached the connection.\<close>

fun queued_frames :: "pump \<Rightarrow> pump_event list \<Rightarrow> bytes list" where
  "queued_frames p [] = []"
| "queued_frames p (Offer data # evs) = (if snd (offer data p) then [data] else []) @ queued_frames (fst (offer data p)) evs"
| "queued_frames p (ev # evs) = queued_frames (pump_step p ev) evs"

fun frames_of :: "wire_msg list \<Rightarrow> bytes list" where
  "frames_of [] = []"
| "frames_of (WireBinary data # ms) = data # frames_of ms"
| "frames_of (m # ms) = frames_of ms"

definition writes_succeed :: "pump_event list \<Rightarrow> bool" where
  "writes_succeed evs \<longleftrightarrow> Take False \<notin> set evs \<and> Heartbeat False \<notin> set evs"

subsection \<open>The heartbeat of a federation link\<close>

datatype loop_event = LinkDone | LinkTick bool

text \<open>The number of pings written, and whether the loop still runs.\<close>

fun writeLoop :: "loop_event list \<Rightarrow> nat \<times> bool" where
  "writeLoop [] = (0, True)"
| "writeLoop (LinkDone # evs) = (0, False)"
| "writeLoop (LinkTick ok # evs) = (if ok then (case writeLoop evs of (n, running) \<Rightarrow> (Suc n, running)) else (0, False))"

subsection \<open>Order\<close>

lemma frames_of_append [simp]: "frames_of (xs @ ys) = frames_of xs @ frames_of ys"
  by (induction xs rule: frames_of.induct) auto

text \<open>
  Of a pump at some point and a list of frames queued so far: what is on the wire and what is queued are those
  frames in order, but for one that a failed write may have lost, after which nothing is written.
\<close>

definition pump_keeps :: "bytes list \<Rightarrow> pump \<Rightarrow> bool" where
  "pump_keeps qs p \<longleftrightarrow> (if pumpDone p then prefix (frames_of (onWire p)) qs else qs = frames_of (onWire p) @ sendQueue p)"

lemma pump_keeps_step:
  assumes "pump_keeps qs p"
  shows "pump_keeps (qs @ queued_frames p [ev]) (pump_step p ev)"
proof (cases ev)
  case (Take ok)
  show ?thesis
  proof (cases "pumpDone p")
    case False
    with assms have "qs = frames_of (onWire p) @ sendQueue p" by (simp add: pump_keeps_def)
    then show ?thesis using False Take by (auto simp: pump_keeps_def pump_take_def split: list.splits)
  qed (use assms Take in simp)
qed (use assms in \<open>auto simp: pump_keeps_def offer_def pump_heartbeat_def split: if_splits\<close>)

lemma queued_frames_Cons: "queued_frames p (ev # evs) = queued_frames p [ev] @ queued_frames (pump_step p ev) evs"
  by (cases ev) auto

lemma pump_keeps_run: "pump_keeps qs p \<Longrightarrow> pump_keeps (qs @ queued_frames p evs) (foldl pump_step p evs)"
proof (induction evs arbitrary: qs p)
  case (Cons ev evs)
  from Cons.IH [OF pump_keeps_step [OF Cons.prems, of ev]] show ?case by (simp only: queued_frames_Cons [of p ev evs] foldl.simps append_assoc)
qed simp

text \<open>While writes succeed the pump ends only by the close frame, after everything queued.\<close>

definition pump_clean :: "bytes list \<Rightarrow> pump \<Rightarrow> bool" where
  "pump_clean qs p \<longleftrightarrow> qs = frames_of (onWire p) @ sendQueue p \<and>
     (pumpDone p \<longrightarrow> sendClosed p \<and> sendQueue p = [] \<and> (\<exists>before. onWire p = before @ [WireClose])) \<and> (\<not> pumpDone p \<longrightarrow> WireClose \<notin> set (onWire p))"

lemma pump_clean_step:
  assumes "pump_clean qs p" and "ev \<noteq> Take False" and "ev \<noteq> Heartbeat False"
  shows "pump_clean (qs @ queued_frames p [ev]) (pump_step p ev)"
proof (cases ev)
  case (Take ok)
  with assms show ?thesis by (auto simp: pump_clean_def pump_take_def split: list.splits)
next
  case (Heartbeat ok)
  with assms show ?thesis by (auto simp: pump_clean_def pump_heartbeat_def)
qed (use assms(1) in \<open>auto simp: pump_clean_def offer_def split: if_splits\<close>)

lemma pump_clean_run: "pump_clean qs p \<Longrightarrow> writes_succeed evs \<Longrightarrow> pump_clean (qs @ queued_frames p evs) (foldl pump_step p evs)"
proof (induction evs arbitrary: qs p)
  case (Cons ev evs)
  then have "pump_clean (qs @ queued_frames p [ev]) (pump_step p ev)" by (intro pump_clean_step) (auto simp: writes_succeed_def)
  moreover have "writes_succeed evs" using Cons.prems(2) by (simp add: writes_succeed_def)
  ultimately show ?case using Cons.IH by (simp only: queued_frames_Cons [of p ev evs] foldl.simps) (metis append_assoc)
qed simp

text \<open>
  Claim C29. What the endpoint queues for a client arrives in order: in every interleaving of sends, the close of the channel,
  heartbeats and rounds of the pump, failed writes included, the frames written to the connection are a prefix of the frames
  queued; and if no write fails and the pump has ended, every queued frame was written and the close frame came last.
\<close>

theorem pump_writes_in_order:
  "prefix (frames_of (onWire (pump_run evs))) (queued_frames new_pump evs) \<and>
   (writes_succeed evs \<and> pumpDone (pump_run evs) \<longrightarrow>
     frames_of (onWire (pump_run evs)) = queued_frames new_pump evs \<and> (\<exists>before. onWire (pump_run evs) = before @ [WireClose]))"
proof -
  have new: "pump_keeps [] new_pump" "pump_clean [] new_pump" by (simp_all add: pump_keeps_def pump_clean_def new_pump_def)
  from pump_keeps_run [OF new(1), of evs] have "prefix (frames_of (onWire (pump_run evs))) (queued_frames new_pump evs)"
    by (auto simp: pump_keeps_def pump_run_def split: if_splits)
  moreover from pump_clean_run [OF new(2), of evs]
  have "writes_succeed evs \<Longrightarrow> pump_clean (queued_frames new_pump evs) (pump_run evs)" by (simp add: pump_run_def)
  ultimately show ?thesis by (auto simp: pump_clean_def)
qed

theorem pump_writes_in_order_witness:
  "frames_of (onWire (pump_run [Offer ''a'', Offer ''b'', Take True, CloseSend, Heartbeat True, Take True, Take True])) = [''a'', ''b'']"
  using pump_writes_in_order [of "[Offer ''a'', Offer ''b'', Take True, CloseSend, Heartbeat True, Take True, Take True]"]
  by (simp add: writes_succeed_def pump_run_def new_pump_def offer_def pump_take_def pump_heartbeat_def)

text \<open>The heartbeat of a link ends with the link or with the first ping that fails, and pings once a round until then.\<close>

lemma writeLoop_runs: "snd (writeLoop evs) \<longleftrightarrow> (\<forall>ev \<in> set evs. ev = LinkTick True)"
  by (induction evs rule: writeLoop.induct) (auto split: prod.splits)

lemma writeLoop_pings: "fst (writeLoop evs) = length (takeWhile (\<lambda>ev. ev = LinkTick True) evs)"
  by (induction evs rule: writeLoop.induct) (auto split: prod.splits)

end
