(* ===== verification/Spec2Isabelle.thy ===== *)
theory Spec2Isabelle
  imports Peering_Relay Peer_Directory WS_Receipts Relay_Server Background Write_Pumps
begin

text \<open>
  A verification development of the Aethos relay, a store-and-forward relay written in Go.

  \<^bold>\<open>The program.\<close>  Clients connect over WebSocket (\<^verbatim>\<open>internal/api/ws.go\<close>) and speak the binary gossip protocol of
  \<^verbatim>\<open>internal/gossipv1\<close>: HELLO, SUMMARY, REQUEST, TRANSFER, RECEIPT and RELAY_INGEST frames, each a length and a CBOR map.
  Items are signed envelopes named by the SHA-256 of their bytes.  The relay keeps messages and envelopes in two
  bbolt databases (\<^verbatim>\<open>internal/store\<close>), decides through the store-and-forward engine (\<^verbatim>\<open>internal/storeforward\<close>) what is
  accepted, offered, delivered and acknowledged, and exchanges items with other relays over federation links
  (\<^verbatim>\<open>internal/federation/peering.go\<close>).  Around this core stand the registry of connected clients (\<^verbatim>\<open>internal/model\<close>), the
  sweepers, the store and the gossip of relay descriptors (\<^verbatim>\<open>internal/gossip\<close>, \<^verbatim>\<open>internal/api/relay_federation.go\<close>), the traffic
  shaping of \<^verbatim>\<open>internal/federation/tar.go\<close>, the scores of peers and relays (\<^verbatim>\<open>internal/scoring\<close>), the HTTP
  endpoints and the command (\<^verbatim>\<open>cmd/relay/main.go\<close>).

  \<^bold>\<open>The theories, in the order in which they build on each other.\<close>

  \<^item> \<open>Relay_Prelude\<close>: error passing, signed 64-bit arithmetic and the list facts everything shares.  \<open>Go_Base\<close>, \<open>Go_Time\<close>,
    \<open>Time_Parse\<close>, \<open>Float64\<close>, \<open>Base64\<close>, \<open>Sha256\<close>: what the code uses of Go's standard library, as executable definitions with their
    inverse laws; \<open>Base64\<close> also has \<^verbatim>\<open>internal/model/payload_b64.go\<close>.  \<open>Exchange_Sort\<close>: the pair of loops the code sorts
    with, for any strict weak order (locale \<open>weak_order\<close>).
  \<^item> \<open>Digest_Ids\<close>, \<open>Gossip_Values\<close>, \<open>Summary\<close>, \<open>Transfer_Objects\<close>, \<open>Frames\<close>: \<^verbatim>\<open>gossipv1/protocol.go\<close> from ids to frames.  Shown: the order of
    ids is the order of their bytes and of the store's keys; an id put into a Bloom filter is found; a transfer object that
    is accepted is authentic, and the others are rejected with a diagnosis.
  \<^item> \<open>Session\<close> and \<open>Drain\<close>: the session adapter (\<^verbatim>\<open>gossipv1/session.go\<close>) as a function on the buffered state, and the budgets of a drain
    (\<^verbatim>\<open>gossipv1/drain_session.go\<close>).  Shown: the events do not depend on how the stream was cut into chunks; the adapter refines
    a specification on whole frames; invariants of its state by the locale \<open>frame_invariant\<close>; nothing follows a fatal event.
  \<^item> \<open>Codec\<close>, \<open>Bolt\<close>, \<open>Message_Store\<close>, \<open>Envelope_Store\<close>, \<open>Store_Interfaces\<close>, \<open>Maintenance\<close>: records and keys, the interface of bbolt as the
    locale \<open>bolt\<close> (with a list-based bucket as its instance), every method of the two stores, the Go interfaces as
    records of operations with the locales \<open>message_store\<close> and \<open>envelope_store\<close> as their contracts, and the sweepers.  Shown:
    codec round trips, what each method reads and writes, that pages of a destination list exactly its live items.
  \<^item> \<open>Engine\<close>: the store-and-forward engine, proved under the contracts of the stores.  Shown: an acknowledged item is not pulled again, an
    ingest signal is emitted and a forward is granted at most once (locale \<open>at_most_once\<close>), an accepted forward is
    durable, hops are bounded.
  \<^item> \<open>Registry\<close>, \<open>WS_State\<close>, \<open>WS_Handler\<close>, \<open>WS_Serving\<close>, \<open>WS_Sessions\<close>, \<open>WS_Delivery\<close>, \<open>WS_Receipts\<close>, \<open>WS_Exchange\<close>, \<open>Write_Pumps\<close>: the endpoint of the clients.  \<open>server_step\<close> is
    one message, timer, connection or registry operation, and a run is a list of them in any order.  Shown: transfers reach only
    their addressee, the registry holds exactly the authenticated sessions, summaries offer exactly what waits,
    accepted transfers can be served, a REQUEST lists exactly what neither store has, what a client acknowledged stays
    acknowledged in every later run (locale \<open>server_keeps\<close>), pushes are debounced, a client's frames are written in the order they were queued.
  \<^item> \<open>Scoring\<close>: peer metrics, forwarding by score, relay scores, the publish width and the scoring service, in the rounding arithmetic of
    \<open>Float64\<close>.  Shown: scores stay between zero and one and the width between its bounds in every run, and a selection is a best one.
  \<^item> \<open>Peering\<close>, \<open>Peering_Links\<close>, \<open>Peering_Runs\<close>, \<open>Peering_Relay\<close>, \<open>Peer_Directory\<close>: the federation, with \<open>fed_step\<close> as its step.  Shown: what is sent to relays is
    authentic, registered links are identified, urls are not forgotten, dials back off and end, transfers are not echoed, what
    is acknowledged is served, the two copies of the item code, translated each on its own, agree, and
    \<^verbatim>\<open>/federation/peers\<close> lists exactly the registered links.
  \<^item> \<open>Rate_Limiter\<close>, \<open>Traffic\<close>, \<open>Descriptor_Store\<close>, \<open>Descriptor_Exchange\<close>, \<open>Relay_Server\<close>: the limiter, the traffic shaping, relay descriptors with
    their store, sweeper, gossip and HTTP endpoint, the health endpoints and the computing parts of the command.  \<open>Background\<close>: the loops
    that repeat sweeps and rounds, and when they end (locale \<open>steady_work\<close>).

  \<^bold>\<open>Conventions.\<close>  Go strings and byte slices are both lists of bytes.  An error is the left value of a sum, a panic that the code
  can reach is \<open>None\<close> or an error of its own, and both are carried by every caller.  A handler reads the clock
  once, as the argument \<open>now\<close>; two readings within one handler are taken to agree.  A mutex makes a method one step; a message
  with all it causes is one step of the endpoint or of the federation, and goroutines interleave between steps.
  Registrations reach the registry at once.  The order in which Go walks a map is an argument, or does not matter.
  Ids from \<^verbatim>\<open>uuid.New\<close> are new ids of the events, and their being distinct is a hypothesis where it matters.  An encounter does
  not wait in the model: its first message is part of the event, and a read deadline is one of the ways in which a
  read fails.  Once a manager is stopped, nothing is taken from its queue of urls.  The channels \<^verbatim>\<open>inbound\<close> and \<^verbatim>\<open>outbound\<close> of
  the manager are lists without a bound: that a sender blocks on a full channel is not represented.  A timer of \<^verbatim>\<open>time.AfterFunc\<close>
  has an identity of its own and fires at most once, by an event that names it.  A request inside the federation gate
  is one that was admitted and has not left.

  \<^bold>\<open>Side conditions.\<close>  The records have 16-bit and 32-bit lengths and 64-bit nanoseconds, and keys joined by NUL, and the code checks few of
  these limits.  Where a theorem needs them it names them: \<open>message_fits\<close> and \<open>envelope_fits\<close> (\<open>Codec\<close>), \<open>good_env\<close> and \<open>env_reachable\<close>
  (\<open>Envelope_Store\<close>: stores that were given only envelopes that fit, with a destination without NUL), \<open>import_fits\<close> (\<open>WS_Delivery\<close>)
  and \<open>desc_ok\<close> (\<open>Descriptor_Store\<close>, with \<open>region_forges_expiry\<close> for what happens without it).

  \<^bold>\<open>Parameters.\<close>  CBOR, ed25519 and bbolt are not part of the repository: they are arguments (\<open>wire_env\<close>, \<open>bolt_api\<close>), and their documented
  behaviour is a hypothesis or a locale.  So are the zone database, \<^verbatim>\<open>math.Pow\<close>, random numbers, the order of
  \<^verbatim>\<open>sort.Sort\<close> among equal elements, the JSON decoding of request bodies, and whether a write to a connection succeeds.  Each
  has a concrete instance in the examples beside the theorems.

  \<^bold>\<open>Bounds and fuel.\<close>  Lengths and counters that can wrap are kept at their width (\<open>w word\<close> or \<open>s64\<close>).  \<open>float64\<close> is the rationals with
  rounding to 53 bits; infinities and NaN do not occur in what the relay computes.  All loops are structural or have a termination
  proof, but two: the deletion of a key prefix has one unit of fuel more than the keys at or after the prefix, and is shown
  to end under \<open>bolt_cursor\<close>; and the reader of pages has one more than the eligible ids, and is shown to list them all.

  \<^bold>\<open>Not modelled.\<close>  \<^verbatim>\<open>internal/metrics\<close>, which registers and sets Prometheus collectors that nothing reads back; logging, with
  most of \<^verbatim>\<open>gossipv1/debug_log.go\<close> and the functions that only describe peers, errors and payloads for it; the opening and
  closing of files; the flag package, the construction and wiring of components, signals and shutdown in
  \<^verbatim>\<open>cmd/relay/main.go\<close>; the encoding of JSON replies; the hourly ticker of the scoring service.
\<close>

end
